(* ===== verification/Prelude.thy ===== *)
theory Prelude
  imports Main "HOL-Library.Word" "HOL-Library.Monad_Syntax"
begin

text \<open>
  Shared vocabulary of the development: the machine integers of the Rust
  sources, Rust's checked arithmetic, and the generic lemmas on options, lists
  and bits that the component theories use.

  Conventions.
  \<^item> A Rust call that may panic, or may never return, is a function into
    \<open>'a option\<close>: \<open>None\<close> means that the call does not return (the panic handler
    of \<open>main.rs\<close> spins for ever), \<open>Some v\<close> that it returns \<open>v\<close>. The
    \<open>do\<close>-notation of the library chains such calls.
  \<^item> A Rust \<open>Result<T, E>\<close> is the sum \<open>E + T\<close>, with \<open>Inl\<close> for \<open>Err\<close> and
    \<open>Inr\<close> for \<open>Ok\<close>. A method on \<open>&mut self\<close> returns its result together with
    the new state, also when the result is an error.
  \<^item> \<open>u8\<close>, \<open>u16\<close>, \<open>u32\<close> and \<open>u64\<close> are words. \<open>usize\<close>, which the code uses for
    addresses, sizes and indices, is \<open>nat\<close> with the 64-bit bound written out in
    the operations below. The overflow checks are those of the profile the
    repository builds with (\<open>cargo run\<close>, no profile section in \<open>Cargo.toml\<close>):
    \<open>+\<close>, \<open>-\<close> and \<open>*\<close> panic on overflow, \<open><<\<close> panics when the shift amount
    is not less than the width.
\<close>

unbundle bit_operations_syntax

type_synonym u8 = "8 word"
type_synonym u16 = "16 word"
type_synonym u32 = "32 word"
type_synonym u64 = "64 word"
type_synonym usize = nat

named_theorems rust_arith \<open>definitions of the checked arithmetic\<close>

section \<open>Checked arithmetic on usize\<close>

definition usize_add :: "usize \<Rightarrow> usize \<Rightarrow> usize option" where
  [rust_arith]: "usize_add a b = (if a + b < 2 ^ 64 then Some (a + b) else None)"

definition usize_sub :: "usize \<Rightarrow> usize \<Rightarrow> usize option" where
  [rust_arith]: "usize_sub a b = (if b \<le> a then Some (a - b) else None)"

definition usize_mul :: "usize \<Rightarrow> usize \<Rightarrow> usize option" where
  [rust_arith]: "usize_mul a b = (if a * b < 2 ^ 64 then Some (a * b) else None)"

definition usize_shl :: "usize \<Rightarrow> nat \<Rightarrow> usize option" where
  [rust_arith]: "usize_shl a k = (if k < 64 then Some (a * 2 ^ k mod 2 ^ 64) else None)"

definition usize_not :: "usize \<Rightarrow> usize" where
  [rust_arith]: "usize_not a = 2 ^ 64 - 1 - a"

text \<open>An \<open>assert!\<close> of the source: the rest runs only when the condition holds.\<close>

definition rust_assert :: "bool \<Rightarrow> unit option" where
  [rust_arith]: "rust_assert b = (if b then Some () else None)"

lemma usize_add_Some [simp]: "usize_add a b = Some c \<longleftrightarrow> c = a + b \<and> a + b < 2 ^ 64"
  by (auto simp: usize_add_def)

lemma usize_sub_Some [simp]: "usize_sub a b = Some c \<longleftrightarrow> c = a - b \<and> b \<le> a"
  by (auto simp: usize_sub_def)

lemma usize_mul_Some [simp]: "usize_mul a b = Some c \<longleftrightarrow> c = a * b \<and> a * b < 2 ^ 64"
  by (auto simp: usize_mul_def)

lemma usize_shl_Some [simp]:
  "usize_shl a k = Some c \<longleftrightarrow> c = a * 2 ^ k mod 2 ^ 64 \<and> k < 64"
  by (auto simp: usize_shl_def)

lemma rust_assert_Some [simp]: "rust_assert b = Some u \<longleftrightarrow> b"
  by (auto simp: rust_assert_def)

lemma rust_assert_True [simp]: "rust_assert True = Some ()"
  by (simp add: rust_assert_def)

lemma usize_shl_one: "k < 64 \<Longrightarrow> usize_shl 1 k = Some (2 ^ k)"
proof -
  assume "k < 64"
  then have "(2::nat) ^ k < 2 ^ 64" by (intro power_strict_increasing) simp_all
  with \<open>k < 64\<close> show ?thesis by (simp add: usize_shl_def)
qed

section \<open>Alignment masks\<close>

text \<open>
  Clearing the low \<open>k\<close> bits of an address, the way the sources write it:
  \<open>x & !((1 << k) - 1)\<close>.
\<close>

lemma and_not_mask:
  assumes "x < 2 ^ 64" and "k \<le> 64"
  shows "x AND usize_not (2 ^ k - 1) = x - x mod 2 ^ k"
proof -
  have "x AND usize_not (2 ^ k - 1) = push_bit k (drop_bit k x)"
  proof (rule bit_eqI)
    fix n
    have nm: "usize_not (2 ^ k - 1) = push_bit k (mask (64 - k))"
    proof -
      have "(2::nat) ^ 64 = 2 ^ k * 2 ^ (64 - k)"
        using assms(2) by (simp flip: power_add)
      then have "(2::nat) ^ 64 - 2 ^ k = (2 ^ (64 - k) - 1) * 2 ^ k"
        by (simp only: diff_mult_distrib2 mult.commute mult_1_right)
      then show ?thesis
        by (simp add: usize_not_def push_bit_eq_mult mask_eq_exp_minus_1)
    qed
    have hi: "n < 64" if "bit x n"
      using assms(1) that by (metis bit_take_bit_iff take_bit_nat_eq_self)
    show "bit (x AND usize_not (2 ^ k - 1)) n = bit (push_bit k (drop_bit k x)) n"
      unfolding nm using hi by (auto simp: bit_simps)
  qed
  also have "\<dots> = x - x mod 2 ^ k"
    by (simp add: push_bit_eq_mult drop_bit_eq_div minus_mod_eq_div_mult)
  finally show ?thesis .
qed

text \<open>Rounding up to the next multiple, \<open>((x - 1) & mask) + size\<close>.\<close>

lemma round_up:
  assumes "0 < x" and "(0::nat) < m"
  shows "m dvd (x - 1) - (x - 1) mod m + m"
    and "x \<le> (x - 1) - (x - 1) mod m + m"
    and "(x - 1) - (x - 1) mod m + m < x + m"
    and "m dvd x \<Longrightarrow> (x - 1) - (x - 1) mod m + m = x"
proof -
  show d: "m dvd (x - 1) - (x - 1) mod m + m"
    by (intro dvd_add dvd_minus_mod dvd_refl)
  have lt: "(x - 1) mod m < m" using assms by simp
  have le: "(x - 1) mod m \<le> x - 1" by simp
  show l: "x \<le> (x - 1) - (x - 1) mod m + m"
    using lt le assms by linarith
  show u: "(x - 1) - (x - 1) mod m + m < x + m"
    using le assms by linarith
  show "(x - 1) - (x - 1) mod m + m = x" if "m dvd x"
  proof -
    have "m dvd ((x - 1) - (x - 1) mod m + m - x)"
      using d that by (simp add: dvd_diff_nat)
    moreover have "(x - 1) - (x - 1) mod m + m - x < m" using u l by linarith
    ultimately have "(x - 1) - (x - 1) mod m + m - x = 0"
      by (meson gr0I nat_dvd_not_less)
    with l show ?thesis by simp
  qed
qed

section \<open>Indexing\<close>

text \<open>\<open>xs[i]\<close> and \<open>xs[i] = v\<close> of the source, which panic when \<open>i\<close> is out of range.\<close>

definition rust_nth :: "'a list \<Rightarrow> usize \<Rightarrow> 'a option" where
  "rust_nth xs i = (if i < length xs then Some (xs ! i) else None)"

definition rust_update :: "'a list \<Rightarrow> usize \<Rightarrow> 'a \<Rightarrow> 'a list option" where
  "rust_update xs i v = (if i < length xs then Some (xs[i := v]) else None)"

lemma rust_nth_Some [simp]: "rust_nth xs i = Some v \<longleftrightarrow> i < length xs \<and> v = xs ! i"
  by (auto simp: rust_nth_def)

lemma rust_update_Some [simp]: "rust_update xs i v = Some ys \<longleftrightarrow> i < length xs \<and> ys = xs[i := v]"
  by (auto simp: rust_update_def)

section \<open>Options and sums\<close>

definition result_ok :: "'e + 'a \<Rightarrow> 'a option" where
  "result_ok r = (case r of Inl _ \<Rightarrow> None | Inr a \<Rightarrow> Some a)"

lemma result_ok_simps [simp]: "result_ok (Inl e) = None" "result_ok (Inr a) = Some a"
  by (simp_all add: result_ok_def)

lemma bind_Some_iff [simp]:
  "(Option.bind m f = Some v) \<longleftrightarrow> (\<exists>x. m = Some x \<and> f x = Some v)"
  by (cases m) auto

lemma find_append:
  "List.find P (xs @ ys) = (case List.find P xs of None \<Rightarrow> List.find P ys | Some x \<Rightarrow> Some x)"
  by (induction xs) auto

lemma sorted_filter_split:
  assumes "sorted (map f xs)"
  shows "filter (\<lambda>x. f x < c) xs @ filter (\<lambda>x. \<not> f x < c) xs = xs"
  using assms
proof (induction xs)
  case (Cons x xs)
  show ?case
  proof (cases "f x < c")
    case False
    then have "filter (\<lambda>y. f y < c) xs = []" "filter (\<lambda>y. \<not> f y < c) xs = xs"
      using Cons.prems by (auto simp: filter_empty_conv filter_id_conv dest: order.trans)
    with False show ?thesis by (simp only: filter.simps if_False append_Nil not_False_eq_True if_True)
  qed (use Cons in simp)
qed simp

lemma option_neq_None_conv: "m \<noteq> None \<longleftrightarrow> (\<exists>v. m = Some v)"
  by auto

end
