(* ===== verification/Lock.thy ===== *)
theory Lock
  imports Prelude
begin

text \<open>
  The spin lock of \<open>src/src/lock.rs\<close>. The state is the mutex, and for every processor the
  point it has reached in \<open>Mutex::lock\<close> or in the life of its guard, its \<open>DAIF\<close>
  register, and what an interrupt has interrupted. One step of one processor is one
  access to shared state or to \<open>DAIF\<close>; the steps of the processors interleave in any
  order. The mutex holds data of any type \<open>'a\<close>.

  A frame, the code that runs on a processor between two interrupts, asks for the lock
  again only after it has dropped its guard.
\<close>

section \<open>State\<close>

record 'a Mutex =
  lock :: bool
  data :: 'a

datatype phase =
    Outside
  | Spinning
  | Disabling
  | Exchanging u64
  | Restoring u64
  | Holding u64
  | Dropping u64

record 'a System =
  mutex :: "'a Mutex"
  running :: "nat \<Rightarrow> phase"
  daif :: "nat \<Rightarrow> u64"
  interrupted :: "nat \<Rightarrow> (phase \<times> u64) list"

definition Mutex_new :: "'a \<Rightarrow> 'a Mutex" where
  "Mutex_new d = \<lparr>lock = False, data = d\<rparr>"

section \<open>The code\<close>

text \<open>The old value of \<open>DAIF\<close>, which is returned, and the new one.\<close>

definition get_daif_and_disable_irq_fiq :: "u64 \<Rightarrow> u64 \<times> u64" where
  "get_daif_and_disable_irq_fiq d = (d, d OR (push_bit 7 1 OR push_bit 6 1))"

text \<open>Whether the exchange succeeds, and the flag afterwards.\<close>

definition compare_exchange :: "bool \<Rightarrow> bool \<Rightarrow> bool \<Rightarrow> bool \<times> bool" where
  "compare_exchange flag expected desired = (if flag = expected then (True, desired) else (False, flag))"

text \<open>One step of the loop of \<open>lock\<close> on the flag and \<open>DAIF\<close>.\<close>

fun lock_step :: "phase \<Rightarrow> bool \<Rightarrow> u64 \<Rightarrow> phase \<times> bool \<times> u64" where
  "lock_step Spinning flag d = (if flag then Spinning else Disabling, flag, d)"
| "lock_step Disabling flag d = (let (old, new) = get_daif_and_disable_irq_fiq d in (Exchanging old, flag, new))"
| "lock_step (Exchanging old) flag d =
     (let (ok, flag') = compare_exchange flag False True in (if ok then Holding old else Restoring old, flag', d))"
| "lock_step (Restoring old) flag d = (Spinning, flag, old)"
| "lock_step p flag d = (p, flag, d)"

text \<open>One step of \<open>drop\<close> of the guard.\<close>

fun drop_step :: "phase \<Rightarrow> bool \<Rightarrow> u64 \<Rightarrow> phase \<times> bool \<times> u64" where
  "drop_step (Holding old) flag d = (Dropping old, False, d)"
| "drop_step (Dropping old) flag d = (Outside, flag, old)"
| "drop_step p flag d = (p, flag, d)"

definition in_lock :: "phase \<Rightarrow> bool" where
  "in_lock p \<longleftrightarrow> p \<in> {Spinning, Disabling} \<or> (\<exists>d. p = Exchanging d \<or> p = Restoring d)"

definition in_guard :: "phase \<Rightarrow> bool" where
  "in_guard p \<longleftrightarrow> (\<exists>d. p = Holding d \<or> p = Dropping d)"

definition apply_step :: "(phase \<Rightarrow> bool \<Rightarrow> u64 \<Rightarrow> phase \<times> bool \<times> u64) \<Rightarrow> nat \<Rightarrow> 'a System \<Rightarrow> 'a System" where
  "apply_step f c s = (case f (running s c) (lock (mutex s)) (daif s c) of (p, flag, d) \<Rightarrow>
     s\<lparr>mutex := (mutex s)\<lparr>lock := flag\<rparr>, running := (running s)(c := p), daif := (daif s)(c := d)\<rparr>)"

text \<open>
  An interrupt is taken when bit 7 of \<open>DAIF\<close> is clear; the processor then masks all of them
  until the handler returns.
\<close>

inductive system_step :: "nat \<Rightarrow> 'a System \<Rightarrow> 'a System \<Rightarrow> bool" where
  call: "running s c = Outside \<Longrightarrow> system_step c s (s\<lparr>running := (running s)(c := Spinning)\<rparr>)"
| code: "in_lock (running s c) \<Longrightarrow> system_step c s (apply_step lock_step c s)"
| access: "running s c = Holding d \<Longrightarrow> system_step c s (s\<lparr>mutex := (mutex s)\<lparr>data := x\<rparr>\<rparr>)"
| unlock: "in_guard (running s c) \<Longrightarrow> system_step c s (apply_step drop_step c s)"
| irq: "\<not> bit (daif s c) 7 \<Longrightarrow> system_step c s
    (s\<lparr>interrupted := (interrupted s)(c := (running s c, daif s c) # interrupted s c), running := (running s)(c := Outside),
       daif := (daif s)(c := daif s c OR 0x3C0)\<rparr>)"
| return: "running s c = Outside \<Longrightarrow> interrupted s c = (p, d) # fs \<Longrightarrow> system_step c s
    (s\<lparr>interrupted := (interrupted s)(c := fs), running := (running s)(c := p), daif := (daif s)(c := d)\<rparr>)"

inductive_cases system_stepE: "system_step c s s'"

definition initial :: "(nat \<Rightarrow> u64) \<Rightarrow> 'a \<Rightarrow> 'a System" where
  "initial D x = \<lparr>mutex = Mutex_new x, running = \<lambda>_. Outside, daif = D, interrupted = \<lambda>_. []\<rparr>"

inductive reaches :: "'a System \<Rightarrow> 'a System \<Rightarrow> bool" where
  refl: "reaches s s"
| step: "reaches s t \<Longrightarrow> system_step c t u \<Longrightarrow> reaches s u"

section \<open>The invariant\<close>

text \<open>The value of \<open>DAIF\<close> outside the critical section: masked in a handler.\<close>

definition base :: "(nat \<Rightarrow> u64) \<Rightarrow> 'a System \<Rightarrow> nat \<Rightarrow> u64" where
  "base D s c = (if interrupted s c = [] then D c else D c OR 0x3C0)"

definition masked :: "u64 \<Rightarrow> u64" where
  "masked d = d OR (push_bit 7 1 OR push_bit 6 1)"

definition phase_ok :: "u64 \<Rightarrow> phase \<Rightarrow> u64 \<Rightarrow> bool" where
  "phase_ok b p d \<longleftrightarrow> (case p of
      Outside \<Rightarrow> d = b | Spinning \<Rightarrow> d = b | Disabling \<Rightarrow> d = b
    | Exchanging old \<Rightarrow> old = b \<and> d = masked b | Restoring old \<Rightarrow> old = b \<and> d = masked b
    | Holding old \<Rightarrow> old = b \<and> d = masked b | Dropping old \<Rightarrow> old = b \<and> d = masked b)"

definition is_holding :: "phase \<Rightarrow> bool" where
  "is_holding p \<longleftrightarrow> (\<exists>d. p = Holding d)"

text \<open>Only code that holds nothing has been interrupted, and handlers do not nest.\<close>

definition frames_ok :: "u64 \<Rightarrow> (phase \<times> u64) list \<Rightarrow> bool" where
  "frames_ok b fs \<longleftrightarrow> fs = [] \<or> (\<exists>p. fs = [(p, b)] \<and> p \<in> {Outside, Spinning, Disabling} \<and> \<not> bit b 7)"

definition system_inv :: "(nat \<Rightarrow> u64) \<Rightarrow> 'a System \<Rightarrow> bool" where
  "system_inv D s \<longleftrightarrow> (\<forall>c. phase_ok (base D s c) (running s c) (daif s c) \<and> frames_ok (D c) (interrupted s c)) \<and>
     (\<forall>c c'. is_holding (running s c) \<longrightarrow> is_holding (running s c') \<longrightarrow> c = c') \<and>
     (lock (mutex s) \<longleftrightarrow> (\<exists>c. is_holding (running s c)))"

lemma system_inv_update:
  assumes inv: "system_inv D s"
    and same: "\<forall>c'. c' \<noteq> c \<longrightarrow> running s' c' = running s c' \<and> daif s' c' = daif s c' \<and> interrupted s' c' = interrupted s c'"
    and here: "phase_ok (base D s' c) (running s' c) (daif s' c)" "frames_ok (D c) (interrupted s' c)"
    and hold: "(is_holding (running s' c) \<longleftrightarrow> is_holding (running s c)) \<and> lock (mutex s') = lock (mutex s) \<or>
      is_holding (running s' c) \<and> \<not> lock (mutex s) \<and> lock (mutex s') \<or>
      is_holding (running s c) \<and> \<not> is_holding (running s' c) \<and> \<not> lock (mutex s')"
  shows "system_inv D s'"
proof -
  have "phase_ok (base D s' c') (running s' c') (daif s' c') \<and> frames_ok (D c') (interrupted s' c')" for c'
    using inv same here by (cases "c' = c") (auto simp: system_inv_def base_def)
  moreover have hold': "is_holding (running s' c') \<longleftrightarrow> is_holding (running s c')" if "c' \<noteq> c" for c'
    using same that by simp
  have u: "c' = c''" if "is_holding (running s c')" "is_holding (running s c'')" for c' c''
    using inv that by (simp add: system_inv_def)
  have l: "lock (mutex s) \<longleftrightarrow> (\<exists>c. is_holding (running s c))" using inv by (simp add: system_inv_def)
  have "c' = c''" if "is_holding (running s' c')" "is_holding (running s' c'')" for c' c''
    using hold that u [of c' c''] u [of c c'] u [of c c''] l hold' [of c'] hold' [of c''] by (cases "c' = c"; cases "c'' = c") auto
  moreover have "lock (mutex s') \<longleftrightarrow> is_holding (running s' c) \<or> (\<exists>c'. c' \<noteq> c \<and> is_holding (running s c'))"
    using hold l u [of c] by (elim disjE) auto
  then have "lock (mutex s') \<longleftrightarrow> (\<exists>c. is_holding (running s' c))" by (metis hold')
  ultimately show ?thesis unfolding system_inv_def by blast
qed

lemma system_invD:
  assumes "system_inv D s"
  shows "phase_ok (base D s c) (running s c) (daif s c)" and "frames_ok (D c) (interrupted s c)"
    and "is_holding (running s c) \<Longrightarrow> lock (mutex s)"
  using assms by (auto simp: system_inv_def)

lemmas lock_simps = apply_step_def get_daif_and_disable_irq_fiq_def compare_exchange_def phase_ok_def base_def masked_def
  is_holding_def

lemma lock_step_inv:
  assumes "system_inv D s" and "in_lock (running s c)"
  shows "system_inv D (apply_step lock_step c s)"
  using assms(2) system_invD(1,2) [OF assms(1), of c]
  by (intro system_inv_update [OF assms(1), of c]; cases "lock (mutex s)") (auto simp: in_lock_def lock_simps)

lemma drop_step_inv:
  assumes "system_inv D s" and "in_guard (running s c)"
  shows "system_inv D (apply_step drop_step c s)"
  using assms(2) system_invD [OF assms(1), of c]
  by (intro system_inv_update [OF assms(1), of c]) (auto simp: in_guard_def lock_simps)

text \<open>Interrupts are taken only outside the critical section.\<close>

lemma unmasked_phase:
  assumes "system_inv D s" and "\<not> bit (daif s c) 7"
  shows "interrupted s c = []" and "running s c \<in> {Outside, Spinning, Disabling}" and "daif s c = D c"
proof -
  have m: "bit (masked d) 7" "bit (d OR 0x3C0) 7" for d :: u64
    by (simp_all add: masked_def bit_or_iff)
  note p = system_invD(1) [OF assms(1), of c]
  show a: "running s c \<in> {Outside, Spinning, Disabling}"
    using p assms(2) m(1) by (cases "running s c") (auto simp: phase_ok_def)
  then have d: "daif s c = base D s c" using p by (auto simp: phase_ok_def)
  then show "interrupted s c = []" using assms(2) m(2) by (auto simp: base_def split: if_splits)
  then show "daif s c = D c" using d by (simp add: base_def)
qed

lemma system_step_inv:
  assumes "system_step c s s'" and "system_inv D s"
  shows "system_inv D s'"
  using assms
proof (cases rule: system_step.cases)
  case call
  then show ?thesis using system_invD [OF assms(2), of c]
    by (intro system_inv_update [OF assms(2), of c]) (auto simp: lock_simps)
next
  case access
  then show ?thesis using system_invD [OF assms(2), of c]
    by (intro system_inv_update [OF assms(2), of c]) (auto simp: lock_simps)
next
  case irq
  note u = unmasked_phase [OF assms(2) irq(2)]
  show ?thesis using u irq
    by (intro system_inv_update [OF assms(2), of c]) (auto simp: lock_simps frames_ok_def)
next
  case (return p d fs)
  then have "p \<in> {Outside, Spinning, Disabling}" "d = D c" "fs = []"
    using system_invD(2) [OF assms(2), of c] by (auto simp: frames_ok_def)
  then show ?thesis using return
    by (intro system_inv_update [OF assms(2), of c]) (auto simp: lock_simps frames_ok_def)
qed (auto intro: lock_step_inv drop_step_inv)

lemma initial_inv: "system_inv D (initial D x)"
  by (simp add: system_inv_def initial_def Mutex_new_def lock_simps frames_ok_def)

lemma reaches_inv: "reaches s t \<Longrightarrow> system_inv D s \<Longrightarrow> system_inv D t"
  by (induction rule: reaches.induct) (auto intro: system_step_inv)

lemma reaches_trans: "reaches s t \<Longrightarrow> reaches t u \<Longrightarrow> reaches s u"
  by (rotate_tac 1, induction rule: reaches.induct) (auto intro: reaches.step)

section \<open>Progress\<close>

text \<open>With the lock free, a processor in \<open>lock\<close> reaches the guard by its own steps.\<close>

lemma acquire_alone:
  assumes "in_lock (running s c)" and "\<not> lock (mutex s)"
  shows "\<exists>t d. reaches s t \<and> running t c = Holding d"
proof -
  have run: "reaches t (apply_step lock_step c t)" if "in_lock (running t c)" for t :: "'a System"
    by (rule reaches.step [OF reaches.refl system_step.code [OF that]])
  have x: "\<exists>u d. reaches t u \<and> running u c = Holding d" if "running t c = Exchanging d" "\<not> lock (mutex t)" for t :: "'a System" and d
    using run [of t] that by (intro exI conjI) (auto simp: in_lock_def lock_simps)
  have y: "\<exists>u d. reaches t u \<and> running u c = Holding d" if "running t c = Disabling" "\<not> lock (mutex t)" for t :: "'a System"
    using run [of t] x [of "apply_step lock_step c t"] that reaches_trans by (fastforce simp: in_lock_def lock_simps)
  have z: "\<exists>u d. reaches t u \<and> running u c = Holding d" if "running t c = Spinning" "\<not> lock (mutex t)" for t :: "'a System"
    using run [of t] y [of "apply_step lock_step c t"] that reaches_trans by (fastforce simp: in_lock_def lock_simps)
  have "\<exists>u d. reaches t u \<and> running u c = Holding d" if "running t c = Restoring d" "\<not> lock (mutex t)" for t :: "'a System" and d
    using run [of t] z [of "apply_step lock_step c t"] that reaches_trans by (fastforce simp: in_lock_def lock_simps)
  with x y z show ?thesis using assms unfolding in_lock_def by blast
qed

lemma acquire_progress:
  assumes "system_inv D s" and "in_lock (running s c)"
  shows "\<exists>t d. reaches s t \<and> running t c = Holding d"
proof (cases "lock (mutex s)")
  case True
  then obtain h d where h: "running s h = Holding d" using assms(1) by (auto simp: system_inv_def is_holding_def)
  then have "h \<noteq> c" using assms(2) by (auto simp: in_lock_def)
  let ?t = "apply_step drop_step h s"
  have "in_guard (running s h)" using h by (simp add: in_guard_def)
  then have "reaches s ?t" by (rule reaches.step [OF reaches.refl system_step.unlock])
  moreover have "in_lock (running ?t c)" "\<not> lock (mutex ?t)" using h \<open>h \<noteq> c\<close> assms(2) by (auto simp: lock_simps)
  then have "\<exists>u d. reaches ?t u \<and> running u c = Holding d" by (rule acquire_alone)
  ultimately show ?thesis using reaches_trans by blast
qed (rule acquire_alone [OF assms(2)])

section \<open>Claims\<close>

text \<open>
  C19. In every state that any interleaving of the processors reaches, at most one of them holds
  the guard, and it does so exactly when the flag is set; it holds it with interrupts
  masked and has not been interrupted, so that no handler on its own processor can wait
  for it; and whoever is outside has its own interrupt mask back.
\<close>

theorem mutex_exclusive:
  assumes "reaches (initial D x) s"
  shows "(\<forall>c c' d d'. running s c = Holding d \<and> running s c' = Holding d' \<longrightarrow> c = c') \<and>
    (lock (mutex s) \<longleftrightarrow> (\<exists>c d. running s c = Holding d)) \<and>
    (\<forall>c d. running s c = Holding d \<longrightarrow> bit (daif s c) 7 \<and> bit (daif s c) 6) \<and>
    (\<forall>c p d. (p, d) \<in> set (interrupted s c) \<longrightarrow> \<not> is_holding p) \<and>
    (\<forall>c. running s c = Outside \<and> interrupted s c = [] \<longrightarrow> daif s c = D c)"
proof (intro conjI allI impI)
  have inv: "system_inv D s" by (rule reaches_inv [OF assms initial_inv])
  note i = system_invD [OF inv]
  show "c = c'" if "running s c = Holding d \<and> running s c' = Holding d'" for c c' d d'
    using inv that by (auto simp: system_inv_def is_holding_def)
  show "lock (mutex s) \<longleftrightarrow> (\<exists>c d. running s c = Holding d)"
    using inv by (simp add: system_inv_def is_holding_def)
  show "bit (daif s c) 7" "bit (daif s c) 6" if "running s c = Holding d" for c d
    using i(1) [of c] that by (simp_all add: phase_ok_def masked_def bit_or_iff)
  show "\<not> is_holding p" if "(p, d) \<in> set (interrupted s c)" for c p d
    using i(2) [of c] that by (auto simp: frames_ok_def is_holding_def)
  show "daif s c = D c" if "running s c = Outside \<and> interrupted s c = []" for c
    using i(1) [of c] that by (simp add: phase_ok_def base_def)
qed

text \<open>
  C20. The lock cannot deadlock: from every reachable state, a processor that is in \<open>lock\<close> can
  still get the guard.
\<close>

theorem mutex_progress:
  assumes "reaches (initial D x) s" and "in_lock (running s c)"
  shows "\<exists>t d. reaches s t \<and> running t c = Holding d"
  by (rule acquire_progress [OF reaches_inv [OF assms(1) initial_inv] assms(2)])

text \<open>Processor 0 has called \<open>lock\<close>.\<close>

definition sample_system :: "nat System" where
  "sample_system = (initial (\<lambda>_. 0) 0)\<lparr>running := (\<lambda>_. Outside)(0 := Spinning)\<rparr>"

lemma sample_system_reached: "reaches (initial (\<lambda>_. 0) 0) sample_system"
  using reaches.step [OF reaches.refl system_step.call [of "initial (\<lambda>_. 0) (0::nat)" 0]]
  by (simp add: sample_system_def initial_def)

theorem mutex_exclusive_witness: "lock (mutex sample_system) \<longleftrightarrow> (\<exists>c d. running sample_system c = Holding d)"
  using mutex_exclusive [OF sample_system_reached] by blast

theorem mutex_progress_witness: "\<exists>t d. reaches sample_system t \<and> running t 0 = Holding d"
  by (rule mutex_progress [OF sample_system_reached]) (simp add: sample_system_def in_lock_def)

end
