(* ===== verification/MemoryAllocator.thy ===== *)
theory MemoryAllocator
  imports Prelude
begin

text \<open>
  The physical memory allocator, \<open>src/src/memory_allocator.rs\<close>, and the wrappers of
  \<open>src/src/main.rs\<close> that call it.

  The allocator keeps at most 64 free ranges in a static pool. The entries are
  threaded on two kinds of doubly linked lists: one list of all free ranges in
  address order (\<open>previous\<close>, \<open>next\<close>, \<open>first_entry\<close>) and twelve lists by size
  class (\<open>list_prev\<close>, \<open>list_next\<close>, \<open>free_list\<close>). References to pool entries are
  pool indices here, so that the aliasing of the source (several \<open>&mut\<close> into
  one \<open>UnsafeCell\<close>) is plain sharing. A loop along links is a
  \<^theory_text>\<open>partial_function\<close>: on a cyclic list it would not return, which is \<open>None\<close>.
\<close>

section \<open>Data\<close>

definition PAGE_SHIFT :: nat where [rust_arith]: "PAGE_SHIFT = 12"
definition PAGE_SIZE :: nat where [rust_arith]: "PAGE_SIZE = 2 ^ PAGE_SHIFT"
definition POOL_SIZE :: nat where [rust_arith]: "POOL_SIZE = 64"
definition NUM_OF_FREE_LIST :: nat where [rust_arith]: "NUM_OF_FREE_LIST = 12"

record MemoryEntry =
  previous :: "nat option"
  nxt :: "nat option"
  list_prev :: "nat option"
  list_next :: "nat option"
  start_addr :: usize
  end_addr :: usize
  enabled :: bool
  entry_id :: nat

datatype MemoryError = NoEntry | InvalidEntry | NoMemory | InvalidRequest

type_synonym MemoryEntryPool = "MemoryEntry list"
type_synonym FreeList = "nat option list"

record MemoryAllocator =
  free_size :: usize
  first_entry :: "nat option"
  free_list :: FreeList
  memory_entry_pool :: MemoryEntryPool

definition MemoryEntry_new :: MemoryEntry where
  "MemoryEntry_new = \<lparr>previous = None, nxt = None, list_prev = None, list_next = None,
     start_addr = 0, end_addr = 0, enabled = False, entry_id = 0\<rparr>"

definition MemoryAllocator_new :: MemoryAllocator where
  "MemoryAllocator_new = \<lparr>free_size = 0, first_entry = None,
     free_list = replicate NUM_OF_FREE_LIST None,
     memory_entry_pool = replicate POOL_SIZE MemoryEntry_new\<rparr>"

section \<open>Pool entries\<close>

definition pool_upd :: "MemoryEntryPool \<Rightarrow> nat \<Rightarrow> (MemoryEntry \<Rightarrow> MemoryEntry) \<Rightarrow> MemoryEntryPool" where
  "pool_upd pool i f = pool[i := f (pool ! i)]"

fun find_disabled :: "nat \<Rightarrow> MemoryEntryPool \<Rightarrow> nat option" where
  "find_disabled i [] = None"
| "find_disabled i (e # es) = (if \<not> enabled e then Some i else find_disabled (Suc i) es)"

definition create_memory_entry :: "MemoryEntryPool \<Rightarrow> (MemoryError + nat) \<times> MemoryEntryPool" where
  "create_memory_entry pool = (case find_disabled 0 pool of
     None \<Rightarrow> (Inl NoEntry, pool)
   | Some i \<Rightarrow> (Inr i, pool[i := MemoryEntry_new\<lparr>entry_id := i, enabled := True\<rparr>]))"

definition get_memory_entry :: "MemoryEntryPool \<Rightarrow> nat \<Rightarrow> MemoryError + nat" where
  "get_memory_entry pool index =
     (if index \<ge> POOL_SIZE then Inl InvalidEntry else Inr index)"

definition get_next_entry :: "MemoryEntryPool \<Rightarrow> nat \<Rightarrow> nat option" where
  "get_next_entry pool e = Option.bind (nxt (pool ! e)) (\<lambda>n. result_ok (get_memory_entry pool n))"

definition get_prev_entry :: "MemoryEntryPool \<Rightarrow> nat \<Rightarrow> nat option" where
  "get_prev_entry pool e = Option.bind (previous (pool ! e)) (\<lambda>n. result_ok (get_memory_entry pool n))"

definition get_list_next :: "MemoryEntryPool \<Rightarrow> nat \<Rightarrow> nat option" where
  "get_list_next pool e = Option.bind (list_next (pool ! e)) (\<lambda>n. result_ok (get_memory_entry pool n))"

definition get_list_prev :: "MemoryEntryPool \<Rightarrow> nat \<Rightarrow> nat option" where
  "get_list_prev pool e = Option.bind (list_prev (pool ! e)) (\<lambda>n. result_ok (get_memory_entry pool n))"

definition set_range :: "MemoryEntryPool \<Rightarrow> nat \<Rightarrow> usize \<Rightarrow> usize \<Rightarrow> MemoryEntryPool option" where
  "set_range pool e s t = do {
     rust_assert (s < t);
     Some (pool_upd pool e (\<lambda>x. x\<lparr>start_addr := s, end_addr := t\<rparr>)) }"

definition get_size :: "MemoryEntry \<Rightarrow> usize option" where
  "get_size e = do { d \<leftarrow> usize_sub (end_addr e) (start_addr e); usize_add d 1 }"

definition is_first_entry :: "MemoryEntry \<Rightarrow> bool" where
  "is_first_entry e \<longleftrightarrow> previous e = None"

definition set_prev_entry :: "MemoryEntryPool \<Rightarrow> nat \<Rightarrow> nat \<Rightarrow> MemoryEntryPool" where
  "set_prev_entry pool e p = pool_upd pool e (\<lambda>x. x\<lparr>previous := Some (entry_id (pool ! p))\<rparr>)"

definition set_next_entry :: "MemoryEntryPool \<Rightarrow> nat \<Rightarrow> nat \<Rightarrow> MemoryEntryPool" where
  "set_next_entry pool e n = pool_upd pool e (\<lambda>x. x\<lparr>nxt := Some (entry_id (pool ! n))\<rparr>)"

definition unset_prev_entry :: "MemoryEntryPool \<Rightarrow> nat \<Rightarrow> MemoryEntryPool" where
  "unset_prev_entry pool e = pool_upd pool e (\<lambda>x. x\<lparr>previous := None\<rparr>)"

definition unset_next_entry :: "MemoryEntryPool \<Rightarrow> nat \<Rightarrow> MemoryEntryPool" where
  "unset_next_entry pool e = pool_upd pool e (\<lambda>x. x\<lparr>nxt := None\<rparr>)"

definition chain_after_me :: "MemoryEntryPool \<Rightarrow> nat \<Rightarrow> nat \<Rightarrow> MemoryEntryPool" where
  "chain_after_me pool me e =
     (let pool1 = pool_upd pool me (\<lambda>x. x\<lparr>nxt := Some (entry_id (pool ! e))\<rparr>)
      in pool_upd pool1 e (\<lambda>x. x\<lparr>previous := Some (entry_id (pool1 ! me))\<rparr>))"

definition delete_entry :: "MemoryEntryPool \<Rightarrow> nat \<Rightarrow> MemoryEntryPool" where
  "delete_entry pool e =
     (let pool1 = (case get_prev_entry pool e of
           Some p \<Rightarrow> (case get_next_entry pool e of
               Some n \<Rightarrow> chain_after_me pool p n
             | None \<Rightarrow> unset_next_entry pool p)
         | None \<Rightarrow> (case get_next_entry pool e of
               Some n \<Rightarrow> unset_prev_entry pool n
             | None \<Rightarrow> pool))
      in pool_upd pool1 e (\<lambda>x. x\<lparr>previous := None, nxt := None, enabled := False\<rparr>))"

definition unchain_from_freelist :: "MemoryEntryPool \<Rightarrow> nat \<Rightarrow> MemoryEntryPool" where
  "unchain_from_freelist pool e =
     (let pool1 = (case get_list_prev pool e of
           Some p \<Rightarrow> pool_upd pool p (\<lambda>x. x\<lparr>list_next := list_next (pool ! e)\<rparr>)
         | None \<Rightarrow> pool);
          pool2 = (case get_list_next pool1 e of
           Some n \<Rightarrow> pool_upd pool1 n (\<lambda>x. x\<lparr>list_prev := list_prev (pool1 ! e)\<rparr>)
         | None \<Rightarrow> pool1)
      in pool_upd pool2 e (\<lambda>x. x\<lparr>list_next := None, list_prev := None\<rparr>))"

section \<open>Size classes and alignment\<close>

definition get_end_address :: "usize \<Rightarrow> usize \<Rightarrow> usize option" where
  "get_end_address address sz = do { t \<leftarrow> usize_add address sz; usize_sub t 1 }"

function size_to_page_order_loop :: "usize \<Rightarrow> nat \<Rightarrow> nat" where
  "size_to_page_order_loop sz order =
     (if sz > 2 ^ (order + PAGE_SHIFT)
      then (if order + 1 = NUM_OF_FREE_LIST - 1 then order + 1
            else size_to_page_order_loop sz (order + 1))
      else order)"
  by pat_completeness auto
termination
proof (relation "measure (\<lambda>(sz, order). sz - order)", goal_cases)
  case (2 sz order)
  have "order < 2 ^ (order + PAGE_SHIFT)"
    by (rule less_le_trans [OF less_exp]) (simp add: power_increasing)
  with 2 show ?case by simp
qed simp

declare size_to_page_order_loop.simps [simp del]

definition size_to_page_order :: "usize \<Rightarrow> nat" where
  "size_to_page_order sz = size_to_page_order_loop sz 0"

definition align_address_and_size :: "usize \<Rightarrow> usize \<Rightarrow> nat \<Rightarrow> (usize \<times> usize) option" where
  "align_address_and_size address sz align_order = do {
     align_size \<leftarrow> usize_shl 1 align_order;
     m \<leftarrow> usize_sub align_size 1;
     let mask = usize_not m;
     let aligned_address = address AND mask;
     d \<leftarrow> usize_sub address aligned_address;
     t \<leftarrow> usize_add sz d;
     t1 \<leftarrow> usize_sub t 1;
     aligned_size \<leftarrow> usize_add (t1 AND mask) align_size;
     Some (aligned_address, aligned_size) }"

definition align_address_and_available_size ::
  "usize \<Rightarrow> usize \<Rightarrow> nat \<Rightarrow> (usize \<times> usize) option" where
  "align_address_and_available_size start sz align_order =
     (if start = 0 then Some (0, sz)
      else do {
        align_size \<leftarrow> usize_shl 1 align_order;
        m \<leftarrow> usize_sub align_size 1;
        let mask = usize_not m;
        s1 \<leftarrow> usize_sub start 1;
        aligned_address \<leftarrow> usize_add (s1 AND mask) align_size;
        d \<leftarrow> usize_sub aligned_address start;
        (if sz > d then do { r \<leftarrow> usize_sub sz d; Some (aligned_address, r) }
         else Some (aligned_address, 0)) })"

section \<open>The lists by size class\<close>

definition unchain_entry_from_free_list ::
  "MemoryEntryPool \<Rightarrow> FreeList \<Rightarrow> nat \<Rightarrow> (MemoryEntryPool \<times> FreeList) option" where
  "unchain_entry_from_free_list pool fl e = do {
     sz \<leftarrow> get_size (pool ! e);
     let order = size_to_page_order sz;
     let fl' = (if fl ! order = Some (entry_id (pool ! e))
                then fl[order := list_next (pool ! e)] else fl);
     Some (unchain_from_freelist pool e, fl') }"

text \<open>The \<open>loop\<close> of \<open>chain_entry_to_free_list\<close>: insert \<open>e\<close>, of size \<open>sz\<close>, after \<open>le\<close>.\<close>

partial_function (option) chain_insert_loop ::
  "MemoryEntryPool \<Rightarrow> nat \<Rightarrow> usize \<Rightarrow> nat \<Rightarrow> MemoryEntryPool option" where
  "chain_insert_loop pool e sz le =
     (case get_list_next pool le of
        Some ne \<Rightarrow> do {
          ns \<leftarrow> get_size (pool ! ne);
          (if ns \<ge> sz then
             (let p1 = pool_upd pool le (\<lambda>x. x\<lparr>list_next := Some (entry_id (pool ! e))\<rparr>);
                  p2 = pool_upd p1 e (\<lambda>x. x\<lparr>list_prev := Some (entry_id (p1 ! le)),
                                            list_next := Some (entry_id (p1 ! ne))\<rparr>)
              in Some (pool_upd p2 ne (\<lambda>x. x\<lparr>list_prev := Some (entry_id (p2 ! e))\<rparr>)))
           else chain_insert_loop pool e sz ne) }
      | None \<Rightarrow>
          (let p1 = pool_upd pool le (\<lambda>x. x\<lparr>list_next := Some (entry_id (pool ! e))\<rparr>)
           in Some (pool_upd p1 e (\<lambda>x. x\<lparr>list_prev := Some (entry_id (p1 ! le))\<rparr>))))"

text \<open>The second half of \<open>chain_entry_to_free_list\<close>: link \<open>e\<close>, which is on no list, into its class.\<close>

definition chain_insert_entry ::
  "MemoryEntryPool \<Rightarrow> FreeList \<Rightarrow> nat \<Rightarrow> usize \<Rightarrow> (MemoryEntryPool \<times> FreeList) option" where
  "chain_insert_entry pool fl e sz = do {
     let new_order = size_to_page_order sz;
     rust_assert (list_next (pool ! e) = None);
     rust_assert (list_prev (pool ! e) = None);
     (case Option.bind (fl ! new_order) (\<lambda>i. result_ok (get_memory_entry pool i)) of
        Some le \<Rightarrow> do {
          ls \<leftarrow> get_size (pool ! le);
          (if ls \<ge> sz then
             (let p1 = pool_upd pool le (\<lambda>x. x\<lparr>list_prev := Some (entry_id (pool ! e))\<rparr>);
                  p2 = pool_upd p1 e (\<lambda>x. x\<lparr>list_next := Some (entry_id (p1 ! le))\<rparr>)
              in Some (p2, fl[new_order := Some (entry_id (p2 ! e))]))
           else do {
             p \<leftarrow> chain_insert_loop pool e sz le;
             Some (p, fl) }) }
      | None \<Rightarrow> Some (pool, fl[new_order := Some (entry_id (pool ! e))])) }"

definition chain_entry_to_free_list ::
  "MemoryEntryPool \<Rightarrow> FreeList \<Rightarrow> nat \<Rightarrow> usize option \<Rightarrow> (MemoryEntryPool \<times> FreeList) option" where
  "chain_entry_to_free_list pool fl e old_size = do {
     sz \<leftarrow> get_size (pool ! e);
     (case old_size of
        None \<Rightarrow> chain_insert_entry pool fl e sz
      | Some old \<Rightarrow>
          (if old = sz then Some (pool, fl)
           else
             (let old_order = size_to_page_order old;
                  fl' = (if fl ! old_order = Some (entry_id (pool ! e))
                         then fl[old_order := list_next (pool ! e)] else fl)
              in chain_insert_entry (unchain_from_freelist pool e) fl' e sz))) }"

section \<open>Searching the list in address order\<close>

partial_function (option) search_containing_loop ::
  "MemoryEntryPool \<Rightarrow> usize \<Rightarrow> nat \<Rightarrow> nat option option" where
  "search_containing_loop pool address e =
     (if start_addr (pool ! e) < address \<and> end_addr (pool ! e) < address
      then (case get_next_entry pool e of
              Some t \<Rightarrow> search_containing_loop pool address t
            | None \<Rightarrow> Some None)
      else Some (if address \<ge> start_addr (pool ! e) \<and> address \<le> end_addr (pool ! e)
                 then Some e else None))"

definition search_entry_containing_address_mut ::
  "MemoryEntryPool \<Rightarrow> nat option \<Rightarrow> usize \<Rightarrow> nat option option" where
  "search_entry_containing_address_mut pool first address =
     (case Option.bind first (\<lambda>f. result_ok (get_memory_entry pool f)) of
        None \<Rightarrow> Some None
      | Some e \<Rightarrow> search_containing_loop pool address e)"

partial_function (option) search_previous_loop ::
  "MemoryEntryPool \<Rightarrow> usize \<Rightarrow> nat \<Rightarrow> nat option option" where
  "search_previous_loop pool address e =
     (if start_addr (pool ! e) < address
      then (case get_next_entry pool e of
              Some t \<Rightarrow> search_previous_loop pool address t
            | None \<Rightarrow> Some (if end_addr (pool ! e) \<le> address then Some e
                            else get_prev_entry pool e))
      else Some (get_prev_entry pool e))"

definition search_entry_previous_address_mut ::
  "MemoryEntryPool \<Rightarrow> nat option \<Rightarrow> usize \<Rightarrow> nat option option" where
  "search_entry_previous_address_mut pool first address =
     (case Option.bind first (\<lambda>f. result_ok (get_memory_entry pool f)) of
        None \<Rightarrow> Some None
      | Some e \<Rightarrow> search_previous_loop pool address e)"

section \<open>Taking memory\<close>

text \<open>
  \<open>define_used_memory\<close> after its argument checks: cut \<open>[start, start + sz)\<close> out of
  entry \<open>e\<close>. The four shapes are the ones of the source: the whole entry, its
  front, its last byte, its tail, and a hole in the middle. (The caller's
  \<open>target_entry\<close> is a temporary that nobody reads afterwards, so its reset is
  not visible.)
\<close>

definition carve_entry ::
  "MemoryAllocator \<Rightarrow> nat \<Rightarrow> usize \<Rightarrow> usize \<Rightarrow> ((MemoryError + unit) \<times> MemoryAllocator) option" where
  "carve_entry s e start sz = (
     let pool = memory_entry_pool s; fl = free_list s; ent = pool ! e in
     if start_addr ent = start then do {
       t \<leftarrow> get_end_address start sz;
       (if end_addr ent = t then
          (if is_first_entry ent \<and> get_next_entry pool e = None then Some (Inl NoEntry, s)
           else do {
             let first = (if is_first_entry ent
                          then map_option (\<lambda>n. entry_id (pool ! n)) (get_next_entry pool e)
                          else first_entry s);
             (pool1, fl1) \<leftarrow> unchain_entry_from_free_list pool fl e;
             let pool2 = delete_entry pool1 e;
             fs \<leftarrow> usize_sub (free_size s) sz;
             Some (Inr (), s\<lparr>free_size := fs, first_entry := first,
                             free_list := fl1, memory_entry_pool := pool2\<rparr>) })
        else do {
          old_size \<leftarrow> get_size ent;
          ns \<leftarrow> usize_add start sz;
          pool1 \<leftarrow> set_range pool e ns (end_addr ent);
          (pool2, fl2) \<leftarrow> chain_entry_to_free_list pool1 fl e (Some old_size);
          fs \<leftarrow> usize_sub (free_size s) sz;
          Some (Inr (), s\<lparr>free_size := fs, free_list := fl2, memory_entry_pool := pool2\<rparr>) }) }
     else if end_addr ent = start then
       (if sz \<noteq> 1 then Some (Inl InvalidRequest, s)
        else do {
          ne \<leftarrow> usize_sub start 1;
          pool1 \<leftarrow> set_range pool e (start_addr ent) ne;
          new_size \<leftarrow> get_size (pool1 ! e);
          old_size \<leftarrow> usize_add new_size 1;
          (pool2, fl2) \<leftarrow> chain_entry_to_free_list pool1 fl e (Some old_size);
          fs \<leftarrow> usize_sub (free_size s) sz;
          Some (Inr (), s\<lparr>free_size := fs, free_list := fl2, memory_entry_pool := pool2\<rparr>) })
     else do {
       t \<leftarrow> get_end_address start sz;
       (if end_addr ent = t then do {
          old_size \<leftarrow> get_size ent;
          ne \<leftarrow> usize_sub start 1;
          pool1 \<leftarrow> set_range pool e (start_addr ent) ne;
          (pool2, fl2) \<leftarrow> chain_entry_to_free_list pool1 fl e (Some old_size);
          fs \<leftarrow> usize_sub (free_size s) sz;
          Some (Inr (), s\<lparr>free_size := fs, free_list := fl2, memory_entry_pool := pool2\<rparr>) }
        else (case create_memory_entry pool of
          (Inl err, _) \<Rightarrow> Some (Inl err, s)
        | (Inr n, pool0) \<Rightarrow> do {
          old_size \<leftarrow> get_size (pool0 ! e);
          ns \<leftarrow> usize_add start sz;
          pool1 \<leftarrow> set_range pool0 n ns (end_addr (pool0 ! e));
          ne \<leftarrow> usize_sub start 1;
          pool2 \<leftarrow> set_range pool1 e (start_addr (pool1 ! e)) ne;
          let pool3 = (case get_next_entry pool2 e of
                 Some nx \<Rightarrow> chain_after_me pool2 n nx | None \<Rightarrow> pool2);
          let pool4 = chain_after_me pool3 e n;
          (pool5, fl5) \<leftarrow> chain_entry_to_free_list pool4 fl e (Some old_size);
          (pool6, fl6) \<leftarrow> chain_entry_to_free_list pool5 fl5 n None;
          fs \<leftarrow> usize_sub (free_size s) sz;
          Some (Inr (), s\<lparr>free_size := fs, free_list := fl6, memory_entry_pool := pool6\<rparr>) })) })"

text \<open>
  The checks and the search of \<open>define_used_memory\<close>. With a non-zero alignment
  the source calls itself once more on the widened range with alignment 0.
\<close>

definition define_used_memory_unaligned ::
  "MemoryAllocator \<Rightarrow> usize \<Rightarrow> usize \<Rightarrow> nat option \<Rightarrow> ((MemoryError + unit) \<times> MemoryAllocator) option" where
  "define_used_memory_unaligned s start sz target =
     (if sz = 0 then Some (Inl InvalidRequest, s)
      else if free_size s < sz then Some (Inl NoMemory, s)
      else (case target of
          Some e \<Rightarrow> carve_entry s e start sz
        | None \<Rightarrow> do {
            r \<leftarrow> search_entry_containing_address_mut (memory_entry_pool s) (first_entry s) start;
            (case r of
               Some e \<Rightarrow> carve_entry s e start sz
             | None \<Rightarrow> Some (Inl InvalidRequest, s)) }))"

definition define_used_memory ::
  "MemoryAllocator \<Rightarrow> usize \<Rightarrow> usize \<Rightarrow> nat \<Rightarrow> nat option \<Rightarrow>
   ((MemoryError + unit) \<times> MemoryAllocator) option" where
  "define_used_memory s start sz align_order target =
     (if sz = 0 then Some (Inl InvalidRequest, s)
      else if free_size s < sz then Some (Inl NoMemory, s)
      else if align_order \<noteq> 0 then do {
        (aligned_start, aligned_size) \<leftarrow> align_address_and_size start sz align_order;
        define_used_memory_unaligned s aligned_start aligned_size target }
      else define_used_memory_unaligned s start sz target)"

definition reserve_memory ::
  "MemoryAllocator \<Rightarrow> usize \<Rightarrow> usize \<Rightarrow> nat \<Rightarrow> ((MemoryError + unit) \<times> MemoryAllocator) option" where
  "reserve_memory s start_address sz align_order =
     define_used_memory s start_address sz align_order None"

text \<open>
  The inner \<open>while\<close> of \<open>allocate\<close>: the first entry of one size class that can hold
  the request, with the address chosen inside it.
\<close>

partial_function (option) allocate_scan ::
  "MemoryEntryPool \<Rightarrow> usize \<Rightarrow> nat \<Rightarrow> nat \<Rightarrow> (nat \<times> usize) option option" where
  "allocate_scan pool sz align_order e = do {
     es \<leftarrow> get_size (pool ! e);
     found \<leftarrow>
       (if es \<ge> sz then
          (if align_order \<noteq> 0 then do {
             (aligned_address, available) \<leftarrow>
               align_address_and_available_size (start_addr (pool ! e)) es align_order;
             Some (if available < sz then None else Some aligned_address) }
           else Some (Some (start_addr (pool ! e))))
        else Some None);
     (case found of
        Some address \<Rightarrow> Some (Some (e, address))
      | None \<Rightarrow> (case get_list_next pool e of
          Some n \<Rightarrow> allocate_scan pool sz align_order n
        | None \<Rightarrow> Some None)) }"

text \<open>The \<open>for\<close> over the size classes.\<close>

fun allocate_loop ::
  "MemoryAllocator \<Rightarrow> usize \<Rightarrow> nat \<Rightarrow> nat list \<Rightarrow> ((MemoryError + usize) \<times> MemoryAllocator) option" where
  "allocate_loop s sz align_order [] = Some (Inl NoMemory, s)"
| "allocate_loop s sz align_order (i # is) =
     (case free_list s ! i of
        None \<Rightarrow> allocate_loop s sz align_order is
      | Some t \<Rightarrow>
          (case get_memory_entry (memory_entry_pool s) t of
             Inl err \<Rightarrow> Some (Inl err, s)
           | Inr first \<Rightarrow> do {
               r \<leftarrow> allocate_scan (memory_entry_pool s) sz align_order first;
               (case r of
                  Some (e, address) \<Rightarrow> do {
                    (u, s') \<leftarrow> define_used_memory s address sz 0 (Some e);
                    (case u of Inl err \<Rightarrow> Some (Inl err, s') | Inr _ \<Rightarrow> Some (Inr address, s')) }
                | None \<Rightarrow> allocate_loop s sz align_order is) }))"

definition allocate ::
  "MemoryAllocator \<Rightarrow> usize \<Rightarrow> nat \<Rightarrow> ((MemoryError + usize) \<times> MemoryAllocator) option" where
  "allocate s sz align_order =
     (if sz = 0 then Some (Inl InvalidRequest, s)
      else if free_size s \<le> sz then Some (Inl NoMemory, s)
      else allocate_loop s sz align_order [size_to_page_order sz..<NUM_OF_FREE_LIST])"

section \<open>Giving memory back\<close>

text \<open>
  The end of \<open>define_free_memory\<close> when \<open>entry\<close> has no successor, from
  the range \<open>[start, t]\<close> on; \<open>processed\<close> says that the range was already
  merged into \<open>entry\<close>.
\<close>

definition free_last ::
  "MemoryAllocator \<Rightarrow> MemoryEntryPool \<Rightarrow> nat \<Rightarrow> usize \<Rightarrow> usize \<Rightarrow> usize \<Rightarrow> usize \<Rightarrow> bool \<Rightarrow>
   ((MemoryError + unit) \<times> MemoryAllocator) option" where
  "free_last s pool e start t sz old_size processed =
     (if processed then do {
        fs \<leftarrow> usize_add (free_size s) sz;
        (pool1, fl1) \<leftarrow> chain_entry_to_free_list pool (free_list s) e (Some old_size);
        Some (Inr (), s\<lparr>free_size := fs, free_list := fl1, memory_entry_pool := pool1\<rparr>) }
      else (case create_memory_entry pool of
        (Inl err, _) \<Rightarrow> Some (Inl err, s\<lparr>memory_entry_pool := pool\<rparr>)
      | (Inr n, pool0) \<Rightarrow> do {
        pool1 \<leftarrow> set_range pool0 n start t;
        (pool2, first) \<leftarrow>
          (if end_addr (pool1 ! e) < start_addr (pool1 ! n)
           then Some (chain_after_me pool1 e n, first_entry s)
           else do {
             (pool1a, first) \<leftarrow> (case get_prev_entry pool1 e of
                 Some p \<Rightarrow> do {
                   rust_assert (end_addr (pool1 ! p) < start_addr (pool1 ! e));
                   Some (chain_after_me pool1 p n, first_entry s) }
               | None \<Rightarrow> Some (pool1, Some (entry_id (pool1 ! n))));
             Some (chain_after_me pool1a n e, first) });
        fs \<leftarrow> usize_add (free_size s) sz;
        (pool3, fl3) \<leftarrow> chain_entry_to_free_list pool2 (free_list s) e (Some old_size);
        (pool4, fl4) \<leftarrow> chain_entry_to_free_list pool3 fl3 n None;
        Some (Inr (), s\<lparr>free_size := fs, first_entry := first, free_list := fl4,
                        memory_entry_pool := pool4\<rparr>) }))"

text \<open>The same with a successor \<open>ne\<close>, after the test for overlap with it.\<close>

definition free_between ::
  "MemoryAllocator \<Rightarrow> MemoryEntryPool \<Rightarrow> nat \<Rightarrow> nat \<Rightarrow> usize \<Rightarrow> usize \<Rightarrow> usize \<Rightarrow> usize \<Rightarrow> usize \<Rightarrow> bool \<Rightarrow>
   ((MemoryError + unit) \<times> MemoryAllocator) option" where
  "free_between s pool e ne start t sz old_size address_after_entry processed = do {
     t1 \<leftarrow> usize_add t 1;
     (pool1, fl1, processed1) \<leftarrow>
       (if start_addr (pool ! ne) = t1 then do {
          next_old_size \<leftarrow> get_size (pool ! ne);
          p \<leftarrow> set_range pool ne start (end_addr (pool ! ne));
          (p', f') \<leftarrow> chain_entry_to_free_list p (free_list s) ne (Some next_old_size);
          Some (p', f', True) }
        else Some (pool, free_list s, processed));
     e1 \<leftarrow> usize_add (end_addr (pool1 ! e)) 1;
     (pool2, fl2) \<leftarrow>
       (if start_addr (pool1 ! ne) = e1 \<or>
           (processed1 \<and> address_after_entry \<ge> start_addr (pool1 ! ne)) then do {
          p \<leftarrow> set_range pool1 e (start_addr (pool1 ! e))
                 (max (end_addr (pool1 ! e)) (end_addr (pool1 ! ne)));
          (p', f') \<leftarrow> unchain_entry_from_free_list p fl1 ne;
          Some (delete_entry p' ne, f') }
        else Some (pool1, fl1));
     (if processed1 then do {
        fs \<leftarrow> usize_add (free_size s) sz;
        (pool3, fl3) \<leftarrow> chain_entry_to_free_list pool2 fl2 e (Some old_size);
        Some (Inr (), s\<lparr>free_size := fs, free_list := fl3, memory_entry_pool := pool3\<rparr>) }
      else (case create_memory_entry pool2 of
        (Inl err, _) \<Rightarrow> Some (Inl err, s\<lparr>free_list := fl2, memory_entry_pool := pool2\<rparr>)
      | (Inr n, pool3) \<Rightarrow> do {
        pool4 \<leftarrow> set_range pool3 n start t;
        (pool5, first) \<leftarrow>
          (if end_addr (pool4 ! n) < start_addr (pool4 ! e)
           then (case get_prev_entry pool4 e of
               Some p \<Rightarrow> do {
                 rust_assert (end_addr (pool4 ! p) < start_addr (pool4 ! n));
                 Some (chain_after_me (chain_after_me pool4 p n) n e, first_entry s) }
             | None \<Rightarrow> Some (chain_after_me pool4 n e, Some (entry_id (pool4 ! n))))
           else (let p5 = set_prev_entry pool4 ne n; p6 = set_next_entry p5 n ne
                 in Some (chain_after_me p6 e n, first_entry s)));
        fs \<leftarrow> usize_add (free_size s) sz;
        (pool6, fl6) \<leftarrow> chain_entry_to_free_list pool5 fl2 e (Some old_size);
        (pool7, fl7) \<leftarrow> chain_entry_to_free_list pool6 fl6 n None;
        Some (Inr (), s\<lparr>free_size := fs, first_entry := first, free_list := fl7,
                        memory_entry_pool := pool7\<rparr>) })) }"

text \<open>
  \<open>define_free_memory\<close>. The recursive calls free the rest of a range that
  overlaps a free entry; they happen before anything is changed.
\<close>

partial_function (option) define_free_memory ::
  "MemoryAllocator \<Rightarrow> usize \<Rightarrow> usize \<Rightarrow> ((MemoryError + unit) \<times> MemoryAllocator) option" where
  "define_free_memory s start sz =
     (if sz = 0 then Some (Inl InvalidRequest, s)
      else do {
        let pool = memory_entry_pool s;
        r \<leftarrow> search_entry_previous_address_mut pool (first_entry s) start;
        f \<leftarrow> (case r of
            Some e \<Rightarrow> Some (Inr e)
          | None \<Rightarrow> (case first_entry s of
              None \<Rightarrow> None
            | Some i \<Rightarrow> Some (get_memory_entry pool i)));
        (case f of
           Inl _ \<Rightarrow> Some (Inl InvalidEntry, s)
         | Inr e \<Rightarrow> do {
             t \<leftarrow> get_end_address start sz;
             let ent = pool ! e;
             (if start_addr ent \<le> start \<and> end_addr ent \<ge> t then Some (Inl InvalidRequest, s)
              else if end_addr ent \<ge> start \<and> \<not> is_first_entry ent then do {
                ns \<leftarrow> usize_add (end_addr ent) 1;
                d \<leftarrow> usize_sub t (end_addr ent);
                d2 \<leftarrow> usize_add d 2;
                define_free_memory s ns d2 }
              else if end_addr ent = t then do {
                es \<leftarrow> get_size ent;
                d \<leftarrow> usize_sub sz es;
                define_free_memory s start d }
              else do {
                old_size \<leftarrow> get_size ent;
                address_after_entry \<leftarrow> usize_add (end_addr ent) 1;
                m1 \<leftarrow>
                  (if address_after_entry = start
                   then do { p \<leftarrow> set_range pool e (start_addr ent) t; Some (p, True) }
                   else Some (pool, False));
                let pool1 = fst m1;
                t1 \<leftarrow> (if is_first_entry (pool1 ! e) then usize_add t 1 else Some 0);
                m2 \<leftarrow>
                  (if is_first_entry (pool1 ! e) \<and> start_addr (pool1 ! e) = t1
                   then do { p \<leftarrow> set_range pool1 e start (end_addr (pool1 ! e)); Some (p, True) }
                   else Some (pool1, snd m1));
                let pool2 = fst m2;
                let processed2 = snd m2;
                (case get_next_entry pool2 e of
                   Some ne \<Rightarrow>
                     (if start_addr (pool2 ! ne) \<le> start then do {
                        rust_assert (\<not> processed2);
                        (if end_addr (pool2 ! ne) \<ge> t then Some (Inl InvalidRequest, s)
                         else do {
                           ns \<leftarrow> usize_add (end_addr (pool2 ! ne)) 1;
                           d \<leftarrow> usize_sub t (end_addr (pool2 ! ne));
                           define_free_memory s ns d }) }
                      else free_between s pool2 e ne start t sz old_size address_after_entry processed2)
                 | None \<Rightarrow> free_last s pool2 e start t sz old_size processed2) }) }) })"

definition free_memory ::
  "MemoryAllocator \<Rightarrow> usize \<Rightarrow> usize \<Rightarrow> ((MemoryError + unit) \<times> MemoryAllocator) option" where
  "free_memory s start sz =
     (if free_size s = 0 then
        (case create_memory_entry (memory_entry_pool s) of
           (Inl err, _) \<Rightarrow> Some (Inl err, s)
         | (Inr f, pool0) \<Rightarrow> do {
             t \<leftarrow> get_end_address start sz;
             pool1 \<leftarrow> set_range pool0 f start t;
             (pool2, fl2) \<leftarrow> chain_entry_to_free_list pool1 (free_list s) f None;
             Some (Inr (), s\<lparr>free_size := sz, first_entry := Some (entry_id (pool2 ! f)),
                             free_list := fl2, memory_entry_pool := pool2\<rparr>) })
      else do {
        (r, s1) \<leftarrow> define_free_memory s start sz;
        (case r of
           Inl err \<Rightarrow> Some (Inl err, s1)
         | Inr _ \<Rightarrow> do {
             fs \<leftarrow> usize_add (free_size s1) sz;
             Some (Inr (), s1\<lparr>free_size := fs\<rparr>) }) })"

section \<open>The wrappers of main.rs\<close>

definition allocate_pages ::
  "MemoryAllocator \<Rightarrow> nat \<Rightarrow> nat \<Rightarrow> ((MemoryError + usize) \<times> MemoryAllocator) option" where
  "allocate_pages s number_of_pages align = do {
     sz \<leftarrow> usize_shl number_of_pages PAGE_SHIFT;
     allocate s sz align }"

definition free_pages :: "MemoryAllocator \<Rightarrow> usize \<Rightarrow> nat \<Rightarrow> MemoryAllocator option" where
  "free_pages s address number_of_pages = do {
     sz \<leftarrow> usize_shl number_of_pages PAGE_SHIFT;
     (_, s') \<leftarrow> free_memory s address sz;
     Some s' }"

text \<open>The global allocator hands the alignment itself, not its logarithm, to \<open>allocate\<close>.\<close>

definition global_alloc :: "MemoryAllocator \<Rightarrow> usize \<Rightarrow> usize \<Rightarrow> (usize \<times> MemoryAllocator) option" where
  "global_alloc s layout_size layout_align = do {
     (r, s') \<leftarrow> allocate s layout_size layout_align;
     (case r of Inl _ \<Rightarrow> Some (0, s') | Inr address \<Rightarrow> Some (address, s')) }"

definition global_dealloc :: "MemoryAllocator \<Rightarrow> usize \<Rightarrow> usize \<Rightarrow> MemoryAllocator option" where
  "global_dealloc s ptr layout_size = do {
     (_, s') \<leftarrow> free_memory s ptr layout_size;
     Some s' }"

text \<open>The loops run: their equations are code equations.\<close>

lemmas allocator_loops [code] = chain_insert_loop.simps search_containing_loop.simps
  search_previous_loop.simps allocate_scan.simps define_free_memory.simps

end
