(* ===== verification/Paging.thy ===== *)
theory Paging
  imports MemoryAllocator
begin

text \<open>
  Stage-2 paging, \<open>src/src/paging.rs\<close>, with the register constants of
  \<open>src/src/registers.rs\<close> that it uses. The translation tables live in physical
  memory, here a map from the addresses of 64-bit words to descriptors; the
  allocator they come from and the two system registers are part of the state.
  The \<open>&mut\<close> parameters of \<open>_map_address_stage2\<close> are threaded as a triple.
\<close>

section \<open>Descriptors\<close>

type_synonym Descriptor = u64

datatype Shareability = NonShareable | OuterShareable | InnerShareable

definition shareability_bits :: "Shareability \<Rightarrow> u64" where
  "shareability_bits s = (case s of NonShareable \<Rightarrow> 0b00 | OuterShareable \<Rightarrow> 0b10 | InnerShareable \<Rightarrow> 0b11)"

definition TABLE_ADDRESS_MASK :: u64 where
  "TABLE_ADDRESS_MASK = (push_bit 52 1 - 1) AND NOT (word_of_nat PAGE_SIZE - 1)"
definition OUTPUT_ADDRESS_MASK :: u64 where
  "OUTPUT_ADDRESS_MASK = (push_bit 50 1 - 1) AND NOT (word_of_nat PAGE_SIZE - 1)"
definition AF :: u64 where "AF = push_bit 10 1"
definition SH_OFFSET :: nat where "SH_OFFSET = 8"
definition SH :: u64 where "SH = push_bit SH_OFFSET 0b11"
definition S2AP_OFFSET :: nat where "S2AP_OFFSET = 6"
definition S2AP :: u64 where "S2AP = push_bit S2AP_OFFSET 0b11"
definition ATTR_INDEX_OFFSET :: nat where "ATTR_INDEX_OFFSET = 2"
definition ATTR_INDEX :: u64 where "ATTR_INDEX = push_bit ATTR_INDEX_OFFSET 0b1111"
definition ATTR_WRITE_BACK :: u64 where "ATTR_WRITE_BACK = push_bit ATTR_INDEX_OFFSET 0b1111"

definition Descriptor_new :: Descriptor where "Descriptor_new = 0"

definition validate_as_page_descriptor :: "Descriptor \<Rightarrow> Descriptor" where
  "validate_as_page_descriptor d = d OR 0b11"
definition validate_as_table_descriptor :: "Descriptor \<Rightarrow> Descriptor" where
  "validate_as_table_descriptor d = d OR 0b11"
definition validate_as_block_descriptor :: "Descriptor \<Rightarrow> Descriptor" where
  "validate_as_block_descriptor d = d OR 0b01"
definition is_table_descriptor :: "Descriptor \<Rightarrow> bool" where
  "is_table_descriptor d \<longleftrightarrow> d AND 0b11 = 0b11"
definition get_next_level_table_address :: "Descriptor \<Rightarrow> usize" where
  "get_next_level_table_address d = unat (d AND TABLE_ADDRESS_MASK)"
definition set_output_address :: "usize \<Rightarrow> Descriptor \<Rightarrow> Descriptor" where
  "set_output_address output_address d = (d AND NOT OUTPUT_ADDRESS_MASK) OR word_of_nat output_address OR AF"
definition set_shareability :: "Shareability \<Rightarrow> Descriptor \<Rightarrow> Descriptor" where
  "set_shareability s d = (d AND NOT SH) OR push_bit SH_OFFSET (shareability_bits s)"
definition set_permission :: "u64 \<Rightarrow> Descriptor \<Rightarrow> Descriptor" where
  "set_permission permission d = (d AND NOT S2AP) OR push_bit S2AP_OFFSET permission"
definition set_memory_attribute_write_back :: "Descriptor \<Rightarrow> Descriptor" where
  "set_memory_attribute_write_back d = (d AND NOT ATTR_INDEX) OR ATTR_WRITE_BACK"

text \<open>The sequence of setters that both kinds of leaf share.\<close>

definition leaf_descriptor :: "usize \<Rightarrow> u64 \<Rightarrow> Descriptor" where
  "leaf_descriptor pa permission =
     set_shareability InnerShareable (set_memory_attribute_write_back
       (set_permission permission (set_output_address pa Descriptor_new)))"

section \<open>State\<close>

record Stage2 =
  tables :: "usize \<Rightarrow> Descriptor"
  page_allocator :: MemoryAllocator
  vttbr_el2 :: u64
  vtcr_el2 :: u64

text \<open>\<open>d.init()\<close> for every descriptor of a table of \<open>n\<close> descriptors.\<close>

fun init_table :: "(usize \<Rightarrow> Descriptor) \<Rightarrow> usize \<Rightarrow> nat \<Rightarrow> (usize \<Rightarrow> Descriptor)" where
  "init_table m address 0 = m"
| "init_table m address (Suc n) = init_table (m(address := Descriptor_new)) (address + 8) n"

section \<open>Mapping\<close>

type_synonym cursor = "usize \<times> usize \<times> usize"
type_synonym map_result = "((unit + unit) \<times> Stage2 \<times> cursor) option"

text \<open>Moving physical address, intermediate physical address and remaining size on by \<open>n\<close>.\<close>

definition advance :: "cursor \<Rightarrow> usize \<Rightarrow> cursor option" where
  "advance c n = (case c of (pa, ipa, rem) \<Rightarrow> do {
     pa' \<leftarrow> usize_add pa n;
     ipa' \<leftarrow> usize_add ipa n;
     rem' \<leftarrow> usize_sub rem n;
     Some (pa', ipa', rem') })"

text \<open>Level 3: the loop over the \<open>k\<close> page descriptors from address \<open>d\<close> on.\<close>

fun map_pages_loop :: "u64 \<Rightarrow> nat \<Rightarrow> usize \<Rightarrow> Stage2 \<Rightarrow> cursor \<Rightarrow> map_result" where
  "map_pages_loop permission 0 d st c = Some (Inr (), st, c)"
| "map_pages_loop permission (Suc k) d st c = do {
     let st1 = st\<lparr>tables := (tables st)(d := validate_as_page_descriptor (leaf_descriptor (fst c) permission))\<rparr>;
     c1 \<leftarrow> advance c PAGE_SIZE;
     (if snd (snd c1) = 0 then Some (Inr (), st1, c1)
      else map_pages_loop permission k (d + 8) st1 c1) }"

text \<open>The table below the descriptor at \<open>d\<close>, created when there is none.\<close>

definition next_level_table :: "usize \<Rightarrow> Stage2 \<Rightarrow> ((unit + usize) \<times> Stage2) option" where
  "next_level_table d st =
     (if is_table_descriptor (tables st d)
      then Some (Inr (get_next_level_table_address (tables st d)), st)
      else do {
        (r, alloc1) \<leftarrow> allocate_pages (page_allocator st) 1 12;
        (case r of
           Inl _ \<Rightarrow> Some (Inl (), st\<lparr>page_allocator := alloc1\<rparr>)
         | Inr t \<Rightarrow> (let m1 = init_table (tables st) t 512
             in Some (Inr t, st\<lparr>page_allocator := alloc1,
                  tables := m1(d := validate_as_table_descriptor (set_output_address t Descriptor_new))\<rparr>))) })"

text \<open>
  Levels 0 to 2: the loop over the \<open>k\<close> descriptors from address \<open>d\<close> on. The
  recursive call of the source, which works on the table of the next level, is
  the parameter \<open>next_level\<close>.
\<close>

fun map_entries_loop ::
  "(usize \<Rightarrow> Stage2 \<Rightarrow> cursor \<Rightarrow> map_result) \<Rightarrow> u64 \<Rightarrow> nat \<Rightarrow> nat \<Rightarrow> nat \<Rightarrow> usize \<Rightarrow> Stage2 \<Rightarrow> cursor \<Rightarrow> map_result" where
  "map_entries_loop next_level permission level shift 0 d st c = Some (Inr (), st, c)"
| "map_entries_loop next_level permission level shift (Suc k) d st c = (case c of (pa, ipa, rem) \<Rightarrow> do {
     block_size \<leftarrow> usize_shl 1 shift;
     mask \<leftarrow> usize_sub block_size 1;
     (if level \<ge> 1 \<and> rem \<ge> block_size \<and> pa AND mask = 0 \<and> ipa AND mask = 0 then do {
        let st1 = st\<lparr>tables := (tables st)(d := validate_as_block_descriptor (leaf_descriptor pa permission))\<rparr>;
        c1 \<leftarrow> advance c block_size;
        (if snd (snd c1) = 0 then Some (Inr (), st1, c1)
         else map_entries_loop next_level permission level shift k (d + 8) st1 c1) }
      else do {
        (e, st1) \<leftarrow> next_level_table d st;
        (case e of
           Inl _ \<Rightarrow> Some (Inl (), st1, c)
         | Inr next_level_table_address \<Rightarrow> do {
             (r, st2, c2) \<leftarrow> next_level next_level_table_address st1 c;
             (case r of
                Inl _ \<Rightarrow> Some (Inl (), st2, c2)
              | Inr _ \<Rightarrow>
                  (if snd (snd c2) = 0 then Some (Inr (), st2, c2)
                   else map_entries_loop next_level permission level shift k (d + 8) st2 c2)) }) }) })"

text \<open>
  \<open>_map_address_stage2\<close> at level \<open>3 - depth\<close>, on the table at \<open>table_address\<close>
  with \<open>num\<close> descriptors.
\<close>

fun map_address_level :: "u64 \<Rightarrow> nat \<Rightarrow> nat \<Rightarrow> usize \<Rightarrow> Stage2 \<Rightarrow> cursor \<Rightarrow> map_result" where
  "map_address_level permission 0 num table_address st c = (case c of (pa, ipa, rem) \<Rightarrow>
     (let shift = 12 + 9 * 0; index = drop_bit shift ipa AND (num - 1)
      in map_pages_loop permission (num - index) (table_address + 8 * index) st c))"
| "map_address_level permission (Suc depth) num table_address st c = (case c of (pa, ipa, rem) \<Rightarrow>
     (let shift = 12 + 9 * Suc depth; index = drop_bit shift ipa AND (num - 1)
      in map_entries_loop (map_address_level permission depth 512) permission (3 - Suc depth) shift
           (num - index) (table_address + 8 * index) st c))"

section \<open>Entry points\<close>

definition VTTBR_BADDR :: u64 where "VTTBR_BADDR = (push_bit 47 1 - 1) AND NOT 1"
definition VTCR_EL2_RES1 :: u64 where "VTCR_EL2_RES1 = push_bit 31 1"
definition VTCR_EL2_PS_BITS_OFFSET :: nat where "VTCR_EL2_PS_BITS_OFFSET = 16"
definition VTCR_EL2_TG0_BITS_OFFSET :: nat where "VTCR_EL2_TG0_BITS_OFFSET = 14"
definition VTCR_EL2_SH0_BITS_OFFSET :: nat where "VTCR_EL2_SH0_BITS_OFFSET = 12"
definition VTCR_EL2_ORGN0_BITS_OFFSET :: nat where "VTCR_EL2_ORGN0_BITS_OFFSET = 10"
definition VTCR_EL2_IRGN0_BITS_OFFSET :: nat where "VTCR_EL2_IRGN0_BITS_OFFSET = 8"
definition VTCR_EL2_SL0_BITS_OFFSET :: nat where "VTCR_EL2_SL0_BITS_OFFSET = 6"
definition VTCR_EL2_SL0 :: u64 where "VTCR_EL2_SL0 = push_bit VTCR_EL2_SL0_BITS_OFFSET 0b11"
definition VTCR_EL2_T0SZ_BITS_OFFSET :: nat where "VTCR_EL2_T0SZ_BITS_OFFSET = 0"
definition VTCR_EL2_T0SZ :: u64 where "VTCR_EL2_T0SZ = push_bit VTCR_EL2_T0SZ_BITS_OFFSET 0b111111"
definition ID_AA64MMFR0_EL1_PARANGE :: u64 where "ID_AA64MMFR0_EL1_PARANGE = 0b1111"

text \<open>The arguments are a \<open>u8\<close> and a level from 0 to 3, for which nothing overflows.\<close>

definition number_of_concatenated_page_tables :: "nat \<Rightarrow> nat \<Rightarrow> nat" where
  "number_of_concatenated_page_tables t0sz first_level =
     (if t0sz > 43 - (3 - first_level) * 9 then 1 else 2 ^ (43 - (3 - first_level) * 9 - t0sz))"

definition stage2_parameters :: "u64 \<Rightarrow> nat \<times> nat" where
  "stage2_parameters ps =
     (if ps = 0b000 then (32, 1) else if ps = 0b001 then (28, 1) else if ps = 0b010 then (24, 1)
      else if ps = 0b011 then (22, 1) else if ps = 0b100 then (20, 0) else if ps = 0b101 then (16, 0)
      else (16, 0))"

text \<open>\<open>id_aa64mmfr0_el1\<close> is the value of the ID register; an allocation error panics.\<close>

definition init_stage2_translation_table :: "u64 \<Rightarrow> Stage2 \<Rightarrow> Stage2 option" where
  "init_stage2_translation_table id_aa64mmfr0_el1 st = do {
     let ps = id_aa64mmfr0_el1 AND ID_AA64MMFR0_EL1_PARANGE;
     let (t0sz, initial_lookup_level) = stage2_parameters ps;
     let number_of_tables = number_of_concatenated_page_tables t0sz initial_lookup_level;
     (r, alloc1) \<leftarrow> allocate_pages (page_allocator st) number_of_tables (12 + number_of_tables - 1);
     (case r of
        Inl _ \<Rightarrow> None
      | Inr table \<Rightarrow> do {
          let sl0 = (if initial_lookup_level = 1 then 0b01 else 0b10 :: u64);
          let vtcr = VTCR_EL2_RES1
            OR push_bit VTCR_EL2_PS_BITS_OFFSET ps
            OR push_bit VTCR_EL2_TG0_BITS_OFFSET 0
            OR push_bit VTCR_EL2_SH0_BITS_OFFSET 0b11
            OR push_bit VTCR_EL2_ORGN0_BITS_OFFSET 0b11
            OR push_bit VTCR_EL2_IRGN0_BITS_OFFSET 0b11
            OR push_bit VTCR_EL2_SL0_BITS_OFFSET sl0
            OR push_bit VTCR_EL2_T0SZ_BITS_OFFSET (word_of_nat t0sz);
          Some (st\<lparr>page_allocator := alloc1,
                   tables := init_table (tables st) table (number_of_tables * 512),
                   vtcr_el2 := vtcr, vttbr_el2 := word_of_nat table\<rparr>) }) }"

text \<open>
  What \<open>map_address_stage2\<close> reads back from the registers: the base of the table,
  the level of the first lookup and the number of descriptors.
\<close>

definition initial_lookup_level :: "u64 \<Rightarrow> nat" where
  "initial_lookup_level sl0 =
     (if sl0 = 0b00 then 2 else if sl0 = 0b01 then 1 else if sl0 = 0b10 then 0 else 3)"

definition stage2_table :: "Stage2 \<Rightarrow> usize" where
  "stage2_table st = unat (vttbr_el2 st AND VTTBR_BADDR)"

definition stage2_level :: "Stage2 \<Rightarrow> nat" where
  "stage2_level st = initial_lookup_level (drop_bit VTCR_EL2_SL0_BITS_OFFSET (vtcr_el2 st AND VTCR_EL2_SL0))"

definition stage2_descriptors :: "Stage2 \<Rightarrow> nat" where
  "stage2_descriptors st = number_of_concatenated_page_tables
     (unat (drop_bit VTCR_EL2_T0SZ_BITS_OFFSET (vtcr_el2 st AND VTCR_EL2_T0SZ))) (stage2_level st) * 512"

text \<open>The TLB maintenance at the end is not visible in the tables.\<close>

definition map_address_stage2 ::
  "usize \<Rightarrow> usize \<Rightarrow> usize \<Rightarrow> bool \<Rightarrow> bool \<Rightarrow> Stage2 \<Rightarrow> ((unit + unit) \<times> Stage2) option" where
  "map_address_stage2 physical_address intermediate_physical_address map_size is_readable is_writable st =
     (if map_size AND (2 ^ PAGE_SHIFT - 1) \<noteq> 0 then Some (Inl (), st)
      else do {
        (r, st1, _) \<leftarrow> map_address_level (push_bit 1 (of_bool is_writable) OR of_bool is_readable)
          (3 - stage2_level st) (stage2_descriptors st) (stage2_table st) st
          (physical_address, intermediate_physical_address, map_size);
        Some (r, st1) })"

end
