(* ===== verification/DList.thy ===== *)
theory DList
  imports Prelude
begin

text \<open>
  Doubly linked lists threaded through an array: \<open>dl nx pv p xs q\<close> says that the
  nodes \<open>xs\<close>, in this order, are linked forwards by \<open>nx\<close> and backwards by \<open>pv\<close>,
  entered from \<open>p\<close> and left towards \<open>q\<close>. The lemmas say what inserting and
  removing one node does, in terms of the link functions before and after.
\<close>

section \<open>The predicate\<close>

fun head_or :: "'a option \<Rightarrow> 'a list \<Rightarrow> 'a option" where
  "head_or q [] = q"
| "head_or q (x # xs) = Some x"

fun last_or :: "'a option \<Rightarrow> 'a list \<Rightarrow> 'a option" where
  "last_or p [] = p"
| "last_or p (x # xs) = last_or (Some x) xs"

fun dl :: "('a \<Rightarrow> 'a option) \<Rightarrow> ('a \<Rightarrow> 'a option) \<Rightarrow> 'a option \<Rightarrow> 'a list \<Rightarrow> 'a option \<Rightarrow> bool" where
  "dl nx pv p [] q = True"
| "dl nx pv p (x # xs) q \<longleftrightarrow> pv x = p \<and> nx x = head_or q xs \<and> dl nx pv (Some x) xs q"

lemma head_or_append [simp]: "head_or q (xs @ ys) = head_or (head_or q ys) xs"
  by (cases xs) auto

lemma last_or_append [simp]: "last_or p (xs @ ys) = last_or (last_or p xs) ys"
  by (induction xs arbitrary: p) auto

lemma head_or_None_iff: "head_or None xs = None \<longleftrightarrow> xs = []"
  by (cases xs) auto

lemma head_or_Some_iff: "head_or None xs = Some x \<longleftrightarrow> (\<exists>ys. xs = x # ys)"
  by (cases xs) auto

lemma last_or_None_iff: "last_or None xs = None \<longleftrightarrow> xs = []"
  by (induction xs rule: rev_induct) auto

lemma last_or_Some_iff: "last_or None xs = Some x \<longleftrightarrow> (\<exists>ys. xs = ys @ [x])"
  by (induction xs rule: rev_induct) auto

lemma dl_append [simp]:
  "dl nx pv p (xs @ ys) q \<longleftrightarrow> dl nx pv p xs (head_or q ys) \<and> dl nx pv (last_or p xs) ys q"
  by (induction xs arbitrary: p) auto

lemma dl_cong:
  assumes "\<And>x. x \<in> set xs \<Longrightarrow> nx x = nx' x" and "\<And>x. x \<in> set xs \<Longrightarrow> pv x = pv' x"
  shows "dl nx pv p xs q = dl nx' pv' p xs q"
  using assms by (induction xs arbitrary: p) auto

lemma dl_next: "dl nx pv p (as @ x # bs) q \<Longrightarrow> nx x = head_or q bs"
  by simp

lemma dl_prev: "dl nx pv p (as @ x # bs) q \<Longrightarrow> pv x = last_or p as"
  by simp

section \<open>Splicing\<close>

text \<open>A segment stays linked when only the link that leaves it changes.\<close>

lemma dl_relink_right:
  assumes "dl nx pv p xs q" and "distinct xs"
    and "\<And>x. x \<in> set xs \<Longrightarrow> pv' x = pv x"
    and "\<And>x. x \<in> set xs \<Longrightarrow> last_or None xs \<noteq> Some x \<Longrightarrow> nx' x = nx x"
    and "\<And>x. last_or None xs = Some x \<Longrightarrow> nx' x = q'"
  shows "dl nx' pv' p xs q'"
proof (cases xs rule: rev_cases)
  case Nil
  then show ?thesis by simp
next
  case (snoc ys y)
  have "dl nx pv p ys (Some y)" using assms(1) snoc by simp
  moreover have "dl nx pv p ys (Some y) = dl nx' pv' p ys (Some y)"
    using assms(2-4) snoc by (intro dl_cong) (auto, metis)
  ultimately show ?thesis
    using assms snoc by simp
qed

text \<open>\<dots> and when only the link that enters it changes.\<close>

lemma dl_relink_left:
  assumes "dl nx pv p xs q" and "distinct xs"
    and "\<And>x. x \<in> set xs \<Longrightarrow> nx' x = nx x"
    and "\<And>x. x \<in> set xs \<Longrightarrow> head_or None xs \<noteq> Some x \<Longrightarrow> pv' x = pv x"
    and "\<And>x. head_or None xs = Some x \<Longrightarrow> pv' x = p'"
  shows "dl nx' pv' p' xs q"
proof (cases xs)
  case Nil
  then show ?thesis by simp
next
  case (Cons y ys)
  have "dl nx pv (Some y) ys q" using assms(1) Cons by simp
  moreover have "dl nx pv (Some y) ys q = dl nx' pv' (Some y) ys q"
    using assms(2-4) Cons by (intro dl_cong) (auto, metis)
  ultimately show ?thesis
    using assms Cons by simp
qed

lemma dl_remove:
  assumes "dl nx pv None (as @ e # bs) None" and "distinct (as @ e # bs)"
    and "\<And>x. x \<in> set as \<Longrightarrow> pv' x = pv x"
    and "\<And>x. x \<in> set as \<Longrightarrow> last_or None as \<noteq> Some x \<Longrightarrow> nx' x = nx x"
    and "\<And>x. last_or None as = Some x \<Longrightarrow> nx' x = head_or None bs"
    and "\<And>x. x \<in> set bs \<Longrightarrow> nx' x = nx x"
    and "\<And>x. x \<in> set bs \<Longrightarrow> head_or None bs \<noteq> Some x \<Longrightarrow> pv' x = pv x"
    and "\<And>x. head_or None bs = Some x \<Longrightarrow> pv' x = last_or None as"
  shows "dl nx' pv' None (as @ bs) None"
proof -
  have "dl nx' pv' None as (head_or None bs)"
    using assms(1,2) by (intro dl_relink_right [where nx = nx and pv = pv, OF _ _ assms(3-5)]) auto
  moreover have "dl nx' pv' (last_or None as) bs None"
    using assms(1,2) by (intro dl_relink_left [where nx = nx and pv = pv, OF _ _ assms(6-8)]) auto
  ultimately show ?thesis by simp
qed

lemma dl_insert:
  assumes "dl nx pv None (as @ bs) None" and "distinct (as @ e # bs)"
    and "\<And>x. x \<in> set as \<Longrightarrow> pv' x = pv x"
    and "\<And>x. x \<in> set as \<Longrightarrow> last_or None as \<noteq> Some x \<Longrightarrow> nx' x = nx x"
    and "\<And>x. last_or None as = Some x \<Longrightarrow> nx' x = Some e"
    and "\<And>x. x \<in> set bs \<Longrightarrow> nx' x = nx x"
    and "\<And>x. x \<in> set bs \<Longrightarrow> head_or None bs \<noteq> Some x \<Longrightarrow> pv' x = pv x"
    and "\<And>x. head_or None bs = Some x \<Longrightarrow> pv' x = Some e"
    and "nx' e = head_or None bs" and "pv' e = last_or None as"
  shows "dl nx' pv' None (as @ e # bs) None"
proof -
  have "dl nx' pv' None as (Some e)"
    using assms(1,2) by (intro dl_relink_right [where nx = nx and pv = pv, OF _ _ assms(3-5)]) auto
  moreover have "dl nx' pv' (Some e) bs None"
    using assms(1,2) by (intro dl_relink_left [where nx = nx and pv = pv, OF _ _ assms(6-8)]) auto
  ultimately show ?thesis using assms(9,10) by simp
qed

text \<open>Two lists with different nodes do not share a head.\<close>

lemma head_or_in_set: "head_or None xs = Some x \<Longrightarrow> x \<in> set xs"
  by (cases xs) auto

lemma last_or_in_set: "last_or None xs = Some x \<Longrightarrow> x \<in> set xs"
  by (auto simp: last_or_Some_iff)

end
