(* ===== verification/AllocatorLists.thy ===== *)
theory AllocatorLists
  imports MemoryAllocator DList
begin

text \<open>
  The lists by size class of the allocator: what \<open>unchain_from_freelist\<close>,
  \<open>unchain_entry_from_free_list\<close> and \<open>chain_entry_to_free_list\<close> do to them. The
  invariant \<open>fl_ok pool fl szf A\<close> says that each of the twelve heads starts a
  doubly linked list of exactly the entries of \<open>A\<close> in that class, in the order
  of their recorded sizes \<open>szf\<close>.
\<close>

section \<open>Invariant of the lists by size class\<close>

abbreviation ln :: "MemoryEntryPool \<Rightarrow> nat \<Rightarrow> nat option" where
  "ln pool \<equiv> \<lambda>i. list_next (pool ! i)"

abbreviation lp :: "MemoryEntryPool \<Rightarrow> nat \<Rightarrow> nat option" where
  "lp pool \<equiv> \<lambda>i. list_prev (pool ! i)"

text \<open>
  The entries of \<open>X\<close> are exempt from the order by size. \<open>X\<close> is empty except in
  the middle of \<open>free\<close>, when an entry is filed while the recorded size of another
  one is out of date.
\<close>

definition class_gen :: "nat set \<Rightarrow> MemoryEntryPool \<Rightarrow> (nat \<Rightarrow> usize) \<Rightarrow> nat set \<Rightarrow> nat \<Rightarrow> nat list \<Rightarrow> bool" where
  "class_gen X pool szf A k ys \<longleftrightarrow> distinct ys \<and> set ys = {i \<in> A. size_to_page_order (szf i) = k} \<and>
     dl (ln pool) (lp pool) None ys None \<and> sorted (map szf (filter (\<lambda>i. i \<notin> X) ys))"

definition fl_gen :: "nat set \<Rightarrow> MemoryEntryPool \<Rightarrow> FreeList \<Rightarrow> (nat \<Rightarrow> usize) \<Rightarrow> nat set \<Rightarrow> bool" where
  "fl_gen X pool fl szf A \<longleftrightarrow> length fl = NUM_OF_FREE_LIST \<and>
     (\<forall>k < NUM_OF_FREE_LIST. \<exists>ys. class_gen X pool szf A k ys \<and> fl ! k = head_or None ys)"

abbreviation class_list :: "MemoryEntryPool \<Rightarrow> (nat \<Rightarrow> usize) \<Rightarrow> nat set \<Rightarrow> nat \<Rightarrow> nat list \<Rightarrow> bool" where
  "class_list \<equiv> class_gen {}"

abbreviation fl_ok :: "MemoryEntryPool \<Rightarrow> FreeList \<Rightarrow> (nat \<Rightarrow> usize) \<Rightarrow> nat set \<Rightarrow> bool" where
  "fl_ok \<equiv> fl_gen {}"

text \<open>All but the two links of the size-class lists.\<close>

definition core :: "MemoryEntry \<Rightarrow> MemoryEntry" where
  "core x = x\<lparr>list_prev := None, list_next := None\<rparr>"

definition same_core :: "MemoryEntryPool \<Rightarrow> MemoryEntryPool \<Rightarrow> bool" where
  "same_core pool pool' \<longleftrightarrow> length pool' = length pool \<and> (\<forall>i. core (pool' ! i) = core (pool ! i))"

section \<open>Elementary facts\<close>

lemma length_pool_upd [simp]: "length (pool_upd pool i f) = length pool"
  by (simp add: pool_upd_def)

lemma pool_upd_nth [simp]:
  "i < length pool \<Longrightarrow> pool_upd pool i f ! j = (if j = i then f (pool ! i) else pool ! j)"
  by (simp add: pool_upd_def nth_list_update)

lemma core_simps [simp]:
  "core (x\<lparr>list_prev := v\<rparr>) = core x" "core (x\<lparr>list_next := v\<rparr>) = core x"
  by (simp_all add: core_def)

lemma core_eqD:
  assumes "core x = core y"
  shows "previous x = previous y" "nxt x = nxt y" "start_addr x = start_addr y"
    "end_addr x = end_addr y" "enabled x = enabled y" "entry_id x = entry_id y"
    "get_size x = get_size y"
proof -
  have *: "previous (core z) = previous z" "nxt (core z) = nxt z" "start_addr (core z) = start_addr z"
    "end_addr (core z) = end_addr z" "enabled (core z) = enabled z" "entry_id (core z) = entry_id z"
    for z
    by (simp_all add: core_def)
  show "previous x = previous y" "nxt x = nxt y" "enabled x = enabled y" "entry_id x = entry_id y"
    using assms *(1,2,5,6) by metis+
  show s: "start_addr x = start_addr y" and e: "end_addr x = end_addr y"
    using assms *(3,4) by metis+
  show "get_size x = get_size y" by (simp add: get_size_def s e)
qed

lemma same_core_refl [simp]: "same_core pool pool"
  by (simp add: same_core_def)

lemma same_core_trans [trans]: "same_core p q \<Longrightarrow> same_core q r \<Longrightarrow> same_core p r"
  by (simp add: same_core_def)

lemma same_coreD:
  assumes "same_core pool pool'"
  shows "length pool' = length pool" "previous (pool' ! i) = previous (pool ! i)"
    "nxt (pool' ! i) = nxt (pool ! i)" "start_addr (pool' ! i) = start_addr (pool ! i)"
    "end_addr (pool' ! i) = end_addr (pool ! i)" "enabled (pool' ! i) = enabled (pool ! i)"
    "entry_id (pool' ! i) = entry_id (pool ! i)" "get_size (pool' ! i) = get_size (pool ! i)"
  using assms core_eqD [of "pool' ! i" "pool ! i"] by (simp_all add: same_core_def)

lemma size_to_page_order_loop_less:
  "order < NUM_OF_FREE_LIST - 1 \<Longrightarrow> size_to_page_order_loop sz order < NUM_OF_FREE_LIST"
proof (induction sz order rule: size_to_page_order_loop.induct)
  case (1 sz order)
  then show ?case
    by (subst size_to_page_order_loop.simps) (auto simp: NUM_OF_FREE_LIST_def)
qed

lemma size_to_page_order_less [simp]: "size_to_page_order sz < NUM_OF_FREE_LIST"
  unfolding size_to_page_order_def by (rule size_to_page_order_loop_less) (simp add: NUM_OF_FREE_LIST_def)

lemma get_list_next_eq:
  "ln pool e = h \<Longrightarrow> (\<And>x. h = Some x \<Longrightarrow> x < POOL_SIZE) \<Longrightarrow> get_list_next pool e = h"
  by (cases h) (auto simp: get_list_next_def get_memory_entry_def)

lemma get_list_prev_eq:
  "lp pool e = h \<Longrightarrow> (\<And>x. h = Some x \<Longrightarrow> x < POOL_SIZE) \<Longrightarrow> get_list_prev pool e = h"
  by (cases h) (auto simp: get_list_prev_def get_memory_entry_def)

section \<open>Unlinking an entry\<close>

lemma unchain_from_freelist_nth:
  assumes dl: "dl (ln pool) (lp pool) None (as @ e # bs) None" and dist: "distinct (as @ e # bs)"
    and bound: "set (as @ e # bs) \<subseteq> {..<POOL_SIZE}" and len: "length pool = POOL_SIZE"
  shows "length (unchain_from_freelist pool e) = POOL_SIZE \<and>
    unchain_from_freelist pool e ! i =
      (if i = e then (pool ! e)\<lparr>list_next := None, list_prev := None\<rparr>
       else if last_or None as = Some i then (pool ! i)\<lparr>list_next := head_or None bs\<rparr>
       else if head_or None bs = Some i then (pool ! i)\<lparr>list_prev := last_or None as\<rparr>
       else pool ! i)"
proof -
  have prev: "get_list_prev pool e = last_or None as"
    using bound by (intro get_list_prev_eq dl_prev [OF dl]) (auto dest: last_or_in_set)
  have nx: "ln pool e = head_or None bs" and pv: "lp pool e = last_or None as"
    using dl by simp_all
  have hb: "x < POOL_SIZE \<and> x \<noteq> e \<and> last_or None as \<noteq> Some x" if "head_or None bs = Some x" for x
    using head_or_in_set [OF that] bound dist by (auto dest!: last_or_in_set)
  have lb: "x < POOL_SIZE \<and> x \<noteq> e" if "last_or None as = Some x" for x
    using last_or_in_set [OF that] bound dist by auto
  have nx1: "get_list_next q e = head_or None bs" if "ln q e = head_or None bs" for q
    using that hb by (intro get_list_next_eq) auto
  have "e < POOL_SIZE" using bound by simp
  show ?thesis
  proof (cases "last_or None as")
    case None
    show ?thesis
      using hb \<open>e < POOL_SIZE\<close>
      by (cases "head_or None bs")
         (auto simp: unchain_from_freelist_def prev None nx1 nx pv len Let_def)
  next
    case (Some x)
    with lb have x: "x < POOL_SIZE" "x \<noteq> e" by auto
    show ?thesis
      using hb x \<open>e < POOL_SIZE\<close> Some
      by (cases "head_or None bs")
         (auto simp: unchain_from_freelist_def prev nx1 nx pv len Let_def)
  qed
qed

lemma unchain_from_freelist_spec:
  assumes dl: "dl (ln pool) (lp pool) None (as @ e # bs) None" and dist: "distinct (as @ e # bs)"
    and bound: "set (as @ e # bs) \<subseteq> {..<POOL_SIZE}" and len: "length pool = POOL_SIZE"
  defines "pool' \<equiv> unchain_from_freelist pool e"
  shows "same_core pool pool'" "ln pool' e = None" "lp pool' e = None"
    "dl (ln pool') (lp pool') None (as @ bs) None"
    "\<And>i. i \<notin> set (as @ e # bs) \<Longrightarrow> pool' ! i = pool ! i"
proof -
  note nth = unchain_from_freelist_nth [OF dl dist bound len, folded pool'_def]
  show "same_core pool pool'" using nth len by (simp add: same_core_def)
  show "ln pool' e = None" "lp pool' e = None" using nth by simp_all
  show "dl (ln pool') (lp pool') None (as @ bs) None"
    using dist nth by (intro dl_remove [OF dl dist]) (auto dest: head_or_in_set last_or_in_set)
  show "pool' ! i = pool ! i" if "i \<notin> set (as @ e # bs)" for i
    using that nth by (auto dest: head_or_in_set last_or_in_set)
qed

text \<open>Removing entry \<open>e\<close> from its size-class list, head included.\<close>

definition fl_remove :: "MemoryEntryPool \<Rightarrow> FreeList \<Rightarrow> nat \<Rightarrow> nat \<Rightarrow> FreeList" where
  "fl_remove pool fl k e =
     (if fl ! k = Some (entry_id (pool ! e)) then fl[k := list_next (pool ! e)] else fl)"

lemma class_gen_cong:
  assumes "class_gen X pool szf A k ys"
    and "\<And>i. i \<in> set ys \<Longrightarrow> ln pool' i = ln pool i \<and> lp pool' i = lp pool i"
    and "\<And>i. i \<in> set ys \<Longrightarrow> szf' i = szf i"
    and "{i \<in> A'. size_to_page_order (szf' i) = k} = {i \<in> A. size_to_page_order (szf i) = k}"
  shows "class_gen X pool' szf' A' k ys"
proof -
  have "dl (ln pool') (lp pool') None ys None = dl (ln pool) (lp pool) None ys None"
    using assms(2) by (intro dl_cong) auto
  moreover have "sorted (map szf' (filter (\<lambda>i. i \<notin> X) ys)) = sorted (map szf (filter (\<lambda>i. i \<notin> X) ys))"
    using assms(3) by (intro arg_cong [of _ _ sorted] map_cong) auto
  ultimately show ?thesis using assms(1,4) by (simp add: class_gen_def)
qed

lemma fl_gen_remove:
  assumes ok: "fl_gen X pool fl szf A" and e: "e \<in> A" and A: "A \<subseteq> {..<POOL_SIZE}"
    and len: "length pool = POOL_SIZE" and id: "entry_id (pool ! e) = e"
    and k: "k = size_to_page_order (szf e)"
  defines "pool' \<equiv> unchain_from_freelist pool e"
  shows "fl_gen (X - {e}) pool' (fl_remove pool fl k e) szf (A - {e})" "same_core pool pool'"
    "ln pool' e = None" "lp pool' e = None" "\<And>i. i \<notin> A \<Longrightarrow> pool' ! i = pool ! i"
proof -
  have "k < NUM_OF_FREE_LIST" using k by simp
  with ok obtain ys where ys: "class_gen X pool szf A k ys" "fl ! k = head_or None ys"
    and lenfl: "length fl = NUM_OF_FREE_LIST"
    by (auto simp: fl_gen_def)
  have "e \<in> set ys" using ys(1) e k by (simp add: class_gen_def)
  then obtain as bs where split: "ys = as @ e # bs" by (meson split_list)
  have dl: "dl (ln pool) (lp pool) None (as @ e # bs) None" and dist: "distinct (as @ e # bs)"
    and set: "set (as @ e # bs) = {i \<in> A. size_to_page_order (szf i) = k}"
    and srt: "sorted (map szf (filter (\<lambda>i. i \<notin> X) (as @ e # bs)))"
    using ys(1) by (simp_all add: class_gen_def split)
  have bound: "set (as @ e # bs) \<subseteq> {..<POOL_SIZE}" using set A by blast
  note un = unchain_from_freelist_spec [OF dl dist bound len, folded pool'_def]
  show "same_core pool pool'" "ln pool' e = None" "lp pool' e = None" by (fact un)+
  show "pool' ! i = pool ! i" if "i \<notin> A" for i using that set by (intro un(5)) auto
  have head: "fl_remove pool fl k e ! k = head_or None (as @ bs)"
  proof (cases as)
    case Nil
    then show ?thesis using ys(2) dl lenfl \<open>k < NUM_OF_FREE_LIST\<close> by (simp add: fl_remove_def split id)
  next
    case (Cons a as')
    then show ?thesis using ys(2) dist by (simp add: fl_remove_def split id)
  qed
  have here: "class_gen (X - {e}) pool' szf (A - {e}) k (as @ bs)"
    unfolding class_gen_def
  proof (intro conjI)
    show "set (as @ bs) = {i \<in> A - {e}. size_to_page_order (szf i) = k}"
      using set dist by auto
    have "filter (\<lambda>i. i \<notin> X - {e}) (as @ bs) = filter (\<lambda>i. i \<notin> X) (as @ bs)"
      using dist by (intro filter_cong) auto
    then show "sorted (map szf (filter (\<lambda>i. i \<notin> X - {e}) (as @ bs)))"
      using srt by (auto simp: sorted_append split: if_splits)
  qed (use un(4) dist in simp_all)
  show "fl_gen (X - {e}) pool' (fl_remove pool fl k e) szf (A - {e})"
    unfolding fl_gen_def
  proof (intro conjI allI impI)
    show "length (fl_remove pool fl k e) = NUM_OF_FREE_LIST" using lenfl by (simp add: fl_remove_def)
    fix j assume j: "j < NUM_OF_FREE_LIST"
    show "\<exists>ys. class_gen (X - {e}) pool' szf (A - {e}) j ys \<and> fl_remove pool fl k e ! j = head_or None ys"
    proof (cases "j = k")
      case True
      then show ?thesis using here head by blast
    next
      case False
      from ok j obtain zs where zs: "class_gen X pool szf A j zs" "fl ! j = head_or None zs"
        by (auto simp: fl_gen_def)
      have "class_gen X pool' szf (A - {e}) j zs"
      proof (rule class_gen_cong [OF zs(1)])
        fix i assume "i \<in> set zs"
        then have "i \<notin> set (as @ e # bs)" using zs(1) set False by (auto simp: class_gen_def)
        then show "ln pool' i = ln pool i \<and> lp pool' i = lp pool i" by (simp add: un(5))
      qed (use False k in auto)
      moreover have "e \<notin> set zs" using zs(1) False k by (auto simp: class_gen_def)
      then have "filter (\<lambda>i. i \<notin> X - {e}) zs = filter (\<lambda>i. i \<notin> X) zs" by (intro filter_cong) auto
      ultimately have "class_gen (X - {e}) pool' szf (A - {e}) j zs" by (simp add: class_gen_def)
      moreover have "fl_remove pool fl k e ! j = fl ! j" using False by (simp add: fl_remove_def)
      ultimately show ?thesis using zs(2) by auto
    qed
  qed
qed

section \<open>Linking an entry in\<close>

definition linked_in :: "MemoryEntryPool \<Rightarrow> MemoryEntryPool \<Rightarrow> nat list \<Rightarrow> nat \<Rightarrow> nat list \<Rightarrow> bool" where
  "linked_in pool pool' as e bs \<longleftrightarrow> length pool' = length pool \<and>
     (\<forall>i. pool' ! i =
       (if i = e then (pool ! e)\<lparr>list_prev := last_or None as, list_next := head_or None bs\<rparr>
        else if last_or None as = Some i then (pool ! i)\<lparr>list_next := Some e\<rparr>
        else if head_or None bs = Some i then (pool ! i)\<lparr>list_prev := Some e\<rparr>
        else pool ! i))"

lemma linked_in_spec:
  assumes link: "linked_in pool pool' as e bs"
    and dl: "dl (ln pool) (lp pool) None (as @ bs) None" and dist: "distinct (as @ e # bs)"
  shows "same_core pool pool'" "dl (ln pool') (lp pool') None (as @ e # bs) None"
    "\<And>i. i \<notin> set (as @ e # bs) \<Longrightarrow> pool' ! i = pool ! i"
proof -
  show "same_core pool pool'" using link by (simp add: linked_in_def same_core_def)
  show "dl (ln pool') (lp pool') None (as @ e # bs) None"
    using dist link
    by (intro dl_insert [OF dl dist]) (auto simp: linked_in_def dest: head_or_in_set last_or_in_set)
  show "pool' ! i = pool ! i" if "i \<notin> set (as @ e # bs)" for i
    using that link by (auto simp: linked_in_def dest: head_or_in_set last_or_in_set)
qed

text \<open>The place the loop chooses: after entries smaller than \<open>ns\<close>, before one that is not.\<close>

definition placed :: "(nat \<Rightarrow> usize) \<Rightarrow> usize \<Rightarrow> nat list \<Rightarrow> nat list \<Rightarrow> bool" where
  "placed gz ns as bs \<longleftrightarrow> (\<forall>c \<in> set as. gz c < ns) \<and> (\<forall>d. head_or None bs = Some d \<longrightarrow> ns \<le> gz d)"

lemma placed_sorted:
  assumes "placed gz ns as bs" and "sorted (map szf (as @ bs))" and "\<And>i. i \<in> set (as @ bs) \<Longrightarrow> gz i = szf i"
  shows "\<forall>c \<in> set as. szf c < ns" "\<forall>d \<in> set bs. ns \<le> szf d"
  using assms by (auto simp: placed_def sorted_append) (cases bs; auto)

lemma chain_insert_loop_spec:
  assumes "dl (ln pool) (lp pool) None (as @ le # bs) None" and "distinct (as @ le # bs)"
    and "e \<notin> set (as @ le # bs)" and "set (as @ le # bs) \<subseteq> {..<POOL_SIZE}" and "e < POOL_SIZE"
    and "length pool = POOL_SIZE" and "ln pool e = None"
    and "\<And>i. i \<in> set (e # as @ le # bs) \<Longrightarrow> entry_id (pool ! i) = i"
    and "\<And>i. i \<in> set bs \<Longrightarrow> get_size (pool ! i) = Some (gz i)"
  shows "\<exists>cs ds pool'. bs = cs @ ds \<and> placed gz ns cs ds \<and>
    chain_insert_loop pool e ns le = Some pool' \<and> linked_in pool pool' (as @ le # cs) e ds"
  using assms
proof (induction bs arbitrary: as le)
  case Nil
  have "get_list_next pool le = None"
    using Nil.prems(1) by (intro get_list_next_eq) simp_all
  then show ?case
    using Nil.prems by (subst chain_insert_loop.simps) (auto simp: linked_in_def Let_def placed_def)
next
  case (Cons b bs)
  have nx: "get_list_next pool le = Some b"
    using Cons.prems(1,4) by (intro get_list_next_eq) auto
  have gs: "get_size (pool ! b) = Some (gz b)" using Cons.prems(9) by simp
  show ?case
  proof (cases "ns \<le> gz b")
    case True
    define pool' where "pool' =
        (let p1 = pool_upd pool le (\<lambda>x. x\<lparr>list_next := Some (entry_id (pool ! e))\<rparr>);
             p2 = pool_upd p1 e (\<lambda>x. x\<lparr>list_prev := Some (entry_id (p1 ! le)),
                                       list_next := Some (entry_id (p1 ! b))\<rparr>)
         in pool_upd p2 b (\<lambda>x. x\<lparr>list_prev := Some (entry_id (p2 ! e))\<rparr>))"
    have "linked_in pool pool' (as @ [le]) e (b # bs)"
      using Cons.prems by (auto simp: linked_in_def Let_def pool'_def)
    moreover have "placed gz ns [] (b # bs)" using True by (simp add: placed_def)
    moreover have "chain_insert_loop pool e ns le = Some pool'"
      by (subst chain_insert_loop.simps) (simp add: nx gs True Let_def pool'_def)
    ultimately show ?thesis
      by (intro exI [of _ "[]::nat list"] exI [of _ "b # bs"] exI [of _ pool']) simp
  next
    case False
    have "\<exists>cs ds pool'. bs = cs @ ds \<and> placed gz ns cs ds \<and>
      chain_insert_loop pool e ns b = Some pool' \<and> linked_in pool pool' ((as @ [le]) @ b # cs) e ds"
      using Cons.prems by (intro Cons.IH) auto
    then obtain cs ds pool' where h: "bs = cs @ ds" "placed gz ns cs ds"
      "chain_insert_loop pool e ns b = Some pool'" "linked_in pool pool' ((as @ [le]) @ b # cs) e ds"
      by blast
    have "chain_insert_loop pool e ns le = Some pool'"
      using False h(3) by (subst chain_insert_loop.simps) (simp add: nx gs)
    with h False show ?thesis
      by (intro exI [of _ "b # cs"] exI [of _ ds] exI [of _ pool']) (auto simp: placed_def)
  qed
qed

text \<open>The head of the class of the inserted entry changes only when it goes first.\<close>

lemma chain_insert_entry_link:
  assumes cl: "class_gen X pool szf A k ys" "fl ! k = head_or None ys" and k: "k = size_to_page_order ns"
    and e: "e \<notin> A" "e < POOL_SIZE" and A: "A \<subseteq> {..<POOL_SIZE}" and len: "length pool = POOL_SIZE"
    and id: "\<And>i. i \<in> insert e A \<Longrightarrow> entry_id (pool ! i) = i"
    and szs: "\<And>i. i \<in> A \<Longrightarrow> get_size (pool ! i) = Some (gz i)"
    and links: "ln pool e = None" "lp pool e = None"
  shows "\<exists>as bs pool'. ys = as @ bs \<and> placed gz ns as bs \<and>
    chain_insert_entry pool fl e ns = Some (pool', if as = [] then fl[k := Some e] else fl) \<and>
    linked_in pool pool' as e bs"
proof (cases ys)
  case Nil
  then show ?thesis
    using cl k links id by (auto simp: chain_insert_entry_def linked_in_def Let_def placed_def)
next
  case (Cons le bs)
  have dl: "dl (ln pool) (lp pool) None (le # bs) None" and dist: "distinct (le # bs)"
    and sub: "set (le # bs) \<subseteq> A"
    using cl(1) by (auto simp: class_gen_def Cons)
  have hd: "Option.bind (fl ! size_to_page_order ns) (\<lambda>i. result_ok (get_memory_entry pool i)) = Some le"
    using cl(2) sub A k Cons by (auto simp: get_memory_entry_def)
  have gs: "get_size (pool ! le) = Some (gz le)" using szs sub by simp
  have le: "le < POOL_SIZE" "le \<noteq> e" "le \<in> A" using sub A e by auto
  show ?thesis
  proof (cases "ns \<le> gz le")
    case True
    define pool' where "pool' = pool_upd (pool_upd pool le (\<lambda>x. x\<lparr>list_prev := Some e\<rparr>)) e
        (\<lambda>x. x\<lparr>list_next := Some le\<rparr>)"
    have "linked_in pool pool' [] e (le # bs)"
      using le e len id links by (auto simp: linked_in_def pool'_def)
    moreover have "placed gz ns [] (le # bs)" using True by (simp add: placed_def)
    moreover have "chain_insert_entry pool fl e ns = Some (pool', fl[k := Some e])"
      using le e len id by (simp add: chain_insert_entry_def hd gs True links Let_def k pool'_def)
    ultimately show ?thesis
      by (intro exI [of _ "[]::nat list"] exI [of _ "le # bs"] exI [of _ pool']) (simp add: Cons)
  next
    case False
    have "\<exists>cs ds pool'. bs = cs @ ds \<and> placed gz ns cs ds \<and>
      chain_insert_loop pool e ns le = Some pool' \<and> linked_in pool pool' ([] @ le # cs) e ds"
      using dl dist sub A e len links id szs by (intro chain_insert_loop_spec) auto
    then obtain cs ds pool' where h: "bs = cs @ ds" "placed gz ns cs ds"
      "chain_insert_loop pool e ns le = Some pool'" "linked_in pool pool' (le # cs) e ds"
      by auto
    with False show ?thesis
      by (intro exI [of _ "le # cs"] exI [of _ ds] exI [of _ pool'])
         (simp add: chain_insert_entry_def hd gs links Let_def Cons placed_def)
  qed
qed

lemma fl_gen_insert:
  assumes ok: "fl_gen X pool fl szf A" and e: "e \<notin> A" "e < POOL_SIZE" and A: "A \<subseteq> {..<POOL_SIZE}"
    and len: "length pool = POOL_SIZE"
    and id: "\<And>i. i \<in> insert e A \<Longrightarrow> entry_id (pool ! i) = i"
    and szs: "\<And>i. i \<in> A \<Longrightarrow> get_size (pool ! i) = Some (gz i)"
    and Y: "X \<subseteq> Y" "Y \<subseteq> insert e X" "e \<in> Y \<or> X = {} \<and> (\<forall>i \<in> A. gz i = szf i)"
    and links: "ln pool e = None" "lp pool e = None"
  shows "\<exists>pool' fl'. chain_insert_entry pool fl e ns = Some (pool', fl') \<and>
    fl_gen Y pool' fl' (szf(e := ns)) (insert e A) \<and> same_core pool pool' \<and>
    (\<forall>i. i \<notin> insert e A \<longrightarrow> pool' ! i = pool ! i)"
proof -
  define k where "k = size_to_page_order ns"
  have "k < NUM_OF_FREE_LIST" by (simp add: k_def)
  with ok obtain ys where ys: "class_gen X pool szf A k ys" "fl ! k = head_or None ys"
    and lenfl: "length fl = NUM_OF_FREE_LIST"
    by (auto simp: fl_gen_def)
  from chain_insert_entry_link [OF ys k_def e A len id szs links]
  obtain as bs pool' where split: "ys = as @ bs" and pl: "placed gz ns as bs"
    and run: "chain_insert_entry pool fl e ns = Some (pool', if as = [] then fl[k := Some e] else fl)"
    and link: "linked_in pool pool' as e bs"
    by blast
  define fl' where "fl' = (if as = [] then fl[k := Some e] else fl)"
  have dl: "dl (ln pool) (lp pool) None (as @ bs) None" and dist0: "distinct (as @ bs)"
    and set: "set (as @ bs) = {i \<in> A. size_to_page_order (szf i) = k}" and srt: "sorted (map szf (filter (\<lambda>i. i \<notin> X) (as @ bs)))"
    using ys(1) by (simp_all add: class_gen_def split)
  have dist: "distinct (as @ e # bs)" using dist0 set e(1) by auto
  note sp = linked_in_spec [OF link dl dist]
  have rest: "filter (\<lambda>i. i \<notin> Y) zs = filter (\<lambda>i. i \<notin> X) zs" if "e \<notin> set zs" for zs
    using Y that by (intro filter_cong) auto
  have order: "sorted (map (szf(e := ns)) (filter (\<lambda>i. i \<notin> Y) (as @ e # bs)))"
  proof (cases "e \<in> Y")
    case True
    then have "filter (\<lambda>i. i \<notin> Y) (as @ e # bs) = filter (\<lambda>i. i \<notin> X) (as @ bs)"
      using dist rest by simp
    moreover have "map (szf(e := ns)) (filter (\<lambda>i. i \<notin> X) (as @ bs)) = map szf (filter (\<lambda>i. i \<notin> X) (as @ bs))"
      using dist by auto
    ultimately show ?thesis using srt by (simp only:)
  next
    case False
    then have "Y = {}" "X = {}" and gz: "gz i = szf i" if "i \<in> set (as @ bs)" for i
      using Y set that by blast+
    have map_eq: "map (szf(e := ns)) as = map szf as" "map (szf(e := ns)) bs = map szf bs"
      using dist by auto
    have "X = {}" "Y = {}" using Y False by blast+
    then show ?thesis using srt placed_sorted [OF pl, of szf] gz by (auto simp: map_eq sorted_append less_imp_le)
  qed
  have here: "class_gen Y pool' (szf(e := ns)) (insert e A) k (as @ e # bs)"
    unfolding class_gen_def
  proof (intro conjI)
    show "set (as @ e # bs) = {i \<in> insert e A. size_to_page_order ((szf(e := ns)) i) = k}"
      using set e(1) by (auto simp: k_def)
    show "sorted (map (szf(e := ns)) (filter (\<lambda>i. i \<notin> Y) (as @ e # bs)))" by (fact order)
  qed (use sp(2) dist in simp_all)
  have "fl_gen Y pool' fl' (szf(e := ns)) (insert e A)"
    unfolding fl_gen_def
  proof (intro conjI allI impI)
    show "length fl' = NUM_OF_FREE_LIST" using lenfl by (simp add: fl'_def)
    fix j assume j: "j < NUM_OF_FREE_LIST"
    show "\<exists>ys. class_gen Y pool' (szf(e := ns)) (insert e A) j ys \<and> fl' ! j = head_or None ys"
    proof (cases "j = k")
      case True
      have "fl' ! k = head_or None (as @ e # bs)"
        using ys(2) lenfl \<open>k < NUM_OF_FREE_LIST\<close> by (cases as) (auto simp: fl'_def split)
      then show ?thesis using True here by blast
    next
      case False
      from ok j obtain zs where zs: "class_gen X pool szf A j zs" "fl ! j = head_or None zs"
        by (auto simp: fl_gen_def)
      have "class_gen X pool' (szf(e := ns)) (insert e A) j zs"
      proof (rule class_gen_cong [OF zs(1)])
        fix i assume i: "i \<in> set zs"
        then have "i \<noteq> e" "i \<notin> set (as @ bs)" using zs(1) set False e(1) by (auto simp: class_gen_def)
        then show "ln pool' i = ln pool i \<and> lp pool' i = lp pool i" "(szf(e := ns)) i = szf i"
          using sp(3) [of i] by auto
      qed (use False e(1) k_def in auto)
      moreover have "e \<notin> set zs" using zs(1) e(1) by (auto simp: class_gen_def)
      ultimately have "class_gen Y pool' (szf(e := ns)) (insert e A) j zs" by (simp add: class_gen_def rest)
      moreover have "fl' ! j = fl ! j" using False by (simp add: fl'_def)
      ultimately show ?thesis using zs(2) by auto
    qed
  qed
  moreover have "pool' ! i = pool ! i" if "i \<notin> insert e A" for i
    using that set by (intro sp(3)) auto
  ultimately show ?thesis using run sp(1) by (auto simp: fl'_def)
qed

section \<open>The two operations of the source\<close>

lemma chain_entry_None:
  assumes "fl_ok pool fl szf A" and "e \<notin> A" "e < POOL_SIZE" and "A \<subseteq> {..<POOL_SIZE}"
    and "length pool = POOL_SIZE"
    and "\<And>i. i \<in> insert e A \<Longrightarrow> entry_id (pool ! i) = i"
    and "\<And>i. i \<in> A \<Longrightarrow> get_size (pool ! i) = Some (szf i)"
    and "ln pool e = None" "lp pool e = None" and "get_size (pool ! e) = Some ns"
  obtains pool' fl' where "chain_entry_to_free_list pool fl e None = Some (pool', fl')"
    "fl_ok pool' fl' (szf(e := ns)) (insert e A)" "same_core pool pool'"
    "\<And>i. i \<notin> insert e A \<Longrightarrow> pool' ! i = pool ! i"
proof -
  from fl_gen_insert [OF assms(1-7) _ _ _ assms(8,9), of "{}" ns] obtain pool' fl'
    where "chain_insert_entry pool fl e ns = Some (pool', fl')"
      "fl_ok pool' fl' (szf(e := ns)) (insert e A)" "same_core pool pool'"
      "\<forall>i. i \<notin> insert e A \<longrightarrow> pool' ! i = pool ! i"
    by blast
  with assms(10) show thesis
    by (intro that [of pool' fl']) (auto simp: chain_entry_to_free_list_def)
qed

lemma fl_gen_exempt:
  assumes "fl_gen X pool fl szf A" and "X \<subseteq> Y"
  shows "fl_gen Y pool fl szf A"
proof -
  have "class_gen Y pool szf A k ys" if "class_gen X pool szf A k ys" for k ys
  proof -
    have "filter (\<lambda>i. i \<notin> Y) ys = filter (\<lambda>i. i \<notin> Y) (filter (\<lambda>i. i \<notin> X) ys)"
      using assms(2) by (auto intro: filter_cong)
    moreover have "sorted (map szf (filter (\<lambda>i. i \<notin> Y) (filter (\<lambda>i. i \<notin> X) ys)))"
      by (rule sorted_filter) (use that in \<open>simp add: class_gen_def\<close>)
    ultimately show ?thesis using that unfolding class_gen_def by (simp only: simp_thms)
  qed
  with assms(1) show ?thesis unfolding fl_gen_def by blast
qed

text \<open>
  In general the sizes \<open>gz\<close> of the other entries may differ from the recorded ones;
  then the filed entry is exempt from the order.
\<close>

lemma chain_entry_general:
  assumes ok: "fl_ok pool fl szf A" and e: "e \<in> A" and A: "A \<subseteq> {..<POOL_SIZE}"
    and len: "length pool = POOL_SIZE"
    and id: "\<And>i. i \<in> A \<Longrightarrow> entry_id (pool ! i) = i"
    and szs: "\<And>i. i \<in> A - {e} \<Longrightarrow> get_size (pool ! i) = Some (gz i)"
    and Y: "Y = {e} \<or> Y = {} \<and> (\<forall>i \<in> A - {e}. gz i = szf i)"
    and old: "szf e = old" and new: "get_size (pool ! e) = Some ns"
  obtains pool' fl' where "chain_entry_to_free_list pool fl e (Some old) = Some (pool', fl')"
    "fl_gen Y pool' fl' (szf(e := ns)) A" "same_core pool pool'" "\<And>i. i \<notin> A \<Longrightarrow> pool' ! i = pool ! i"
proof (cases "old = ns")
  case True
  with old have "szf(e := ns) = szf" by auto
  moreover from ok have "fl_gen Y pool fl szf A"
    by (rule fl_gen_exempt) simp
  ultimately show thesis
    using True new by (intro that [of pool fl]) (auto simp: chain_entry_to_free_list_def)
next
  case False
  define k where "k = size_to_page_order old"
  define pool1 where "pool1 = unchain_from_freelist pool e"
  note rem = fl_gen_remove [OF ok e A len id [OF e] k_def [folded old], folded pool1_def]
  note sc = same_coreD [OF rem(2)]
  have "\<exists>pool' fl'. chain_insert_entry pool1 (fl_remove pool fl k e) e ns = Some (pool', fl') \<and>
    fl_gen Y pool' fl' (szf(e := ns)) (insert e (A - {e})) \<and> same_core pool1 pool' \<and>
    (\<forall>i. i \<notin> insert e (A - {e}) \<longrightarrow> pool' ! i = pool1 ! i)"
    using rem e A len id szs Y by (intro fl_gen_insert [where X = "{}" and gz = gz]) (auto simp: sc)
  then obtain pool' fl' where h: "chain_insert_entry pool1 (fl_remove pool fl k e) e ns = Some (pool', fl')"
    "fl_gen Y pool' fl' (szf(e := ns)) A" "same_core pool1 pool'" "\<And>i. i \<notin> A \<Longrightarrow> pool' ! i = pool1 ! i"
    using e by (auto simp: insert_absorb)
  show thesis
  proof (rule that [of pool' fl'])
    show "chain_entry_to_free_list pool fl e (Some old) = Some (pool', fl')"
      using h(1) new False
      by (simp add: chain_entry_to_free_list_def fl_remove_def pool1_def k_def Let_def)
    show "same_core pool pool'" using rem(2) h(3) by (rule same_core_trans)
    show "pool' ! i = pool ! i" if "i \<notin> A" for i using that h(4) rem(5) by simp
  qed (fact h(2))
qed

lemma chain_entry_Some:
  assumes "fl_ok pool fl szf A" and "e \<in> A" and "A \<subseteq> {..<POOL_SIZE}"
    and "length pool = POOL_SIZE"
    and "\<And>i. i \<in> A \<Longrightarrow> entry_id (pool ! i) = i"
    and "\<And>i. i \<in> A - {e} \<Longrightarrow> get_size (pool ! i) = Some (szf i)"
    and "szf e = old" and "get_size (pool ! e) = Some ns"
  obtains pool' fl' where "chain_entry_to_free_list pool fl e (Some old) = Some (pool', fl')"
    "fl_ok pool' fl' (szf(e := ns)) A" "same_core pool pool'" "\<And>i. i \<notin> A \<Longrightarrow> pool' ! i = pool ! i"
  by (rule chain_entry_general [OF assms(1-6) _ assms(7,8), of "{}"]) (use that in auto)

lemma unchain_entry:
  assumes ok: "fl_gen X pool fl szf A" and e: "e \<in> A" and A: "A \<subseteq> {..<POOL_SIZE}"
    and len: "length pool = POOL_SIZE" and id: "entry_id (pool ! e) = e"
    and sz: "get_size (pool ! e) = Some (szf e)"
  obtains pool' fl' where "unchain_entry_from_free_list pool fl e = Some (pool', fl')"
    "fl_gen (X - {e}) pool' fl' szf (A - {e})" "same_core pool pool'" "ln pool' e = None" "lp pool' e = None"
    "\<And>i. i \<notin> A \<Longrightarrow> pool' ! i = pool ! i"
proof -
  note rem = fl_gen_remove [OF ok e A len id refl]
  have "unchain_entry_from_free_list pool fl e =
    Some (unchain_from_freelist pool e, fl_remove pool fl (size_to_page_order (szf e)) e)"
    by (simp add: unchain_entry_from_free_list_def sz fl_remove_def Let_def)
  then show thesis by (rule that) (fact rem)+
qed

text \<open>A list by size class only depends on the links and on the recorded sizes.\<close>

lemma fl_gen_cong:
  assumes "fl_gen X pool fl szf A"
    and "\<And>i. i \<in> A \<Longrightarrow> ln pool' i = ln pool i \<and> lp pool' i = lp pool i"
    and "\<And>i. i \<in> A \<Longrightarrow> szf' i = szf i"
  shows "fl_gen X pool' fl szf' A"
proof -
  have "class_gen X pool' szf' A k ys" if "class_gen X pool szf A k ys" for k ys
    using that assms(2,3) by (intro class_gen_cong [OF that]) (auto simp: class_gen_def)
  with assms(1) show ?thesis unfolding fl_gen_def by blast
qed

end
