(* ===== verification/AllocatorInv.thy ===== *)
theory AllocatorInv
  imports AllocatorLists
begin

text \<open>
  The invariant of the allocator and its abstraction: the set of free bytes.
  \<open>addr_ok\<close> describes the list in address order (the enabled entries, linked both
  ways, as disjoint ranges with at least one used byte between neighbours);
  \<open>alloc_inv\<close> adds the lists by size class and the byte counter. The lemmas of
  this theory are about the elementary changes of the pool: resizing an entry,
  deleting one, adding one.
\<close>

section \<open>Invariant and abstraction\<close>

abbreviation nx :: "MemoryEntryPool \<Rightarrow> nat \<Rightarrow> nat option" where
  "nx pool \<equiv> \<lambda>i. nxt (pool ! i)"

abbreviation pv :: "MemoryEntryPool \<Rightarrow> nat \<Rightarrow> nat option" where
  "pv pool \<equiv> \<lambda>i. previous (pool ! i)"

definition esz :: "MemoryEntry \<Rightarrow> usize" where
  "esz x = end_addr x - start_addr x + 1"

definition range_of :: "MemoryEntry \<Rightarrow> nat set" where
  "range_of x = {start_addr x..end_addr x}"

definition live :: "MemoryEntryPool \<Rightarrow> nat set" where
  "live pool = {i. i < POOL_SIZE \<and> enabled (pool ! i)}"

definition bytes_of :: "MemoryEntryPool \<Rightarrow> nat set \<Rightarrow> nat set" where
  "bytes_of pool A = (\<Union>i \<in> A. range_of (pool ! i))"

definition free_bytes :: "MemoryAllocator \<Rightarrow> nat set" where
  "free_bytes s = bytes_of (memory_entry_pool s) (live (memory_entry_pool s))"

definition entry_ok :: "MemoryEntryPool \<Rightarrow> nat \<Rightarrow> bool" where
  "entry_ok pool i \<longleftrightarrow> entry_id (pool ! i) = i \<and> start_addr (pool ! i) < end_addr (pool ! i) \<and>
     end_addr (pool ! i) + 1 < 2 ^ 64"

definition before :: "MemoryEntryPool \<Rightarrow> nat \<Rightarrow> nat \<Rightarrow> bool" where
  "before pool i j \<longleftrightarrow> end_addr (pool ! i) + 1 < start_addr (pool ! j)"

definition addr_ok :: "MemoryEntryPool \<Rightarrow> nat option \<Rightarrow> nat list \<Rightarrow> bool" where
  "addr_ok pool first xs \<longleftrightarrow> length pool = POOL_SIZE \<and> distinct xs \<and> set xs = live pool \<and>
     first = head_or None xs \<and> dl (nx pool) (pv pool) None xs None \<and>
     (\<forall>i \<in> set xs. entry_ok pool i) \<and> sorted_wrt (before pool) xs"

definition lists_ok :: "MemoryEntryPool \<Rightarrow> FreeList \<Rightarrow> bool" where
  "lists_ok pool fl \<longleftrightarrow> fl_ok pool fl (\<lambda>i. esz (pool ! i)) (live pool)"

definition alloc_inv :: "MemoryAllocator \<Rightarrow> bool" where
  "alloc_inv s \<longleftrightarrow> (\<exists>xs. addr_ok (memory_entry_pool s) (first_entry s) xs \<and> (xs = [] \<longrightarrow> free_size s = 0)) \<and>
     lists_ok (memory_entry_pool s) (free_list s) \<and>
     card (free_bytes s) \<le> free_size s \<and> free_size s < 2 ^ 64"

section \<open>Elementary facts\<close>

lemma get_size_ok: "entry_ok pool i \<Longrightarrow> get_size (pool ! i) = Some (esz (pool ! i))"
  by (auto simp: entry_ok_def get_size_def esz_def usize_sub_def usize_add_def)

lemma get_size_range:
  "start_addr x < end_addr x \<Longrightarrow> end_addr x + 1 < 2 ^ 64 \<Longrightarrow> get_size x = Some (esz x)"
  by (auto simp: get_size_def esz_def usize_sub_def usize_add_def)

lemma get_end_address_ok:
  "0 < sz \<Longrightarrow> start + sz < 2 ^ 64 \<Longrightarrow> get_end_address start sz = Some (start + sz - 1)"
  by (auto simp: get_end_address_def usize_add_def usize_sub_def)

lemma live_less: "i \<in> live pool \<Longrightarrow> i < POOL_SIZE"
  by (simp add: live_def)

lemma live_subset: "live pool \<subseteq> {..<POOL_SIZE}"
  by (auto simp: live_def)

lemma finite_live [simp]: "finite (live pool)"
  by (rule finite_subset [OF live_subset]) simp

lemma finite_bytes_of [simp]: "finite A \<Longrightarrow> finite (bytes_of pool A)"
  by (simp add: bytes_of_def range_of_def)

lemma get_next_entry_eq:
  "nx pool e = h \<Longrightarrow> (\<And>x. h = Some x \<Longrightarrow> x < POOL_SIZE) \<Longrightarrow> get_next_entry pool e = h"
  by (cases h) (auto simp: get_next_entry_def get_memory_entry_def)

lemma get_prev_entry_eq:
  "pv pool e = h \<Longrightarrow> (\<And>x. h = Some x \<Longrightarrow> x < POOL_SIZE) \<Longrightarrow> get_prev_entry pool e = h"
  by (cases h) (auto simp: get_prev_entry_def get_memory_entry_def)

text \<open>The links of the list in address order alone.\<close>

definition linked :: "MemoryEntryPool \<Rightarrow> nat list \<Rightarrow> bool" where
  "linked pool xs \<longleftrightarrow> length pool = POOL_SIZE \<and> distinct xs \<and> dl (nx pool) (pv pool) None xs None \<and>
     (\<forall>i \<in> set xs. i < POOL_SIZE \<and> entry_id (pool ! i) = i)"

lemma addr_ok_linked: "addr_ok pool first xs \<Longrightarrow> linked pool xs"
  by (auto simp: addr_ok_def linked_def entry_ok_def live_def)

lemma linked_next:
  assumes "linked pool (as @ e # bs)"
  shows "get_next_entry pool e = head_or None bs"
proof (rule get_next_entry_eq)
  show "nx pool e = head_or None bs" using assms by (simp add: linked_def)
  show "x < POOL_SIZE" if "head_or None bs = Some x" for x
    using assms head_or_in_set [OF that] by (simp add: linked_def)
qed

lemma linked_prev:
  assumes "linked pool (as @ e # bs)"
  shows "get_prev_entry pool e = last_or None as"
proof (rule get_prev_entry_eq)
  show "pv pool e = last_or None as" using assms by (simp add: linked_def)
  show "x < POOL_SIZE" if "last_or None as = Some x" for x
    using assms last_or_in_set [OF that] by (simp add: linked_def)
qed

lemmas addr_ok_next = linked_next [OF addr_ok_linked]

lemma addr_ok_prev:
  assumes "addr_ok pool first (as @ e # bs)"
  shows "get_prev_entry pool e = last_or None as" "previous (pool ! e) = last_or None as"
  using linked_prev [OF addr_ok_linked [OF assms]] assms by (simp_all add: addr_ok_def)

lemma addr_ok_first: "addr_ok pool first (as @ e # bs) \<Longrightarrow> is_first_entry (pool ! e) \<longleftrightarrow> as = []"
  by (simp add: is_first_entry_def addr_ok_prev last_or_None_iff)

text \<open>Everything but the size-class lists is determined by the core.\<close>

lemma live_core: "same_core pool pool' \<Longrightarrow> live pool' = live pool"
  by (simp add: live_def same_coreD)

lemma esz_core: "same_core pool pool' \<Longrightarrow> esz (pool' ! i) = esz (pool ! i)"
  by (simp add: esz_def same_coreD)

lemma bytes_of_core: "same_core pool pool' \<Longrightarrow> bytes_of pool' A = bytes_of pool A"
  by (simp add: bytes_of_def range_of_def same_coreD)

lemma entry_ok_core: "same_core pool pool' \<Longrightarrow> entry_ok pool' i = entry_ok pool i"
  by (simp add: entry_ok_def same_coreD)

lemma addr_ok_core:
  assumes "same_core pool pool'"
  shows "addr_ok pool' first xs = addr_ok pool first xs"
proof -
  have "before pool' = before pool"
    by (intro ext) (simp add: before_def same_coreD [OF assms])
  then show ?thesis
    using assms by (simp add: addr_ok_def live_core entry_ok_core same_coreD)
qed

text \<open>\<dots> and by the core of the enabled entries.\<close>

lemma addr_ok_transfer:
  assumes ok: "addr_ok pool first xs" and len: "length pool' = POOL_SIZE" and live: "live pool' = live pool"
    and same: "\<And>i. i \<in> live pool \<Longrightarrow> previous (pool' ! i) = previous (pool ! i) \<and> nxt (pool' ! i) = nxt (pool ! i) \<and>
      start_addr (pool' ! i) = start_addr (pool ! i) \<and> end_addr (pool' ! i) = end_addr (pool ! i) \<and>
      entry_id (pool' ! i) = entry_id (pool ! i)"
  shows "addr_ok pool' first xs"
proof -
  have mem: "set xs = live pool" and srt: "sorted_wrt (before pool) xs"
    and dl: "dl (nx pool) (pv pool) None xs None"
    using ok unfolding addr_ok_def by blast+
  have "sorted_wrt (before pool') xs"
    by (rule sorted_wrt_mono_rel [OF _ srt]) (use mem same in \<open>auto simp: before_def\<close>)
  moreover have "dl (nx pool') (pv pool') None xs None"
    using dl dl_cong [of xs "nx pool'" "nx pool" "pv pool'" "pv pool" None None] mem same by simp
  ultimately show ?thesis using ok len live mem same by (auto simp: addr_ok_def entry_ok_def)
qed

section \<open>Ranges are disjoint\<close>

lemma addr_ok_entry: "addr_ok pool first xs \<Longrightarrow> i \<in> live pool \<Longrightarrow> entry_ok pool i"
  by (simp add: addr_ok_def)

lemma addr_ok_before:
  assumes "addr_ok pool first xs" and "i \<in> live pool" and "j \<in> live pool" and "i \<noteq> j"
  shows "before pool i j \<or> before pool j i"
proof -
  have srt: "sorted_wrt (before pool) xs" and i: "i \<in> set xs" and j: "j \<in> set xs"
    using assms by (simp_all add: addr_ok_def)
  from i j obtain m n where "m < length xs" "n < length xs" "xs ! m = i" "xs ! n = j"
    by (metis in_set_conv_nth)
  with assms(4) srt show ?thesis
    by (metis linorder_neqE_nat sorted_wrt_nth_less)
qed

lemma disjoint_ranges:
  assumes "addr_ok pool first xs" and "i \<in> live pool" and "j \<in> live pool" and "i \<noteq> j"
  shows "range_of (pool ! i) \<inter> range_of (pool ! j) = {}"
  using addr_ok_before [OF assms] addr_ok_entry [OF assms(1,2)] addr_ok_entry [OF assms(1,3)]
  by (auto simp: before_def range_of_def entry_ok_def)

lemma disjoint_rest:
  assumes "addr_ok pool first xs" and "e \<in> live pool"
  shows "range_of (pool ! e) \<inter> bytes_of pool (live pool - {e}) = {}"
  using disjoint_ranges [OF assms(1)] assms(2) unfolding bytes_of_def by blast

lemma bytes_of_split: "e \<in> A \<Longrightarrow> bytes_of pool A = range_of (pool ! e) \<union> bytes_of pool (A - {e})"
  by (auto simp: bytes_of_def)

lemma bytes_of_insert: "bytes_of pool (insert e A) = range_of (pool ! e) \<union> bytes_of pool A"
  by (auto simp: bytes_of_def)

lemma bytes_of_cong:
  "(\<And>i. i \<in> A \<Longrightarrow> start_addr (pool' ! i) = start_addr (pool ! i) \<and> end_addr (pool' ! i) = end_addr (pool ! i))
   \<Longrightarrow> bytes_of pool' A = bytes_of pool A"
  by (simp add: bytes_of_def range_of_def)

text \<open>A run of free bytes lies inside one entry.\<close>

lemma byte_after_entry:
  assumes "addr_ok pool first xs" and "e \<in> live pool"
  shows "end_addr (pool ! e) + 1 \<notin> bytes_of pool (live pool)"
proof
  assume "end_addr (pool ! e) + 1 \<in> bytes_of pool (live pool)"
  then obtain i where i: "i \<in> live pool" "end_addr (pool ! e) + 1 \<in> range_of (pool ! i)"
    by (auto simp: bytes_of_def)
  then have "i \<noteq> e" by (auto simp: range_of_def)
  with addr_ok_before [OF assms(1) i(1) assms(2)] i(2) addr_ok_entry [OF assms] show False
    by (auto simp: before_def range_of_def entry_ok_def)
qed

lemma byte_before_entry:
  assumes "addr_ok pool first xs" and "e \<in> live pool"
  shows "0 < start_addr (pool ! e) \<Longrightarrow> start_addr (pool ! e) - 1 \<notin> bytes_of pool (live pool)"
proof
  assume pos: "0 < start_addr (pool ! e)" and "start_addr (pool ! e) - 1 \<in> bytes_of pool (live pool)"
  then obtain i where i: "i \<in> live pool" "start_addr (pool ! e) - 1 \<in> range_of (pool ! i)"
    by (auto simp: bytes_of_def)
  then have "i \<noteq> e" using pos by (auto simp: range_of_def)
  with addr_ok_before [OF assms(1) i(1) assms(2)] i(2) addr_ok_entry [OF assms] show False
    by (auto simp: before_def range_of_def entry_ok_def)
qed

lemma run_in_one_entry:
  assumes "addr_ok pool first xs" and "0 < sz" and "{a..<a + sz} \<subseteq> bytes_of pool (live pool)"
  obtains e where "e \<in> live pool" "start_addr (pool ! e) \<le> a" "a + sz - 1 \<le> end_addr (pool ! e)"
proof -
  have "a \<in> bytes_of pool (live pool)" using assms(2,3) by auto
  then obtain e where e: "e \<in> live pool" "a \<in> range_of (pool ! e)" by (auto simp: bytes_of_def)
  have "a + sz - 1 \<le> end_addr (pool ! e)"
  proof (rule ccontr)
    assume "\<not> ?thesis"
    then have "end_addr (pool ! e) + 1 \<in> {a..<a + sz}" using e(2) assms(2) by (auto simp: range_of_def)
    then have "end_addr (pool ! e) + 1 \<in> bytes_of pool (live pool)" by (rule subsetD [OF assms(3)])
    with byte_after_entry [OF assms(1) e(1)] show False by simp
  qed
  with e show thesis by (intro that [of e]) (auto simp: range_of_def)
qed

section \<open>Changing the range of an entry\<close>

lemma sorted_wrt_cong:
  "(\<And>x y. x \<in> set xs \<Longrightarrow> y \<in> set xs \<Longrightarrow> P x y \<Longrightarrow> Q x y) \<Longrightarrow> sorted_wrt P xs \<Longrightarrow> sorted_wrt Q xs"
  by (rule sorted_wrt_mono_rel [of xs P Q])

definition resize :: "MemoryEntryPool \<Rightarrow> nat \<Rightarrow> usize \<Rightarrow> usize \<Rightarrow> MemoryEntryPool" where
  "resize pool e s t = pool_upd pool e (\<lambda>x. x\<lparr>start_addr := s, end_addr := t\<rparr>)"

lemma set_range_eq: "set_range pool e s t = (if s < t then Some (resize pool e s t) else None)"
  by (simp add: set_range_def resize_def rust_assert_def)

lemma resize_nth:
  "e < length pool \<Longrightarrow>
   resize pool e s t ! i = (if i = e then (pool ! e)\<lparr>start_addr := s, end_addr := t\<rparr> else pool ! i)"
  by (simp add: resize_def)

lemma length_resize [simp]: "length (resize pool e s t) = length pool"
  by (simp add: resize_def)

lemma live_resize: "length pool = POOL_SIZE \<Longrightarrow> e < POOL_SIZE \<Longrightarrow> live (resize pool e s t) = live pool"
  by (auto simp: live_def resize_nth)

text \<open>Shrinking keeps the list in address order.\<close>

lemma addr_ok_shrink:
  assumes ok: "addr_ok pool first xs" and e: "e \<in> live pool"
    and "start_addr (pool ! e) \<le> s" and "s < t" and "t \<le> end_addr (pool ! e)"
  shows "addr_ok (resize pool e s t) first xs"
proof -
  have len: "length pool = POOL_SIZE" and "e < POOL_SIZE"
    using ok e by (auto simp: addr_ok_def live_def)
  then have nth: "resize pool e s t ! i =
      (if i = e then (pool ! e)\<lparr>start_addr := s, end_addr := t\<rparr> else pool ! i)" for i
    by (simp add: resize_nth)
  have lk: "nx (resize pool e s t) = nx pool" "pv (resize pool e s t) = pv pool"
    by (auto simp: nth)
  have srt: "sorted_wrt (before (resize pool e s t)) xs"
  proof (rule sorted_wrt_cong)
    show "sorted_wrt (before pool) xs" using ok by (simp add: addr_ok_def)
    show "before (resize pool e s t) i j" if "before pool i j" for i j
      using that assms(3-5) by (auto simp: before_def nth split: if_splits)
  qed
  have "entry_ok (resize pool e s t) i" if "i \<in> live pool" for i
    using that addr_ok_entry [OF ok that] assms(4,5) by (auto simp: entry_ok_def nth)
  with ok lk srt len \<open>e < POOL_SIZE\<close> show ?thesis
    by (simp add: addr_ok_def live_resize)
qed

lemma bytes_of_resize:
  assumes "length pool = POOL_SIZE" and "e < POOL_SIZE" and "e \<in> A"
  shows "bytes_of (resize pool e s t) A = {s..t} \<union> bytes_of pool (A - {e})"
proof -
  have "bytes_of (resize pool e s t) (A - {e}) = bytes_of pool (A - {e})"
    using assms by (intro bytes_of_cong) (auto simp: resize_nth)
  with assms show ?thesis
    by (simp add: bytes_of_split [OF assms(3)] range_of_def resize_nth)
qed

section \<open>Deleting an entry\<close>

lemma delete_entry_nth:
  assumes ok: "linked pool (as @ e # bs)"
  shows "length (delete_entry pool e) = POOL_SIZE \<and> delete_entry pool e ! i =
      (if i = e then (pool ! e)\<lparr>previous := None, nxt := None, enabled := False\<rparr>
       else if last_or None as = Some i then (pool ! i)\<lparr>nxt := head_or None bs\<rparr>
       else if head_or None bs = Some i then (pool ! i)\<lparr>previous := last_or None as\<rparr>
       else pool ! i)"
proof -
  have len: "length pool = POOL_SIZE" and dist: "distinct (as @ e # bs)"
    and mem: "\<And>x. x \<in> set (as @ e # bs) \<Longrightarrow> x < POOL_SIZE \<and> entry_id (pool ! x) = x"
    using ok by (auto simp: linked_def)
  note nxe = linked_next [OF ok] and pve = linked_prev [OF ok]
  have hb: "x < POOL_SIZE \<and> x \<noteq> e \<and> last_or None as \<noteq> Some x \<and> entry_id (pool ! x) = x"
    if "head_or None bs = Some x" for x
    using head_or_in_set [OF that] mem dist by (auto dest!: last_or_in_set)
  have lb: "x < POOL_SIZE \<and> x \<noteq> e \<and> entry_id (pool ! x) = x" if "last_or None as = Some x" for x
    using last_or_in_set [OF that] mem dist by auto
  have "e < POOL_SIZE" using mem by simp
  show ?thesis
  proof (cases "last_or None as")
    case None
    show ?thesis
      using hb \<open>e < POOL_SIZE\<close>
      by (cases "head_or None bs")
         (auto simp: delete_entry_def pve nxe None len Let_def unset_prev_entry_def)
  next
    case (Some x)
    with lb have x: "x < POOL_SIZE" "x \<noteq> e" "entry_id (pool ! x) = x" by auto
    show ?thesis
      using hb x \<open>e < POOL_SIZE\<close> Some
      by (cases "head_or None bs")
         (auto simp: delete_entry_def pve nxe len Let_def unset_next_entry_def chain_after_me_def)
  qed
qed

lemma addr_ok_delete:
  assumes ok: "addr_ok pool first (as @ e # bs)"
  shows "addr_ok (delete_entry pool e) (head_or None (as @ bs)) (as @ bs)"
    and "live (delete_entry pool e) = live pool - {e}"
    and "\<And>i. i \<noteq> e \<Longrightarrow> ln (delete_entry pool e) i = ln pool i \<and> lp (delete_entry pool e) i = lp pool i \<and>
      start_addr (delete_entry pool e ! i) = start_addr (pool ! i) \<and>
      end_addr (delete_entry pool e ! i) = end_addr (pool ! i)"
proof -
  note nth = delete_entry_nth [OF addr_ok_linked [OF ok]]
  have dist: "distinct (as @ e # bs)" and set: "set (as @ e # bs) = live pool"
    and dl: "dl (nx pool) (pv pool) None (as @ e # bs) None"
    and ents: "\<forall>i \<in> set (as @ e # bs). entry_ok pool i" and srt: "sorted_wrt (before pool) (as @ e # bs)"
    using ok unfolding addr_ok_def by blast+
  show frame: "ln (delete_entry pool e) i = ln pool i \<and> lp (delete_entry pool e) i = lp pool i \<and>
      start_addr (delete_entry pool e ! i) = start_addr (pool ! i) \<and>
      end_addr (delete_entry pool e ! i) = end_addr (pool ! i)" if "i \<noteq> e" for i
    using that nth by simp
  show live: "live (delete_entry pool e) = live pool - {e}"
    using nth by (auto simp: live_def)
  have "dl (nx (delete_entry pool e)) (pv (delete_entry pool e)) None (as @ bs) None"
    using dist nth by (intro dl_remove [OF dl dist]) (auto dest: head_or_in_set last_or_in_set)
  moreover have "sorted_wrt (before (delete_entry pool e)) (as @ bs)"
  proof (rule sorted_wrt_cong)
    show "sorted_wrt (before pool) (as @ bs)" using srt by (simp add: sorted_wrt_append)
    show "before (delete_entry pool e) i j" if "i \<in> set (as @ bs)" "j \<in> set (as @ bs)" "before pool i j" for i j
    proof -
      have "i \<noteq> e" "j \<noteq> e" using that(1,2) dist by auto
      then show ?thesis using that(3) frame by (simp add: before_def)
    qed
  qed
  moreover have "\<forall>i \<in> set (as @ bs). entry_ok (delete_entry pool e) i"
  proof
    fix i assume i: "i \<in> set (as @ bs)"
    then have "i \<noteq> e" using dist by auto
    with i ents frame nth show "entry_ok (delete_entry pool e) i"
      by (auto simp: entry_ok_def)
  qed
  moreover have "set (as @ bs) = live (delete_entry pool e)"
    using set dist live by auto
  ultimately show "addr_ok (delete_entry pool e) (head_or None (as @ bs)) (as @ bs)"
    using dist nth by (simp add: addr_ok_def)
qed

section \<open>Adding an entry\<close>

lemma find_disabled_Some:
  "find_disabled i pool = Some j \<Longrightarrow> i \<le> j \<and> j - i < length pool \<and> \<not> enabled (pool ! (j - i))"
proof (induction i pool rule: find_disabled.induct)
  case (2 i e es)
  then show ?case by (auto simp: nth_Cons' Suc_diff_Suc split: if_splits)
qed simp

lemma find_disabled_None: "find_disabled i pool = None \<longleftrightarrow> (\<forall>e \<in> set pool. enabled e)"
  by (induction i pool rule: find_disabled.induct) auto

lemma create_memory_entry_cases:
  assumes "length pool = POOL_SIZE"
  obtains (full) "create_memory_entry pool = (Inl NoEntry, pool)" "live pool = {..<POOL_SIZE}"
  | (new) n where "n < POOL_SIZE" "n \<notin> live pool"
      "create_memory_entry pool = (Inr n, pool[n := MemoryEntry_new\<lparr>entry_id := n, enabled := True\<rparr>])"
proof (cases "find_disabled 0 pool")
  case None
  then have "create_memory_entry pool = (Inl NoEntry, pool)"
    by (simp add: create_memory_entry_def)
  moreover have "live pool = {..<POOL_SIZE}"
    using None assms by (auto simp: find_disabled_None live_def)
  ultimately show thesis by (rule full)
next
  case (Some n)
  with find_disabled_Some [OF Some] assms show thesis
    by (intro new [of n]) (auto simp: create_memory_entry_def live_def)
qed

text \<open>
  Linking a fresh entry \<open>n\<close> between \<open>as\<close> and \<open>bs\<close>: the pool \<open>pool'\<close> differs
  from \<open>pool\<close> in \<open>n\<close> and in the links of its two neighbours.
\<close>

lemma addr_ok_insert:
  assumes ok: "addr_ok pool first (as @ bs)" and n: "n \<notin> live pool" "n < POOL_SIZE"
    and len': "length pool' = POOL_SIZE"
    and nth: "\<And>i. i \<noteq> n \<Longrightarrow> pool' ! i =
       (if last_or None as = Some i then (pool ! i)\<lparr>nxt := Some n\<rparr>
        else if head_or None bs = Some i then (pool ! i)\<lparr>previous := Some n\<rparr>
        else pool ! i)"
    and new: "enabled (pool' ! n)" "entry_ok pool' n"
      "nxt (pool' ! n) = head_or None bs" "previous (pool' ! n) = last_or None as"
    and lo: "\<And>i. i \<in> set as \<Longrightarrow> end_addr (pool ! i) + 1 < start_addr (pool' ! n)"
    and hi: "\<And>i. i \<in> set bs \<Longrightarrow> end_addr (pool' ! n) + 1 < start_addr (pool ! i)"
  shows "addr_ok pool' (head_or None (as @ n # bs)) (as @ n # bs)" and "live pool' = insert n (live pool)"
proof -
  have len: "length pool = POOL_SIZE" and dist0: "distinct (as @ bs)" and set: "set (as @ bs) = live pool"
    and dl: "dl (nx pool) (pv pool) None (as @ bs) None"
    and ents: "\<forall>i \<in> set (as @ bs). entry_ok pool i" and srt: "sorted_wrt (before pool) (as @ bs)"
    using ok unfolding addr_ok_def by blast+
  have dist: "distinct (as @ n # bs)" using dist0 set n(1) by auto
  have "enabled (pool' ! i) = enabled (pool ! i)" if "i \<noteq> n" for i
    using nth [OF that] by simp
  then show live: "live pool' = insert n (live pool)"
    using new(1) n by (auto simp: live_def) (metis)+
  have frame: "start_addr (pool' ! i) = start_addr (pool ! i) \<and> end_addr (pool' ! i) = end_addr (pool ! i)
      \<and> entry_id (pool' ! i) = entry_id (pool ! i)" if "i \<noteq> n" for i
    using that nth by simp
  have in_as: "x \<noteq> n \<and> head_or None bs \<noteq> Some x" if "x \<in> set as" for x
    using that dist by (auto dest!: head_or_in_set)
  have in_bs: "x \<noteq> n \<and> last_or None as \<noteq> Some x" if "x \<in> set bs" for x
    using that dist by (auto dest!: last_or_in_set)
  have "dl (nx pool') (pv pool') None (as @ n # bs) None"
  proof (rule dl_insert [OF dl dist])
    show "nx pool' x = Some n" if "last_or None as = Some x" for x
      using that nth [of x] in_as [OF last_or_in_set [OF that]] by simp
    show "pv pool' x = Some n" if "head_or None bs = Some x" for x
      using that nth [of x] in_bs [OF head_or_in_set [OF that]] by simp
  qed (use new nth in_as in_bs in simp_all)
  moreover have "sorted_wrt (before pool') (as @ n # bs)"
  proof -
    have "sorted_wrt (before pool') (as @ bs)"
    proof (rule sorted_wrt_cong [OF _ srt])
      show "before pool' i j" if "i \<in> set (as @ bs)" "j \<in> set (as @ bs)" "before pool i j" for i j
        using that in_as in_bs frame [of i] frame [of j] by (auto simp: before_def)
    qed
    moreover have "before pool' i n" if "i \<in> set as" for i
      using lo [OF that] frame [of i] in_as [OF that] by (simp add: before_def)
    moreover have "before pool' n i" if "i \<in> set bs" for i
      using hi [OF that] frame [of i] in_bs [OF that] by (simp add: before_def)
    ultimately show ?thesis by (auto simp: sorted_wrt_append)
  qed
  moreover have "\<forall>i \<in> set (as @ n # bs). entry_ok pool' i"
  proof
    fix i assume "i \<in> set (as @ n # bs)"
    then show "entry_ok pool' i"
      using new(2) ents frame [of i] by (cases "i = n") (auto simp: entry_ok_def)
  qed
  ultimately show "addr_ok pool' (head_or None (as @ n # bs)) (as @ n # bs)"
    using dist len' live set by (auto simp: addr_ok_def)
qed

end
