(* ===== verification/AllocatorUsed.thy ===== *)
theory AllocatorUsed
  imports AllocatorInv
begin

text \<open>
  Taking memory: \<open>define_used_memory\<close> removes exactly the requested range from
  the free bytes and keeps the invariant, for each of the shapes the range can
  have inside its entry.
\<close>

section \<open>What taking a range means\<close>

definition takes :: "MemoryAllocator \<Rightarrow> MemoryAllocator \<Rightarrow> usize \<Rightarrow> usize \<Rightarrow> bool" where
  "takes s s' start sz \<longleftrightarrow> alloc_inv s' \<and> {start..<start + sz} \<subseteq> free_bytes s \<and>
     free_bytes s' = free_bytes s - {start..<start + sz} \<and> free_size s' = free_size s - sz"

text \<open>The range lies in entry \<open>e\<close>.\<close>

definition within :: "MemoryAllocator \<Rightarrow> nat \<Rightarrow> usize \<Rightarrow> usize \<Rightarrow> bool" where
  "within s e start sz \<longleftrightarrow> e \<in> live (memory_entry_pool s) \<and>
     start_addr (memory_entry_pool s ! e) \<le> start \<and> start + sz \<le> end_addr (memory_entry_pool s ! e) + 1"

text \<open>
  No remainder of a single byte is left: \<open>set_range\<close> insists on \<open>start < end\<close>
  with an inclusive end, so such a remainder stops the hypervisor.
\<close>

definition no_stump :: "MemoryEntry \<Rightarrow> usize \<Rightarrow> usize \<Rightarrow> bool" where
  "no_stump x start sz \<longleftrightarrow> start \<noteq> start_addr x + 1 \<and> start + sz \<noteq> end_addr x"

lemma alloc_invE:
  assumes "alloc_inv s"
  obtains xs where "addr_ok (memory_entry_pool s) (first_entry s) xs" "xs = [] \<longrightarrow> free_size s = 0"
    "fl_ok (memory_entry_pool s) (free_list s) (\<lambda>i. esz (memory_entry_pool s ! i)) (live (memory_entry_pool s))"
    "card (free_bytes s) \<le> free_size s" "free_size s < 2 ^ 64"
  using assms by (auto simp: alloc_inv_def lists_ok_def)

lemma within_free_bytes: "within s e start sz \<Longrightarrow> {start..<start + sz} \<subseteq> free_bytes s"
proof -
  assume w: "within s e start sz"
  have "{start..<start + sz} \<subseteq> range_of (memory_entry_pool s ! e)"
    using w by (auto simp: within_def range_of_def)
  with w show ?thesis by (auto simp: within_def free_bytes_def bytes_of_def)
qed

lemma finite_free_bytes [simp]: "finite (free_bytes s)"
  by (simp add: free_bytes_def)

lemma takesI:
  assumes inv: "alloc_inv s" and w: "within s e start sz" and sz: "0 < sz"
    and addr: "addr_ok pool' first' xs'" "xs' \<noteq> []" and lists: "lists_ok pool' fl'"
    and bytes: "bytes_of pool' (live pool') = free_bytes s - {start..<start + sz}"
  shows "takes s (s\<lparr>free_size := free_size s - sz, first_entry := first', free_list := fl',
    memory_entry_pool := pool'\<rparr>) start sz"
proof -
  note sub = within_free_bytes [OF w]
  have "card (free_bytes s - {start..<start + sz}) = card (free_bytes s) - sz"
    using sub by (simp add: card_Diff_subset)
  then show ?thesis
    using inv addr lists sub bytes
    by (auto simp: takes_def alloc_inv_def free_bytes_def)
qed

text \<open>Removing the part of one entry that is not kept.\<close>

lemma free_bytes_cut:
  assumes inv: "alloc_inv s" and w: "within s e start sz"
  shows "free_bytes s - {start..<start + sz} =
    (range_of (memory_entry_pool s ! e) - {start..<start + sz}) \<union>
    bytes_of (memory_entry_pool s) (live (memory_entry_pool s) - {e})"
proof -
  let ?p = "memory_entry_pool s"
  from inv obtain xs where ok: "addr_ok ?p (first_entry s) xs" by (rule alloc_invE)
  have e: "e \<in> live ?p" and sub: "{start..<start + sz} \<subseteq> range_of (?p ! e)"
    using w by (auto simp: within_def range_of_def)
  from disjoint_rest [OF ok e] sub bytes_of_split [OF e, of ?p]
  show ?thesis unfolding free_bytes_def by blast
qed

text \<open>All 64 entries of the pool are in use.\<close>

definition pool_full :: "MemoryAllocator \<Rightarrow> bool" where
  "pool_full s \<longleftrightarrow> live (memory_entry_pool s) = {..<POOL_SIZE}"

section \<open>Shrinking an entry\<close>

lemma shrink_entry:
  assumes inv: "alloc_inv s" and w: "within s e start sz" and sz: "0 < sz"
    and S: "start_addr (memory_entry_pool s ! e) \<le> s1" and st: "s1 < t1"
    and E: "t1 \<le> end_addr (memory_entry_pool s ! e)"
    and cut: "range_of (memory_entry_pool s ! e) - {start..<start + sz} = {s1..t1}"
  obtains pool' fl' where
    "chain_entry_to_free_list (resize (memory_entry_pool s) e s1 t1) (free_list s) e
       (Some (esz (memory_entry_pool s ! e))) = Some (pool', fl')"
    "takes s (s\<lparr>free_size := free_size s - sz, free_list := fl', memory_entry_pool := pool'\<rparr>) start sz"
proof -
  let ?p = "memory_entry_pool s" and ?q = "resize (memory_entry_pool s) e s1 t1"
  from inv obtain xs where ok: "addr_ok ?p (first_entry s) xs"
    and fl: "fl_ok ?p (free_list s) (\<lambda>i. esz (?p ! i)) (live ?p)"
    by (rule alloc_invE)
  have e: "e \<in> live ?p" "e < POOL_SIZE" and len: "length ?p = POOL_SIZE"
    using w ok by (auto simp: within_def live_def addr_ok_def)
  note nth = resize_nth [of e ?p s1 t1] and lv = live_resize [OF len e(2), of s1 t1]
  have qok: "addr_ok ?q (first_entry s) xs" using ok e(1) S st E by (rule addr_ok_shrink)
  have f1: "fl_ok ?q (free_list s) (\<lambda>i. esz (?p ! i)) (live ?p)"
    using fl by (rule fl_gen_cong) (use len e nth in auto)
  have gs: "get_size (?q ! i) = Some (esz (?q ! i))" if "i \<in> live ?p" for i
    using addr_ok_entry [OF qok] that by (simp add: get_size_ok lv)
  have gs': "get_size (?q ! i) = Some (esz (?p ! i))" if "i \<in> live ?p - {e}" for i
    using that gs [of i] nth len e by simp
  have ids: "entry_id (?q ! i) = i" if "i \<in> live ?p" for i
    using addr_ok_entry [OF qok] that by (simp add: entry_ok_def lv)
  have lenq: "length ?q = POOL_SIZE" using len by simp
  obtain pool' fl' where run:
      "chain_entry_to_free_list ?q (free_list s) e (Some (esz (?p ! e))) = Some (pool', fl')"
    and fl': "fl_ok pool' fl' ((\<lambda>i. esz (?p ! i))(e := esz (?q ! e))) (live ?p)"
    and sc: "same_core ?q pool'"
    by (rule chain_entry_Some [OF f1 e(1) live_subset lenq ids gs' refl gs [OF e(1)]]) assumption+
  have lv': "live pool' = live ?p" using live_core [OF sc] lv by simp
  have "lists_ok pool' fl'"
    unfolding lists_ok_def lv'
    using fl' by (rule fl_gen_cong) (use esz_core [OF sc] nth len e in auto)
  moreover have "addr_ok pool' (first_entry s) xs" using qok by (simp add: addr_ok_core [OF sc])
  moreover have "bytes_of pool' (live pool') = free_bytes s - {start..<start + sz}"
    unfolding free_bytes_cut [OF inv w] cut lv' bytes_of_core [OF sc]
    using len e(2,1) by (rule bytes_of_resize)
  moreover have "xs \<noteq> []" using ok e(1) by (auto simp: addr_ok_def)
  ultimately have "takes s (s\<lparr>free_size := free_size s - sz, first_entry := first_entry s, free_list := fl',
    memory_entry_pool := pool'\<rparr>) start sz"
    using takesI [OF inv w sz] by blast
  with run show thesis by (intro that) simp_all
qed

section \<open>Deleting an entry\<close>

lemma delete_whole_entry:
  assumes inv: "alloc_inv s" and w: "within s e start sz" and sz: "0 < sz"
    and whole: "range_of (memory_entry_pool s ! e) = {start..<start + sz}"
    and ok: "addr_ok (memory_entry_pool s) (first_entry s) (as @ e # bs)" and ne: "as @ bs \<noteq> []"
  obtains pool' fl' where
    "unchain_entry_from_free_list (memory_entry_pool s) (free_list s) e = Some (pool', fl')"
    "takes s (s\<lparr>free_size := free_size s - sz, first_entry := head_or None (as @ bs), free_list := fl',
        memory_entry_pool := delete_entry pool' e\<rparr>) start sz"
proof -
  let ?p = "memory_entry_pool s"
  have e: "e \<in> live ?p" "e < POOL_SIZE" and len: "length ?p = POOL_SIZE"
    using w ok by (auto simp: within_def live_def addr_ok_def)
  from inv have fl: "fl_ok ?p (free_list s) (\<lambda>i. esz (?p ! i)) (live ?p)"
    by (simp add: alloc_inv_def lists_ok_def)
  have ent: "entry_ok ?p e" using ok e(1) by (rule addr_ok_entry)
  have id: "entry_id (?p ! e) = e" using ent by (simp add: entry_ok_def)
  obtain pool' fl' where run: "unchain_entry_from_free_list ?p (free_list s) e = Some (pool', fl')"
    and fl': "fl_ok pool' fl' (\<lambda>i. esz (?p ! i)) (live ?p - {e})" and sc: "same_core ?p pool'"
    by (rule unchain_entry [OF fl e(1) live_subset len id get_size_ok [OF ent]]) auto
  have ok': "addr_ok pool' (first_entry s) (as @ e # bs)" using ok by (simp add: addr_ok_core [OF sc])
  note del = addr_ok_delete [OF ok']
  have lv: "live (delete_entry pool' e) = live ?p - {e}" using del(2) live_core [OF sc] by simp
  have "lists_ok (delete_entry pool' e) fl'"
    unfolding lists_ok_def lv
    using fl' by (rule fl_gen_cong) (use del(3) same_coreD [OF sc] in \<open>auto simp: esz_def\<close>)
  moreover have "bytes_of (delete_entry pool' e) (live (delete_entry pool' e)) =
      free_bytes s - {start..<start + sz}"
    unfolding free_bytes_cut [OF inv w] whole lv
    using del(3) same_coreD [OF sc] by (simp, intro bytes_of_cong) auto
  ultimately have "takes s (s\<lparr>free_size := free_size s - sz, first_entry := head_or None (as @ bs),
      free_list := fl', memory_entry_pool := delete_entry pool' e\<rparr>) start sz"
    using takesI [OF inv w sz del(1) ne] by blast
  with run show thesis by (intro that)
qed

section \<open>Splitting an entry\<close>

text \<open>The pool after linking the fresh entry \<open>n\<close> behind \<open>e\<close>, before the size-class lists are updated.\<close>

definition split_pool :: "MemoryEntryPool \<Rightarrow> nat \<Rightarrow> nat \<Rightarrow> usize \<Rightarrow> usize \<Rightarrow> MemoryEntryPool" where
  "split_pool pool e n ns ne =
     (let pool0 = pool[n := MemoryEntry_new\<lparr>entry_id := n, enabled := True\<rparr>];
          pool1 = resize pool0 n ns (end_addr (pool0 ! e));
          pool2 = resize pool1 e (start_addr (pool1 ! e)) ne;
          pool3 = (case get_next_entry pool2 e of
             Some x \<Rightarrow> chain_after_me pool2 n x | None \<Rightarrow> pool2)
      in chain_after_me pool3 e n)"

lemma split_pool_nth:
  assumes ok: "addr_ok pool first (as @ e # bs)" and n: "n \<notin> live pool" "n < POOL_SIZE"
  shows "length (split_pool pool e n ns ne) = POOL_SIZE \<and> split_pool pool e n ns ne ! i =
    (if i = n then MemoryEntry_new\<lparr>entry_id := n, enabled := True, start_addr := ns,
        end_addr := end_addr (pool ! e), previous := Some e, nxt := head_or None bs\<rparr>
     else if i = e then (pool ! e)\<lparr>end_addr := ne, nxt := Some n\<rparr>
     else if head_or None bs = Some i then (pool ! i)\<lparr>previous := Some n\<rparr>
     else pool ! i)"
proof -
  have len: "length pool = POOL_SIZE" and dist: "distinct (as @ e # bs)"
    and mem: "\<And>x. x \<in> set (as @ e # bs) \<Longrightarrow> x \<in> live pool \<and> entry_id (pool ! x) = x"
    using ok by (auto simp: addr_ok_def entry_ok_def)
  have e: "e < POOL_SIZE" "e \<noteq> n" "entry_id (pool ! e) = e"
    using mem [of e] n by (auto simp: live_def)
  have hb: "x < POOL_SIZE \<and> x \<noteq> e \<and> x \<noteq> n \<and> entry_id (pool ! x) = x" if "head_or None bs = Some x" for x
    using head_or_in_set [OF that] mem [of x] dist n by (auto simp: live_def)
  have nxe: "get_next_entry q e = head_or None bs" if "nxt (q ! e) = head_or None bs" for q
    using that hb by (intro get_next_entry_eq) auto
  have link: "nxt (pool ! e) = head_or None bs" using ok by (simp add: addr_ok_def)
  define pool0 where "pool0 = pool[n := MemoryEntry_new\<lparr>entry_id := n, enabled := True\<rparr>]"
  have p0: "length pool0 = POOL_SIZE" "pool0 ! e = pool ! e"
      "pool0 ! n = MemoryEntry_new\<lparr>entry_id := n, enabled := True\<rparr>"
      "\<And>j. j \<noteq> n \<Longrightarrow> pool0 ! j = pool ! j"
    using len n e by (simp_all add: pool0_def)
  define pool2 where "pool2 = resize (resize pool0 n ns (end_addr (pool ! e))) e (start_addr (pool ! e)) ne"
  have p2: "length pool2 = POOL_SIZE" "\<And>j. pool2 ! j = (if j = e then (pool ! e)\<lparr>end_addr := ne\<rparr>
      else if j = n then MemoryEntry_new\<lparr>entry_id := n, enabled := True, start_addr := ns, end_addr := end_addr (pool ! e)\<rparr>
      else pool ! j)"
    using p0 n e by (simp_all add: pool2_def resize_nth)
  have nx2: "get_next_entry pool2 e = head_or None bs" using nxe p2 link by simp
  have "split_pool pool e n ns ne =
      chain_after_me (case head_or None bs of Some x \<Rightarrow> chain_after_me pool2 n x | None \<Rightarrow> pool2) e n"
    using p0 e n nx2
    by (cases "head_or None bs") (simp_all add: split_pool_def Let_def resize_nth pool2_def flip: pool0_def)
  then show ?thesis
    using p2 hb e n link
    by (cases "head_or None bs") (auto simp: chain_after_me_def Let_def MemoryEntry_new_def)
qed

lemma split_pool_addr:
  assumes ok: "addr_ok pool first (as @ e # bs)" and n: "n \<notin> live pool" "n < POOL_SIZE"
    and lo: "start_addr (pool ! e) < ne" and gap: "ne + 1 < ns" and hi: "ns < end_addr (pool ! e)"
  defines "q \<equiv> split_pool pool e n ns ne"
  shows "addr_ok q first (as @ e # n # bs)" "live q = insert n (live pool)"
proof -
  define b where "b = resize pool e (start_addr (pool ! e)) ne"
  note nth = split_pool_nth [OF ok n, of ns ne, folded q_def]
  have len: "length pool = POOL_SIZE" and dist: "distinct (as @ e # bs)"
    and mem: "set (as @ e # bs) = live pool" and srt: "sorted_wrt (before pool) (as @ e # bs)"
    using ok unfolding addr_ok_def by blast+
  have e: "e \<in> live pool" "e < POOL_SIZE" using mem live_less by auto
  have ent: "entry_ok pool e" using ok e(1) by (rule addr_ok_entry)
  have bok: "addr_ok b first ((as @ [e]) @ bs)"
    using addr_ok_shrink [OF ok e(1), of "start_addr (pool ! e)" ne] lo gap hi by (simp add: b_def)
  have bl: "live b = live pool" unfolding b_def using len e(2) by (rule live_resize)
  have bn: "b ! i = (if i = e then (pool ! e)\<lparr>end_addr := ne\<rparr> else pool ! i)" for i
    using len e by (simp add: resize_nth b_def)
  have bfe: "before pool i e" if "i \<in> set as" for i using srt that by (simp add: sorted_wrt_append)
  have ebf: "before pool e i" if "i \<in> set bs" for i using srt that by (simp add: sorted_wrt_append)
  have qn: "entry_ok q n" "enabled (q ! n)" "nxt (q ! n) = head_or None bs"
      "previous (q ! n) = last_or None (as @ [e])"
    using nth ent hi by (auto simp: entry_ok_def)
  have "q ! i = (if last_or None (as @ [e]) = Some i then (b ! i)\<lparr>nxt := Some n\<rparr>
      else if head_or None bs = Some i then (b ! i)\<lparr>previous := Some n\<rparr> else b ! i)" if "i \<noteq> n" for i
    using that nth dist by (auto simp: bn dest: head_or_in_set)
  moreover have "end_addr (b ! i) + 1 < start_addr (q ! n)" if "i \<in> set (as @ [e])" for i
    using that bfe lo gap ent nth by (fastforce simp: bn before_def entry_ok_def)
  moreover have "end_addr (q ! n) + 1 < start_addr (b ! i)" if "i \<in> set bs" for i
    using that ebf [OF that] nth dist by (auto simp: bn before_def)
  ultimately have "addr_ok q (head_or None ((as @ [e]) @ n # bs)) ((as @ [e]) @ n # bs)"
      and live: "live q = insert n (live pool)"
    using addr_ok_insert [OF bok, of n q] n nth qn by (simp_all add: bl)
  moreover have "head_or None ((as @ [e]) @ n # bs) = first"
    using ok by (simp add: addr_ok_def)
  ultimately show "addr_ok q first (as @ e # n # bs)" by simp
  show "live q = insert n (live pool)" by (fact live)
qed

text \<open>
  Filing the two halves: \<open>e\<close> has changed its size, \<open>n\<close> is new. Also used when a
  freed range becomes an entry of its own.
\<close>

lemma file_two_entries:
  assumes fl: "fl_ok pool fl szf A" and A: "A \<subseteq> {..<POOL_SIZE}" and e: "e \<in> A" and n: "n \<notin> A" "n < POOL_SIZE"
    and ok: "addr_ok q first xs" and live: "live q = insert n A"
    and links: "\<And>i. i \<in> A \<Longrightarrow> ln q i = ln pool i \<and> lp q i = lp pool i" "ln q n = None" "lp q n = None"
    and same: "\<And>i. i \<in> A - {e} \<Longrightarrow> esz (q ! i) = szf i"
  obtains pool5 fl5 pool6 fl6 where
    "chain_entry_to_free_list q fl e (Some (szf e)) = Some (pool5, fl5)"
    "chain_entry_to_free_list pool5 fl5 n None = Some (pool6, fl6)"
    "same_core q pool6" "lists_ok pool6 fl6"
proof -
  have lenq: "length q = POOL_SIZE" using ok by (simp add: addr_ok_def)
  have ids: "entry_id (q ! i) = i" and gs: "get_size (q ! i) = Some (esz (q ! i))" if "i \<in> insert n A" for i
    using addr_ok_entry [OF ok] that live by (auto simp: get_size_ok entry_ok_def)
  have flq: "fl_ok q fl szf A" using fl by (rule fl_gen_cong) (use links in auto)
  have s1: "get_size (q ! i) = Some (szf i)" if "i \<in> A - {e}" for i
    using gs [of i] same [OF that] that by simp
  obtain pool5 fl5 where r5: "chain_entry_to_free_list q fl e (Some (szf e)) = Some (pool5, fl5)"
    and f5: "fl_ok pool5 fl5 (szf(e := esz (q ! e))) A"
    and c5: "same_core q pool5" and fr5: "\<And>i. i \<notin> A \<Longrightarrow> pool5 ! i = q ! i"
    by (rule chain_entry_Some [OF flq e A lenq _ s1 refl]) (use ids gs e in auto)
  note d5 = same_coreD [OF c5]
  have s5: "get_size (pool5 ! i) = Some ((szf(e := esz (q ! e))) i)" if "i \<in> A" for i
    using gs [of i] same [of i] that by (simp add: d5)
  have i5: "entry_id (pool5 ! i) = i" if "i \<in> insert n A" for i
    using ids [OF that] by (simp add: d5)
  have l5: "length pool5 = POOL_SIZE" "ln pool5 n = None" "lp pool5 n = None"
      "get_size (pool5 ! n) = Some (esz (q ! n))"
    using fr5 [OF n(1)] links(2,3) lenq gs [of n] by (simp_all add: d5)
  obtain pool6 fl6 where r6: "chain_entry_to_free_list pool5 fl5 n None = Some (pool6, fl6)"
    and f6: "fl_ok pool6 fl6 ((szf(e := esz (q ! e)))(n := esz (q ! n))) (insert n A)"
    and c6: "same_core pool5 pool6"
    by (rule chain_entry_None [OF f5 n A l5(1) i5 s5 l5(2,3,4)]) assumption+
  have c: "same_core q pool6" using c5 c6 by (rule same_core_trans)
  have "lists_ok pool6 fl6"
    unfolding lists_ok_def live_core [OF c] live
    using f6 by (rule fl_gen_cong) (use esz_core [OF c] same in auto)
  with r5 r6 c show thesis by (intro that)
qed

lemma split_entry:
  assumes inv: "alloc_inv s" and w: "within s e start sz" and sz: "0 < sz"
    and lo: "start_addr (memory_entry_pool s ! e) + 1 < start"
    and hi: "start + sz < end_addr (memory_entry_pool s ! e)"
    and n: "n \<notin> live (memory_entry_pool s)" "n < POOL_SIZE"
  defines "q \<equiv> split_pool (memory_entry_pool s) e n (start + sz) (start - 1)"
  obtains pool5 fl5 pool6 fl6 where
    "chain_entry_to_free_list q (free_list s) e (Some (esz (memory_entry_pool s ! e))) = Some (pool5, fl5)"
    "chain_entry_to_free_list pool5 fl5 n None = Some (pool6, fl6)"
    "takes s (s\<lparr>free_size := free_size s - sz, free_list := fl6, memory_entry_pool := pool6\<rparr>) start sz"
proof -
  let ?p = "memory_entry_pool s"
  have e: "e \<in> live ?p" "e \<noteq> n" using w n by (auto simp: within_def live_def)
  from inv obtain xs where ok0: "addr_ok ?p (first_entry s) xs"
    and fl: "fl_ok ?p (free_list s) (\<lambda>i. esz (?p ! i)) (live ?p)"
    by (rule alloc_invE)
  have "e \<in> set xs" using ok0 e by (simp add: addr_ok_def)
  then obtain as bs where xs: "xs = as @ e # bs" by (meson split_list)
  note ok = ok0 [unfolded xs]
  note nth = split_pool_nth [OF ok n, of "start + sz" "start - 1", folded q_def]
  have "start_addr (?p ! e) < start - 1" "start - 1 + 1 < start + sz" using lo sz by simp_all
  note q = split_pool_addr [OF ok n this hi, folded q_def]
  obtain pool5 fl5 pool6 fl6 where
      r5: "chain_entry_to_free_list q (free_list s) e (Some (esz (?p ! e))) = Some (pool5, fl5)"
    and r6: "chain_entry_to_free_list pool5 fl5 n None = Some (pool6, fl6)"
    and c: "same_core q pool6" and lists: "lists_ok pool6 fl6"
    by (rule file_two_entries [OF fl live_subset e(1) n q])
       (use nth n in \<open>auto simp: esz_def MemoryEntry_new_def\<close>)
  have "addr_ok pool6 (first_entry s) (as @ e # n # bs)"
    using q(1) by (simp add: addr_ok_core [OF c])
  moreover have "bytes_of pool6 (live pool6) = free_bytes s - {start..<start + sz}"
  proof -
    have "bytes_of q (live ?p - {e}) = bytes_of ?p (live ?p - {e})"
      using nth n by (intro bytes_of_cong) auto
    moreover have "range_of (q ! n) \<union> range_of (q ! e) = range_of (?p ! e) - {start..<start + sz}"
      using nth e lo hi sz by (auto simp: range_of_def)
    moreover have "bytes_of pool6 (live pool6) = bytes_of q (insert n (live ?p))"
      by (simp add: live_core [OF c] bytes_of_core [OF c] q(2))
    ultimately show ?thesis
      unfolding free_bytes_cut [OF inv w] bytes_of_insert bytes_of_split [OF e(1), of q]
      by (simp flip: Un_assoc)
  qed
  ultimately have "takes s (s\<lparr>free_size := free_size s - sz, first_entry := first_entry s, free_list := fl6,
      memory_entry_pool := pool6\<rparr>) start sz"
    using takesI [OF inv w sz _ _ lists] by blast
  with r5 r6 show thesis by (intro that) simp_all
qed

section \<open>The whole of carve\_entry\<close>

text \<open>
  The two situations in which a range inside an entry is refused with \<open>NoEntry\<close>:
  it is the only entry and would vanish, or a split is needed and the pool is full.
\<close>

definition blocked :: "MemoryAllocator \<Rightarrow> nat \<Rightarrow> usize \<Rightarrow> usize \<Rightarrow> bool" where
  "blocked s e start sz \<longleftrightarrow>
     (let pool = memory_entry_pool s; x = pool ! e in
      range_of x = {start..<start + sz} \<and> live pool = {e} \<or>
      start_addr x < start \<and> start + sz \<le> end_addr x \<and> live pool = {..<POOL_SIZE})"

definition carve_spec :: "MemoryAllocator \<Rightarrow> nat \<Rightarrow> usize \<Rightarrow> usize \<Rightarrow> bool" where
  "carve_spec s e start sz \<longleftrightarrow> (\<exists>r s'. carve_entry s e start sz = Some (r, s') \<and>
     (if blocked s e start sz then r = Inl NoEntry \<and> s' = s else r = Inr () \<and> takes s s' start sz))"

lemma range_of_whole:
  assumes "entry_ok pool e"
  shows "range_of (pool ! e) = {start..<start + sz} \<longleftrightarrow>
     start = start_addr (pool ! e) \<and> start + sz = end_addr (pool ! e) + 1"
proof -
  have "range_of (pool ! e) = {start_addr (pool ! e)..<end_addr (pool ! e) + 1}"
    and lt: "start_addr (pool ! e) < end_addr (pool ! e) + 1"
    using assms by (auto simp: range_of_def entry_ok_def)
  then show ?thesis
    using atLeastLessThan_eq_iff [OF lt, of start "start + sz"] by (cases "sz = 0") auto
qed

lemma carve_whole:
  assumes inv: "alloc_inv s" and w: "within s e start sz" and sz: "0 < sz" "sz \<le> free_size s"
    and whole: "start = start_addr (memory_entry_pool s ! e)" "start + sz = end_addr (memory_entry_pool s ! e) + 1"
  shows "carve_spec s e start sz"
proof -
  let ?p = "memory_entry_pool s"
  from inv obtain xs where ok0: "addr_ok ?p (first_entry s) xs" by (rule alloc_invE)
  have e: "e \<in> live ?p" using w by (simp add: within_def)
  have "e \<in> set xs" using ok0 e by (simp add: addr_ok_def)
  then obtain as bs where xs: "xs = as @ e # bs" by (meson split_list)
  note ok = ok0 [unfolded xs]
  have ent: "entry_ok ?p e" using ok e by (rule addr_ok_entry)
  have t: "get_end_address start sz = Some (end_addr (?p ! e))"
    using get_end_address_ok [of sz start] whole ent sz by (simp add: entry_ok_def)
  have rng: "range_of (?p ! e) = {start..<start + sz}"
    by (intro iffD2 [OF range_of_whole [OF ent]] conjI whole)
  have mem: "set (as @ e # bs) = live ?p" "distinct (as @ e # bs)" using ok unfolding addr_ok_def by blast+
  then have only: "live ?p = {e} \<longleftrightarrow> as @ bs = []" by (cases as; cases bs) auto
  have "start + sz \<noteq> end_addr (?p ! e)" using whole by simp
  then have bl: "blocked s e start sz \<longleftrightarrow> as @ bs = []"
    using rng whole(1) unfolding blocked_def Let_def only by blast
  note heads = addr_ok_next [OF ok] addr_ok_first [OF ok]
  show ?thesis
  proof (cases "as @ bs = []")
    case True
    then show ?thesis
      using bl by (auto simp: carve_spec_def carve_entry_def whole(1) [symmetric] t heads Let_def)
  next
    case False
    obtain pool' fl' where run: "unchain_entry_from_free_list ?p (free_list s) e = Some (pool', fl')"
      and tk: "takes s (s\<lparr>free_size := free_size s - sz, first_entry := head_or None (as @ bs), free_list := fl',
        memory_entry_pool := delete_entry pool' e\<rparr>) start sz"
      by (rule delete_whole_entry [OF inv w sz(1) rng ok False])
    have idh: "entry_id (?p ! x) = x" if "head_or None bs = Some x" for x
      using head_or_in_set [OF that] addr_ok_entry [OF ok, of x] mem by (auto simp: entry_ok_def)
    have "(if is_first_entry (?p ! e) then map_option (\<lambda>n. entry_id (?p ! n)) (get_next_entry ?p e)
        else first_entry s) = head_or None (as @ bs)"
      using idh ok by (cases as; cases bs) (auto simp: heads addr_ok_def)
    moreover have "\<not> (is_first_entry (?p ! e) \<and> get_next_entry ?p e = None)"
      using False by (simp add: heads head_or_None_iff)
    ultimately have "carve_entry s e start sz = Some (Inr (), s\<lparr>free_size := free_size s - sz,
        first_entry := head_or None (as @ bs), free_list := fl', memory_entry_pool := delete_entry pool' e\<rparr>)"
      using sz(2) by (simp add: carve_entry_def whole(1) [symmetric] t run usize_sub_def Let_def)
    with tk bl False show ?thesis by (simp add: carve_spec_def)
  qed
qed

text \<open>The facts about the entry that the remaining three cases share.\<close>

lemma within_facts:
  assumes inv: "alloc_inv s" and w: "within s e start sz" and sz: "0 < sz" "sz \<le> free_size s"
  shows "get_size (memory_entry_pool s ! e) = Some (esz (memory_entry_pool s ! e))"
    "get_end_address start sz = Some (start + sz - 1)"
    "usize_sub (free_size s) sz = Some (free_size s - sz)" "usize_add start sz = Some (start + sz)"
    "range_of (memory_entry_pool s ! e) = {start..<start + sz} \<longleftrightarrow>
       start = start_addr (memory_entry_pool s ! e) \<and> start + sz = end_addr (memory_entry_pool s ! e) + 1"
    "length (memory_entry_pool s) = POOL_SIZE" "e < POOL_SIZE" "entry_ok (memory_entry_pool s) e"
proof -
  from inv obtain xs where ok: "addr_ok (memory_entry_pool s) (first_entry s) xs" by (rule alloc_invE)
  have e: "e \<in> live (memory_entry_pool s)" and hi: "start + sz \<le> end_addr (memory_entry_pool s ! e) + 1"
    using w by (simp_all add: within_def)
  show ent: "entry_ok (memory_entry_pool s) e" using ok e by (rule addr_ok_entry)
  then have E: "start + sz < 2 ^ 64" using hi by (auto simp: entry_ok_def)
  show "get_size (memory_entry_pool s ! e) = Some (esz (memory_entry_pool s ! e))"
    using ent by (rule get_size_ok)
  show "get_end_address start sz = Some (start + sz - 1)" using sz(1) E by (rule get_end_address_ok)
  show "usize_sub (free_size s) sz = Some (free_size s - sz)" "usize_add start sz = Some (start + sz)"
    using sz(2) E by simp_all
  show "range_of (memory_entry_pool s ! e) = {start..<start + sz} \<longleftrightarrow>
      start = start_addr (memory_entry_pool s ! e) \<and> start + sz = end_addr (memory_entry_pool s ! e) + 1"
    using ent by (rule range_of_whole)
  show "length (memory_entry_pool s) = POOL_SIZE" "e < POOL_SIZE"
    using ok e by (auto simp: addr_ok_def live_def)
qed

lemma carve_front:
  assumes inv: "alloc_inv s" and w: "within s e start sz" and sz: "0 < sz" "sz \<le> free_size s"
    and front: "start = start_addr (memory_entry_pool s ! e)" "start + sz < end_addr (memory_entry_pool s ! e)"
  shows "carve_spec s e start sz"
proof -
  let ?p = "memory_entry_pool s"
  note facts = within_facts [OF inv w sz]
  have a: "start_addr (?p ! e) \<le> start + sz" and b: "end_addr (?p ! e) \<le> end_addr (?p ! e)"
    and c: "range_of (?p ! e) - {start..<start + sz} = {start + sz..end_addr (?p ! e)}"
    using front by (auto simp: range_of_def)
  obtain pool' fl' where
      run: "chain_entry_to_free_list (resize ?p e (start + sz) (end_addr (?p ! e))) (free_list s) e
        (Some (esz (?p ! e))) = Some (pool', fl')"
    and tk: "takes s (s\<lparr>free_size := free_size s - sz, free_list := fl', memory_entry_pool := pool'\<rparr>) start sz"
    by (rule shrink_entry [OF inv w sz(1) a front(2) b c])
  have "end_addr (?p ! e) \<noteq> start + sz - 1" using front by linarith
  then have "carve_entry s e start sz =
      Some (Inr (), s\<lparr>free_size := free_size s - sz, free_list := fl', memory_entry_pool := pool'\<rparr>)"
    using front facts(1-4) run by (simp add: carve_entry_def Let_def set_range_eq)
  moreover have "\<not> blocked s e start sz"
    using front facts(5) by (simp add: blocked_def Let_def)
  ultimately show ?thesis using tk by (simp add: carve_spec_def)
qed

lemma carve_tail:
  assumes inv: "alloc_inv s" and w: "within s e start sz" and sz: "0 < sz" "sz \<le> free_size s"
    and tail: "start_addr (memory_entry_pool s ! e) + 1 < start" "start + sz = end_addr (memory_entry_pool s ! e) + 1"
  shows "carve_spec s e start sz"
proof -
  let ?p = "memory_entry_pool s"
  note facts = within_facts [OF inv w sz]
  have lt: "start_addr (?p ! e) < start - 1" and b: "start - 1 \<le> end_addr (?p ! e)"
    and c: "range_of (?p ! e) - {start..<start + sz} = {start_addr (?p ! e)..start - 1}"
    using tail sz by (auto simp: range_of_def)
  obtain pool' fl' where
      run: "chain_entry_to_free_list (resize ?p e (start_addr (?p ! e)) (start - 1)) (free_list s) e
        (Some (esz (?p ! e))) = Some (pool', fl')"
    and tk: "takes s (s\<lparr>free_size := free_size s - sz, free_list := fl', memory_entry_pool := pool'\<rparr>) start sz"
    by (rule shrink_entry [OF inv w sz(1) order.refl lt b c])
  have last: "get_size (resize ?p e (start_addr (?p ! e)) (start - 1) ! e) = Some (start - start_addr (?p ! e))"
      "usize_add (start - start_addr (?p ! e)) 1 = Some (esz (?p ! e))" "sz = 1"
    if "end_addr (?p ! e) = start"
    using that tail facts(6-8)
    by (auto simp: get_size_def resize_nth usize_sub_def usize_add_def esz_def entry_ok_def)
  have neq: "start_addr (?p ! e) \<noteq> start" "end_addr (?p ! e) = start + sz - 1"
    "usize_sub start 1 = Some (start - 1)"
    using tail by auto
  have "carve_entry s e start sz =
      Some (Inr (), s\<lparr>free_size := free_size s - sz, free_list := fl', memory_entry_pool := pool'\<rparr>)"
  proof (cases "end_addr (?p ! e) = start")
    case True
    then show ?thesis
      using neq(1,3) lt run last [OF True] facts(3) by (simp add: carve_entry_def Let_def set_range_eq)
  next
    case False
    then show ?thesis
      using neq lt facts(1-3) run by (simp add: carve_entry_def Let_def set_range_eq)
  qed
  moreover have "\<not> blocked s e start sz"
    using tail facts(5) by (simp add: blocked_def Let_def)
  ultimately show ?thesis using tk by (simp add: carve_spec_def)
qed

lemma carve_middle:
  assumes inv: "alloc_inv s" and w: "within s e start sz" and sz: "0 < sz" "sz \<le> free_size s"
    and mid: "start_addr (memory_entry_pool s ! e) + 1 < start" "start + sz < end_addr (memory_entry_pool s ! e)"
  shows "carve_spec s e start sz"
proof -
  let ?p = "memory_entry_pool s"
  note facts = within_facts [OF inv w sz]
  have neq: "start_addr (?p ! e) \<noteq> start" "end_addr (?p ! e) \<noteq> start" "end_addr (?p ! e) \<noteq> start + sz - 1"
    and sub: "usize_sub start 1 = Some (start - 1)" "start_addr (?p ! e) < start - 1"
    using mid sz by auto
  from facts(6) show ?thesis
  proof (cases rule: create_memory_entry_cases)
    case full
    then show ?thesis
      using mid neq facts(2) by (simp add: carve_spec_def carve_entry_def Let_def blocked_def)
  next
    case (new n)
    have e: "e \<noteq> n" "e < POOL_SIZE" "n < POOL_SIZE" using new w by (auto simp: within_def live_def)
    obtain pool5 fl5 pool6 fl6 where
      r5: "chain_entry_to_free_list (split_pool ?p e n (start + sz) (start - 1)) (free_list s) e
        (Some (esz (?p ! e))) = Some (pool5, fl5)"
      and r6: "chain_entry_to_free_list pool5 fl5 n None = Some (pool6, fl6)"
      and tk: "takes s (s\<lparr>free_size := free_size s - sz, free_list := fl6, memory_entry_pool := pool6\<rparr>) start sz"
      by (rule split_entry [OF inv w sz(1) mid new(2,1)])
    have "carve_entry s e start sz = do {
        (pool5, fl5) \<leftarrow> chain_entry_to_free_list (split_pool ?p e n (start + sz) (start - 1))
           (free_list s) e (Some (esz (?p ! e)));
        (pool6, fl6) \<leftarrow> chain_entry_to_free_list pool5 fl5 n None;
        Some (Inr (), s\<lparr>free_size := free_size s - sz, free_list := fl6, memory_entry_pool := pool6\<rparr>) }"
      using neq sub(2) facts(6) mid e
      by (simp add: carve_entry_def facts(1-4) sub(1) new(3) Let_def set_range_eq resize_nth split_pool_def
          del: One_nat_def cong: option.case_cong)
    then have "carve_entry s e start sz =
        Some (Inr (), s\<lparr>free_size := free_size s - sz, free_list := fl6, memory_entry_pool := pool6\<rparr>)"
      by (simp only: r5 r6 Option.bind.simps prod.case)
    moreover have "live ?p \<noteq> {..<POOL_SIZE}" using new by auto
    then have "\<not> blocked s e start sz"
      using mid facts(5) by (simp add: blocked_def Let_def)
    ultimately show ?thesis using tk by (simp add: carve_spec_def)
  qed
qed

lemma carve_entry_correct:
  assumes "alloc_inv s" and "within s e start sz" and "0 < sz" "sz \<le> free_size s"
    and "no_stump (memory_entry_pool s ! e) start sz"
  shows "carve_spec s e start sz"
proof -
  let ?x = "memory_entry_pool s ! e"
  consider (whole) "start = start_addr ?x" "start + sz = end_addr ?x + 1"
    | (front) "start = start_addr ?x" "start + sz < end_addr ?x"
    | (tail) "start_addr ?x + 1 < start" "start + sz = end_addr ?x + 1"
    | (mid) "start_addr ?x + 1 < start" "start + sz < end_addr ?x"
    using assms(2,5) unfolding no_stump_def within_def by linarith
  then show ?thesis
  proof cases
    case whole
    then show ?thesis by (rule carve_whole [OF assms(1-4)])
  next
    case front
    then show ?thesis by (rule carve_front [OF assms(1-4)])
  next
    case tail
    then show ?thesis by (rule carve_tail [OF assms(1-4)])
  next
    case mid
    then show ?thesis by (rule carve_middle [OF assms(1-4)])
  qed
qed

end
