(* ===== verification/AllocatorAlloc.thy ===== *)
theory AllocatorAlloc
  imports AllocatorUsed
begin

text \<open>
  \<open>allocate\<close> and \<open>reserve_memory\<close>. The search of \<open>allocate\<close> visits the entries of
  the size classes from the class of the request upwards; it finds the first that
  holds an aligned run of the requested size, and no entry that could is missed.
\<close>

section \<open>Size classes are monotone\<close>

lemma size_to_page_order_loop_mono:
  assumes "sz \<le> sz'" and "order < NUM_OF_FREE_LIST - 1"
  shows "size_to_page_order_loop sz order \<le> size_to_page_order_loop sz' order \<and>
    order \<le> size_to_page_order_loop sz order"
  using assms
proof (induction sz' order rule: size_to_page_order_loop.induct)
  case (1 sz' order)
  show ?case
  proof (cases "sz > 2 ^ (order + PAGE_SHIFT)")
    case True
    then have "sz' > 2 ^ (order + PAGE_SHIFT)" using 1(2) by simp
    with True 1 show ?thesis
      by (subst (1 2 3) size_to_page_order_loop.simps) (auto dest: Suc_leD)
  next
    case False
    then have "size_to_page_order_loop sz order = order"
      by (subst size_to_page_order_loop.simps) simp
    moreover have "order \<le> size_to_page_order_loop sz' order"
      using 1 by (subst size_to_page_order_loop.simps) (auto dest: Suc_leD)
    ultimately show ?thesis by simp
  qed
qed

lemma size_to_page_order_mono: "sz \<le> sz' \<Longrightarrow> size_to_page_order sz \<le> size_to_page_order sz'"
  unfolding size_to_page_order_def
  by (rule conjunct1 [OF size_to_page_order_loop_mono]) (simp_all add: NUM_OF_FREE_LIST_def)

section \<open>The address chosen inside an entry\<close>

definition aligned_up :: "usize \<Rightarrow> nat \<Rightarrow> usize" where
  "aligned_up a al = (if a = 0 then 0 else (a - 1) - (a - 1) mod 2 ^ al + 2 ^ al)"

lemma aligned_up_props:
  shows "2 ^ al dvd aligned_up a al" "a \<le> aligned_up a al" "aligned_up a al < a + 2 ^ al"
    "2 ^ al dvd a \<Longrightarrow> aligned_up a al = a"
  using round_up [of a "2 ^ al"] by (auto simp: aligned_up_def)

lemma aligned_up_0 [simp]: "aligned_up a 0 = a"
  using aligned_up_props(4) [of 0 a] by simp

lemma aligned_up_least:
  assumes "2 ^ al dvd b" and "a \<le> b"
  shows "aligned_up a al \<le> b"
proof (rule ccontr)
  assume "\<not> ?thesis"
  then have "b < aligned_up a al" by simp
  moreover from this have "aligned_up a al - b < 2 ^ al"
    using aligned_up_props(3) [of a al] assms(2) by (simp add: less_diff_conv2)
  moreover have "2 ^ al dvd aligned_up a al - b" using aligned_up_props(1) assms(1) by (simp add: dvd_diff_nat)
  ultimately show False by (simp add: nat_dvd_not_less)
qed

definition fits :: "MemoryEntryPool \<Rightarrow> usize \<Rightarrow> nat \<Rightarrow> nat \<Rightarrow> bool" where
  "fits pool sz al e \<longleftrightarrow> aligned_up (start_addr (pool ! e)) al + sz \<le> end_addr (pool ! e) + 1"

text \<open>No wrap-around when the start of an entry is rounded up.\<close>

definition roundable :: "nat set \<Rightarrow> nat \<Rightarrow> bool" where
  "roundable F al \<longleftrightarrow> al < 64 \<and> (\<forall>a \<in> F. a + 2 ^ al \<le> 2 ^ 64)"

lemma align_available:
  assumes "a + 2 ^ al \<le> 2 ^ 64" and "al < 64"
  shows "align_address_and_available_size a es al = Some (aligned_up a al, es - (aligned_up a al - a))"
proof (cases "a = 0")
  case True
  then show ?thesis by (simp add: align_address_and_available_size_def aligned_up_def)
next
  case False
  have "a - 1 < 2 ^ 64" using assms(1) by (simp add: less_le_trans [of _ "a + 2 ^ al"])
  then have m: "(a - 1) AND usize_not (2 ^ al - 1) = (a - 1) - (a - 1) mod 2 ^ al"
    using assms(2) by (intro and_not_mask) simp_all
  note up = aligned_up_props(2,3) [of a al]
  define c where "c = aligned_up a al"
  have e: "(a - 1) - (a - 1) mod 2 ^ al + 2 ^ al = c" using False by (simp add: aligned_up_def c_def)
  have steps: "usize_add ((a - 1) - (a - 1) mod 2 ^ al) (2 ^ al) = Some c"
    "usize_sub c a = Some (c - a)" "usize_sub a 1 = Some (a - 1)" "usize_sub (2 ^ al) 1 = Some (2 ^ al - 1)"
    "c - a < es \<Longrightarrow> usize_sub es (c - a) = Some (es - (c - a))"
    using up e assms False by (auto simp: usize_add_def usize_sub_def c_def)
  have "align_address_and_available_size a es al = Some (c, es - (c - a))"
    unfolding align_address_and_available_size_def
    using False steps(5) by (simp only: usize_shl_one [OF assms(2)] steps(1-4) m Let_def Option.bind.simps) auto
  then show ?thesis by (simp only: c_def)
qed

section \<open>Scanning one size class\<close>

lemma allocate_scan_step:
  assumes ent: "entry_ok pool e" and sz: "0 < sz" and rb: "roundable (range_of (pool ! e)) al"
  shows "allocate_scan pool sz al e =
    (if fits pool sz al e then Some (Some (e, aligned_up (start_addr (pool ! e)) al))
     else (case get_list_next pool e of Some n \<Rightarrow> allocate_scan pool sz al n | None \<Rightarrow> Some None))"
proof -
  let ?a = "start_addr (pool ! e)" and ?es = "esz (pool ! e)"
  have "?a \<in> range_of (pool ! e)" using ent by (simp add: range_of_def entry_ok_def)
  then have al: "align_address_and_available_size ?a ?es al = Some (aligned_up ?a al, ?es - (aligned_up ?a al - ?a))"
    using rb by (intro align_available) (auto simp: roundable_def)
  have f: "fits pool sz al e \<longleftrightarrow> ?es \<ge> sz \<and> \<not> ?es - (aligned_up ?a al - ?a) < sz"
    using ent sz aligned_up_props(2) [of ?a al] by (auto simp: fits_def esz_def entry_ok_def)
  have g: "al = 0 \<Longrightarrow> fits pool sz al e \<longleftrightarrow> ?es \<ge> sz"
    using f by auto
  show ?thesis
    using f g by (subst allocate_scan.simps) (auto simp: get_size_ok [OF ent] al simp del: diff_diff_right diff_diff_cancel)
qed

lemma allocate_scan_find:
  assumes "dl (ln pool) (lp pool) p (e # bs) None" and "set (e # bs) \<subseteq> live pool"
    and "\<And>i. i \<in> live pool \<Longrightarrow> entry_ok pool i \<and> roundable (range_of (pool ! i)) al" and "0 < sz"
  shows "allocate_scan pool sz al e =
    Some (map_option (\<lambda>x. (x, aligned_up (start_addr (pool ! x)) al)) (List.find (fits pool sz al) (e # bs)))"
  using assms(1,2)
proof (induction bs arbitrary: e p)
  case Nil
  then have "get_list_next pool e = None" by (intro get_list_next_eq) simp_all
  with Nil assms(3,4) show ?case by (simp add: allocate_scan_step)
next
  case (Cons n bs)
  then have "get_list_next pool e = Some n"
    by (intro get_list_next_eq) (auto simp: live_def)
  with Cons assms(3,4) show ?case by (simp add: allocate_scan_step)
qed

section \<open>The search over the size classes\<close>

text \<open>
  The candidates of a request in the order in which they are tried: the size-class
  lists \<open>cls i\<close> one after the other.
\<close>

definition classes_of :: "MemoryAllocator \<Rightarrow> (nat \<Rightarrow> nat list) \<Rightarrow> bool" where
  "classes_of s cls \<longleftrightarrow> (\<forall>k < NUM_OF_FREE_LIST.
     class_list (memory_entry_pool s) (\<lambda>i. esz (memory_entry_pool s ! i)) (live (memory_entry_pool s)) k (cls k) \<and>
     free_list s ! k = head_or None (cls k))"

lemma classes_exist:
  assumes "alloc_inv s"
  obtains cls where "classes_of s cls"
proof -
  have "\<forall>k. \<exists>ys. k < NUM_OF_FREE_LIST \<longrightarrow>
     class_list (memory_entry_pool s) (\<lambda>i. esz (memory_entry_pool s ! i)) (live (memory_entry_pool s)) k ys \<and>
     free_list s ! k = head_or None ys"
    using assms by (auto simp: alloc_inv_def lists_ok_def fl_gen_def)
  from choice [OF this] show thesis using that by (auto simp: classes_of_def)
qed

definition used_result ::
  "((MemoryError + unit) \<times> MemoryAllocator) option \<Rightarrow> usize \<Rightarrow> ((MemoryError + usize) \<times> MemoryAllocator) option" where
  "used_result m a = map_option (\<lambda>(r, s). (map_sum id (\<lambda>_. a) r, s)) m"

lemma used_result_bind:
  "Option.bind m (\<lambda>(u, s'). case u of Inl err \<Rightarrow> Some (Inl err, s') | Inr _ \<Rightarrow> Some (Inr a, s')) = used_result m a"
  by (cases m) (auto simp: used_result_def split: sum.splits)

lemma used_result_Some:
  "used_result m a = Some (Inr b, s') \<longleftrightarrow> b = a \<and> m = Some (Inr (), s')"
  "used_result m a = Some (Inl err, s') \<longleftrightarrow> m = Some (Inl err, s')"
proof -
  have "x = Inr b \<longleftrightarrow> b = a \<and> y = Inr ()" "x = Inl err \<longleftrightarrow> y = Inl err"
    if "x = map_sum id (\<lambda>_. a) y" for x y
    using that by (cases y; auto)+
  then show "used_result m a = Some (Inr b, s') \<longleftrightarrow> b = a \<and> m = Some (Inr (), s')"
    "used_result m a = Some (Inl err, s') \<longleftrightarrow> m = Some (Inl err, s')"
    by (cases m; force simp: used_result_def)+
qed

lemma allocate_loop_find:
  assumes cls: "classes_of s cls" and ks: "set ks \<subseteq> {..<NUM_OF_FREE_LIST}"
    and ent: "\<And>i. i \<in> live (memory_entry_pool s) \<Longrightarrow>
        entry_ok (memory_entry_pool s) i \<and> roundable (range_of (memory_entry_pool s ! i)) al"
    and sz: "0 < sz" "sz \<le> free_size s"
  shows "allocate_loop s sz al ks =
    (case List.find (fits (memory_entry_pool s) sz al) (concat (map cls ks)) of
       None \<Rightarrow> Some (Inl NoMemory, s)
     | Some e \<Rightarrow> used_result (carve_entry s e (aligned_up (start_addr (memory_entry_pool s ! e)) al) sz)
         (aligned_up (start_addr (memory_entry_pool s ! e)) al))"
  using ks
proof (induction ks)
  case (Cons i js)
  have c: "class_list (memory_entry_pool s) (\<lambda>i. esz (memory_entry_pool s ! i)) (live (memory_entry_pool s)) i (cls i)"
    and h: "free_list s ! i = head_or None (cls i)"
    using cls Cons.prems by (auto simp: classes_of_def)
  note IH = Cons.IH and prems = Cons.prems
  show ?case
  proof (cases "cls i")
    case Nil
    with IH prems h show ?thesis by simp
  next
    case (Cons e bs)
    have lv: "set (e # bs) \<subseteq> live (memory_entry_pool s)" using c Cons by (auto simp: class_gen_def)
    then have e: "get_memory_entry (memory_entry_pool s) e = Inr e"
      by (auto simp: get_memory_entry_def live_def)
    have scan: "allocate_scan (memory_entry_pool s) sz al e =
      Some (map_option (\<lambda>x. (x, aligned_up (start_addr (memory_entry_pool s ! x)) al))
        (List.find (fits (memory_entry_pool s) sz al) (e # bs)))"
      using c Cons by (intro allocate_scan_find [OF _ lv ent sz(1)]) (auto simp: class_gen_def)
    show ?thesis
    proof (cases "List.find (fits (memory_entry_pool s) sz al) (e # bs)")
      case None
      then have "List.find (fits (memory_entry_pool s) sz al) (cls i @ concat (map cls js)) =
          List.find (fits (memory_entry_pool s) sz al) (concat (map cls js))"
        using Cons by (simp only: find_append option.case)
      with None IH prems show ?thesis by (simp add: h Cons e scan)
    next
      case (Some x)
      then have "List.find (fits (memory_entry_pool s) sz al) (cls i @ concat (map cls js)) = Some x"
        using Cons by (simp only: find_append option.case)
      with Some sz show ?thesis
        by (simp add: h Cons e scan define_used_memory_def define_used_memory_unaligned_def used_result_bind)
    qed
  qed
qed simp

section \<open>What allocate returns\<close>

definition candidates :: "(nat \<Rightarrow> nat list) \<Rightarrow> usize \<Rightarrow> nat list" where
  "candidates cls sz = concat (map cls [size_to_page_order sz..<NUM_OF_FREE_LIST])"

lemma candidates_set:
  assumes "classes_of s cls"
  shows "set (candidates cls sz) = {i \<in> live (memory_entry_pool s).
    size_to_page_order sz \<le> size_to_page_order (esz (memory_entry_pool s ! i))}"
  using assms by (auto simp: candidates_def classes_of_def class_gen_def)

text \<open>The candidates are tried in the order of their sizes.\<close>

lemma candidates_sorted:
  assumes "classes_of s cls"
  shows "sorted (map (\<lambda>i. esz (memory_entry_pool s ! i)) (candidates cls sz))"
proof -
  let ?f = "\<lambda>i. esz (memory_entry_pool s ! i)"
  have "sorted (map ?f (concat (map cls [k..<n])))" if "n \<le> NUM_OF_FREE_LIST" for k n
    using that
  proof (induction n)
    case (Suc n)
    have c: "class_list (memory_entry_pool s) ?f (live (memory_entry_pool s)) n (cls n)"
      using assms Suc.prems by (simp add: classes_of_def)
    have "?f x \<le> ?f y" if "x \<in> set (concat (map cls [k..<n]))" "y \<in> set (cls n)" for x y
    proof (rule ccontr)
      assume "\<not> ?thesis"
      then have "size_to_page_order (?f y) \<le> size_to_page_order (?f x)"
        by (intro size_to_page_order_mono) simp
      moreover have "size_to_page_order (?f y) = n" using c that(2) by (auto simp: class_gen_def)
      moreover have "size_to_page_order (?f x) < n"
        using that(1) assms Suc.prems by (fastforce simp: classes_of_def class_gen_def)
      ultimately show False by simp
    qed
    with Suc c show ?case by (auto simp: sorted_append class_gen_def)
  qed simp
  then show ?thesis by (simp add: candidates_def)
qed

lemma find_sorted_least:
  assumes "sorted (map f xs)" and "List.find P xs = Some x" and "y \<in> set xs" and "P y"
  shows "f x \<le> f y"
proof -
  from assms(2) obtain i where i: "i < length xs" "x = xs ! i" "\<forall>j < i. \<not> P (xs ! j)"
    by (auto simp: find_Some_iff)
  from assms(3) obtain j where j: "j < length xs" "y = xs ! j" by (auto simp: in_set_conv_nth)
  have "i \<le> j" using i j assms(4) by (meson not_le)
  then show ?thesis using sorted_nth_mono [OF assms(1), of i j] i j by simp
qed

lemma entries_ready:
  assumes inv: "alloc_inv s" and rb: "roundable (free_bytes s) al" and i: "i \<in> live (memory_entry_pool s)"
  shows "entry_ok (memory_entry_pool s) i \<and> roundable (range_of (memory_entry_pool s ! i)) al"
proof -
  from inv obtain xs where "addr_ok (memory_entry_pool s) (first_entry s) xs" by (rule alloc_invE)
  moreover have "range_of (memory_entry_pool s ! i) \<subseteq> free_bytes s"
    using i by (auto simp: free_bytes_def bytes_of_def)
  ultimately show ?thesis using addr_ok_entry i rb by (auto simp: roundable_def)
qed

text \<open>An aligned run of free bytes lies in an entry that fits.\<close>

lemma run_fits:
  assumes inv: "alloc_inv s" and sz: "0 < sz" and run: "{a..<a + sz} \<subseteq> free_bytes s" and al: "2 ^ al dvd a"
  obtains e where "e \<in> live (memory_entry_pool s)" "fits (memory_entry_pool s) sz al e"
    "sz \<le> esz (memory_entry_pool s ! e)"
proof -
  let ?p = "memory_entry_pool s"
  from inv obtain xs where ok: "addr_ok ?p (first_entry s) xs" by (rule alloc_invE)
  obtain e where e: "e \<in> live ?p" "start_addr (?p ! e) \<le> a" "a + sz - 1 \<le> end_addr (?p ! e)"
    by (rule run_in_one_entry [OF ok sz run [unfolded free_bytes_def]])
  have "aligned_up (start_addr (?p ! e)) al \<le> a" using al e(2) by (rule aligned_up_least)
  with e sz show thesis by (intro that [of e]) (auto simp: fits_def esz_def)
qed

lemma allocate_cases:
  assumes inv: "alloc_inv s" and rb: "roundable (free_bytes s) al" and sz: "0 < sz" "sz < free_size s"
  obtains (none) "allocate s sz al = Some (Inl NoMemory, s)"
      "\<And>a. 2 ^ al dvd a \<Longrightarrow> \<not> {a..<a + sz} \<subseteq> free_bytes s"
  | (some) e a where "within s e a sz" "2 ^ al dvd a" "a = aligned_up (start_addr (memory_entry_pool s ! e)) al"
      "allocate s sz al = used_result (carve_entry s e a sz) a"
      "\<And>i. i \<in> live (memory_entry_pool s) \<Longrightarrow> fits (memory_entry_pool s) sz al i \<Longrightarrow>
         esz (memory_entry_pool s ! e) \<le> esz (memory_entry_pool s ! i)"
proof -
  let ?p = "memory_entry_pool s"
  obtain cls where cls: "classes_of s cls" by (rule classes_exist [OF inv])
  have "allocate s sz al = (case List.find (fits ?p sz al) (candidates cls sz) of
       None \<Rightarrow> Some (Inl NoMemory, s)
     | Some e \<Rightarrow> used_result (carve_entry s e (aligned_up (start_addr (?p ! e)) al) sz)
         (aligned_up (start_addr (?p ! e)) al))"
    unfolding candidates_def
    using allocate_loop_find [OF cls _ entries_ready [OF inv rb] sz(1) less_imp_le [OF sz(2)],
        of "[size_to_page_order sz..<NUM_OF_FREE_LIST]"] sz
    by (simp add: allocate_def subset_iff)
  note run = this
  have cand: "i \<in> set (candidates cls sz)"
    if "i \<in> live ?p" "sz \<le> esz (?p ! i)" for i
    using that by (simp add: candidates_set [OF cls] size_to_page_order_mono)
  have fit_size: "sz \<le> esz (?p ! i)" if "fits ?p sz al i" for i
    using that aligned_up_props(2) [of "start_addr (?p ! i)" al] by (simp add: fits_def esz_def)
  show thesis
  proof (cases "List.find (fits ?p sz al) (candidates cls sz)")
    case None
    have "\<not> {a..<a + sz} \<subseteq> free_bytes s" if "2 ^ al dvd a" for a
      using run_fits [OF inv sz(1) _ that] cand None by (metis find_None_iff)
    with run None show thesis by (intro none) auto
  next
    case (Some e)
    then have "e \<in> set (candidates cls sz)" and fit: "fits ?p sz al e"
      by (auto simp: find_Some_iff)
    then have e: "e \<in> live ?p" "fits ?p sz al e"
      by (simp_all add: candidates_set [OF cls])
    have "within s e (aligned_up (start_addr (?p ! e)) al) sz"
      using e aligned_up_props(2) by (simp add: within_def fits_def)
    moreover have "esz (?p ! e) \<le> esz (?p ! i)" if "i \<in> live ?p" "fits ?p sz al i" for i
      using find_sorted_least [OF candidates_sorted [OF cls] Some cand [OF that(1) fit_size [OF that(2)]] that(2)] .
    ultimately show thesis using run Some aligned_up_props(1) by (intro some) auto
  qed
qed

section \<open>Requests in whole pages\<close>

text \<open>
  Everything the hypervisor asks for is a number of pages. Then no remainder of one
  byte can arise, and \<open>allocate\<close> always returns.
\<close>

definition page_granular :: "nat set \<Rightarrow> bool" where
  "page_granular F \<longleftrightarrow> (\<forall>a b. a div PAGE_SIZE = b div PAGE_SIZE \<longrightarrow> a \<in> F \<longrightarrow> b \<in> F)"

lemma page_granularD: "page_granular F \<Longrightarrow> a \<in> F \<Longrightarrow> a div PAGE_SIZE = b div PAGE_SIZE \<Longrightarrow> b \<in> F"
  unfolding page_granular_def by blast

lemma page_granular_Diff: "page_granular F \<Longrightarrow> page_granular G \<Longrightarrow> page_granular (F - G)"
  unfolding page_granular_def by (metis Diff_iff)

lemma page_granular_Un: "page_granular F \<Longrightarrow> page_granular G \<Longrightarrow> page_granular (F \<union> G)"
  unfolding page_granular_def by blast

lemma PAGE_SIZE_pos [simp]: "0 < PAGE_SIZE"
  by (simp add: PAGE_SIZE_def)

lemma page_granular_interval:
  assumes "PAGE_SIZE dvd a" and "PAGE_SIZE dvd b"
  shows "page_granular {a..<b}"
proof -
  obtain m n where mn: "a = PAGE_SIZE * m" "b = PAGE_SIZE * n" using assms by (auto elim!: dvdE)
  have "x \<in> {a..<b} \<longleftrightarrow> m \<le> x div PAGE_SIZE \<and> x div PAGE_SIZE < n" for x
    by (simp add: mn less_eq_div_iff_mult_less_eq div_less_iff_less_mult mult.commute)
  then show ?thesis by (simp add: page_granular_def)
qed

lemma page_entry:
  assumes inv: "alloc_inv s" and pg: "page_granular (free_bytes s)" and e: "e \<in> live (memory_entry_pool s)"
  shows "PAGE_SIZE dvd start_addr (memory_entry_pool s ! e)" "PAGE_SIZE dvd end_addr (memory_entry_pool s ! e) + 1"
proof -
  let ?p = "memory_entry_pool s" and ?S = "start_addr (memory_entry_pool s ! e)" and ?E = "end_addr (memory_entry_pool s ! e)"
  from inv obtain xs where ok: "addr_ok ?p (first_entry s) xs" by (rule alloc_invE)
  have ent: "entry_ok ?p e" using ok e by (rule addr_ok_entry)
  have inE: "?S \<in> free_bytes s" "?E \<in> free_bytes s"
    using e ent by (auto simp: free_bytes_def bytes_of_def range_of_def entry_ok_def intro!: bexI [of _ e])
  show "PAGE_SIZE dvd ?S"
  proof (rule ccontr)
    assume nd: "\<not> PAGE_SIZE dvd ?S"
    then have "?S div PAGE_SIZE = (?S - 1) div PAGE_SIZE" "0 < ?S"
      by (metis Suc_pred' div_Suc dvd_0_right gr0I mod_0_imp_dvd, metis dvd_0_right gr0I)
    then have "?S - 1 \<in> free_bytes s" using page_granularD [OF pg inE(1)] by simp
    with byte_before_entry [OF ok e] \<open>0 < ?S\<close> show False by (simp add: free_bytes_def)
  qed
  show "PAGE_SIZE dvd ?E + 1"
  proof (rule ccontr)
    assume nd: "\<not> PAGE_SIZE dvd ?E + 1"
    then have "?E div PAGE_SIZE = (?E + 1) div PAGE_SIZE"
      by (metis Suc_eq_plus1 div_Suc mod_0_imp_dvd)
    then have "?E + 1 \<in> free_bytes s" using page_granularD [OF pg inE(2)] by simp
    with byte_after_entry [OF ok e] show False by (simp add: free_bytes_def)
  qed
qed

lemma aligned_up_page:
  assumes "PAGE_SIZE dvd a"
  shows "PAGE_SIZE dvd aligned_up a al"
proof (cases "al \<le> PAGE_SHIFT")
  case True
  then have "2 ^ al dvd a" using assms by (metis PAGE_SIZE_def dvd_trans le_imp_power_dvd)
  then show ?thesis using assms aligned_up_props(4) by simp
next
  case False
  then have "PAGE_SIZE dvd 2 ^ al" by (simp add: PAGE_SIZE_def le_imp_power_dvd)
  then show ?thesis using aligned_up_props(1) by (rule dvd_trans)
qed

lemma page_no_stump:
  assumes "PAGE_SIZE dvd start_addr x" "PAGE_SIZE dvd end_addr x + 1" "PAGE_SIZE dvd a" "PAGE_SIZE dvd sz"
  shows "no_stump x a sz"
proof -
  have nd: "\<not> PAGE_SIZE dvd Suc c" if "PAGE_SIZE dvd c" for c
    using that by (auto simp: PAGE_SIZE_def PAGE_SHIFT_def dest!: dvd_diff_nat [of _ "Suc c" c])
  have "a \<noteq> start_addr x + 1" using nd assms(1,3) by auto
  moreover have "a + sz \<noteq> end_addr x" using nd [of "a + sz"] assms(2-4) by auto
  ultimately show ?thesis by (simp add: no_stump_def)
qed

section \<open>Ranges that leave one byte over\<close>

lemma carve_stump:
  assumes inv: "alloc_inv s" and w: "within s e start sz" and sz: "0 < sz" "sz \<le> free_size s"
    and st: "\<not> no_stump (memory_entry_pool s ! e) start sz"
  shows "carve_entry s e start sz = None \<or> carve_entry s e start sz = Some (Inl NoEntry, s)"
proof -
  let ?p = "memory_entry_pool s"
  note facts = within_facts [OF inv w sz]
  have w': "start_addr (?p ! e) \<le> start" "start + sz \<le> end_addr (?p ! e) + 1" using w by (simp_all add: within_def)
  have sub: "usize_sub start 1 = Some (start - 1)" if "start \<noteq> start_addr (?p ! e)" using that w' by simp
  from st consider (front) "start = start_addr (?p ! e)" "start + sz = end_addr (?p ! e)"
    | (left) "start = start_addr (?p ! e) + 1" "start + sz = end_addr (?p ! e) + 1"
    | (mid) "start = start_addr (?p ! e) + 1 \<or> start + sz = end_addr (?p ! e)" "start \<noteq> start_addr (?p ! e)"
        "start + sz \<le> end_addr (?p ! e)"
    using w' unfolding no_stump_def by fastforce
  then show ?thesis
  proof cases
    case front
    have "end_addr (?p ! e) \<noteq> start + sz - 1" using front sz by linarith
    with front(2) show ?thesis
      by (simp add: carve_entry_def front(1) [symmetric] facts(1-4) set_range_eq Let_def)
  next
    case left
    then have "start_addr (?p ! e) \<noteq> start" "\<not> start_addr (?p ! e) < start - 1" "end_addr (?p ! e) = start + sz - 1"
      "end_addr (?p ! e) = start \<Longrightarrow> sz = 1"
      by auto
    then show ?thesis
      by (cases "end_addr (?p ! e) = start")
         (simp_all add: carve_entry_def facts(1-4) sub set_range_eq Let_def del: One_nat_def)
  next
    case mid
    have neq: "start_addr (?p ! e) \<noteq> start" "end_addr (?p ! e) \<noteq> start" "end_addr (?p ! e) \<noteq> start + sz - 1"
      using mid sz by auto
    from facts(6) show ?thesis
    proof (cases rule: create_memory_entry_cases)
      case full
      then show ?thesis using neq by (simp add: carve_entry_def facts(1-4) Let_def)
    next
      case (new n)
      have e: "e \<noteq> n" "e < length ?p" "n < length ?p" using new w facts(6) by (auto simp: within_def live_def)
      have no: "\<not> (start + sz < end_addr (?p ! e) \<and> start_addr (?p ! e) < start - 1)" using mid(1) by auto
      have "carve_entry s e start sz = None"
        using neq e no
        by (simp add: carve_entry_def new(3) facts(1-4) sub [OF mid(2)] set_range_eq resize_nth Let_def
            del: One_nat_def)
      then show ?thesis ..
    qed
  qed
qed

lemma carve_entry_sound:
  assumes inv: "alloc_inv s" and w: "within s e start sz" and sz: "0 < sz" "sz \<le> free_size s"
    and run: "carve_entry s e start sz = Some (r, s')"
  shows "case r of Inr _ \<Rightarrow> takes s s' start sz | Inl err \<Rightarrow> err = NoEntry \<and> s' = s"
proof (cases "no_stump (memory_entry_pool s ! e) start sz")
  case True
  from carve_entry_correct [OF inv w sz True] run show ?thesis
    by (auto simp: carve_spec_def split: if_splits)
next
  case False
  from carve_stump [OF inv w sz this] run show ?thesis by auto
qed

lemma roundable_0:
  assumes "alloc_inv s"
  shows "roundable (free_bytes s) 0"
proof -
  from assms obtain xs where ok: "addr_ok (memory_entry_pool s) (first_entry s) xs" by (rule alloc_invE)
  have "a + 1 \<le> 2 ^ 64" if a: "a \<in> free_bytes s" for a
  proof -
    from a obtain i where i: "i \<in> live (memory_entry_pool s)" "a \<in> range_of (memory_entry_pool s ! i)"
      by (auto simp: free_bytes_def bytes_of_def)
    then show ?thesis using addr_ok_entry [OF ok i(1)] by (simp add: entry_ok_def range_of_def)
  qed
  then show ?thesis by (simp add: roundable_def)
qed

section \<open>Looking up an address\<close>

lemma search_containing_loop_find:
  assumes "addr_ok pool first (as @ e # bs)"
  shows "search_containing_loop pool a e = Some (List.find (\<lambda>i. a \<in> range_of (pool ! i)) (e # bs))"
  using assms
proof (induction bs arbitrary: as e)
  case Nil
  then have "get_next_entry pool e = None" using addr_ok_next by fastforce
  then show ?case by (subst search_containing_loop.simps) (auto simp: range_of_def)
next
  case (Cons n bs)
  have nxt: "get_next_entry pool e = Some n" using addr_ok_next [OF Cons.prems] by simp
  have IH: "search_containing_loop pool a n = Some (List.find (\<lambda>i. a \<in> range_of (pool ! i)) (n # bs))"
    using Cons.IH [of "as @ [e]" n] Cons.prems by simp
  have ent: "entry_ok pool e" and srt: "sorted_wrt (before pool) (e # n # bs)"
    using Cons.prems by (auto simp: addr_ok_def sorted_wrt_append)
  have "List.find (\<lambda>i. a \<in> range_of (pool ! i)) (n # bs) = None" if "a \<le> end_addr (pool ! e)"
    unfolding find_None_iff using that srt by (auto simp: before_def range_of_def)
  with ent show ?case
    by (subst search_containing_loop.simps)
       (auto simp: nxt IH range_of_def entry_ok_def simp del: find.simps(2) simp: find.simps(2) [of _ e])
qed

lemma search_containing:
  assumes inv: "alloc_inv s"
  shows "\<exists>r. search_entry_containing_address_mut (memory_entry_pool s) (first_entry s) a = Some r \<and>
    (case r of None \<Rightarrow> a \<notin> free_bytes s
     | Some e \<Rightarrow> e \<in> live (memory_entry_pool s) \<and> a \<in> range_of (memory_entry_pool s ! e))"
proof -
  let ?p = "memory_entry_pool s"
  from inv obtain xs where ok: "addr_ok ?p (first_entry s) xs" by (rule alloc_invE)
  then have mem: "set xs = live ?p" and first: "first_entry s = head_or None xs"
    by (simp_all add: addr_ok_def)
  show ?thesis
  proof (cases xs)
    case Nil
    with mem first show ?thesis
      by (simp add: search_entry_containing_address_mut_def free_bytes_def bytes_of_def)
  next
    case (Cons e bs)
    have "e < POOL_SIZE" using Cons mem live_less by auto
    then have run: "search_entry_containing_address_mut ?p (first_entry s) a =
        Some (List.find (\<lambda>i. a \<in> range_of (?p ! i)) xs)"
      using search_containing_loop_find [of ?p "first_entry s" "[]" e bs a] ok first Cons
      by (simp add: search_entry_containing_address_mut_def get_memory_entry_def)
    show ?thesis
    proof (cases "List.find (\<lambda>i. a \<in> range_of (?p ! i)) xs")
      case None
      then have "a \<notin> free_bytes s" using mem by (auto simp: find_None_iff free_bytes_def bytes_of_def)
      with run None show ?thesis by simp
    next
      case (Some i)
      then have "i \<in> set xs \<and> a \<in> range_of (?p ! i)" by (auto simp: find_Some_iff)
      with run Some mem show ?thesis by simp
    qed
  qed
qed

text \<open>A range that runs over the end of its entry is never taken.\<close>

lemma carve_overrun:
  assumes inv: "alloc_inv s" and e: "e \<in> live (memory_entry_pool s)"
    and st: "start \<in> range_of (memory_entry_pool s ! e)" and over: "end_addr (memory_entry_pool s ! e) + 1 < start + sz"
    and run: "carve_entry s e start sz = Some (r, s')"
  shows "r \<noteq> Inr () \<and> s' = s"
proof -
  let ?p = "memory_entry_pool s"
  from inv obtain xs where ok: "addr_ok ?p (first_entry s) xs" by (rule alloc_invE)
  have len: "length ?p = POOL_SIZE" and ent: "entry_ok ?p e" using ok e addr_ok_entry by (auto simp: addr_ok_def)
  have ne: "get_end_address start sz = Some t \<Longrightarrow> end_addr (?p ! e) \<noteq> t" for t
    using over by (auto simp: get_end_address_def)
  have big: "\<not> start + sz < end_addr (?p ! e)" using over by simp
  consider (front) "start_addr (?p ! e) = start" | (last) "start_addr (?p ! e) \<noteq> start" "end_addr (?p ! e) = start"
    | (mid) "start_addr (?p ! e) \<noteq> start" "end_addr (?p ! e) \<noteq> start" by blast
  then show ?thesis
  proof cases
    case front
    with run ne big show ?thesis by (auto simp: carve_entry_def Let_def set_range_eq split: if_splits)
  next
    case last
    then have "sz \<noteq> 1" using over by simp
    with last run show ?thesis by (auto simp: carve_entry_def Let_def)
  next
    case mid
    from len show ?thesis
    proof (cases rule: create_memory_entry_cases)
      case full
      with mid run ne show ?thesis by (auto simp: carve_entry_def Let_def split: if_splits)
    next
      case (new n)
      have "e \<noteq> n" "n < length ?p" using new e len by auto
      with mid run ne new(3) big show ?thesis
        by (auto simp: carve_entry_def Let_def set_range_eq split: if_splits)
    qed
  qed
qed

lemma blockedD:
  "blocked s e a sz \<Longrightarrow> free_bytes s = {a..<a + sz} \<or> pool_full s"
  by (auto simp: blocked_def Let_def free_bytes_def bytes_of_def pool_full_def)

section \<open>Properties of allocate\<close>

lemma allocate_outcome:
  assumes inv: "alloc_inv s" and rb: "roundable (free_bytes s) al"
    and run: "allocate s sz al = Some (r, s')"
  shows "case r of Inr a \<Rightarrow> takes s s' a sz \<and> 2 ^ al dvd a | Inl err \<Rightarrow> s' = s"
proof (cases "0 < sz \<and> sz < free_size s")
  case False
  with run show ?thesis by (auto simp: allocate_def split: if_splits)
next
  case True
  then have sz: "0 < sz" "sz < free_size s" by simp_all
  from inv rb sz show ?thesis
  proof (cases rule: allocate_cases)
    case none
    show ?thesis using run unfolding none(1) by auto
  next
    case (some e a)
    note carve = carve_entry_sound [OF inv some(1) sz(1) less_imp_le [OF sz(2)]]
    show ?thesis
      using run carve some(2) unfolding some(4) by (cases r) (auto simp: used_result_Some)
  qed
qed

text \<open>
  C3. Whatever \<open>allocate\<close> returns, an address it grants starts a range of the
  requested size that was free, is aligned as requested, is no longer free
  afterwards, and nothing else changes; on an error the allocator is untouched.
\<close>

theorem allocate_sound:
  assumes inv: "alloc_inv s" and rb: "roundable (free_bytes s) al"
    and run: "allocate s sz al = Some (r, s')"
  shows "case r of Inr a \<Rightarrow> takes s s' a sz \<and> 2 ^ al dvd a | Inl err \<Rightarrow> s' = s"
  using assms by (rule allocate_outcome)

lemma allocate_pages_outcome:
  assumes inv: "alloc_inv s" and pg: "page_granular (free_bytes s)" and rb: "roundable (free_bytes s) al"
    and n: "0 < n" "n * PAGE_SIZE < free_size s"
  shows "\<exists>r s'. allocate_pages s n al = Some (r, s') \<and>
    (case r of
       Inr a \<Rightarrow> takes s s' a (n * PAGE_SIZE) \<and> 2 ^ al dvd a \<and> PAGE_SIZE dvd a \<and> page_granular (free_bytes s')
     | Inl NoMemory \<Rightarrow> s' = s \<and> (\<nexists>a. 2 ^ al dvd a \<and> {a..<a + n * PAGE_SIZE} \<subseteq> free_bytes s)
     | Inl NoEntry \<Rightarrow> s' = s \<and>
         ((\<exists>a. free_bytes s = {a..<a + n * PAGE_SIZE}) \<or> pool_full s)
     | Inl _ \<Rightarrow> False)"
proof -
  let ?p = "memory_entry_pool s" and ?sz = "n * PAGE_SIZE"
  have "?sz < 2 ^ 64" using n(2) inv by (auto simp: alloc_inv_def)
  then have shl: "allocate_pages s n al = allocate s ?sz al"
    by (simp add: allocate_pages_def usize_shl_def PAGE_SIZE_def PAGE_SHIFT_def)
  have sz: "0 < ?sz" "?sz < free_size s" using n by simp_all
  from inv rb sz show ?thesis
  proof (cases rule: allocate_cases)
    case none
    then show ?thesis by (auto simp: shl)
  next
    case (some e a)
    have "e \<in> live ?p" using some(1) by (simp add: within_def)
    note pe = page_entry [OF inv pg this]
    have da: "PAGE_SIZE dvd a" unfolding some(3) using pe(1) by (rule aligned_up_page)
    have "no_stump (?p ! e) a ?sz" using pe da by (intro page_no_stump) simp_all
    then have "carve_spec s e a ?sz" using carve_entry_correct [OF inv some(1)] sz by simp
    then obtain u s' where run: "carve_entry s e a ?sz = Some (u, s')"
      and res: "if blocked s e a ?sz then u = Inl NoEntry \<and> s' = s else u = Inr () \<and> takes s s' a ?sz"
      by (auto simp: carve_spec_def)
    note card = blockedD [of s e a ?sz]
    show ?thesis
    proof (cases "blocked s e a ?sz")
      case True
      then have "allocate_pages s n al = Some (Inl NoEntry, s)"
        using run res by (simp add: shl some(4) used_result_Some)
      with card [OF True] show ?thesis by auto
    next
      case False
      then have "allocate_pages s n al = Some (Inr a, s')"
        using run res by (simp add: shl some(4) used_result_Some)
      moreover have "page_granular (free_bytes s - {a..<a + ?sz})"
        using da by (intro page_granular_Diff page_granular_interval pg) simp_all
      ultimately show ?thesis using False res some(2) da by (simp add: takes_def)
    qed
  qed
qed


text \<open>
  C5. Without an alignment \<open>allocate\<close> is a best fit: the range it grants is the
  front of a smallest free entry that can hold the request.
\<close>

theorem allocate_best_fit:
  assumes inv: "alloc_inv s" and run: "allocate s sz 0 = Some (Inr a, s')"
  shows "\<exists>e \<in> live (memory_entry_pool s). start_addr (memory_entry_pool s ! e) = a \<and>
     sz \<le> esz (memory_entry_pool s ! e) \<and>
     (\<forall>i \<in> live (memory_entry_pool s). sz \<le> esz (memory_entry_pool s ! i) \<longrightarrow>
        esz (memory_entry_pool s ! e) \<le> esz (memory_entry_pool s ! i))"
proof -
  let ?p = "memory_entry_pool s"
  have sz: "0 < sz" "sz < free_size s" using run by (auto simp: allocate_def split: if_splits)
  have fit: "fits ?p sz 0 i" if "i \<in> live ?p" "sz \<le> esz (?p ! i)" for i
    using that entries_ready [OF inv roundable_0 [OF inv] that(1)] by (auto simp: fits_def esz_def entry_ok_def)
  from inv roundable_0 [OF inv] sz show ?thesis
  proof (cases rule: allocate_cases)
    case none
    with run show ?thesis by simp
  next
    case (some e b)
    have "b = a" using run unfolding some(4) by (simp add: used_result_Some)
    moreover have "sz \<le> esz (?p ! e)" using some(1,3) unfolding within_def esz_def by simp linarith
    ultimately show ?thesis using some(1,3,5) fit by (auto simp: within_def intro!: bexI [of _ e])
  qed
qed

text \<open>
  A request that leaves exactly one byte of the entry it is cut from does not
  return: here the only free entry has one byte more than is asked for.
\<close>

theorem allocate_one_byte_left:
  assumes inv: "alloc_inv s" and one: "live (memory_entry_pool s) = {e}"
    and sz: "0 < sz" "esz (memory_entry_pool s ! e) = sz + 1"
  shows "allocate s sz 0 = None"
proof -
  let ?p = "memory_entry_pool s"
  have ent: "entry_ok ?p e" using entries_ready [OF inv roundable_0 [OF inv]] one by simp
  have fb: "free_bytes s = range_of (?p ! e)" using one by (simp add: free_bytes_def bytes_of_def)
  have E: "end_addr (?p ! e) = start_addr (?p ! e) + sz" using ent sz by (simp add: esz_def entry_ok_def)
  then have "card (range_of (?p ! e)) = sz + 1" by (simp add: range_of_def)
  then have lt: "sz < free_size s" using inv fb by (simp add: alloc_inv_def)
  have run: "{start_addr (?p ! e)..<start_addr (?p ! e) + sz} \<subseteq> free_bytes s"
    unfolding fb by (auto simp: range_of_def E)
  from inv roundable_0 [OF inv] sz(1) lt show ?thesis
  proof (cases rule: allocate_cases)
    case none
    with run show ?thesis by simp
  next
    case (some e' a)
    have e': "e' = e" "a = start_addr (?p ! e)" using some(1,3) one by (auto simp: within_def)
    have eq: "a + sz = end_addr (?p ! e)" "end_addr (?p ! e) \<noteq> a + sz - 1" using e'(2) E sz by simp_all
    note facts = within_facts [OF inv some(1) sz(1) less_imp_le [OF lt]]
    have "carve_entry s e a sz = None"
      using eq by (simp add: carve_entry_def e'(2) [symmetric] facts(1-4) [unfolded e'(1)] set_range_eq Let_def)
    with some(4) e' show ?thesis by (simp add: used_result_def)
  qed
qed

section \<open>Properties of reserve\_memory\<close>

lemma reserve_memory_unfold:
  "0 < sz \<Longrightarrow> sz \<le> free_size s \<Longrightarrow> reserve_memory s a sz 0 = do {
     r \<leftarrow> search_entry_containing_address_mut (memory_entry_pool s) (first_entry s) a;
     (case r of Some e \<Rightarrow> carve_entry s e a sz | None \<Rightarrow> Some (Inl InvalidRequest, s)) }"
  by (simp add: reserve_memory_def define_used_memory_def define_used_memory_unaligned_def)

lemma reserve_memory_cases:
  assumes inv: "alloc_inv s" and run: "reserve_memory s a sz 0 = Some (r, s')"
  shows "case r of Inr _ \<Rightarrow> takes s s' a sz | Inl err \<Rightarrow> s' = s"
proof (cases "0 < sz \<and> sz \<le> free_size s")
  case False
  with run show ?thesis by (auto simp: reserve_memory_def define_used_memory_def split: if_splits)
next
  case True
  then have sz: "0 < sz" "sz \<le> free_size s" by simp_all
  obtain q where q: "search_entry_containing_address_mut (memory_entry_pool s) (first_entry s) a = Some q"
    and q': "case q of None \<Rightarrow> a \<notin> free_bytes s
     | Some e \<Rightarrow> e \<in> live (memory_entry_pool s) \<and> a \<in> range_of (memory_entry_pool s ! e)"
    using search_containing [OF inv] by blast
  show ?thesis
  proof (cases q)
    case None
    with run q show ?thesis by (auto simp: reserve_memory_unfold [OF sz])
  next
    case (Some e)
    with run q have c: "carve_entry s e a sz = Some (r, s')" by (simp add: reserve_memory_unfold [OF sz])
    have e: "e \<in> live (memory_entry_pool s)" "a \<in> range_of (memory_entry_pool s ! e)" using q' Some by simp_all
    show ?thesis
    proof (cases "a + sz \<le> end_addr (memory_entry_pool s ! e) + 1")
      case True
      with e have "within s e a sz" by (simp add: within_def range_of_def)
      from carve_entry_sound [OF inv this sz c] show ?thesis by (auto split: sum.splits)
    next
      case False
      with carve_overrun [OF inv e _ c] show ?thesis by (auto split: sum.splits)
    qed
  qed
qed

text \<open>
  C6. When \<open>reserve_memory\<close> succeeds, exactly the bytes asked for are taken out of the
  free memory and all of them were free; when it fails, nothing has changed.
\<close>

theorem reserve_memory_sound:
  assumes "alloc_inv s" and "reserve_memory s a sz 0 = Some (r, s')"
  shows "case r of Inr _ \<Rightarrow> takes s s' a sz | Inl err \<Rightarrow> s' = s"
  using assms by (rule reserve_memory_cases)

lemma reserve_memory_outcome:
  assumes inv: "alloc_inv s" and pg: "page_granular (free_bytes s)" and dvd: "PAGE_SIZE dvd a" "PAGE_SIZE dvd sz"
    and sz: "0 < sz" and free: "{a..<a + sz} \<subseteq> free_bytes s"
    and room: "free_bytes s \<noteq> {a..<a + sz}" "\<not> pool_full s"
  shows "\<exists>s'. reserve_memory s a sz 0 = Some (Inr (), s') \<and> takes s s' a sz"
proof -
  let ?p = "memory_entry_pool s"
  from inv obtain xs where ok: "addr_ok ?p (first_entry s) xs" by (rule alloc_invE)
  have "card {a..<a + sz} \<le> card (free_bytes s)" using free by (intro card_mono) simp_all
  then have le: "sz \<le> free_size s" using inv by (simp add: alloc_inv_def)
  obtain q where q: "search_entry_containing_address_mut ?p (first_entry s) a = Some q"
    and q': "case q of None \<Rightarrow> a \<notin> free_bytes s | Some e \<Rightarrow> e \<in> live ?p \<and> a \<in> range_of (?p ! e)"
    using search_containing [OF inv] by blast
  have "a \<in> free_bytes s" using free sz by auto
  with q' obtain e where e: "q = Some e" "e \<in> live ?p" "a \<in> range_of (?p ! e)" by (auto split: option.splits)
  obtain e' where e': "e' \<in> live ?p" "start_addr (?p ! e') \<le> a" "a + sz - 1 \<le> end_addr (?p ! e')"
    by (rule run_in_one_entry [OF ok sz free [unfolded free_bytes_def]])
  have "a \<in> range_of (?p ! e')" using e' sz by (simp add: range_of_def)
  with disjoint_ranges [OF ok e(2) e'(1)] e(3) have "e' = e" by auto
  with e' sz have w: "within s e a sz" by (auto simp: within_def)
  have "no_stump (?p ! e) a sz" using page_entry [OF inv pg e(2)] dvd by (intro page_no_stump)
  then have "carve_spec s e a sz" using carve_entry_correct [OF inv w sz le] by simp
  moreover have "\<not> blocked s e a sz" using blockedD room by blast
  ultimately show ?thesis by (auto simp: carve_spec_def reserve_memory_unfold [OF sz le] q e(1))
qed

text \<open>
  Reserving whole pages that are free succeeds and takes them, when they are not
  all the free memory and the pool of 64 entries is not used up.
\<close>

theorem reserve_memory_pages:
  assumes inv: "alloc_inv s" and pg: "page_granular (free_bytes s)" and dvd: "PAGE_SIZE dvd a" "PAGE_SIZE dvd sz"
    and sz: "0 < sz" and free: "{a..<a + sz} \<subseteq> free_bytes s"
    and room: "free_bytes s \<noteq> {a..<a + sz}" "\<not> pool_full s"
  shows "\<exists>s'. reserve_memory s a sz 0 = Some (Inr (), s') \<and> takes s s' a sz"
  using assms by (rule reserve_memory_outcome)

end
