(* ===== verification/AllocatorFree.thy ===== *)
theory AllocatorFree
  imports AllocatorAlloc
begin

text \<open>
  Giving memory back: \<open>define_free_memory\<close> and \<open>free\<close> on a range that does not
  meet the free memory, which is what a caller that frees what it allocated does.
  The range is merged with the free entries it touches, on the left, on the right
  or on both sides, or becomes an entry of its own.
\<close>

section \<open>What giving a range means\<close>

definition gives :: "MemoryAllocator \<Rightarrow> MemoryAllocator \<Rightarrow> usize \<Rightarrow> usize \<Rightarrow> bool" where
  "gives s s' start sz \<longleftrightarrow> alloc_inv s' \<and> {start..<start + sz} \<inter> free_bytes s = {} \<and>
     free_bytes s' = free_bytes s \<union> {start..<start + sz} \<and> free_size s' = free_size s + sz"

text \<open>Where the range belongs: the entries \<open>as\<close> lie below it, the entries \<open>bs\<close> above.\<close>

definition free_site :: "MemoryAllocator \<Rightarrow> usize \<Rightarrow> usize \<Rightarrow> nat list \<Rightarrow> nat list \<Rightarrow> bool" where
  "free_site s start sz as bs \<longleftrightarrow> addr_ok (memory_entry_pool s) (first_entry s) (as @ bs) \<and>
     (\<forall>i \<in> set as. end_addr (memory_entry_pool s ! i) < start) \<and>
     (\<forall>i \<in> set bs. start + sz \<le> start_addr (memory_entry_pool s ! i))"

lemma free_site_exists:
  assumes inv: "alloc_inv s" and sz: "0 < sz" and disj: "{start..<start + sz} \<inter> free_bytes s = {}"
  obtains as bs where "free_site s start sz as bs"
proof -
  let ?p = "memory_entry_pool s"
  from inv obtain xs where ok: "addr_ok ?p (first_entry s) xs" by (rule alloc_invE)
  then have mem: "set xs = live ?p" and srt: "sorted_wrt (before ?p) xs" by (simp_all add: addr_ok_def)
  have ent: "entry_ok ?p i" and apart: "{start..<start + sz} \<inter> range_of (?p ! i) = {}" if "i \<in> set xs" for i
    using that addr_ok_entry [OF ok] disj mem by (auto simp: free_bytes_def bytes_of_def)
  define as bs where "as = filter (\<lambda>i. start_addr (?p ! i) < start) xs"
    and "bs = filter (\<lambda>i. \<not> start_addr (?p ! i) < start) xs"
  have "sorted (map (\<lambda>i. start_addr (?p ! i)) xs)"
    unfolding sorted_map using ent
    by (intro sorted_wrt_mono_rel [OF _ srt]) (fastforce simp: before_def entry_ok_def)
  then have "xs = as @ bs"
    unfolding as_def bs_def by (rule sorted_filter_split [symmetric])
  moreover have "end_addr (?p ! i) < start" if "i \<in> set as" for i
  proof (rule ccontr)
    assume "\<not> ?thesis"
    moreover have "i \<in> set xs" "start_addr (?p ! i) < start" using that by (auto simp: as_def)
    ultimately have "start \<in> {start..<start + sz} \<inter> range_of (?p ! i)"
      using sz by (auto simp: range_of_def)
    with apart [OF \<open>i \<in> set xs\<close>] show False by simp
  qed
  moreover have "start + sz \<le> start_addr (?p ! i)" if "i \<in> set bs" for i
  proof (rule ccontr)
    assume "\<not> ?thesis"
    moreover have "i \<in> set xs" "start \<le> start_addr (?p ! i)" using that by (auto simp: bs_def)
    ultimately have "start_addr (?p ! i) \<in> {start..<start + sz} \<inter> range_of (?p ! i)"
      using ent [of i] by (auto simp: range_of_def entry_ok_def)
    with apart [OF \<open>i \<in> set xs\<close>] show False by simp
  qed
  ultimately show thesis using ok by (intro that [of as bs]) (simp add: free_site_def)
qed

section \<open>Finding the neighbour\<close>

lemma search_previous_loop_last:
  assumes "addr_ok pool first (cs @ e # ds @ bs)" and "\<And>i. i \<in> set (e # ds) \<Longrightarrow> end_addr (pool ! i) < start"
    and "\<And>i. i \<in> set bs \<Longrightarrow> start \<le> start_addr (pool ! i)"
  shows "search_previous_loop pool start e = Some (last_or (Some e) ds)"
  using assms
proof (induction ds arbitrary: cs e)
  case Nil
  have ent: "entry_ok pool e" using Nil.prems(1) by (simp add: addr_ok_def)
  have lt: "start_addr (pool ! e) < start" using ent Nil.prems(2) [of e] by (simp add: entry_ok_def)
  show ?case
  proof (cases bs)
    case Nil
    then have "get_next_entry pool e = None" using Nil.prems(1) addr_ok_next by fastforce
    with lt show ?thesis using Nil.prems(2) [of e]
      by (subst search_previous_loop.simps) simp
  next
    case (Cons b bs')
    then have "get_next_entry pool e = Some b" "get_prev_entry pool b = Some e" "start \<le> start_addr (pool ! b)"
      using Nil.prems addr_ok_next [of pool first cs e "b # bs'"] addr_ok_prev(1) [of pool first "cs @ [e]" b bs']
      by simp_all
    with lt show ?thesis
      by (subst search_previous_loop.simps, simp, subst search_previous_loop.simps, simp)
  qed
next
  case (Cons d ds)
  have ent: "entry_ok pool e" using Cons.prems(1) by (simp add: addr_ok_def)
  have lt: "start_addr (pool ! e) < start" using ent Cons.prems(2) [of e] by (simp add: entry_ok_def)
  have "get_next_entry pool e = Some d" using addr_ok_next [OF Cons.prems(1)] by simp
  moreover have "search_previous_loop pool start d = Some (last_or (Some d) ds)"
    using Cons.IH [of "cs @ [e]" d] Cons.prems by simp
  ultimately show ?case using lt by (subst search_previous_loop.simps) simp
qed

lemma search_previous:
  assumes site: "free_site s start sz as bs"
  shows "search_entry_previous_address_mut (memory_entry_pool s) (first_entry s) start = Some (last_or None as)"
proof -
  let ?p = "memory_entry_pool s"
  have ok: "addr_ok ?p (first_entry s) (as @ bs)" using site by (simp add: free_site_def)
  then have first: "first_entry s = head_or None (as @ bs)" and mem: "set (as @ bs) = live ?p"
    unfolding addr_ok_def by blast+
  have bound: "get_memory_entry ?p e = Inr e" if "e \<in> set (as @ bs)" for e
    using that mem live_less by (fastforce simp: get_memory_entry_def)
  show ?thesis
  proof (cases as)
    case (Cons e ds)
    have "search_previous_loop ?p start e = Some (last_or (Some e) ds)"
      using ok site Cons by (intro search_previous_loop_last [of _ "first_entry s" "[]" _ _ bs]) (auto simp: free_site_def)
    then show ?thesis using first Cons bound by (simp add: search_entry_previous_address_mut_def)
  next
    case Nil
    show ?thesis
    proof (cases bs)
      case (Cons b bs')
      have "get_prev_entry ?p b = None" "start \<le> start_addr (?p ! b)"
        using ok site Nil Cons addr_ok_prev(1) [of ?p "first_entry s" "[]" b bs'] by (auto simp: free_site_def)
      then have "search_previous_loop ?p start b = Some None" by (subst search_previous_loop.simps) simp
      then show ?thesis using first Nil Cons bound by (simp add: search_entry_previous_address_mut_def)
    qed (use first Nil in \<open>simp add: search_entry_previous_address_mut_def\<close>)
  qed
qed

section \<open>Growing an entry\<close>

lemma addr_ok_grow:
  assumes ok: "addr_ok pool first (as @ e # bs)" and r: "s1 < t1" "t1 + 1 < 2 ^ 64"
    and lo: "\<And>i. i \<in> set as \<Longrightarrow> end_addr (pool ! i) + 1 < s1"
    and hi: "\<And>i. i \<in> set bs \<Longrightarrow> t1 + 1 < start_addr (pool ! i)"
  shows "addr_ok (resize pool e s1 t1) first (as @ e # bs)"
proof -
  have len: "length pool = POOL_SIZE" and mem: "set (as @ e # bs) = live pool" and dist: "distinct (as @ e # bs)"
    and srt: "sorted_wrt (before pool) (as @ e # bs)"
    using ok unfolding addr_ok_def by blast+
  have e: "e < POOL_SIZE" using mem live_less by auto
  then have nth: "resize pool e s1 t1 ! i =
      (if i = e then (pool ! e)\<lparr>start_addr := s1, end_addr := t1\<rparr> else pool ! i)" for i
    using len by (simp add: resize_nth)
  have lk: "nx (resize pool e s1 t1) = nx pool" "pv (resize pool e s1 t1) = pv pool" by (auto simp: nth)
  have "sorted_wrt (before (resize pool e s1 t1)) (as @ bs)"
  proof (rule sorted_wrt_cong)
    show "sorted_wrt (before pool) (as @ bs)" using srt by (simp add: sorted_wrt_append)
    show "before (resize pool e s1 t1) i j" if "i \<in> set (as @ bs)" "j \<in> set (as @ bs)" "before pool i j" for i j
    proof -
      have "i \<noteq> e" "j \<noteq> e" using that(1,2) dist by auto
      then show ?thesis using that(3) by (simp add: before_def nth)
    qed
  qed
  moreover have "before (resize pool e s1 t1) i e" if "i \<in> set as" for i
    using that lo [OF that] dist by (auto simp: before_def nth)
  moreover have "before (resize pool e s1 t1) e i" if "i \<in> set bs" for i
    using that hi [OF that] dist by (auto simp: before_def nth)
  ultimately have "sorted_wrt (before (resize pool e s1 t1)) (as @ e # bs)" by (auto simp: sorted_wrt_append)
  moreover have "\<forall>i \<in> set (as @ e # bs). entry_ok (resize pool e s1 t1) i"
    using ok r by (auto simp: addr_ok_def entry_ok_def nth)
  ultimately show ?thesis using ok lk len e unfolding addr_ok_def by (simp add: live_resize mem del: set_append)
qed

text \<open>Filing an entry whose size has changed from \<open>szf e\<close>.\<close>

lemma refile_entry:
  assumes fl: "fl_ok pool fl szf A" and A: "A \<subseteq> {..<POOL_SIZE}" and e: "e \<in> A"
    and ok: "addr_ok q first xs" and live: "live q = A"
    and links: "\<And>i. i \<in> A \<Longrightarrow> ln q i = ln pool i \<and> lp q i = lp pool i"
    and same: "\<And>i. i \<in> A - {e} \<Longrightarrow> esz (q ! i) = szf i"
  obtains pool' fl' where "chain_entry_to_free_list q fl e (Some (szf e)) = Some (pool', fl')"
    "same_core q pool'" "lists_ok pool' fl'"
proof -
  have lenq: "length q = POOL_SIZE" using ok by (simp add: addr_ok_def)
  have ids: "entry_id (q ! i) = i" and gs: "get_size (q ! i) = Some (esz (q ! i))" if "i \<in> A" for i
    using addr_ok_entry [OF ok] that live by (auto simp: get_size_ok entry_ok_def)
  have flq: "fl_ok q fl szf A" using fl by (rule fl_gen_cong) (use links in auto)
  have s1: "get_size (q ! i) = Some (szf i)" if "i \<in> A - {e}" for i
    using gs [of i] same [OF that] that by simp
  obtain pool' fl' where r: "chain_entry_to_free_list q fl e (Some (szf e)) = Some (pool', fl')"
    and f: "fl_ok pool' fl' (szf(e := esz (q ! e))) A" and c: "same_core q pool'"
    by (rule chain_entry_Some [OF flq e A lenq _ s1 refl]) (use ids gs e in auto)
  have "lists_ok pool' fl'"
    unfolding lists_ok_def live_core [OF c] live
    using f by (rule fl_gen_cong) (use esz_core [OF c] same in auto)
  with r c show thesis by (intro that)
qed

lemma givesI:
  assumes inv: "alloc_inv s" and sz: "0 < sz" and fs: "free_size s + sz < 2 ^ 64"
    and disj: "{start..<start + sz} \<inter> free_bytes s = {}"
    and addr: "addr_ok pool' first' xs'" "xs' \<noteq> []" and lists: "lists_ok pool' fl'"
    and bytes: "bytes_of pool' (live pool') = free_bytes s \<union> {start..<start + sz}"
  shows "gives s (s\<lparr>free_size := free_size s + sz, first_entry := first', free_list := fl',
    memory_entry_pool := pool'\<rparr>) start sz"
proof -
  have "card (free_bytes s \<union> {start..<start + sz}) = card (free_bytes s) + sz"
    using disj by (subst card_Un_disjoint) auto
  then show ?thesis using inv fs disj addr lists bytes by (auto simp: gives_def alloc_inv_def free_bytes_def)
qed

lemma free_site_disjoint:
  assumes site: "free_site s start sz as bs"
  shows "{start..<start + sz} \<inter> free_bytes s = {}"
proof -
  have mem: "live (memory_entry_pool s) = set as \<union> set bs"
    using site by (auto simp: free_site_def addr_ok_def)
  show ?thesis
    using site by (fastforce simp: free_bytes_def bytes_of_def mem range_of_def free_site_def)
qed

lemma grow_entry:
  assumes inv: "alloc_inv s" and site: "free_site s start sz as bs" and sz: "0 < sz"
    and fs: "free_size s + sz < 2 ^ 64" and e: "e \<in> live (memory_entry_pool s)"
    and r: "s1 < t1" "{s1..t1} = range_of (memory_entry_pool s ! e) \<union> {start..<start + sz}"
    and ok: "addr_ok (resize (memory_entry_pool s) e s1 t1) (first_entry s) (as @ bs)"
  obtains pool' fl' where
    "chain_entry_to_free_list (resize (memory_entry_pool s) e s1 t1) (free_list s) e
       (Some (esz (memory_entry_pool s ! e))) = Some (pool', fl')"
    "same_core (resize (memory_entry_pool s) e s1 t1) pool'"
    "gives s (s\<lparr>free_size := free_size s + sz, free_list := fl', memory_entry_pool := pool'\<rparr>) start sz"
proof -
  let ?p = "memory_entry_pool s" and ?q = "resize (memory_entry_pool s) e s1 t1"
  from inv have fl: "fl_ok ?p (free_list s) (\<lambda>i. esz (?p ! i)) (live ?p)"
    by (simp add: alloc_inv_def lists_ok_def)
  have len: "length ?p = POOL_SIZE" and el: "e < POOL_SIZE" and mem: "set (as @ bs) = live ?p"
    using site e live_less by (auto simp: free_site_def addr_ok_def)
  note lv = live_resize [OF len el, of s1 t1]
  obtain pool' fl' where run: "chain_entry_to_free_list ?q (free_list s) e (Some (esz (?p ! e))) = Some (pool', fl')"
    and c: "same_core ?q pool'" and lists: "lists_ok pool' fl'"
    by (rule refile_entry [OF fl live_subset e ok lv]) (use len el in \<open>auto simp: resize_nth\<close>)
  have "bytes_of pool' (live pool') = free_bytes s \<union> {start..<start + sz}"
    unfolding live_core [OF c] bytes_of_core [OF c] lv bytes_of_resize [OF len el e] r(2)
    using bytes_of_split [OF e, of ?p] by (auto simp: free_bytes_def)
  moreover have "addr_ok pool' (first_entry s) (as @ bs)" using ok by (simp add: addr_ok_core [OF c])
  moreover have "as @ bs \<noteq> []" using mem e by auto
  ultimately have "gives s (s\<lparr>free_size := free_size s + sz, first_entry := first_entry s, free_list := fl',
      memory_entry_pool := pool'\<rparr>) start sz"
    using lists by (intro givesI [OF inv sz fs free_site_disjoint [OF site]])
  with run c show thesis by (intro that) simp_all
qed

section \<open>A new entry\<close>

text \<open>The pool after linking the fresh entry \<open>n\<close> between \<open>as\<close> and \<open>bs\<close>.\<close>

definition linked_new :: "MemoryEntryPool \<Rightarrow> MemoryEntryPool \<Rightarrow> nat list \<Rightarrow> nat \<Rightarrow> nat list \<Rightarrow> usize \<Rightarrow> usize \<Rightarrow> bool" where
  "linked_new pool q as n bs s1 t1 \<longleftrightarrow> length q = POOL_SIZE \<and>
     q ! n = MemoryEntry_new\<lparr>entry_id := n, enabled := True, start_addr := s1, end_addr := t1,
       previous := last_or None as, nxt := head_or None bs\<rparr> \<and>
     (\<forall>i. i \<noteq> n \<longrightarrow> q ! i =
       (if last_or None as = Some i then (pool ! i)\<lparr>nxt := Some n\<rparr>
        else if head_or None bs = Some i then (pool ! i)\<lparr>previous := Some n\<rparr>
        else pool ! i))"

lemma insert_new_entry:
  assumes inv: "alloc_inv s" and site: "free_site s start sz as bs" and sz: "2 \<le> sz"
    and fs: "free_size s + sz < 2 ^ 64" and t: "start + sz < 2 ^ 64"
    and lo: "\<And>i. i \<in> set as \<Longrightarrow> end_addr (memory_entry_pool s ! i) + 1 < start"
    and hi: "\<And>i. i \<in> set bs \<Longrightarrow> start + sz < start_addr (memory_entry_pool s ! i)"
    and n: "n \<notin> live (memory_entry_pool s)" "n < POOL_SIZE" and e: "e \<in> live (memory_entry_pool s)"
    and q: "linked_new (memory_entry_pool s) q as n bs start (start + sz - 1)"
  obtains pool' fl' where
    "chain_entry_to_free_list q (free_list s) e (Some (esz (memory_entry_pool s ! e))) = Some (q, free_list s)"
    "chain_entry_to_free_list q (free_list s) n None = Some (pool', fl')"
    "gives s (s\<lparr>free_size := free_size s + sz, first_entry := head_or None (as @ n # bs), free_list := fl',
       memory_entry_pool := pool'\<rparr>) start sz"
proof -
  let ?p = "memory_entry_pool s"
  have ok: "addr_ok ?p (first_entry s) (as @ bs)" using site by (simp add: free_site_def)
  from inv have fl: "fl_ok ?p (free_list s) (\<lambda>i. esz (?p ! i)) (live ?p)"
    by (simp add: alloc_inv_def lists_ok_def)
  have qn: "enabled (q ! n)" "entry_ok q n" "nxt (q ! n) = head_or None bs" "previous (q ! n) = last_or None as"
    "length q = POOL_SIZE" "start_addr (q ! n) = start" "end_addr (q ! n) = start + sz - 1"
    "ln q n = None" "lp q n = None"
    using q sz t by (auto simp: linked_new_def entry_ok_def MemoryEntry_new_def)
  have qi: "q ! i = (if last_or None as = Some i then (?p ! i)\<lparr>nxt := Some n\<rparr>
        else if head_or None bs = Some i then (?p ! i)\<lparr>previous := Some n\<rparr> else ?p ! i)" if "i \<noteq> n" for i
    using q that by (simp add: linked_new_def)
  have old: "ln q i = ln ?p i" "lp q i = lp ?p i" "esz (q ! i) = esz (?p ! i)" "range_of (q ! i) = range_of (?p ! i)"
    if "i \<in> live ?p" for i
  proof -
    have "i \<noteq> n" using that n(1) by auto
    then show "ln q i = ln ?p i" "lp q i = lp ?p i" "esz (q ! i) = esz (?p ! i)" "range_of (q ! i) = range_of (?p ! i)"
      by (simp_all add: qi esz_def range_of_def)
  qed
  have hi': "end_addr (q ! n) + 1 < start_addr (?p ! i)" if "i \<in> set bs" for i using hi [OF that] qn(7) sz by simp
  have lo': "end_addr (?p ! i) + 1 < start_addr (q ! n)" if "i \<in> set as" for i using lo [OF that] qn(6) by simp
  note ins = addr_ok_insert [OF ok n qn(5) qi qn(1-4) lo' hi']
  obtain pool5 fl5 pool' fl' where r5: "chain_entry_to_free_list q (free_list s) e (Some (esz (?p ! e))) = Some (pool5, fl5)"
    and r6: "chain_entry_to_free_list pool5 fl5 n None = Some (pool', fl')"
    and c: "same_core q pool'" and lists: "lists_ok pool' fl'"
    by (rule file_two_entries [OF fl live_subset e n ins]) (use old qn in auto)
  have "get_size (q ! e) = Some (esz (?p ! e))"
    using get_size_ok [OF addr_ok_entry [OF ins(1), of e]] e ins(2) old by simp
  then have r5': "chain_entry_to_free_list q (free_list s) e (Some (esz (?p ! e))) = Some (q, free_list s)"
    by (simp add: chain_entry_to_free_list_def)
  have "bytes_of pool' (live pool') = free_bytes s \<union> {start..<start + sz}"
  proof -
    have "range_of (q ! n) = {start..<start + sz}" using qn(6,7) sz by (auto simp: range_of_def)
    moreover have "bytes_of q (live ?p) = free_bytes s" using old(4) by (simp add: bytes_of_def free_bytes_def)
    moreover have "bytes_of q (insert n (live ?p)) = range_of (q ! n) \<union> bytes_of q (live ?p)"
      by (rule bytes_of_insert)
    moreover have "live pool' = insert n (live ?p)" using ins(2) by (simp add: live_core [OF c])
    ultimately show ?thesis by (simp add: bytes_of_core [OF c] Un_commute)
  qed
  moreover have "addr_ok pool' (head_or None (as @ n # bs)) (as @ n # bs)" using ins(1) by (simp add: addr_ok_core [OF c])
  ultimately have "gives s (s\<lparr>free_size := free_size s + sz, first_entry := head_or None (as @ n # bs),
      free_list := fl', memory_entry_pool := pool'\<rparr>) start sz"
    using sz lists by (intro givesI [OF inv _ fs free_site_disjoint [OF site], where xs' = "as @ n # bs"]) auto
  with r5 r6 r5' show thesis by (intro that) simp_all
qed

section \<open>Merging on both sides\<close>

lemma merge_unfile:
  assumes inv: "alloc_inv s" and site: "free_site s start sz (cs @ [e]) (ne # ds)" and sz: "0 < sz"
    and L: "end_addr (memory_entry_pool s ! e) + 1 = start" and R: "start_addr (memory_entry_pool s ! ne) = start + sz"
  defines "q1 \<equiv> resize (resize (memory_entry_pool s) e (start_addr (memory_entry_pool s ! e)) (start + sz - 1))
       ne start (end_addr (memory_entry_pool s ! ne))"
  obtains p1 f1 p2 f2 x where
    "chain_entry_to_free_list q1 (free_list s) ne (Some (esz (memory_entry_pool s ! ne))) = Some (p1, f1)"
    "same_core q1 p1"
    "unchain_entry_from_free_list (resize p1 e (start_addr (memory_entry_pool s ! e)) (end_addr (memory_entry_pool s ! ne)))
       f1 ne = Some (p2, f2)"
    "fl_ok p2 f2 ((\<lambda>i. esz (memory_entry_pool s ! i))(ne := x)) (live (memory_entry_pool s) - {ne})"
    "same_core (resize q1 e (start_addr (memory_entry_pool s ! e)) (end_addr (memory_entry_pool s ! ne))) p2"
proof -
  let ?p = "memory_entry_pool s" and ?A = "live (memory_entry_pool s)"
  have ok: "addr_ok ?p (first_entry s) ((cs @ [e]) @ ne # ds)" using site by (simp add: free_site_def)
  have len: "length ?p = POOL_SIZE" and mem: "set (cs @ e # ne # ds) = ?A" and dist: "distinct (cs @ e # ne # ds)"
    and first: "first_entry s = head_or None (cs @ e # ne # ds)"
    using ok unfolding addr_ok_def by simp_all
  have e: "e \<in> ?A" "ne \<in> ?A" "e < POOL_SIZE" "ne < POOL_SIZE" "e \<noteq> ne" using mem dist live_less by auto
  from inv have fl: "fl_ok ?p (free_list s) (\<lambda>i. esz (?p ! i)) ?A" by (simp add: alloc_inv_def lists_ok_def)
  have entp: "entry_ok ?p i" if "i \<in> ?A" for i using ok that by (rule addr_ok_entry)
  let ?E = "end_addr (?p ! ne)" and ?S = "start_addr (?p ! e)"
  have q1: "q1 ! i = (if i = ne then (?p ! ne)\<lparr>start_addr := start\<rparr>
      else if i = e then (?p ! e)\<lparr>end_addr := start + sz - 1\<rparr> else ?p ! i)" for i
    using e len by (simp add: q1_def resize_nth)
  have sizes: "?S < start + sz - 1" "start + sz - 1 + 1 < 2 ^ 64" "start < ?E" "?S < ?E"
    using entp [OF e(1)] entp [OF e(2)] L R sz by (auto simp: entry_ok_def)
  have gs1: "get_size (q1 ! i) = Some (esz (q1 ! i))" "entry_id (q1 ! i) = i" if "i \<in> ?A" for i
    using entp [OF that] sizes e by (auto simp: q1 entry_ok_def intro!: get_size_range)
  obtain p1 f1 where r1: "chain_entry_to_free_list q1 (free_list s) ne (Some (esz (?p ! ne))) = Some (p1, f1)"
    and fl1: "fl_gen {ne} p1 f1 ((\<lambda>i. esz (?p ! i))(ne := esz (q1 ! ne))) ?A" and c1: "same_core q1 p1"
  proof (rule chain_entry_general [where pool = q1 and gz = "\<lambda>i. esz (q1 ! i)" and Y = "{ne}"])
    show "fl_ok q1 (free_list s) (\<lambda>i. esz (?p ! i)) ?A" using fl by (rule fl_gen_cong) (auto simp: q1)
    show "length q1 = POOL_SIZE" using len by (simp add: q1_def)
  qed (use e gs1 live_subset in auto)
  define q2 where "q2 = resize p1 e ?S ?E"
  note d1 = same_coreD [OF c1]
  have lenq2: "length q2 = POOL_SIZE" using d1(1) len by (simp add: q2_def q1_def)
  have q2: "q2 ! i = (if i = e then (p1 ! e)\<lparr>start_addr := ?S, end_addr := ?E\<rparr> else p1 ! i)" for i
    using lenq2 e by (simp add: q2_def resize_nth)
  have fl2: "fl_gen {ne} q2 f1 ((\<lambda>i. esz (?p ! i))(ne := esz (q1 ! ne))) ?A"
    using fl1 by (rule fl_gen_cong) (auto simp: q2)
  have "get_size (q2 ! ne) = Some (esz (q1 ! ne))" "entry_id (q2 ! ne) = ne"
    using gs1 [OF e(2)] e(5) by (simp_all add: q2 d1)
  then obtain p2 f2 where r2: "unchain_entry_from_free_list q2 f1 ne = Some (p2, f2)"
    and fl2': "fl_ok p2 f2 ((\<lambda>i. esz (?p ! i))(ne := esz (q1 ! ne))) (?A - {ne})" and c2: "same_core q2 p2"
    using unchain_entry [OF fl2 e(2) live_subset lenq2, of thesis] by auto
  have "same_core (resize q1 e ?S ?E) q2"
    using e d1 lenq2 len by (auto simp: same_core_def q2_def q1_def resize_def pool_upd_def nth_list_update
        core_def intro!: MemoryEntry.equality)
  then have "same_core (resize q1 e ?S ?E) p2" using c2 by (rule same_core_trans)
  with r1 c1 r2 fl2' show thesis by (intro that) (simp_all add: q2_def)
qed

lemma merge_entries:
  assumes inv: "alloc_inv s" and site: "free_site s start sz (cs @ [e]) (ne # ds)" and sz: "0 < sz"
    and fs: "free_size s + sz < 2 ^ 64"
    and L: "end_addr (memory_entry_pool s ! e) + 1 = start" and R: "start_addr (memory_entry_pool s ! ne) = start + sz"
  defines "q1 \<equiv> resize (resize (memory_entry_pool s) e (start_addr (memory_entry_pool s ! e)) (start + sz - 1))
       ne start (end_addr (memory_entry_pool s ! ne))"
  obtains p1 f1 p2 f2 p3 f3 where
    "chain_entry_to_free_list q1 (free_list s) ne (Some (esz (memory_entry_pool s ! ne))) = Some (p1, f1)"
    "same_core q1 p1"
    "unchain_entry_from_free_list (resize p1 e (start_addr (memory_entry_pool s ! e)) (end_addr (memory_entry_pool s ! ne)))
       f1 ne = Some (p2, f2)"
    "chain_entry_to_free_list (delete_entry p2 ne) f2 e (Some (esz (memory_entry_pool s ! e))) = Some (p3, f3)"
    "gives s (s\<lparr>free_size := free_size s + sz, free_list := f3, memory_entry_pool := p3\<rparr>) start sz"
proof -
  let ?p = "memory_entry_pool s" and ?A = "live (memory_entry_pool s)"
  let ?E = "end_addr (?p ! ne)" and ?S = "start_addr (?p ! e)"
  obtain p1 f1 p2 f2 x where r1: "chain_entry_to_free_list q1 (free_list s) ne (Some (esz (?p ! ne))) = Some (p1, f1)"
    and c1: "same_core q1 p1" and r2: "unchain_entry_from_free_list (resize p1 e ?S ?E) f1 ne = Some (p2, f2)"
    and fl2: "fl_ok p2 f2 ((\<lambda>i. esz (?p ! i))(ne := x)) (?A - {ne})" and c2: "same_core (resize q1 e ?S ?E) p2"
    using merge_unfile [OF inv site sz L R] unfolding q1_def by blast
  have ok: "addr_ok ?p (first_entry s) ((cs @ [e]) @ ne # ds)" using site by (simp add: free_site_def)
  have len: "length ?p = POOL_SIZE" and mem: "set (cs @ e # ne # ds) = ?A" and dist: "distinct (cs @ e # ne # ds)"
    and first: "first_entry s = head_or None (cs @ e # ds)" and srt: "sorted_wrt (before ?p) (cs @ e # ne # ds)"
    using ok unfolding addr_ok_def by simp_all
  have e: "e \<in> ?A" "ne \<in> ?A" "e < POOL_SIZE" "ne < POOL_SIZE" "e \<noteq> ne" using mem dist live_less by auto
  have entp: "entry_ok ?p i" if "i \<in> ?A" for i using ok that by (rule addr_ok_entry)
  note d2 = same_coreD [OF c2]
  have q1: "resize q1 e ?S ?E ! i = (if i = ne then (?p ! ne)\<lparr>start_addr := start\<rparr>
      else if i = e then (?p ! e)\<lparr>end_addr := ?E\<rparr> else ?p ! i)" for i
    using e len by (simp add: q1_def resize_nth)
  have p2: "previous (p2 ! i) = previous (?p ! i)" "nxt (p2 ! i) = nxt (?p ! i)" "entry_id (p2 ! i) = entry_id (?p ! i)"
      "enabled (p2 ! i) = enabled (?p ! i)" "i \<noteq> ne \<Longrightarrow> start_addr (p2 ! i) = start_addr (?p ! i)"
      "i \<noteq> ne \<Longrightarrow> end_addr (p2 ! i) = (if i = e then ?E else end_addr (?p ! i))" for i
    by (auto simp: d2 q1)
  have "linked p2 ((cs @ [e]) @ ne # ds)"
    using addr_ok_linked [OF ok] len d2(1) by (simp add: linked_def p2 q1_def)
  note nth2 = delete_entry_nth [OF this] and nthp = delete_entry_nth [OF addr_ok_linked [OF ok]]
  note del = addr_ok_delete [OF ok]
  have other: "i \<noteq> ne" if "i \<in> set cs \<union> set ds" for i using that dist by auto
  have "end_addr (delete_entry ?p ne ! i) + 1 < ?S" if "i \<in> set cs" for i
    using srt that del(3) [OF other] by (simp add: sorted_wrt_append before_def)
  moreover have "?E + 1 < start_addr (delete_entry ?p ne ! i)" if "i \<in> set ds" for i
    using srt that del(3) [OF other] by (simp add: sorted_wrt_append before_def)
  ultimately have "addr_ok (resize (delete_entry ?p ne) e ?S ?E) (first_entry s) (cs @ e # ds)"
    using del(1) first entp [OF e(1)] entp [OF e(2)] L R
    by (intro addr_ok_grow) (auto simp: entry_ok_def)
  moreover have lv3: "live (delete_entry p2 ne) = ?A - {ne}" using nth2 by (auto simp: live_def p2)
  moreover have "resize (delete_entry ?p ne) e ?S ?E ! i =
      (if i = e then (delete_entry ?p ne ! e)\<lparr>start_addr := ?S, end_addr := ?E\<rparr> else delete_entry ?p ne ! i)" for i
    using nthp e by (simp add: resize_nth)
  ultimately have ok3: "addr_ok (delete_entry p2 ne) (first_entry s) (cs @ e # ds)"
    by (rule_tac addr_ok_transfer) (use nth2 nthp e del(2) in \<open>auto simp: p2 live_resize\<close>)
  obtain p3 f3 where r3: "chain_entry_to_free_list (delete_entry p2 ne) f2 e
      (Some (((\<lambda>i. esz (?p ! i))(ne := x)) e)) = Some (p3, f3)"
    and c3: "same_core (delete_entry p2 ne) p3" and l3: "lists_ok p3 f3"
    by (rule refile_entry [OF fl2 _ _ ok3 lv3])
       (use e live_subset nth2 in \<open>auto simp: p2 esz_def\<close>)
  have "bytes_of p3 (live p3) = free_bytes s \<union> {start..<start + sz}"
  proof -
    have "bytes_of p3 (live p3) = bytes_of (delete_entry p2 ne) (?A - {ne})"
      by (simp add: live_core [OF c3] bytes_of_core [OF c3] lv3)
    also have "\<dots> = range_of (delete_entry p2 ne ! e) \<union> bytes_of (delete_entry p2 ne) (?A - {ne} - {e})"
      using e by (intro bytes_of_split) simp
    also have "bytes_of (delete_entry p2 ne) (?A - {ne} - {e}) = bytes_of ?p (?A - {ne} - {e})"
      using nth2 by (intro bytes_of_cong) (auto simp: p2)
    also have "range_of (delete_entry p2 ne ! e) = range_of (?p ! e) \<union> range_of (?p ! ne) \<union> {start..<start + sz}"
      using nth2 e L R entp [OF e(1)] entp [OF e(2)] by (auto simp: p2 range_of_def entry_ok_def)
    finally show ?thesis
      using bytes_of_split [OF e(2), of ?p] bytes_of_split [of e "?A - {ne}" ?p] e by (auto simp: free_bytes_def)
  qed
  moreover have "addr_ok p3 (first_entry s) (cs @ e # ds)" using ok3 by (simp add: addr_ok_core [OF c3])
  ultimately have "gives s (s\<lparr>free_size := free_size s + sz, first_entry := first_entry s, free_list := f3,
      memory_entry_pool := p3\<rparr>) start sz"
    using l3 by (intro givesI [OF inv sz fs free_site_disjoint [OF site], where xs' = "cs @ e # ds"]) auto
  with r1 c1 r2 r3 e(5) show thesis by (intro that) simp_all
qed

section \<open>The shapes of the source\<close>

definition fresh_at :: "MemoryEntryPool \<Rightarrow> nat \<Rightarrow> usize \<Rightarrow> usize \<Rightarrow> MemoryEntryPool" where
  "fresh_at pool n s1 t1 = resize (pool[n := MemoryEntry_new\<lparr>entry_id := n, enabled := True\<rparr>]) n s1 t1"

lemma fresh_at_nth:
  "n < length pool \<Longrightarrow> fresh_at pool n s1 t1 ! i =
     (if i = n then MemoryEntry_new\<lparr>entry_id := n, enabled := True, start_addr := s1, end_addr := t1\<rparr> else pool ! i)"
  "length (fresh_at pool n s1 t1) = length pool"
  by (simp_all add: fresh_at_def resize_nth)

lemma link_shapes:
  assumes lk: "linked pool (as @ bs)" and n: "n \<notin> set (as @ bs)" "n < POOL_SIZE"
  shows "as = cs @ [e] \<Longrightarrow> bs = [] \<Longrightarrow>
      linked_new pool (chain_after_me (fresh_at pool n s1 t1) e n) as n bs s1 t1" (is "_ \<Longrightarrow> _ \<Longrightarrow> ?last")
    and "as = [] \<Longrightarrow> bs = e # ds \<Longrightarrow>
      linked_new pool (chain_after_me (fresh_at pool n s1 t1) n e) as n bs s1 t1" (is "_ \<Longrightarrow> _ \<Longrightarrow> ?first")
    and "as = cs @ [e] \<Longrightarrow> bs = ne # ds \<Longrightarrow>
      linked_new pool (chain_after_me (set_next_entry (set_prev_entry (fresh_at pool n s1 t1) ne n) n ne) e n) as n bs s1 t1"
      (is "_ \<Longrightarrow> _ \<Longrightarrow> ?mid")
proof -
  have len: "length pool = POOL_SIZE" and mem: "\<And>i. i \<in> set (as @ bs) \<Longrightarrow> i < POOL_SIZE \<and> entry_id (pool ! i) = i"
    and dist: "distinct (as @ bs)"
    using lk by (auto simp: linked_def)
  note defs = linked_new_def chain_after_me_def set_next_entry_def set_prev_entry_def fresh_at_nth len Let_def MemoryEntry_new_def
  show "as = cs @ [e] \<Longrightarrow> bs = [] \<Longrightarrow> ?last" using n mem [of e] by (auto simp: defs)
  show "as = [] \<Longrightarrow> bs = e # ds \<Longrightarrow> ?first" using n mem [of e] by (auto simp: defs)
  show "as = cs @ [e] \<Longrightarrow> bs = ne # ds \<Longrightarrow> ?mid" using n mem [of e] mem [of ne] dist by (auto simp: defs)
qed

text \<open>
  The outcome of freeing: \<open>NoEntry\<close>, with nothing changed, when the range touches no
  free entry and the pool is used up; otherwise success.
\<close>

definition free_outcome ::
  "MemoryAllocator \<Rightarrow> usize \<Rightarrow> usize \<Rightarrow> bool \<Rightarrow> ((MemoryError + unit) \<times> MemoryAllocator) option \<Rightarrow> bool" where
  "free_outcome s start sz touch m \<longleftrightarrow> (\<exists>r s'. m = Some (r, s') \<and>
     (if \<not> touch \<and> pool_full s then r = Inl NoEntry \<and> s' = s
      else r = Inr () \<and> gives s s' start sz))"

lemma free_outcomeI: "gives s s' start sz \<Longrightarrow> touch \<Longrightarrow> free_outcome s start sz touch (Some (Inr (), s'))"
  by (simp add: free_outcome_def pool_full_def)

lemma create_fresh:
  assumes "length pool = POOL_SIZE" and "s1 < t1"
  obtains (full) "create_memory_entry pool = (Inl NoEntry, pool)" "live pool = {..<POOL_SIZE}"
  | (new) n pool0 where "n < POOL_SIZE" "n \<notin> live pool" "create_memory_entry pool = (Inr n, pool0)"
      "set_range pool0 n s1 t1 = Some (fresh_at pool n s1 t1)" "live pool \<noteq> {..<POOL_SIZE}"
  using create_memory_entry_cases [OF assms(1)] assms(2)
  by (metis fresh_at_def lessThan_iff set_range_eq)

text \<open>What the callers know about the range, the entry and its neighbours.\<close>

definition free_ready :: "MemoryAllocator \<Rightarrow> usize \<Rightarrow> usize \<Rightarrow> nat list \<Rightarrow> nat list \<Rightarrow> bool" where
  "free_ready s start sz as bs \<longleftrightarrow> alloc_inv s \<and> free_site s start sz as bs \<and> 2 \<le> sz \<and>
     free_size s + sz < 2 ^ 64 \<and> start + sz < 2 ^ 64"

lemma free_readyD:
  assumes "free_ready s start sz as bs"
  shows "alloc_inv s" "free_site s start sz as bs" "0 < sz" "2 \<le> sz" "free_size s + sz < 2 ^ 64" "start + sz < 2 ^ 64"
    "addr_ok (memory_entry_pool s) (first_entry s) (as @ bs)" "linked (memory_entry_pool s) (as @ bs)"
    "length (memory_entry_pool s) = POOL_SIZE" "set (as @ bs) = live (memory_entry_pool s)"
    "\<And>i. i \<in> set (as @ bs) \<Longrightarrow> entry_ok (memory_entry_pool s) i \<and> i < POOL_SIZE \<and>
       get_size (memory_entry_pool s ! i) = Some (esz (memory_entry_pool s ! i))"
    "usize_add (free_size s) sz = Some (free_size s + sz)"
    "first_entry s = head_or None (as @ bs)"
proof -
  show ok: "addr_ok (memory_entry_pool s) (first_entry s) (as @ bs)"
    using assms by (simp add: free_ready_def free_site_def)
  then show "linked (memory_entry_pool s) (as @ bs)" by (rule addr_ok_linked)
  show mem: "set (as @ bs) = live (memory_entry_pool s)" using ok unfolding addr_ok_def by blast
  show "entry_ok (memory_entry_pool s) i \<and> i < POOL_SIZE \<and>
      get_size (memory_entry_pool s ! i) = Some (esz (memory_entry_pool s ! i))" if "i \<in> set (as @ bs)" for i
  proof -
    have i: "i \<in> live (memory_entry_pool s)" using that mem by blast
    note ent = addr_ok_entry [OF ok i]
    show ?thesis by (intro conjI ent live_less [OF i] get_size_ok [OF ent])
  qed
  show "length (memory_entry_pool s) = POOL_SIZE" "first_entry s = head_or None (as @ bs)"
    using ok unfolding addr_ok_def by blast+
qed (use assms in \<open>auto simp: free_ready_def\<close>)

lemma gap_left:
  assumes rd: "free_ready s start sz (cs @ [e]) bs" and ne: "end_addr (memory_entry_pool s ! e) + 1 \<noteq> start"
    and i: "i \<in> set (cs @ [e])"
  shows "end_addr (memory_entry_pool s ! i) + 1 < start"
proof -
  have lt: "end_addr (memory_entry_pool s ! e) < start" and ent: "entry_ok (memory_entry_pool s) e"
    and srt: "sorted_wrt (before (memory_entry_pool s)) (cs @ [e])"
    using free_readyD(2,7) [OF rd] by (auto simp: free_site_def addr_ok_def sorted_wrt_append)
  show ?thesis
    using i lt ne ent srt by (auto simp: sorted_wrt_append before_def entry_ok_def)
qed

lemma gap_right:
  assumes rd: "free_ready s start sz as (e # ds)" and ne: "start_addr (memory_entry_pool s ! e) \<noteq> start + sz"
    and i: "i \<in> set (e # ds)"
  shows "start + sz < start_addr (memory_entry_pool s ! i)"
proof -
  have lt: "start + sz \<le> start_addr (memory_entry_pool s ! e)" and ent: "entry_ok (memory_entry_pool s) e"
    and srt: "sorted_wrt (before (memory_entry_pool s)) (e # ds)"
    using free_readyD(2,7) [OF rd] by (auto simp: free_site_def addr_ok_def sorted_wrt_append)
  show ?thesis
    using i lt ne ent srt by (auto simp: before_def entry_ok_def)
qed

lemma grow_right:
  assumes rd: "free_ready s start sz (cs @ [e]) bs" and L: "end_addr (memory_entry_pool s ! e) + 1 = start"
    and hi: "\<And>i. i \<in> set bs \<Longrightarrow> start + sz < start_addr (memory_entry_pool s ! i)"
  obtains pool' fl' where
    "chain_entry_to_free_list (resize (memory_entry_pool s) e (start_addr (memory_entry_pool s ! e)) (start + sz - 1))
       (free_list s) e (Some (esz (memory_entry_pool s ! e))) = Some (pool', fl')"
    "gives s (s\<lparr>free_size := free_size s + sz, free_list := fl', memory_entry_pool := pool'\<rparr>) start sz"
proof -
  let ?p = "memory_entry_pool s"
  note D = free_readyD [OF rd]
  have ent: "entry_ok ?p e" using D(11) [of e] by simp
  have ok: "addr_ok ?p (first_entry s) (cs @ e # bs)" using D(7) by simp
  then have lo: "end_addr (?p ! i) + 1 < start_addr (?p ! e)" if "i \<in> set cs" for i
    using that by (auto simp: addr_ok_def sorted_wrt_append before_def)
  have e: "e \<in> live ?p" using D(10) by auto
  have r: "start_addr (?p ! e) < start + sz - 1" "start + sz - 1 + 1 < 2 ^ 64"
      "{start_addr (?p ! e)..start + sz - 1} = range_of (?p ! e) \<union> {start..<start + sz}"
    using ent L D(3,6) by (auto simp: entry_ok_def range_of_def)
  have "addr_ok (resize ?p e (start_addr (?p ! e)) (start + sz - 1)) (first_entry s) ((cs @ [e]) @ bs)"
    using addr_ok_grow [OF ok r(1,2) lo] hi D(3) by simp
  from grow_entry [OF D(1,2,3,5) e r(1,3) this] that show thesis by blast
qed

lemma grow_left:
  assumes rd: "free_ready s start sz as (e # ds)" and R: "start_addr (memory_entry_pool s ! e) = start + sz"
    and lo: "\<And>i. i \<in> set as \<Longrightarrow> end_addr (memory_entry_pool s ! i) + 1 < start"
  obtains pool' fl' where
    "chain_entry_to_free_list (resize (memory_entry_pool s) e start (end_addr (memory_entry_pool s ! e)))
       (free_list s) e (Some (esz (memory_entry_pool s ! e))) = Some (pool', fl')"
    "same_core (resize (memory_entry_pool s) e start (end_addr (memory_entry_pool s ! e))) pool'"
    "gives s (s\<lparr>free_size := free_size s + sz, free_list := fl', memory_entry_pool := pool'\<rparr>) start sz"
proof -
  let ?p = "memory_entry_pool s"
  note D = free_readyD [OF rd]
  have ent: "entry_ok ?p e" using D(11) [of e] by simp
  have hi: "end_addr (?p ! e) + 1 < start_addr (?p ! i)" if "i \<in> set ds" for i
    using that D(7) by (auto simp: addr_ok_def sorted_wrt_append before_def)
  have ok': "addr_ok (resize ?p e start (end_addr (?p ! e))) (first_entry s) (as @ e # ds)"
    using addr_ok_grow [OF D(7) _ _ lo hi] ent R by (simp add: entry_ok_def)
  have e: "e \<in> live ?p" using D(10) by auto
  have "start < end_addr (?p ! e)" "{start..end_addr (?p ! e)} = range_of (?p ! e) \<union> {start..<start + sz}"
    using ent R by (auto simp: entry_ok_def range_of_def)
  from grow_entry [OF D(1,2,3,5) e this ok'] that show thesis by blast
qed

section \<open>free\_last and free\_between\<close>

text \<open>The entry found lies below the range and is the last one.\<close>

lemma free_last_below:
  assumes rd: "free_ready s start sz (cs @ [e]) []"
  defines "touch \<equiv> end_addr (memory_entry_pool s ! e) + 1 = start"
  shows "free_outcome s start sz touch (free_last s
    (if touch then resize (memory_entry_pool s) e (start_addr (memory_entry_pool s ! e)) (start + sz - 1)
     else memory_entry_pool s) e start (start + sz - 1) sz (esz (memory_entry_pool s ! e)) touch)"
proof (cases touch)
  case True
  with rd show ?thesis
    by (auto simp: touch_def free_last_def free_readyD intro: free_outcomeI elim!: grow_right)
next
  case False
  let ?p = "memory_entry_pool s" and ?t = "start + sz - 1"
  note D = free_readyD [OF rd]
  have lt: "start < ?t" using D(4) by simp
  from D(9) lt show ?thesis
  proof (cases rule: create_fresh)
    case full
    with False show ?thesis by (simp add: free_last_def free_outcome_def pool_full_def)
  next
    case (new n pool0)
    have nin: "n \<notin> set (cs @ [e])" using new(2) D(10) by simp
    note link = link_shapes(1) [OF D(8) _ new(1) refl refl, of start ?t]
    have gap: "end_addr (?p ! i) + 1 < start" if "i \<in> set (cs @ [e])" for i
      using gap_left [OF rd _ that] False by (simp add: touch_def)
    have e: "e \<in> live ?p" using D(10) by auto
    obtain pool' fl' where run:
      "chain_entry_to_free_list (chain_after_me (fresh_at ?p n start ?t) e n) (free_list s) e (Some (esz (?p ! e)))
         = Some (chain_after_me (fresh_at ?p n start ?t) e n, free_list s)"
      "chain_entry_to_free_list (chain_after_me (fresh_at ?p n start ?t) e n) (free_list s) n None = Some (pool', fl')"
      and g: "gives s (s\<lparr>free_size := free_size s + sz, first_entry := head_or None ((cs @ [e]) @ [n]), free_list := fl',
         memory_entry_pool := pool'\<rparr>) start sz"
      by (rule insert_new_entry [OF D(1,2,4,5,6) gap _ new(2,1) e link]) (use nin in auto)
    have "end_addr (fresh_at ?p n start ?t ! e) < start_addr (fresh_at ?p n start ?t ! n)"
      using gap [of e] nin new(1) D(9) by (auto simp: fresh_at_nth)
    with new(3-5) run False g D(12,13) show ?thesis
      by (simp add: free_last_def free_outcome_def pool_full_def)
  qed
qed

text \<open>The entry found is the first one and lies above the range.\<close>

lemma link_first:
  assumes rd: "free_ready s start sz [] (e # ds)" and R: "start_addr (memory_entry_pool s ! e) \<noteq> start + sz"
    and n: "n < POOL_SIZE" "n \<notin> live (memory_entry_pool s)"
  defines "P \<equiv> fresh_at (memory_entry_pool s) n start (start + sz - 1)"
  obtains pool' fl' where
    "chain_entry_to_free_list (chain_after_me P n e) (free_list s) e (Some (esz (memory_entry_pool s ! e)))
       = Some (chain_after_me P n e, free_list s)"
    "chain_entry_to_free_list (chain_after_me P n e) (free_list s) n None = Some (pool', fl')"
    "gives s (s\<lparr>free_size := free_size s + sz, first_entry := Some n, free_list := fl',
       memory_entry_pool := pool'\<rparr>) start sz"
    "end_addr (P ! n) < start_addr (P ! e)" "\<not> end_addr (P ! e) < start_addr (P ! n)" "get_prev_entry P e = None"
    "entry_id (P ! n) = n"
proof -
  let ?p = "memory_entry_pool s" and ?t = "start + sz - 1"
  note D = free_readyD [OF rd]
  have e: "e \<in> live ?p" and nin: "n \<notin> set ([] @ e # ds)" using D(10) n(2) by auto
  note link = link_shapes(2) [OF D(8) nin n(1) refl refl, of start ?t]
  have gap: "start + sz < start_addr (?p ! i)" if "i \<in> set (e # ds)" for i
    using gap_right [OF rd R that] .
  have Pe: "P ! e = ?p ! e" "start_addr (P ! n) = start" "end_addr (P ! n) = ?t" "entry_id (P ! n) = n"
    using nin n(1) D(9) by (auto simp: P_def fresh_at_nth)
  have ent: "entry_ok ?p e" using D(11) [of e] by simp
  have "get_prev_entry P e = None"
    using addr_ok_prev(2) [of ?p "first_entry s" "[]" e ds] D(7) by (simp add: get_prev_entry_def Pe)
  moreover have "end_addr (P ! n) < start_addr (P ! e)" "\<not> end_addr (P ! e) < start_addr (P ! n)"
    using gap [of e] ent by (auto simp: Pe entry_ok_def)
  ultimately show thesis
    using that Pe(4) insert_new_entry [OF D(1,2,4,5,6) _ gap n(2,1) e link, of thesis]
    by (simp add: P_def)
qed

lemma free_last_above:
  assumes rd: "free_ready s start sz [] [e]"
  defines "touch \<equiv> start_addr (memory_entry_pool s ! e) = start + sz"
  shows "free_outcome s start sz touch (free_last s
    (if touch then resize (memory_entry_pool s) e start (end_addr (memory_entry_pool s ! e))
     else memory_entry_pool s) e start (start + sz - 1) sz (esz (memory_entry_pool s ! e)) touch)"
proof (cases touch)
  case True
  with rd show ?thesis
    by (auto simp: touch_def free_last_def free_readyD intro: free_outcomeI elim!: grow_left)
next
  case False
  let ?p = "memory_entry_pool s" and ?t = "start + sz - 1"
  note D = free_readyD [OF rd]
  have lt: "start < ?t" using D(4) by simp
  from D(9) lt show ?thesis
  proof (cases rule: create_fresh)
    case full
    with False show ?thesis by (simp add: free_last_def free_outcome_def pool_full_def)
  next
    case (new n pool0)
    obtain pool' fl' where "chain_entry_to_free_list (chain_after_me (fresh_at ?p n start ?t) n e) (free_list s) e
         (Some (esz (?p ! e))) = Some (chain_after_me (fresh_at ?p n start ?t) n e, free_list s)"
      "chain_entry_to_free_list (chain_after_me (fresh_at ?p n start ?t) n e) (free_list s) n None = Some (pool', fl')"
      "gives s (s\<lparr>free_size := free_size s + sz, first_entry := Some n, free_list := fl',
         memory_entry_pool := pool'\<rparr>) start sz"
      "\<not> end_addr (fresh_at ?p n start ?t ! e) < start_addr (fresh_at ?p n start ?t ! n)"
      "get_prev_entry (fresh_at ?p n start ?t) e = None" "entry_id (fresh_at ?p n start ?t ! n) = n"
      using link_first [OF rd False [unfolded touch_def] new(1,2)] by blast
    with new(3-5) False D(12) show ?thesis by (simp add: free_last_def free_outcome_def pool_full_def)
  qed
qed

lemma free_between_above:
  assumes rd: "free_ready s start sz [] (e # ne # ds)"
  defines "touch \<equiv> start_addr (memory_entry_pool s ! e) = start + sz"
  shows "free_outcome s start sz touch (free_between s
    (if touch then resize (memory_entry_pool s) e start (end_addr (memory_entry_pool s ! e))
     else memory_entry_pool s) e ne start (start + sz - 1) sz (esz (memory_entry_pool s ! e))
    (end_addr (memory_entry_pool s ! e) + 1) touch)"
proof -
  let ?p = "memory_entry_pool s" and ?t = "start + sz - 1"
  note D = free_readyD [OF rd]
  let ?q = "if touch then resize ?p e start (end_addr (?p ! e)) else ?p"
  have ent: "entry_ok ?p e" "entry_ok ?p ne" "e < POOL_SIZE" "ne < POOL_SIZE" using D(11) [of e] D(11) [of ne] by simp_all
  have bf: "end_addr (?p ! e) + 1 < start_addr (?p ! ne)" and dist: "e \<noteq> ne"
    using D(7) by (auto simp: addr_ok_def before_def)
  have site: "start + sz \<le> start_addr (?p ! e)" using D(2) by (simp add: free_site_def)
  have q: "?q ! ne = ?p ! ne" "end_addr (?q ! e) = end_addr (?p ! e)"
    using dist D(9) ent by (simp_all add: resize_nth)
  have t1: "usize_add ?t 1 = Some (start + sz)" and e1: "usize_add (end_addr (?p ! e)) 1 = Some (end_addr (?p ! e) + 1)"
    using D(3,6) ent by (auto simp: entry_ok_def usize_add_def)
  have no: "start_addr (?p ! ne) \<noteq> start + sz" "start_addr (?p ! ne) \<noteq> end_addr (?p ! e) + 1"
      "\<not> end_addr (?p ! e) + 1 \<ge> start_addr (?p ! ne)"
    using bf site ent(1) by (auto simp: entry_ok_def)
  show ?thesis
  proof (cases touch)
    case True
    obtain pool' fl' where "chain_entry_to_free_list (resize ?p e start (end_addr (?p ! e))) (free_list s) e
        (Some (esz (?p ! e))) = Some (pool', fl')"
      "gives s (s\<lparr>free_size := free_size s + sz, free_list := fl', memory_entry_pool := pool'\<rparr>) start sz"
      by (rule grow_left [OF rd]) (use True in \<open>auto simp: touch_def\<close>)
    with True q no show ?thesis
      by (simp add: free_between_def t1 e1 D(12) free_outcomeI del: One_nat_def)
  next
    case False
    have lt: "start < ?t" using D(4) by simp
    from D(9) lt show ?thesis
    proof (cases rule: create_fresh)
      case full
      with False q no show ?thesis by (simp add: free_between_def t1 e1 free_outcome_def pool_full_def del: One_nat_def)
    next
      case (new n pool0)
      obtain pool' fl' where "chain_entry_to_free_list (chain_after_me (fresh_at ?p n start ?t) n e) (free_list s) e
           (Some (esz (?p ! e))) = Some (chain_after_me (fresh_at ?p n start ?t) n e, free_list s)"
        "chain_entry_to_free_list (chain_after_me (fresh_at ?p n start ?t) n e) (free_list s) n None = Some (pool', fl')"
        "gives s (s\<lparr>free_size := free_size s + sz, first_entry := Some n, free_list := fl',
           memory_entry_pool := pool'\<rparr>) start sz"
        "end_addr (fresh_at ?p n start ?t ! n) < start_addr (fresh_at ?p n start ?t ! e)"
        "get_prev_entry (fresh_at ?p n start ?t) e = None" "entry_id (fresh_at ?p n start ?t ! n) = n"
        using link_first [OF rd False [unfolded touch_def] new(1,2)] by blast
      with new(3-5) False no D(12) show ?thesis
        by (simp add: free_between_def t1 e1 free_outcome_def pool_full_def del: One_nat_def)
    qed
  qed
qed

text \<open>The entry found lies below the range and has a successor: the four combinations.\<close>

lemma between_facts:
  assumes rd: "free_ready s start sz (cs @ [e]) (ne # ds)"
  shows "e < POOL_SIZE" "ne < POOL_SIZE" "e \<noteq> ne" "usize_add (start + sz - 1) 1 = Some (start + sz)"
    "start_addr (memory_entry_pool s ! e) < end_addr (memory_entry_pool s ! e)"
    "start_addr (memory_entry_pool s ! ne) < end_addr (memory_entry_pool s ! ne)"
    "end_addr (memory_entry_pool s ! e) < start" "start + sz \<le> start_addr (memory_entry_pool s ! ne)"
    "end_addr (memory_entry_pool s ! e) + 1 < 2 ^ 64" "e \<in> live (memory_entry_pool s)" "ne \<in> live (memory_entry_pool s)"
    "get_size (memory_entry_pool s ! e) = Some (esz (memory_entry_pool s ! e))"
    "get_size (memory_entry_pool s ! ne) = Some (esz (memory_entry_pool s ! ne))"
proof -
  note D = free_readyD [OF rd]
  show "e < POOL_SIZE" "ne < POOL_SIZE" "start_addr (memory_entry_pool s ! e) < end_addr (memory_entry_pool s ! e)"
    "start_addr (memory_entry_pool s ! ne) < end_addr (memory_entry_pool s ! ne)"
    "end_addr (memory_entry_pool s ! e) + 1 < 2 ^ 64"
    "get_size (memory_entry_pool s ! e) = Some (esz (memory_entry_pool s ! e))"
    "get_size (memory_entry_pool s ! ne) = Some (esz (memory_entry_pool s ! ne))"
    using D(11) [of e] D(11) [of ne] by (simp_all add: entry_ok_def)
  show "e \<noteq> ne" "e \<in> live (memory_entry_pool s)" "ne \<in> live (memory_entry_pool s)"
    using D(7) D(10) by (auto simp: addr_ok_def)
  show "end_addr (memory_entry_pool s ! e) < start" "start + sz \<le> start_addr (memory_entry_pool s ! ne)"
    using D(2) by (simp_all add: free_site_def)
  show "usize_add (start + sz - 1) 1 = Some (start + sz)" using D(3,6) by simp
qed

abbreviation between ::
  "MemoryAllocator \<Rightarrow> usize \<Rightarrow> usize \<Rightarrow> nat \<Rightarrow> nat \<Rightarrow> ((MemoryError + unit) \<times> MemoryAllocator) option" where
  "between s start sz e ne \<equiv>
     (let touch = (end_addr (memory_entry_pool s ! e) + 1 = start) in free_between s
       (if touch then resize (memory_entry_pool s) e (start_addr (memory_entry_pool s ! e)) (start + sz - 1)
        else memory_entry_pool s) e ne start (start + sz - 1) sz (esz (memory_entry_pool s ! e))
       (end_addr (memory_entry_pool s ! e) + 1) touch)"

lemma between_right:
  assumes rd: "free_ready s start sz (cs @ [e]) (ne # ds)"
    and L: "end_addr (memory_entry_pool s ! e) + 1 \<noteq> start" and R: "start_addr (memory_entry_pool s ! ne) = start + sz"
  shows "free_outcome s start sz True (between s start sz e ne)"
proof -
  let ?p = "memory_entry_pool s"
  note D = free_readyD [OF rd] and F = between_facts [OF rd]
  obtain pool' fl' where run: "chain_entry_to_free_list (resize ?p ne start (end_addr (?p ! ne))) (free_list s) ne
      (Some (esz (?p ! ne))) = Some (pool', fl')"
    and c: "same_core (resize ?p ne start (end_addr (?p ! ne))) pool'"
    and g: "gives s (s\<lparr>free_size := free_size s + sz, free_list := fl', memory_entry_pool := pool'\<rparr>) start sz"
    by (rule grow_left [OF rd R gap_left [OF rd L]]) assumption
  note d = same_coreD [OF c]
  have q: "start_addr (pool' ! ne) = start" "end_addr (pool' ! e) = end_addr (?p ! e)"
      "get_size (pool' ! e) = Some (esz (?p ! e))"
    using F D(9) by (simp_all add: d resize_nth)
  have e1: "usize_add (end_addr (?p ! e)) 1 = Some (end_addr (?p ! e) + 1)" using F(9) by simp
  have "start < end_addr (?p ! ne)" "\<not> start \<le> end_addr (?p ! e) + 1" using F(6,7) R L by auto
  then have "between s start sz e ne =
      Some (Inr (), s\<lparr>free_size := free_size s + sz, free_list := fl', memory_entry_pool := pool'\<rparr>)"
    using L R run q
    by (simp add: free_between_def F(4) F(13) e1 set_range_eq D(12) chain_entry_to_free_list_def [of pool'] Let_def
        del: One_nat_def)
  with g show ?thesis by (simp add: free_outcomeI)
qed

lemma between_both:
  assumes rd: "free_ready s start sz (cs @ [e]) (ne # ds)"
    and L: "end_addr (memory_entry_pool s ! e) + 1 = start" and R: "start_addr (memory_entry_pool s ! ne) = start + sz"
  shows "free_outcome s start sz True (between s start sz e ne)"
proof -
  let ?p = "memory_entry_pool s"
  let ?S = "start_addr (?p ! e)" and ?E = "end_addr (?p ! ne)"
  let ?q0 = "resize ?p e ?S (start + sz - 1)"
  let ?q1 = "resize ?q0 ne start ?E"
  note D = free_readyD [OF rd] and F = between_facts [OF rd]
  obtain p1 f1 p2 f2 p3 f3 where
    r1: "chain_entry_to_free_list ?q1 (free_list s) ne (Some (esz (?p ! ne))) = Some (p1, f1)" and c1: "same_core ?q1 p1"
    and r2: "unchain_entry_from_free_list (resize p1 e ?S ?E) f1 ne = Some (p2, f2)"
    and r3: "chain_entry_to_free_list (delete_entry p2 ne) f2 e (Some (esz (?p ! e))) = Some (p3, f3)"
    and g: "gives s (s\<lparr>free_size := free_size s + sz, free_list := f3, memory_entry_pool := p3\<rparr>) start sz"
    by (rule merge_entries [OF D(1,2,3,5) L R])
  note d = same_coreD [OF c1]
  have q: "?q0 ! ne = ?p ! ne" "start_addr (p1 ! ne) = start" "end_addr (p1 ! e) = start + sz - 1"
      "start_addr (p1 ! e) = ?S" "end_addr (p1 ! ne) = ?E" "max (start + sz - 1) ?E = ?E"
    using F D(9) R by (simp_all add: d resize_nth)
  have "start < ?E" "?S < ?E" using F L R by auto
  with r1 r2 r3 have "between s start sz e ne =
      Some (Inr (), s\<lparr>free_size := free_size s + sz, free_list := f3, memory_entry_pool := p3\<rparr>)"
    using L R
    by (simp add: free_between_def F(4) F(13) q set_range_eq D(12) Let_def del: One_nat_def)
  with g show ?thesis by (simp add: free_outcomeI)
qed

lemma between_left:
  assumes rd: "free_ready s start sz (cs @ [e]) (ne # ds)"
    and L: "end_addr (memory_entry_pool s ! e) + 1 = start" and R: "start_addr (memory_entry_pool s ! ne) \<noteq> start + sz"
  shows "free_outcome s start sz True (between s start sz e ne)"
proof -
  let ?p = "memory_entry_pool s"
  let ?q = "resize ?p e (start_addr (?p ! e)) (start + sz - 1)"
  note D = free_readyD [OF rd] and F = between_facts [OF rd]
  obtain pool' fl' where run: "chain_entry_to_free_list ?q (free_list s) e (Some (esz (?p ! e))) = Some (pool', fl')"
    and g: "gives s (s\<lparr>free_size := free_size s + sz, free_list := fl', memory_entry_pool := pool'\<rparr>) start sz"
    by (rule grow_right [OF rd L gap_right [OF rd R]]) assumption
  have q: "?q ! ne = ?p ! ne" "end_addr (?q ! e) = start + sz - 1" using F D(9) by (simp_all add: resize_nth)
  have "\<not> start_addr (?p ! ne) \<le> start" using F(8) D(3) by simp
  then have "between s start sz e ne =
      Some (Inr (), s\<lparr>free_size := free_size s + sz, free_list := fl', memory_entry_pool := pool'\<rparr>)"
    using L R run by (simp add: free_between_def F(4) q D(12) Let_def del: One_nat_def)
  with g show ?thesis by (simp add: free_outcomeI)
qed

lemma between_neither:
  assumes rd: "free_ready s start sz (cs @ [e]) (ne # ds)"
    and L: "end_addr (memory_entry_pool s ! e) + 1 \<noteq> start" and R: "start_addr (memory_entry_pool s ! ne) \<noteq> start + sz"
  shows "free_outcome s start sz False (between s start sz e ne)"
proof -
  let ?p = "memory_entry_pool s" and ?t = "start + sz - 1"
  note D = free_readyD [OF rd] and F = between_facts [OF rd]
  have e1: "usize_add (end_addr (?p ! e)) 1 = Some (end_addr (?p ! e) + 1)" using F(9) by simp
  have no: "start_addr (?p ! ne) \<noteq> end_addr (?p ! e) + 1" using F(7,8) D(3) by auto
  have lt: "start < ?t" using D(4) by simp
  from D(9) lt show ?thesis
  proof (cases rule: create_fresh)
    case full
    with L R no show ?thesis by (simp add: free_between_def F(4) e1 free_outcome_def pool_full_def Let_def del: One_nat_def)
  next
    case (new n pool0)
    let ?P = "fresh_at ?p n start ?t"
    let ?q = "chain_after_me (set_next_entry (set_prev_entry ?P ne n) n ne) e n"
    have nin: "n \<notin> set ((cs @ [e]) @ ne # ds)" using new(2) D(10) by simp
    note link = link_shapes(3) [OF D(8) nin new(1) refl refl, of start ?t]
    obtain pool' fl' where run:
      "chain_entry_to_free_list ?q (free_list s) e (Some (esz (?p ! e))) = Some (?q, free_list s)"
      "chain_entry_to_free_list ?q (free_list s) n None = Some (pool', fl')"
      and g: "gives s (s\<lparr>free_size := free_size s + sz, first_entry := head_or None ((cs @ [e]) @ n # ne # ds),
         free_list := fl', memory_entry_pool := pool'\<rparr>) start sz"
      by (rule insert_new_entry [OF D(1,2,4,5,6) gap_left [OF rd L] gap_right [OF rd R] new(2,1) F(10) link]) auto
    have "\<not> end_addr (?P ! n) < start_addr (?P ! e)"
      using F(5,7) nin new(1) D(9) lt by (auto simp: fresh_at_nth)
    then have "between s start sz e ne = Some (Inr (), s\<lparr>free_size := free_size s + sz,
        first_entry := first_entry s, free_list := fl', memory_entry_pool := pool'\<rparr>)"
      using L R no new(3,4) run
      by (simp add: free_between_def F(4) e1 D(12) Let_def del: One_nat_def)
    with new(5) g D(13) show ?thesis by (simp add: free_outcome_def pool_full_def)
  qed
qed

section \<open>define\_free\_memory\<close>

definition touches :: "MemoryAllocator \<Rightarrow> usize \<Rightarrow> usize \<Rightarrow> bool" where
  "touches s start sz \<longleftrightarrow> (0 < start \<and> start - 1 \<in> free_bytes s) \<or> start + sz \<in> free_bytes s"

lemma touches_left:
  assumes rd: "free_ready s start sz as bs"
  shows "0 < start \<and> start - 1 \<in> free_bytes s \<longleftrightarrow>
    (\<exists>e. last_or None as = Some e \<and> end_addr (memory_entry_pool s ! e) + 1 = start)" (is "?l \<longleftrightarrow> ?r")
proof
  let ?p = "memory_entry_pool s"
  note D = free_readyD [OF rd]
  assume ?r
  then obtain e where e: "last_or None as = Some e" "end_addr (?p ! e) + 1 = start" by blast
  have "e \<in> live ?p" using last_or_in_set [OF e(1)] D(10) by auto
  moreover have "start - 1 \<in> range_of (?p ! e)"
    using e(2) D(11) [of e] last_or_in_set [OF e(1)] by (auto simp: range_of_def entry_ok_def)
  ultimately show ?l using e(2) by (auto simp: free_bytes_def bytes_of_def)
next
  let ?p = "memory_entry_pool s"
  note D = free_readyD [OF rd]
  assume l: ?l
  then obtain i where i: "i \<in> live ?p" "start - 1 \<in> range_of (?p ! i)" by (auto simp: free_bytes_def bytes_of_def)
  have "i \<in> set as"
  proof (rule ccontr)
    assume "i \<notin> set as"
    then have "i \<in> set bs" using i(1) D(10) by auto
    with i(2) l D(2) show False by (fastforce simp: range_of_def free_site_def)
  qed
  then obtain cs e where as: "as = cs @ [e]" by (metis empty_iff rev_exhaust set_empty)
  have "end_addr (?p ! e) + 1 = start"
  proof (rule ccontr)
    assume "end_addr (?p ! e) + 1 \<noteq> start"
    from gap_left [OF rd [unfolded as] this, of i] \<open>i \<in> set as\<close> as i(2) show False by (auto simp: range_of_def)
  qed
  then show ?r using as by simp
qed

lemma touches_right:
  assumes rd: "free_ready s start sz as bs"
  shows "start + sz \<in> free_bytes s \<longleftrightarrow>
    (\<exists>e. head_or None bs = Some e \<and> start_addr (memory_entry_pool s ! e) = start + sz)" (is "?l \<longleftrightarrow> ?r")
proof
  let ?p = "memory_entry_pool s"
  note D = free_readyD [OF rd]
  assume ?r
  then obtain e where e: "head_or None bs = Some e" "start_addr (?p ! e) = start + sz" by blast
  have "e \<in> live ?p" using head_or_in_set [OF e(1)] D(10) by auto
  moreover have "start + sz \<in> range_of (?p ! e)"
    using e(2) D(11) [of e] head_or_in_set [OF e(1)] by (auto simp: range_of_def entry_ok_def)
  ultimately show ?l by (auto simp: free_bytes_def bytes_of_def)
next
  let ?p = "memory_entry_pool s"
  note D = free_readyD [OF rd]
  assume ?l
  then obtain i where i: "i \<in> live ?p" "start + sz \<in> range_of (?p ! i)" by (auto simp: free_bytes_def bytes_of_def)
  have "i \<in> set bs"
  proof (rule ccontr)
    assume "i \<notin> set bs"
    then have "i \<in> set as" using i(1) D(10) by auto
    with i(2) D(2) show False by (fastforce simp: range_of_def free_site_def)
  qed
  then obtain e ds where bs: "bs = e # ds" by (cases bs) auto
  have "start_addr (?p ! e) = start + sz"
  proof (rule ccontr)
    assume "start_addr (?p ! e) \<noteq> start + sz"
    from gap_right [OF rd [unfolded bs] this, of i] \<open>i \<in> set bs\<close> bs i(2) show False by (auto simp: range_of_def)
  qed
  then show ?r using bs by simp
qed

lemma define_free_below:
  assumes rd: "free_ready s start sz (cs @ [e]) bs"
  defines "touch \<equiv> end_addr (memory_entry_pool s ! e) + 1 = start"
  defines "q \<equiv> if touch then resize (memory_entry_pool s) e (start_addr (memory_entry_pool s ! e)) (start + sz - 1)
     else memory_entry_pool s"
  shows "define_free_memory s start sz = (case head_or None bs of
      Some ne \<Rightarrow> between s start sz e ne
    | None \<Rightarrow> free_last s q e start (start + sz - 1) sz (esz (memory_entry_pool s ! e)) touch)"
proof -
  let ?p = "memory_entry_pool s" and ?t = "start + sz - 1"
  note D = free_readyD [OF rd]
  have e: "e < POOL_SIZE" "end_addr (?p ! e) < start" "start_addr (?p ! e) < end_addr (?p ! e)"
      "get_size (?p ! e) = Some (esz (?p ! e))" "end_addr (?p ! e) + 1 < 2 ^ 64"
    using D(2) D(11) [of e] by (auto simp: free_site_def entry_ok_def)
  have srch: "search_entry_previous_address_mut ?p (first_entry s) start = Some (Some e)"
    using search_previous [OF D(2)] by simp
  have t: "get_end_address start sz = Some ?t" using D(3,6) by (rule get_end_address_ok)
  have neq: "\<not> ?t \<le> end_addr (?p ! e)" "\<not> start \<le> end_addr (?p ! e)" "end_addr (?p ! e) \<noteq> ?t" "start_addr (?p ! e) < ?t"
    using e D(3) by auto
  have add: "usize_add (end_addr (?p ! e)) 1 = Some (end_addr (?p ! e) + 1)" "usize_add ?t 1 = Some (start + sz)"
    using e(5) D(3,6) by auto
  have q: "is_first_entry (q ! e) = is_first_entry (?p ! e)" "start_addr (q ! e) = start_addr (?p ! e)"
    using e(1) D(9) by (simp_all add: q_def resize_nth is_first_entry_def)
  have nfirst: "start_addr (?p ! e) \<noteq> start + sz" using e(2,3) by simp
  have "nxt (?p ! e) = head_or None bs" using D(7) by (simp add: addr_ok_def)
  then have nxtq: "get_next_entry q e = head_or None bs"
    using D(11) e(1) D(9)
    by (intro get_next_entry_eq) (auto simp: q_def resize_nth dest: head_or_in_set)
  have nb: "\<not> start_addr (q ! ne) \<le> start" if "head_or None bs = Some ne" for ne
  proof -
    have "ne \<in> set bs" using that by (rule head_or_in_set)
    moreover from this have "ne \<noteq> e" using D(7) by (auto simp: addr_ok_def)
    ultimately show ?thesis using D(2,3,9) e(1) by (auto simp: free_site_def q_def resize_nth)
  qed
  have "sz \<noteq> 0" using D(3) by simp
  note simps = srch t add e(4) nfirst neq \<open>sz \<noteq> 0\<close> set_range_eq Let_def
  show ?thesis
  proof (cases touch)
    case True
    then have qT: "q = resize ?p e (start_addr (?p ! e)) ?t" "end_addr (?p ! e) + 1 = start"
      by (simp_all add: q_def touch_def)
    show ?thesis
      using nb q nxtq unfolding qT(1)
      by (subst define_free_memory.simps) (simp add: simps qT(2) touch_def del: One_nat_def cong: option.case_cong)
  next
    case False
    then have qF: "q = ?p" "end_addr (?p ! e) + 1 \<noteq> start" by (simp_all add: q_def touch_def)
    show ?thesis
      using nb q nxtq unfolding qF(1)
      by (subst define_free_memory.simps) (simp add: simps qF(2) touch_def del: One_nat_def cong: option.case_cong)
  qed
qed

lemma define_free_above:
  assumes rd: "free_ready s start sz [] (e # ds)"
  defines "touch \<equiv> start_addr (memory_entry_pool s ! e) = start + sz"
  defines "q \<equiv> if touch then resize (memory_entry_pool s) e start (end_addr (memory_entry_pool s ! e))
     else memory_entry_pool s"
  shows "define_free_memory s start sz = (case head_or None ds of
      Some ne \<Rightarrow> free_between s q e ne start (start + sz - 1) sz (esz (memory_entry_pool s ! e))
        (end_addr (memory_entry_pool s ! e) + 1) touch
    | None \<Rightarrow> free_last s q e start (start + sz - 1) sz (esz (memory_entry_pool s ! e)) touch)"
proof -
  let ?p = "memory_entry_pool s" and ?t = "start + sz - 1"
  note D = free_readyD [OF rd]
  have e: "e < POOL_SIZE" "start + sz \<le> start_addr (?p ! e)" "start_addr (?p ! e) < end_addr (?p ! e)"
      "get_size (?p ! e) = Some (esz (?p ! e))" "end_addr (?p ! e) + 1 < 2 ^ 64"
    using D(2) D(11) [of e] by (auto simp: free_site_def entry_ok_def)
  have srch: "search_entry_previous_address_mut ?p (first_entry s) start = Some None"
    using search_previous [OF D(2)] by simp
  have first: "first_entry s = Some e" "get_memory_entry ?p e = Inr e" "is_first_entry (?p ! e)"
    using D(7,13) e(1) addr_ok_first [of ?p "first_entry s" "[]" e ds] by (simp_all add: get_memory_entry_def)
  have t: "get_end_address start sz = Some ?t" using D(3,6) by (rule get_end_address_ok)
  have neq: "\<not> start_addr (?p ! e) \<le> start" "end_addr (?p ! e) \<noteq> ?t" "end_addr (?p ! e) + 1 \<noteq> start"
      "start < end_addr (?p ! e)" "sz \<noteq> 0"
    using e D(3) by auto
  have add: "usize_add (end_addr (?p ! e)) 1 = Some (end_addr (?p ! e) + 1)" "usize_add ?t 1 = Some (start + sz)"
    using e(5) D(3,6) by auto
  have "nxt (?p ! e) = head_or None ds" using D(7) by (simp add: addr_ok_def)
  then have nxtq: "get_next_entry q e = head_or None ds"
    using D(11) e(1) D(9) by (intro get_next_entry_eq) (auto simp: q_def resize_nth dest: head_or_in_set)
  have nb: "\<not> start_addr (q ! ne) \<le> start" if "head_or None ds = Some ne" for ne
  proof -
    have "ne \<in> set ds" using that by (rule head_or_in_set)
    moreover from this have "ne \<noteq> e" using D(7) by (auto simp: addr_ok_def)
    ultimately show ?thesis using D(2,3,9) e(1) by (auto simp: free_site_def q_def resize_nth)
  qed
  note simps = srch [unfolded first(1)] first t add e(4) neq set_range_eq Let_def
  show ?thesis
  proof (cases touch)
    case True
    then have qT: "q = resize ?p e start (end_addr (?p ! e))" "start_addr (?p ! e) = start + sz"
      by (simp_all add: q_def touch_def)
    show ?thesis
      using nb nxtq unfolding qT(1)
      by (subst define_free_memory.simps) (simp add: simps qT(2) touch_def del: One_nat_def cong: option.case_cong)
  next
    case False
    then have qF: "q = ?p" "start_addr (?p ! e) \<noteq> start + sz" by (simp_all add: q_def touch_def)
    show ?thesis
      using nb nxtq unfolding qF(1)
      by (subst define_free_memory.simps) (simp add: simps qF(2) touch_def del: One_nat_def cong: option.case_cong)
  qed
qed

lemma define_free_memory_outcome:
  assumes rd: "free_ready s start sz as bs" and ne: "as @ bs \<noteq> []"
  shows "free_outcome s start sz (touches s start sz) (define_free_memory s start sz)"
proof (cases as rule: rev_cases)
  case Nil
  with ne obtain e ds where bs: "bs = e # ds" by (cases bs) auto
  note rd' = rd [unfolded Nil bs]
  have tch: "touches s start sz \<longleftrightarrow> start_addr (memory_entry_pool s ! e) = start + sz"
    using touches_left [OF rd'] touches_right [OF rd'] by (auto simp: touches_def)
  show ?thesis
  proof (cases ds)
    case Nil
    then show ?thesis
      unfolding define_free_above [OF rd'] tch using free_last_above [OF rd' [unfolded Nil]] by simp
  next
    case (Cons n ds')
    then show ?thesis
      unfolding define_free_above [OF rd'] tch using free_between_above [OF rd' [unfolded Cons]] by simp
  qed
next
  case (snoc cs e)
  note rd' = rd [unfolded snoc]
  let ?L = "end_addr (memory_entry_pool s ! e) + 1 = start"
  show ?thesis
  proof (cases bs)
    case Nil
    have tch: "touches s start sz \<longleftrightarrow> ?L"
      using touches_left [OF rd'] touches_right [OF rd'] Nil by (auto simp: touches_def)
    show ?thesis
      unfolding define_free_below [OF rd'] tch using free_last_below [OF rd' [unfolded Nil]] Nil by simp
  next
    case (Cons n ds)
    let ?R = "start_addr (memory_entry_pool s ! n) = start + sz"
    note rd'' = rd' [unfolded Cons]
    have tch: "touches s start sz \<longleftrightarrow> ?L \<or> ?R"
      using touches_left [OF rd''] touches_right [OF rd''] by (auto simp: touches_def)
    have run: "define_free_memory s start sz = between s start sz e n"
      using define_free_below [OF rd''] by simp
    show ?thesis
      unfolding run tch
      using between_both [OF rd''] between_left [OF rd''] between_right [OF rd''] between_neither [OF rd'']
      by (cases ?L; cases ?R) (simp_all only: simp_thms)
  qed
qed

section \<open>Properties of free\<close>

lemma free_readyI:
  assumes "alloc_inv s" "2 \<le> sz" "{start..<start + sz} \<inter> free_bytes s = {}"
    "start + sz < 2 ^ 64" "free_size s + sz < 2 ^ 64"
  obtains as bs where "free_ready s start sz as bs"
  using free_site_exists [OF assms(1) _ assms(3)] assms by (auto simp: free_ready_def)

lemma free_size_0:
  assumes "alloc_inv s" and "free_size s = 0"
  shows "live (memory_entry_pool s) = {}"
proof (rule ccontr)
  assume "live (memory_entry_pool s) \<noteq> {}"
  then obtain e where e: "e \<in> live (memory_entry_pool s)" by blast
  from assms(1) obtain xs where ok: "addr_ok (memory_entry_pool s) (first_entry s) xs" by (rule alloc_invE)
  have "start_addr (memory_entry_pool s ! e) \<in> free_bytes s"
    using addr_ok_entry [OF ok e] e by (auto simp: free_bytes_def bytes_of_def range_of_def entry_ok_def)
  moreover have "free_bytes s = {}" using assms by (simp add: alloc_inv_def)
  ultimately show False by simp
qed

text \<open>The first range ever freed.\<close>

lemma free_memory_first:
  assumes inv: "alloc_inv s" and z: "free_size s = 0" and sz: "2 \<le> sz" "start + sz < 2 ^ 64"
  shows "\<exists>s'. free_memory s start sz = Some (Inr (), s') \<and> gives s s' start sz"
proof -
  let ?p = "memory_entry_pool s"
  define t where "t = start + sz - 1"
  have lv: "live ?p = {}" using inv z by (rule free_size_0)
  from inv obtain xs where ok: "addr_ok ?p (first_entry s) xs"
    and fl: "fl_ok ?p (free_list s) (\<lambda>i. esz (?p ! i)) (live ?p)" by (rule alloc_invE)
  then have xs: "xs = []" and len: "length ?p = POOL_SIZE" using lv by (auto simp: addr_ok_def)
  have lt: "start < t" "0 < sz" "t + 1 = start + sz" using sz by (auto simp: t_def)
  from len lt(1) show ?thesis
  proof (cases rule: create_fresh)
    case full
    then show ?thesis using lv lessThan_empty_iff [of POOL_SIZE] by (simp add: POOL_SIZE_def)
  next
    case (new n pool0)
    let ?q = "fresh_at ?p n start t"
    have qn: "?q ! n = MemoryEntry_new\<lparr>entry_id := n, enabled := True, start_addr := start, end_addr := t\<rparr>"
      "\<And>i. i \<noteq> n \<Longrightarrow> ?q ! i = ?p ! i" "length ?q = POOL_SIZE"
      using new(1) len by (simp_all add: fresh_at_nth)
    have gs: "get_size (?q ! n) = Some sz"
      using lt sz by (auto simp: qn get_size_def usize_sub_def usize_add_def)
    have ok0: "addr_ok ?p (first_entry s) ([] @ [])" using ok xs by simp
    have "addr_ok ?q (head_or None ([] @ [n])) ([] @ [n])" and lq: "live ?q = insert n (live ?p)"
      by (rule addr_ok_insert [OF ok0 new(2,1) qn(3)]; use qn lt sz in \<open>simp add: MemoryEntry_new_def entry_ok_def\<close>)+
    moreover obtain pool' fl' where run: "chain_entry_to_free_list ?q (free_list s) n None = Some (pool', fl')"
      and f: "fl_ok pool' fl' ((\<lambda>i. esz (?p ! i))(n := sz)) (insert n {})" and c: "same_core ?q pool'"
    proof (rule chain_entry_None [where A = "{}"])
      show "fl_ok ?q (free_list s) (\<lambda>i. esz (?p ! i)) {}" using fl unfolding lv by (rule fl_gen_cong) auto
    qed (use new(1) qn gs in \<open>auto simp: MemoryEntry_new_def\<close>)
    ultimately have ok': "addr_ok pool' (Some n) [n]" and lv': "live pool' = {n}"
      using lv by (simp_all add: addr_ok_core [OF c] live_core [OF c])
    have "lists_ok pool' fl'"
      unfolding lists_ok_def lv' using f by (rule fl_gen_cong) (use esz_core [OF c] qn lt in \<open>auto simp: esz_def\<close>)
    moreover have "bytes_of pool' (live pool') = free_bytes s \<union> {start..<start + sz}"
      using qn lt unfolding bytes_of_core [OF c] lv' by (auto simp: bytes_of_def range_of_def free_bytes_def lv)
    ultimately have "gives s (s\<lparr>free_size := free_size s + sz, first_entry := Some n, free_list := fl',
        memory_entry_pool := pool'\<rparr>) start sz"
      using ok' z sz lv by (intro givesI [OF inv lt(2)]) (auto simp: free_bytes_def bytes_of_def)
    moreover have "free_memory s start sz = Some (Inr (), s\<lparr>free_size := sz, first_entry := Some n,
        free_list := fl', memory_entry_pool := pool'\<rparr>)"
      using z new(3,4) run get_end_address_ok [OF lt(2) sz(2), folded t_def] same_coreD(7) [OF c, of n] qn(1)
      by (simp add: free_memory_def)
    ultimately show ?thesis using z by simp
  qed
qed

text \<open>The number of free entries is the number of maximal runs of free bytes.\<close>

definition run_ends :: "nat set \<Rightarrow> nat set" where
  "run_ends F = {b \<in> F. b + 1 \<notin> F}"

lemma card_live_runs:
  assumes "alloc_inv s"
  shows "card (live (memory_entry_pool s)) = card (run_ends (free_bytes s))"
proof -
  let ?p = "memory_entry_pool s"
  from assms obtain xs where ok: "addr_ok ?p (first_entry s) xs" by (rule alloc_invE)
  have "inj_on (\<lambda>i. end_addr (?p ! i)) (live ?p)"
    using disjoint_ranges [OF ok] addr_ok_entry [OF ok]
    by (fastforce simp: inj_on_def range_of_def entry_ok_def)
  moreover have "run_ends (free_bytes s) = (\<lambda>i. end_addr (?p ! i)) ` live ?p"
  proof (intro equalityI subsetI)
    fix b assume b: "b \<in> run_ends (free_bytes s)"
    then obtain i where i: "i \<in> live ?p" "b \<in> range_of (?p ! i)"
      by (auto simp: run_ends_def free_bytes_def bytes_of_def)
    have "b = end_addr (?p ! i)"
    proof (rule ccontr)
      assume "b \<noteq> end_addr (?p ! i)"
      then have "b + 1 \<in> range_of (?p ! i)" using i(2) by (auto simp: range_of_def)
      with i(1) b show False by (auto simp: run_ends_def free_bytes_def bytes_of_def)
    qed
    with i(1) show "b \<in> (\<lambda>i. end_addr (?p ! i)) ` live ?p" by blast
  next
    fix b assume "b \<in> (\<lambda>i. end_addr (?p ! i)) ` live ?p"
    then obtain i where i: "i \<in> live ?p" "b = end_addr (?p ! i)" by blast
    then have "b \<in> range_of (?p ! i)" using addr_ok_entry [OF ok i(1)] by (auto simp: range_of_def entry_ok_def)
    with i byte_after_entry [OF ok i(1)] show "b \<in> run_ends (free_bytes s)"
      by (auto simp: run_ends_def free_bytes_def bytes_of_def)
  qed
  ultimately show ?thesis by (simp add: card_image)
qed

lemma run_ends_isolated:
  assumes "finite F" "{a..<a + sz} \<inter> F = {}" "0 < sz" "0 < a \<Longrightarrow> a - 1 \<notin> F" "a + sz \<notin> F"
  shows "card (run_ends (F \<union> {a..<a + sz})) = card (run_ends F) + 1"
proof -
  have out: "(b < a \<or> a + sz \<le> b) \<and> b + 1 \<noteq> a" if "b \<in> F" for b
  proof -
    have "b \<notin> {a..<a + sz}" using assms(2) that by blast
    moreover have "b + 1 \<noteq> a" using assms(4) that by auto
    ultimately show ?thesis by (auto simp: not_less)
  qed
  have "run_ends (F \<union> {a..<a + sz}) = insert (a + sz - 1) (run_ends F)"
  proof (intro equalityI subsetI)
    fix b assume "b \<in> run_ends (F \<union> {a..<a + sz})"
    then show "b \<in> insert (a + sz - 1) (run_ends F)" by (auto simp: run_ends_def)
  next
    fix b assume "b \<in> insert (a + sz - 1) (run_ends F)"
    then show "b \<in> run_ends (F \<union> {a..<a + sz})"
      using assms(3,5) out [of b] by (auto simp: run_ends_def)
  qed
  moreover have "a + sz - 1 \<notin> run_ends F" using assms(2,3) by (auto simp: run_ends_def disjoint_iff)
  moreover have "finite (run_ends F)" using assms(1) by (simp add: run_ends_def)
  ultimately show ?thesis by simp
qed

lemma free_memory_outcome:
  assumes inv: "alloc_inv s" and disj: "{start..<start + sz} \<inter> free_bytes s = {}"
    and sz: "2 \<le> sz" "start + sz < 2 ^ 64" "free_size s + 2 * sz < 2 ^ 64"
  shows "\<exists>r s'. free_memory s start sz = Some (r, s') \<and>
    (if \<not> touches s start sz \<and> pool_full s then r = Inl NoEntry \<and> s' = s
     else r = Inr () \<and> alloc_inv s' \<and> free_bytes s' = free_bytes s \<union> {start..<start + sz} \<and>
       free_size s' = (if free_size s = 0 then sz else free_size s + 2 * sz))"
proof (cases "free_size s = 0")
  case True
  have "\<not> pool_full s"
    using free_size_0 [OF inv True] lessThan_empty_iff [of POOL_SIZE] by (simp add: POOL_SIZE_def pool_full_def)
  with free_memory_first [OF inv True sz(1,2)] True show ?thesis by (auto simp: gives_def)
next
  case False
  have fs: "free_size s + sz < 2 ^ 64" using sz(3) by simp
  obtain as bs where rd: "free_ready s start sz as bs"
    by (rule free_readyI [OF inv sz(1) disj sz(2) fs])
  have "as @ bs \<noteq> []"
    using inv False free_readyD(7) [OF rd] by (auto simp: alloc_inv_def addr_ok_def)
  from define_free_memory_outcome [OF rd this] obtain r s1 where run: "define_free_memory s start sz = Some (r, s1)"
    and res: "if \<not> touches s start sz \<and> pool_full s then r = Inl NoEntry \<and> s1 = s
      else r = Inr () \<and> gives s s1 start sz"
    by (auto simp: free_outcome_def)
  show ?thesis
  proof (cases "\<not> touches s start sz \<and> pool_full s")
    case True
    with res run False show ?thesis by (auto simp: free_memory_def)
  next
    case nofull: False
    with res have r: "r = Inr ()" and g: "gives s s1 start sz" by auto
    have "usize_add (free_size s1) sz = Some (free_size s + 2 * sz)" using g sz(3) by (simp add: gives_def)
    then have "free_memory s start sz = Some (Inr (), s1\<lparr>free_size := free_size s + 2 * sz\<rparr>)"
      using False run r by (simp add: free_memory_def)
    moreover have "alloc_inv (s1\<lparr>free_size := free_size s + 2 * sz\<rparr>)"
      using g sz by (auto simp: gives_def alloc_inv_def free_bytes_def)
    ultimately show ?thesis using g nofull False by (auto simp: gives_def free_bytes_def)
  qed
qed


text \<open>
  C7. \<open>free\<close> counts a range twice: \<open>define_free_memory\<close> has already added the size to
  \<open>free_size\<close> when \<open>free\<close> adds it again, so from the second free on the counter
  exceeds the number of free bytes.
\<close>

theorem free_memory_counts_twice:
  assumes "alloc_inv s" and "{start..<start + sz} \<inter> free_bytes s = {}"
    and "2 \<le> sz" and "start + sz < 2 ^ 64" and "free_size s + 2 * sz < 2 ^ 64"
    and "free_size s \<noteq> 0" and "free_memory s start sz = Some (Inr (), s')"
  shows "free_size s' = free_size s + 2 * sz \<and> card (free_bytes s') = card (free_bytes s) + sz \<and>
    card (free_bytes s') < free_size s'"
proof -
  from free_memory_outcome [OF assms(1-5)] assms(6,7)
  have "free_size s' = free_size s + 2 * sz" "free_bytes s' = free_bytes s \<union> {start..<start + sz}"
    by (auto split: if_splits)
  moreover from this assms(2) have "card (free_bytes s') = card (free_bytes s) + sz"
    by (simp add: card_Un_disjoint Int_commute)
  moreover have "card (free_bytes s) \<le> free_size s" using assms(1) by (simp add: alloc_inv_def)
  ultimately show ?thesis using assms(3) by simp
qed

text \<open>
  C4. Pages given back by \<open>free_pages\<close> after \<open>allocate_pages\<close> restore the free memory,
  and this free never fails for want of a pool entry.
\<close>

theorem allocate_free_roundtrip:
  assumes inv: "alloc_inv s" and rb: "roundable (free_bytes s) al"
    and run: "allocate_pages s n al = Some (Inr a, s1)" and n: "0 < n" "n * PAGE_SIZE < free_size s"
    and fs: "free_size s + n * PAGE_SIZE < 2 ^ 64"
  shows "\<exists>s2. free_pages s1 a n = Some s2 \<and> alloc_inv s2 \<and> free_bytes s2 = free_bytes s"
proof -
  let ?sz = "n * PAGE_SIZE"
  have shl: "usize_shl n PAGE_SHIFT = Some ?sz"
    using fs by (simp add: usize_shl_def PAGE_SIZE_def PAGE_SHIFT_def)
  have al: "allocate s ?sz al = Some (Inr a, s1)" using run shl by (simp add: allocate_pages_def)
  have F: "free_bytes s1 = free_bytes s - {a..<a + ?sz}" "{a..<a + ?sz} \<subseteq> free_bytes s" "alloc_inv s1"
      "free_size s1 = free_size s - ?sz"
    using allocate_outcome [OF inv rb al] by (simp_all add: takes_def)
  have sz: "2 \<le> ?sz" using n(1) by (cases n) (auto simp: PAGE_SIZE_def PAGE_SHIFT_def)
  from inv obtain xs where ok: "addr_ok (memory_entry_pool s) (first_entry s) xs" by (rule alloc_invE)
  obtain e where e: "e \<in> live (memory_entry_pool s)" "a + ?sz - 1 \<le> end_addr (memory_entry_pool s ! e)"
    by (rule run_in_one_entry [OF ok _ F(2) [unfolded free_bytes_def]]) (use sz n in auto)
  have "end_addr (memory_entry_pool s ! e) + 1 < 2 ^ 64" using addr_ok_entry [OF ok e(1)] by (simp add: entry_ok_def)
  with e(2) have top: "a + ?sz < 2 ^ 64" by linarith
  have "\<not> (\<not> touches s1 a ?sz \<and> pool_full s1)"
  proof
    assume iso: "\<not> touches s1 a ?sz \<and> pool_full s1"
    have "card (run_ends (free_bytes s1 \<union> {a..<a + ?sz})) = card (run_ends (free_bytes s1)) + 1"
    proof (rule run_ends_isolated)
      show "{a..<a + ?sz} \<inter> free_bytes s1 = {}" using F(1) by blast
      show "0 < ?sz" using sz by linarith
      show "a - 1 \<notin> free_bytes s1" if "0 < a" using iso that unfolding touches_def by blast
      show "a + ?sz \<notin> free_bytes s1" using iso unfolding touches_def by blast
    qed simp
    moreover have "free_bytes s1 \<union> {a..<a + ?sz} = free_bytes s" using F(1,2) by blast
    moreover have "card (live (memory_entry_pool s1)) = POOL_SIZE" using iso by (simp add: pool_full_def)
    ultimately have "card (live (memory_entry_pool s)) = POOL_SIZE + 1"
      by (simp only: card_live_runs [OF inv] card_live_runs [OF F(3)])
    moreover have "card (live (memory_entry_pool s)) \<le> POOL_SIZE"
      using card_mono [OF _ live_subset] by (metis card_lessThan finite_lessThan)
    ultimately show False by simp
  qed
  moreover have "{a..<a + ?sz} \<inter> free_bytes s1 = {}" "free_size s1 + 2 * ?sz < 2 ^ 64"
    using F(1,4) n(2) fs by (auto simp: mult.commute)
  ultimately obtain s2 where "free_memory s1 a ?sz = Some (Inr (), s2)"
    "alloc_inv s2" "free_bytes s2 = free_bytes s1 \<union> {a..<a + ?sz}"
    using free_memory_outcome [OF F(3) _ sz top] by (auto simp only: if_False)
  then show ?thesis using shl F(1,2) by (auto simp: free_pages_def)
qed

end
