(* ===== verification/AllocatorProps.thy ===== *)
theory AllocatorProps
  imports AllocatorFree
begin

text \<open>
  The allocator as the rest of the hypervisor sees it: a source of page frames.
  The locale \<open>frame_source\<close> states what a client relies on; it is interpreted on
  the model of the allocator. The theory also evaluates the properties of the
  allocator at the state in which the hypervisor boots.
\<close>

section \<open>The initial state\<close>

lemma new_addr_ok: "addr_ok (memory_entry_pool MemoryAllocator_new) None []"
  by (auto simp: addr_ok_def MemoryAllocator_new_def live_def MemoryEntry_new_def)

lemma new_lists_ok: "lists_ok (memory_entry_pool MemoryAllocator_new) (free_list MemoryAllocator_new)"
proof -
  have "live (memory_entry_pool MemoryAllocator_new) = {}" using new_addr_ok by (simp add: addr_ok_def)
  then show ?thesis
    by (auto simp: lists_ok_def fl_gen_def class_gen_def MemoryAllocator_new_def intro!: exI [of _ "[]"])
qed

lemma MemoryAllocator_new_inv: "alloc_inv MemoryAllocator_new" "free_bytes MemoryAllocator_new = {}"
proof -
  have "live (memory_entry_pool MemoryAllocator_new) = {}" using new_addr_ok by (simp add: addr_ok_def)
  then show fb: "free_bytes MemoryAllocator_new = {}" by (simp add: free_bytes_def bytes_of_def)
  show "alloc_inv MemoryAllocator_new"
    using new_addr_ok new_lists_ok fb by (auto simp: alloc_inv_def MemoryAllocator_new_def)
qed

text \<open>
  The allocator after the first \<open>free\<close> of \<open>setup_memory_allocator\<close>, with the RAM of
  QEMU's \<open>virt\<close> machine.
\<close>

definition boot_allocator :: MemoryAllocator where
  "boot_allocator = snd (the (free_memory MemoryAllocator_new 0x40000000 0x10000000))"

lemma boot_allocator_gives:
  "free_memory MemoryAllocator_new 0x40000000 0x10000000 = Some (Inr (), boot_allocator)"
  "gives MemoryAllocator_new boot_allocator 0x40000000 0x10000000"
proof -
  have "free_size MemoryAllocator_new = 0" by (simp add: MemoryAllocator_new_def)
  from free_memory_first [OF MemoryAllocator_new_inv(1) this, where start = "0x40000000" and sz = "0x10000000"]
  obtain s' where "free_memory MemoryAllocator_new 0x40000000 0x10000000 = Some (Inr (), s')"
    "gives MemoryAllocator_new s' 0x40000000 0x10000000"
    by auto
  then show "free_memory MemoryAllocator_new 0x40000000 0x10000000 = Some (Inr (), boot_allocator)"
    "gives MemoryAllocator_new boot_allocator 0x40000000 0x10000000"
    by (simp_all add: boot_allocator_def)
qed

lemma boot_allocator_facts:
  "alloc_inv boot_allocator" "free_bytes boot_allocator = {0x40000000..<0x50000000}"
  "free_size boot_allocator = 0x10000000"
  using boot_allocator_gives(2) MemoryAllocator_new_inv(2)
  by (simp_all add: gives_def MemoryAllocator_new_def)

lemma boot_page_granular: "page_granular (free_bytes boot_allocator)"
  unfolding boot_allocator_facts by (intro page_granular_interval) (simp_all add: PAGE_SIZE_def PAGE_SHIFT_def)

lemma boot_roundable:
  assumes "al \<le> 48"
  shows "roundable (free_bytes boot_allocator) al"
proof -
  have "(2::nat) ^ al \<le> 2 ^ 48" using assms by (intro power_increasing) simp_all
  then show ?thesis using assms by (auto simp: roundable_def boot_allocator_facts)
qed

section \<open>A source of page frames\<close>

locale frame_source =
  fixes ready :: "'s \<Rightarrow> bool"
    and frames :: "'s \<Rightarrow> nat set"
    and alloc :: "'s \<Rightarrow> nat \<Rightarrow> nat \<Rightarrow> ((MemoryError + usize) \<times> 's) option"
  assumes alloc_returns: "ready s \<Longrightarrow> 0 < n \<Longrightarrow> n < 2 ^ 52 \<Longrightarrow> al \<le> 48 \<Longrightarrow> alloc s n al \<noteq> None"
    and alloc_ok: "ready s \<Longrightarrow> 0 < n \<Longrightarrow> n < 2 ^ 52 \<Longrightarrow> al \<le> 48 \<Longrightarrow> alloc s n al = Some (Inr a, s') \<Longrightarrow>
      ready s' \<and> PAGE_SIZE dvd a \<and> 2 ^ al dvd a \<and> {a..<a + n * PAGE_SIZE} \<subseteq> frames s \<and>
      frames s' = frames s - {a..<a + n * PAGE_SIZE}"
    and alloc_err: "ready s \<Longrightarrow> 0 < n \<Longrightarrow> n < 2 ^ 52 \<Longrightarrow> al \<le> 48 \<Longrightarrow> alloc s n al = Some (Inl err, s') \<Longrightarrow> s' = s"
begin

text \<open>A sequence of requests, stopping at the first error, as the callers do with \<open>?\<close>.\<close>

fun alloc_all :: "'s \<Rightarrow> (nat \<times> nat) list \<Rightarrow> (usize list \<times> 's) option" where
  "alloc_all s [] = Some ([], s)"
| "alloc_all s ((n, al) # rs) = (case alloc s n al of
     Some (Inr a, s') \<Rightarrow> (case alloc_all s' rs of Some (as, s'') \<Rightarrow> Some (a # as, s'') | None \<Rightarrow> None)
   | _ \<Rightarrow> None)"

fun blocks :: "usize list \<Rightarrow> (nat \<times> nat) list \<Rightarrow> nat set list" where
  "blocks (a # as) ((n, al) # rs) = {a..<a + n * PAGE_SIZE} # blocks as rs"
| "blocks _ _ = []"

lemma alloc_all_frames:
  assumes "ready s" and "\<forall>(n, al) \<in> set rs. 0 < n \<and> n < 2 ^ 52 \<and> al \<le> 48" and "alloc_all s rs = Some (as, s')"
  shows "ready s' \<and> \<Union> (set (blocks as rs)) \<subseteq> frames s \<and> frames s' = frames s - \<Union> (set (blocks as rs)) \<and>
    sorted_wrt (\<lambda>A B. A \<inter> B = {}) (blocks as rs) \<and> length as = length rs"
  using assms
proof (induction rs arbitrary: s as)
  case (Cons r rs)
  obtain n al where r: "r = (n, al)" by (cases r)
  from Cons.prems obtain a s1 bs where al: "alloc s n al = Some (Inr a, s1)"
    and rest: "alloc_all s1 rs = Some (bs, s')" and as: "as = a # bs"
    by (auto simp: r split: option.splits sum.splits)
  have p: "0 < n" "n < 2 ^ 52" "al \<le> 48" using Cons.prems(2) by (auto simp: r)
  note one = alloc_ok [OF Cons.prems(1) p al]
  from Cons.IH [OF _ _ rest] one Cons.prems(2) show ?case
    by (auto simp: r as)
qed simp

end

definition allocator_ready :: "MemoryAllocator \<Rightarrow> bool" where
  "allocator_ready s \<longleftrightarrow> alloc_inv s \<and> page_granular (free_bytes s) \<and> free_bytes s \<subseteq> {..<2 ^ 48}"

lemma allocator_ready_bound: "allocator_ready s \<Longrightarrow> free_bytes s \<subseteq> {..<2 ^ 48}"
  by (simp add: allocator_ready_def)

lemma boot_ready: "allocator_ready boot_allocator"
  using boot_allocator_facts boot_page_granular by (auto simp: allocator_ready_def)

lemma allocator_ready_roundable:
  assumes "allocator_ready s" and "al \<le> 48"
  shows "roundable (free_bytes s) al"
proof -
  have "(2::nat) ^ al \<le> 2 ^ 48" using assms(2) by (intro power_increasing) simp_all
  then show ?thesis using assms by (fastforce simp: roundable_def allocator_ready_def)
qed

lemma allocate_pages_small:
  assumes "n < 2 ^ 52" and "\<not> (0 < n \<and> n * PAGE_SIZE < free_size s)"
  shows "\<exists>err. allocate_pages s n al = Some (Inl err, s)"
  using assms by (auto simp: allocate_pages_def allocate_def usize_shl_def PAGE_SIZE_def PAGE_SHIFT_def)

interpretation allocator: frame_source allocator_ready free_bytes allocate_pages
proof
  fix s :: MemoryAllocator and n al :: nat
  assume s: "allocator_ready s" and n: "0 < n" "n < 2 ^ 52" and al: "al \<le> 48"
  note inv = s [unfolded allocator_ready_def]
  note out = allocate_pages_outcome [OF _ _ allocator_ready_roundable [OF s al], of n]
  show "allocate_pages s n al \<noteq> None"
    using out inv n allocate_pages_small [of n s al] by (cases "n * PAGE_SIZE < free_size s") auto
  show "allocator_ready s' \<and> PAGE_SIZE dvd a \<and> 2 ^ al dvd a \<and> {a..<a + n * PAGE_SIZE} \<subseteq> free_bytes s \<and>
      free_bytes s' = free_bytes s - {a..<a + n * PAGE_SIZE}"
    if run: "allocate_pages s n al = Some (Inr a, s')" for a s'
    using out inv n allocate_pages_small [of n s al] run
    by (cases "n * PAGE_SIZE < free_size s") (auto simp: takes_def allocator_ready_def)
  show "s' = s" if run: "allocate_pages s n al = Some (Inl err, s')" for err s'
    using out inv n allocate_pages_small [of n s al] run
    by (cases "n * PAGE_SIZE < free_size s") (auto split: MemoryError.splits)
qed

section \<open>The properties at the boot state\<close>

lemma boot_live: "card (live (memory_entry_pool boot_allocator)) = 1"
proof -
  have "run_ends (free_bytes boot_allocator) = {0x4fffffff}"
    by (auto simp: run_ends_def boot_allocator_facts)
  then show ?thesis using card_live_runs [OF boot_allocator_facts(1)] by simp
qed

lemma boot_not_full: "\<not> pool_full boot_allocator"
proof
  assume "pool_full boot_allocator"
  with boot_live show False by (simp add: POOL_SIZE_def pool_full_def)
qed

lemma boot_allocate_aligned:
  assumes "al \<le> 30"
  shows "\<exists>a s'. allocate_pages boot_allocator 1 al = Some (Inr a, s')"
proof -
  have al: "(2::nat) ^ al dvd 0x40000000" using le_imp_power_dvd [OF assms, of "2::nat"] by simp
  have sub: "{0x40000000..<0x40000000 + PAGE_SIZE} \<subseteq> free_bytes boot_allocator"
    by (auto simp: boot_allocator_facts PAGE_SIZE_def PAGE_SHIFT_def)
  have ne: "free_bytes boot_allocator \<noteq> {a..<a + PAGE_SIZE}" for a
  proof
    assume "free_bytes boot_allocator = {a..<a + PAGE_SIZE}"
    then have "card {0x40000000..<0x50000000::nat} = card {a..<a + PAGE_SIZE}" by (simp add: boot_allocator_facts)
    then show False by (simp add: PAGE_SIZE_def PAGE_SHIFT_def)
  qed
  have sz: "1 * PAGE_SIZE < free_size boot_allocator" by (simp add: boot_allocator_facts PAGE_SIZE_def PAGE_SHIFT_def)
  have "roundable (free_bytes boot_allocator) al" using assms by (intro boot_roundable) simp
  note out = allocate_pages_outcome [OF boot_allocator_facts(1) boot_page_granular this zero_less_one sz]
  obtain r s' where run: "allocate_pages boot_allocator 1 al = Some (r, s')"
    and no: "r \<noteq> Inl NoMemory" "r \<noteq> Inl NoEntry" "r \<noteq> Inl InvalidEntry" "r \<noteq> Inl InvalidRequest"
    using out al sub ne boot_not_full by (fastforce split: sum.splits MemoryError.splits)
  then obtain a where "r = Inr a" by (cases r; metis MemoryError.exhaust)
  with run show ?thesis by blast
qed

lemma boot_allocate: "\<exists>a s'. allocate_pages boot_allocator 1 0 = Some (Inr a, s')"
  by (rule boot_allocate_aligned) simp

lemma boot_allocate_page: "\<exists>a s'. allocate boot_allocator 4096 0 = Some (Inr a, s')"
  using boot_allocate by (simp add: allocate_pages_def usize_shl_def PAGE_SHIFT_def)

theorem allocate_sound_witness:
  "\<exists>a s'. allocate boot_allocator 4096 0 = Some (Inr a, s') \<and> takes boot_allocator s' a 4096"
proof -
  obtain a s' where run: "allocate boot_allocator 4096 0 = Some (Inr a, s')" using boot_allocate_page by blast
  from allocate_sound [OF boot_allocator_facts(1) boot_roundable run] run show ?thesis by auto
qed


theorem allocate_best_fit_witness:
  "\<exists>a s'. allocate boot_allocator 4096 0 = Some (Inr a, s') \<and>
     (\<exists>e \<in> live (memory_entry_pool boot_allocator). start_addr (memory_entry_pool boot_allocator ! e) = a)"
proof -
  obtain a s' where run: "allocate boot_allocator 4096 0 = Some (Inr a, s')" using boot_allocate_page by blast
  from allocate_best_fit [OF boot_allocator_facts(1) run] run show ?thesis by blast
qed

theorem allocate_one_byte_left_witness: "allocate boot_allocator 0xfffffff 0 = None"
proof -
  obtain e where e: "live (memory_entry_pool boot_allocator) = {e}" using boot_live by (metis card_1_singletonE)
  have "range_of (memory_entry_pool boot_allocator ! e) = {0x40000000..<0x50000000}"
    using boot_allocator_facts(2) e by (simp add: free_bytes_def bytes_of_def)
  then have "card (range_of (memory_entry_pool boot_allocator ! e)) = card {0x40000000..<0x50000000::nat}" by simp
  then have "esz (memory_entry_pool boot_allocator ! e) = 0xfffffff + 1"
    by (simp add: range_of_def esz_def)
  with allocate_one_byte_left [OF boot_allocator_facts(1) e, of "0xfffffff"] show ?thesis by simp
qed

theorem reserve_memory_pages_witness:
  "\<exists>s'. reserve_memory boot_allocator 0x40080000 0x200000 0 = Some (Inr (), s') \<and>
     takes boot_allocator s' 0x40080000 0x200000"
proof -
  have "free_bytes boot_allocator \<noteq> {0x40080000..<0x40080000 + 0x200000}"
    by (simp add: boot_allocator_facts atLeastLessThan_eq_iff)
  then show ?thesis
    using reserve_memory_pages [OF boot_allocator_facts(1) boot_page_granular, of "0x40080000" "0x200000"] boot_not_full
    by (simp add: boot_allocator_facts PAGE_SIZE_def PAGE_SHIFT_def)
qed

theorem reserve_memory_sound_witness:
  "\<exists>s'. reserve_memory boot_allocator 0x40080000 0x200000 0 = Some (Inr (), s') \<and>
     free_bytes s' = {0x40000000..<0x50000000} - {0x40080000..<0x40280000}"
proof -
  have "free_bytes boot_allocator \<noteq> {0x40080000..<0x40080000 + 0x200000}"
    by (simp add: boot_allocator_facts atLeastLessThan_eq_iff)
  then obtain s' where run: "reserve_memory boot_allocator 0x40080000 0x200000 0 = Some (Inr (), s')"
    using reserve_memory_outcome [OF boot_allocator_facts(1) boot_page_granular, of "0x40080000" "0x200000"] boot_not_full
    by (auto simp: boot_allocator_facts PAGE_SIZE_def PAGE_SHIFT_def)
  from reserve_memory_sound [OF boot_allocator_facts(1) run] run show ?thesis
    by (simp add: takes_def boot_allocator_facts)
qed


lemma boot_free: "\<exists>s'. free_memory boot_allocator 0x60000000 0x10000000 = Some (Inr (), s')"
  using free_memory_outcome [OF boot_allocator_facts(1), of "0x60000000" "0x10000000"] boot_not_full
  by (auto simp: boot_allocator_facts)

theorem free_memory_counts_twice_witness:
  "\<exists>s'. free_memory boot_allocator 0x60000000 0x10000000 = Some (Inr (), s') \<and> free_size s' = 0x30000000 \<and>
     card (free_bytes s') = 0x20000000"
proof -
  obtain s' where run: "free_memory boot_allocator 0x60000000 0x10000000 = Some (Inr (), s')"
    using boot_free by blast
  from free_memory_counts_twice [OF boot_allocator_facts(1) _ _ _ _ _ run] run show ?thesis
    by (simp add: boot_allocator_facts)
qed

theorem allocate_free_roundtrip_witness:
  "\<exists>a s1 s2. allocate_pages boot_allocator 1 0 = Some (Inr a, s1) \<and> free_pages s1 a 1 = Some s2 \<and>
     free_bytes s2 = {0x40000000..<0x50000000}"
proof -
  obtain a s1 where run: "allocate_pages boot_allocator 1 0 = Some (Inr a, s1)" using boot_allocate by blast
  from allocate_free_roundtrip [OF boot_allocator_facts(1) boot_roundable run] run show ?thesis
    by (auto simp: boot_allocator_facts PAGE_SIZE_def PAGE_SHIFT_def)
qed

end
