(* ===== verification/PagingProps.thy ===== *)
theory PagingProps
  imports Paging AllocatorProps
begin

text \<open>
  Correctness of stage-2 mapping. The translation that the hardware performs is
  stated as \<open>walk\<close>, a table walk as the architecture defines it for a 4 KiB
  granule; \<open>map_address_stage2\<close> is shown to change this translation exactly on
  the range it is asked to map. The tables form a tree in memory (\<open>tree\<close>), and new
  tables come from the frame source of \<open>AllocatorProps\<close>, which is what keeps the
  trees apart.
\<close>

section \<open>Bits of descriptors\<close>

lemma mask_words:
  "OUTPUT_ADDRESS_MASK = push_bit 12 (mask 38)" "TABLE_ADDRESS_MASK = push_bit 12 (mask 40)"
  "AF = push_bit 10 (mask 1)" "SH = push_bit 8 (mask 2)" "S2AP = push_bit 6 (mask 2)"
  "ATTR_INDEX = push_bit 2 (mask 4)" "ATTR_WRITE_BACK = push_bit 2 (mask 4)"
  by (simp_all add: OUTPUT_ADDRESS_MASK_def TABLE_ADDRESS_MASK_def AF_def SH_def S2AP_def ATTR_INDEX_def
      ATTR_WRITE_BACK_def SH_OFFSET_def S2AP_OFFSET_def ATTR_INDEX_OFFSET_def PAGE_SIZE_def PAGE_SHIFT_def
      mask_eq_exp_minus_1 push_bit_eq_mult)

lemma word_bit_bound: "bit (w :: 64 word) n \<Longrightarrow> n < 64"
  by (auto dest: bit_imp_le_length)

lemma bit_word_of_nat_iff: "bit (word_of_nat x :: 'a::len word) n \<longleftrightarrow> n < LENGTH('a) \<and> bit x n"
  by transfer (simp add: bit_take_bit_iff bit_of_nat_iff)

lemma page_bits:
  assumes "pa < 2 ^ 50" "PAGE_SIZE dvd pa" "bit (word_of_nat pa :: u64) n"
  shows "12 \<le> n" "n < 50"
proof -
  from assms(2) obtain k where k: "pa = 4096 * k" by (auto simp: PAGE_SIZE_def PAGE_SHIFT_def)
  have b: "bit pa n" using assms(3) by (simp add: bit_word_of_nat_iff)
  have "pa = push_bit 12 k" by (simp add: k push_bit_eq_mult)
  with b show "12 \<le> n" by (simp add: bit_push_bit_iff)
  have "take_bit 50 pa = pa" using assms(1) by (simp add: take_bit_nat_eq_self)
  with b show "n < 50" by (metis bit_take_bit_iff)
qed

lemma bit_3: "bit (3 :: u64) n \<longleftrightarrow> n < 2" "bit (1 :: u64) n \<longleftrightarrow> n = 0"
proof -
  have "bit (mask 2 :: u64) n \<longleftrightarrow> n < 2" by (simp only: bit_mask_iff) auto
  then show "bit (3 :: u64) n \<longleftrightarrow> n < 2" by (simp add: mask_eq_exp_minus_1)
qed (simp add: bit_1_iff)

lemma bit_shifted_mask: "bit (push_bit k (mask m) :: u64) n \<longleftrightarrow> k \<le> n \<and> n < k + m \<and> n < 64"
  by (auto simp: bit_simps)

lemmas leaf_defs = leaf_descriptor_def set_shareability_def set_memory_attribute_write_back_def set_permission_def
  set_output_address_def Descriptor_new_def shareability_bits_def mask_words SH_OFFSET_def S2AP_OFFSET_def

lemma leaf_bits:
  assumes pa: "pa < 2 ^ 50" "PAGE_SIZE dvd pa" and perm: "\<And>i. bit perm i \<Longrightarrow> i < 2"
  shows "bit (leaf_descriptor pa perm) n \<longleftrightarrow>
    2 \<le> n \<and> n < 6 \<or> 8 \<le> n \<and> n < 11 \<or> 6 \<le> n \<and> n < 8 \<and> bit perm (n - 6) \<or> bit (word_of_nat pa :: u64) n"
proof (cases "n < 64")
  case True
  have "(3 :: u64) = mask 2" by (simp add: mask_eq_exp_minus_1)
  have p: "bit (push_bit 6 perm) n \<longleftrightarrow> 6 \<le> n \<and> n < 8 \<and> bit perm (n - 6)"
    using perm [of "n - 6"] True by (auto simp: bit_push_bit_iff)
  show ?thesis
    using page_bits [OF pa, of n] True
    unfolding leaf_defs \<open>3 = mask 2\<close> Shareability.case bit_or_iff bit_and_iff bit_not_iff p bit_shifted_mask
    by auto
qed (auto dest: word_bit_bound)

lemma leaf_props:
  assumes pa: "pa < 2 ^ 50" "PAGE_SIZE dvd pa" and perm: "\<And>i. bit perm i \<Longrightarrow> i < 2" and v: "v = 1 \<or> v = 3"
  defines "d \<equiv> leaf_descriptor pa perm OR v"
  shows "d AND 3 = v" "unat (d AND OUTPUT_ADDRESS_MASK) = pa" "drop_bit 6 (d AND S2AP) = perm"
proof -
  note b = leaf_bits [OF pa perm]
  have vb: "bit v n \<Longrightarrow> n < 2" for n using v by (auto simp: bit_3 simp del: bit_numeral_word_iff)
  show "d AND 3 = v"
  proof (rule bit_word_eqI)
    fix n
    show "bit (d AND 3) n \<longleftrightarrow> bit v n"
      using page_bits [OF pa, of n] vb [of n]
      by (auto simp: d_def bit_or_iff bit_and_iff b bit_3 simp del: bit_numeral_word_iff)
  qed
  have "d AND OUTPUT_ADDRESS_MASK = word_of_nat pa"
  proof (rule bit_word_eqI)
    fix n
    show "bit (d AND OUTPUT_ADDRESS_MASK) n \<longleftrightarrow> bit (word_of_nat pa :: u64) n"
      using page_bits [OF pa, of n] vb [of n]
      by (auto simp: d_def bit_or_iff bit_and_iff b mask_words bit_shifted_mask)
  qed
  moreover have "unat (word_of_nat pa :: u64) = pa" using pa(1) by (simp add: unat_of_nat take_bit_nat_eq_self)
  ultimately show "unat (d AND OUTPUT_ADDRESS_MASK) = pa" by simp
  show "drop_bit 6 (d AND S2AP) = perm"
  proof (rule bit_word_eqI)
    fix n
    show "bit (drop_bit 6 (d AND S2AP)) n \<longleftrightarrow> bit perm n"
      using page_bits [OF pa, of "6 + n"] vb [of "6 + n"] perm [of n]
      by (auto simp: d_def bit_or_iff bit_and_iff bit_drop_bit_eq b mask_words bit_shifted_mask)
  qed
qed

lemma table_props:
  assumes t: "t < 2 ^ 50" "PAGE_SIZE dvd t"
  defines "d \<equiv> validate_as_table_descriptor (set_output_address t Descriptor_new)"
  shows "is_table_descriptor d" "get_next_level_table_address d = t"
proof -
  show "is_table_descriptor d"
    unfolding is_table_descriptor_def
    by (rule bit_word_eqI) (auto simp: d_def validate_as_table_descriptor_def bit_or_iff bit_and_iff bit_3)
  have "d AND TABLE_ADDRESS_MASK = word_of_nat t"
  proof (rule bit_word_eqI)
    fix n
    have "\<not> (bit AF n \<and> 12 \<le> n)" unfolding mask_words bit_shifted_mask by simp
    then show "bit (d AND TABLE_ADDRESS_MASK) n \<longleftrightarrow> bit (word_of_nat t :: u64) n"
      using page_bits [OF t, of n]
      by (auto simp: d_def validate_as_table_descriptor_def set_output_address_def Descriptor_new_def bit_or_iff bit_and_iff
        mask_words(2) bit_shifted_mask bit_3 simp del: bit_numeral_word_iff)
  qed
  then show "get_next_level_table_address d = t"
    using t(1) by (simp add: get_next_level_table_address_def unat_of_nat take_bit_nat_eq_self)
qed
section \<open>The table walk of the hardware\<close>

text \<open>The bytes covered by a descriptor \<open>k\<close> levels above the last.\<close>

definition block_bytes :: "nat \<Rightarrow> nat" where
  "block_bytes k = 2 ^ (12 + 9 * k)"

lemma block_bytes_simps: "block_bytes 0 = PAGE_SIZE" "block_bytes (Suc k) = block_bytes k * 512"
  by (simp_all add: block_bytes_def PAGE_SIZE_def PAGE_SHIFT_def power_add)

lemma block_bytes_pos [simp]: "0 < block_bytes k"
  by (simp add: block_bytes_def)

lemma page_dvd_block: "PAGE_SIZE dvd block_bytes k"
  by (induction k) (simp_all add: block_bytes_simps dvd_mult2)

definition output_of :: "Descriptor \<Rightarrow> usize" where
  "output_of d = unat (d AND OUTPUT_ADDRESS_MASK)"

definition permission_of :: "Descriptor \<Rightarrow> u64" where
  "permission_of d = drop_bit 6 (d AND S2AP)"

fun walk :: "(usize \<Rightarrow> Descriptor) \<Rightarrow> nat \<Rightarrow> nat \<Rightarrow> usize \<Rightarrow> usize \<Rightarrow> (usize \<times> u64) option" where
  "walk m 0 num t ipa = (let d = m (t + 8 * (ipa div block_bytes 0 mod num)) in
     if d AND 3 = 3 then Some (output_of d + ipa mod block_bytes 0, permission_of d) else None)"
| "walk m (Suc k) num t ipa = (let d = m (t + 8 * (ipa div block_bytes (Suc k) mod num)) in
     if d AND 3 = 3 then walk m k 512 (get_next_level_table_address d) ipa
     else if d AND 3 = 1 \<and> Suc k \<le> 2 then Some (output_of d + ipa mod block_bytes (Suc k), permission_of d)
     else None)"

section \<open>Trees of tables\<close>

definition slots :: "usize \<Rightarrow> nat \<Rightarrow> usize set" where
  "slots t num = (\<lambda>i. t + 8 * i) ` {..<num}"

fun tree :: "(usize \<Rightarrow> Descriptor) \<Rightarrow> nat \<Rightarrow> nat \<Rightarrow> usize \<Rightarrow> usize set \<Rightarrow> bool" where
  "tree m 0 num t P \<longleftrightarrow> P = slots t num"
| "tree m (Suc k) num t P \<longleftrightarrow> (\<exists>Q. P = slots t num \<union> (\<Union>i<num. Q i) \<and>
     (\<forall>i<num. slots t num \<inter> Q i = {}) \<and> (\<forall>i<num. \<forall>j<num. i \<noteq> j \<longrightarrow> Q i \<inter> Q j = {}) \<and>
     (\<forall>i<num. if m (t + 8 * i) AND 3 = 3
        then tree m k 512 (get_next_level_table_address (m (t + 8 * i))) (Q i) else Q i = {}))"

text \<open>The subtree below entry \<open>i\<close>.\<close>

definition subtree :: "(usize \<Rightarrow> Descriptor) \<Rightarrow> nat \<Rightarrow> usize \<Rightarrow> nat \<Rightarrow> usize set \<Rightarrow> bool" where
  "subtree m k t i A \<longleftrightarrow> (if m (t + 8 * i) AND 3 = 3
     then tree m k 512 (get_next_level_table_address (m (t + 8 * i))) A else A = {})"

lemma tree_SucI:
  assumes "\<And>i. i < num \<Longrightarrow> slots t num \<inter> Q i = {}"
    and "\<And>i j. i < num \<Longrightarrow> j < num \<Longrightarrow> i \<noteq> j \<Longrightarrow> Q i \<inter> Q j = {}"
    and "\<And>i. i < num \<Longrightarrow> subtree m k t i (Q i)"
  shows "tree m (Suc k) num t (slots t num \<union> (\<Union>i<num. Q i))"
  unfolding tree.simps using assms by (intro exI [of _ Q]) (simp add: subtree_def)

lemma tree_SucE:
  assumes "tree m (Suc k) num t P"
  obtains Q where "P = slots t num \<union> (\<Union>i<num. Q i)" "\<And>i. i < num \<Longrightarrow> slots t num \<inter> Q i = {}"
    "\<And>i j. i < num \<Longrightarrow> j < num \<Longrightarrow> i \<noteq> j \<Longrightarrow> Q i \<inter> Q j = {}" "\<And>i. i < num \<Longrightarrow> subtree m k t i (Q i)"
  using assms unfolding tree.simps subtree_def by (elim exE conjE) blast

lemma slots_iff [simp]: "t + 8 * i \<in> slots t num \<longleftrightarrow> i < num"
  by (auto simp: slots_def)

lemma tree_slots: "tree m k num t P \<Longrightarrow> slots t num \<subseteq> P"
  by (cases k) auto

lemma tree_frame:
  assumes "tree m k num t P" and "\<And>a. a \<in> P \<Longrightarrow> m' a = m a"
  shows "tree m' k num t P"
  using assms
proof (induction k arbitrary: num t P)
  case (Suc k)
  from Suc.prems(1) obtain Q where Q: "P = slots t num \<union> (\<Union>i<num. Q i)" "\<And>i. i < num \<Longrightarrow> slots t num \<inter> Q i = {}"
      "\<And>i j. i < num \<Longrightarrow> j < num \<Longrightarrow> i \<noteq> j \<Longrightarrow> Q i \<inter> Q j = {}" "\<And>i. i < num \<Longrightarrow> subtree m k t i (Q i)"
    by (rule tree_SucE) blast
  have "subtree m' k t i (Q i)" if i: "i < num" for i
  proof -
    have "m' (t + 8 * i) = m (t + 8 * i)" using Suc.prems(2) i Q(1) by simp
    moreover have "m' a = m a" if "a \<in> Q i" for a using Suc.prems(2) i Q(1) that by blast
    ultimately show ?thesis using Q(4) [OF i] Suc.IH [of 512 _ "Q i"] by (auto simp: subtree_def)
  qed
  then show ?case unfolding Q(1) using Q(2,3) by (intro tree_SucI)
qed simp

lemma subtree_frame:
  assumes "subtree m k t i A" and "m' (t + 8 * i) = m (t + 8 * i)" and "\<And>a. a \<in> A \<Longrightarrow> m' a = m a"
  shows "subtree m' k t i A"
  using assms tree_frame [of m k 512 _ A m'] by (auto simp: subtree_def)

text \<open>The walk below entry \<open>i\<close>, for an address that selects it.\<close>

definition entry_walk :: "(usize \<Rightarrow> Descriptor) \<Rightarrow> nat \<Rightarrow> usize \<Rightarrow> nat \<Rightarrow> usize \<Rightarrow> (usize \<times> u64) option" where
  "entry_walk m k t i x = (let d = m (t + 8 * i) in
     if d AND 3 = 3 then walk m k 512 (get_next_level_table_address d) x
     else if d AND 3 = 1 \<and> Suc k \<le> 2 then Some (output_of d + x mod block_bytes (Suc k), permission_of d)
     else None)"

lemma walk_Suc: "walk m (Suc k) num t x = entry_walk m k t (x div block_bytes (Suc k) mod num) x"
  by (simp add: entry_walk_def)

lemma walk_frame:
  assumes "tree m k num t P" and "\<And>a. a \<in> P \<Longrightarrow> m' a = m a" and "0 < num"
  shows "walk m' k num t x = walk m k num t x"
  using assms
proof (induction k arbitrary: num t P)
  case 0
  then show ?case by simp
next
  case (Suc k)
  let ?i = "x div block_bytes (Suc k) mod num"
  have i: "?i < num" using Suc.prems(3) by simp
  from Suc.prems(1) obtain Q where Q: "P = slots t num \<union> (\<Union>i<num. Q i)" "subtree m k t ?i (Q ?i)"
    using i tree_SucE by metis
  have eq: "m' (t + 8 * ?i) = m (t + 8 * ?i)" using Suc.prems(2) i Q(1) by simp
  have "m' a = m a" if "a \<in> Q ?i" for a using Suc.prems(2) i Q(1) that by blast
  then show ?case
    using Q(2) Suc.IH [of 512 _ "Q ?i"] unfolding walk_Suc by (auto simp: entry_walk_def eq subtree_def Let_def)
qed

lemma entry_walk_frame:
  assumes "subtree m k t i A" and "m' (t + 8 * i) = m (t + 8 * i)" and "\<And>a. a \<in> A \<Longrightarrow> m' a = m a"
  shows "entry_walk m' k t i x = entry_walk m k t i x"
  using assms walk_frame [of m k 512 _ A m'] by (auto simp: entry_walk_def subtree_def Let_def)

section \<open>Steps of the mapping\<close>

text \<open>
  \<open>steps\<close> relates two states of the tables below \<open>t\<close>: the tree is still a tree, new
  nodes are frames taken from the allocator, nothing outside changed (the registers
  that locate the table included), and within
  window \<open>w\<close> of the table the translation changed exactly on the \<open>n\<close> bytes from
  \<open>ipa\<close>, which now go to \<open>pa\<close>.
\<close>

abbreviation free_frames :: "Stage2 \<Rightarrow> nat set" where
  "free_frames st \<equiv> free_bytes (page_allocator st)"

definition steps ::
  "u64 \<Rightarrow> nat \<Rightarrow> nat \<Rightarrow> usize \<Rightarrow> nat \<Rightarrow> Stage2 \<Rightarrow> usize set \<Rightarrow> Stage2 \<Rightarrow> usize set \<Rightarrow> usize \<Rightarrow> usize \<Rightarrow> usize \<Rightarrow> bool" where
  "steps perm k num t w st P st' P' pa ipa n \<longleftrightarrow>
     tree (tables st') k num t P' \<and> allocator_ready (page_allocator st') \<and>
     free_frames st' \<subseteq> free_frames st \<and> P' \<subseteq> P \<union> (free_frames st - free_frames st') \<and>
     (\<forall>a. a \<notin> P \<union> (free_frames st - free_frames st') \<longrightarrow> tables st' a = tables st a) \<and>
     vttbr_el2 st' = vttbr_el2 st \<and> vtcr_el2 st' = vtcr_el2 st \<and>
     (\<forall>x. x div block_bytes k div num = w \<longrightarrow> walk (tables st') k num t x =
        (if ipa \<le> x \<and> x < ipa + n then Some (pa + (x - ipa), perm) else walk (tables st) k num t x))"

lemma steps_trans:
  assumes "steps perm k num t w st P st1 P1 pa ipa n1" and "steps perm k num t w st1 P1 st2 P2 (pa + n1) (ipa + n1) n2"
  shows "steps perm k num t w st P st2 P2 pa ipa (n1 + n2)"
proof -
  note d = assms [unfolded steps_def]
  have "P2 \<subseteq> P \<union> (free_frames st - free_frames st2)" "free_frames st2 \<subseteq> free_frames st" using d by blast+
  moreover have "tables st2 a = tables st a" if "a \<notin> P \<union> (free_frames st - free_frames st2)" for a
  proof -
    have "a \<notin> P1 \<union> (free_frames st1 - free_frames st2)" "a \<notin> P \<union> (free_frames st - free_frames st1)"
      using d that by blast+
    then show ?thesis using d by simp
  qed
  moreover have "walk (tables st2) k num t x =
      (if ipa \<le> x \<and> x < ipa + (n1 + n2) then Some (pa + (x - ipa), perm) else walk (tables st) k num t x)"
    if "x div block_bytes k div num = w" for x
    using d that by auto
  moreover have "vttbr_el2 st2 = vttbr_el2 st" "vtcr_el2 st2 = vtcr_el2 st" using d by simp_all
  ultimately show ?thesis using d unfolding steps_def by blast
qed

lemma steps_disjoint:
  assumes "steps perm k num t w st P st' P' pa ipa n" and "P \<inter> free_frames st = {}"
  shows "P' \<inter> free_frames st' = {}"
  using assms unfolding steps_def by blast

text \<open>An address is its block, and its block is window and index.\<close>

lemma block_window:
  assumes "0 < num"
  shows "y div num = w \<and> y mod num = i \<longleftrightarrow> i < num \<and> y = w * num + (i :: nat)"
  using assms by (auto simp: div_mult_mod_eq)

lemma block_offset:
  assumes "(ipa :: nat) div B = b" and "B dvd ipa" and "0 < B"
  shows "x div B = b \<longleftrightarrow> ipa \<le> x \<and> x < ipa + B" and "x div B = b \<Longrightarrow> x mod B = x - ipa"
proof -
  have ipa: "ipa = b * B" using assms(1,2) by (metis dvd_div_mult_self)
  show "x div B = b \<longleftrightarrow> ipa \<le> x \<and> x < ipa + B"
  proof
    assume "x div B = b"
    then have "x = b * B + x mod B" by (metis div_mult_mod_eq)
    moreover have "x mod B < B" using assms(3) by simp
    ultimately show "ipa \<le> x \<and> x < ipa + B" unfolding ipa by linarith
  next
    assume "ipa \<le> x \<and> x < ipa + B"
    then show "x div B = b" unfolding ipa by (intro div_nat_eqI) (auto simp: mult.commute add.commute)
  qed
  show "x div B = b \<Longrightarrow> x mod B = x - ipa" unfolding ipa by (metis minus_div_mult_eq_mod)
qed

text \<open>Writing a leaf.\<close>

lemma leaf_step:
  assumes tr: "tree (tables st) k num t P" and rd: "allocator_ready (page_allocator st)" and num: "0 < num"
    and ipa: "block_bytes k dvd ipa" "ipa div block_bytes k = w * num + i" "i < num"
    and pa: "pa < 2 ^ 50" "PAGE_SIZE dvd pa" and perm: "\<And>j. bit perm j \<Longrightarrow> j < 2"
    and v: "k = 0 \<and> v = 3 \<or> 1 \<le> k \<and> k \<le> 2 \<and> v = 1"
  obtains P' where "steps perm k num t w st P
    (st\<lparr>tables := (tables st)(t + 8 * i := leaf_descriptor pa perm OR v)\<rparr>) P' pa ipa (block_bytes k)"
proof -
  let ?m = "tables st" and ?d = "leaf_descriptor pa perm OR v"
  let ?m' = "?m(t + 8 * i := ?d)"
  have "v = 1 \<or> v = 3" using v by auto
  note leaf = leaf_props [OF pa perm this]
  have leaf_walk: "walk ?m' k num t x = Some (pa + x mod block_bytes k, perm)" if "x div block_bytes k mod num = i" for x
    using v leaf that by (cases k) (auto simp: Let_def output_of_def permission_of_def)
  have here: "ipa \<le> x \<and> x < ipa + block_bytes k \<longleftrightarrow> x div block_bytes k mod num = i"
    if "x div block_bytes k div num = w" for x
    using block_offset(1) [OF ipa(2,1) block_bytes_pos, of x] block_window [OF num, of "x div block_bytes k" w i] that ipa(3)
    by auto
  have off: "x mod block_bytes k = x - ipa" if "ipa \<le> x \<and> x < ipa + block_bytes k" for x
    using block_offset [OF ipa(2,1) block_bytes_pos, of x] that by simp
  obtain P' where P': "tree ?m' k num t P'" "P' \<subseteq> P"
    and other: "\<And>x. x div block_bytes k mod num \<noteq> i \<Longrightarrow> walk ?m' k num t x = walk ?m k num t x"
  proof (cases k)
    case 0
    then show thesis using tr by (intro that [of P]) auto
  next
    case (Suc k')
    from tr [unfolded Suc] obtain Q where Q: "P = slots t num \<union> (\<Union>i<num. Q i)" "\<And>i. i < num \<Longrightarrow> slots t num \<inter> Q i = {}"
      "\<And>i j. i < num \<Longrightarrow> j < num \<Longrightarrow> i \<noteq> j \<Longrightarrow> Q i \<inter> Q j = {}" "\<And>i. i < num \<Longrightarrow> subtree ?m k' t i (Q i)"
      by (rule tree_SucE) blast
    have out: "?m' a = ?m a" if "a \<in> Q j" "j < num" for a j
    proof -
      have "t + 8 * i \<notin> Q j" using Q(2) [OF that(2)] slots_iff [of t i num] ipa(3) by blast
      then show ?thesis using that(1) by auto
    qed
    have "subtree ?m' k' t j ((Q(i := {})) j)" if "j < num" for j
    proof (cases "j = i")
      case True
      then show ?thesis using leaf(1) v Suc by (auto simp: subtree_def)
    next
      case False
      then show ?thesis using subtree_frame [OF Q(4) [OF that], of ?m'] out [OF _ that] by auto
    qed
    then have "tree ?m' k num t (slots t num \<union> (\<Union>j<num. (Q(i := {})) j))"
      unfolding Suc using Q(2,3) by (intro tree_SucI) auto
    moreover have "slots t num \<union> (\<Union>j<num. (Q(i := {})) j) \<subseteq> P" using Q(1) by (auto split: if_splits)
    moreover have "walk ?m' k num t x = walk ?m k num t x" if x: "x div block_bytes k mod num \<noteq> i" for x
    proof -
      have j: "x div block_bytes k mod num < num" using num by simp
      show ?thesis unfolding Suc walk_Suc
        by (rule entry_walk_frame [OF Q(4)]) (use j x out [OF _ j] in \<open>simp_all add: Suc\<close>)
    qed
    ultimately show thesis by (rule that)
  qed
  have "t + 8 * i \<in> P" using tree_slots [OF tr] ipa(3) by auto
  with P' other leaf_walk here off rd show thesis
    by (intro that [of P']) (auto simp: steps_def)
qed

text \<open>A step in the table below an entry is a step of the table.\<close>

lemma child_step:
  assumes Q: "P = slots t num \<union> (\<Union>i<num. Q i)" "\<And>i. i < num \<Longrightarrow> slots t num \<inter> Q i = {}"
      "\<And>i j. i < num \<Longrightarrow> j < num \<Longrightarrow> i \<noteq> j \<Longrightarrow> Q i \<inter> Q j = {}" "\<And>i. i < num \<Longrightarrow> subtree (tables st) k t i (Q i)"
    and i: "i < num" and tab: "tables st (t + 8 * i) AND 3 = 3" and free: "P \<inter> free_frames st = {}"
    and child: "steps perm k 512 (get_next_level_table_address (tables st (t + 8 * i))) (w * num + i) st (Q i) st' A pa ipa n"
    and rng: "\<And>x. ipa \<le> x \<Longrightarrow> x < ipa + n \<Longrightarrow> x div block_bytes (Suc k) = w * num + i"
  obtains P' where "steps perm (Suc k) num t w st P st' P' pa ipa n"
proof -
  let ?m = "tables st" and ?m' = "tables st'" and ?N = "free_frames st - free_frames st'" and ?R = "Q(i := A)"
  note d = child [unfolded steps_def]
  have num: "0 < num" using i by simp
  have same: "?m' a = ?m a" if "a \<in> P" "a \<notin> Q i" for a using d free that by blast
  have slot: "?m' (t + 8 * j) = ?m (t + 8 * j)" if "j < num" for j
    using that Q(1,2) i slots_iff [of t j num] by (intro same) blast+
  have Qj: "?m' a = ?m a" if "a \<in> Q j" "j < num" "j \<noteq> i" for a j
    using that Q(1,3) i by (intro same) blast+
  have sub: "subtree ?m' k t j (?R j)" if "j < num" for j
  proof (cases "j = i")
    case True
    then show ?thesis using d slot [OF i] tab by (simp add: subtree_def)
  next
    case False
    then show ?thesis using subtree_frame [where m' = ?m', OF Q(4) [OF that] slot [OF that]] Qj [OF _ that False] by simp
  qed
  have A: "A \<subseteq> Q i \<union> ?N" using d by blast
  have tr: "tree ?m' (Suc k) num t (slots t num \<union> (\<Union>j<num. ?R j))"
  proof (rule tree_SucI [OF _ _ sub])
    show "slots t num \<inter> ?R j = {}" if "j < num" for j
      using Q(1,2) A free i that by (cases "j = i") (simp, blast, simp)
    show "?R j \<inter> ?R l = {}" if "j < num" "l < num" "j \<noteq> l" for j l
    proof -
      have "Q j \<inter> A = {}" if "j < num" "j \<noteq> i" for j using Q(1,3) A free i that by blast
      then show ?thesis using that Q(3) by (cases "j = i"; cases "l = i") auto
    qed
  qed
  have "walk ?m' (Suc k) num t x = (if ipa \<le> x \<and> x < ipa + n then Some (pa + (x - ipa), perm) else walk ?m (Suc k) num t x)"
    if x: "x div block_bytes (Suc k) div num = w" for x
  proof (cases "x div block_bytes (Suc k) mod num = i")
    case True
    have "x div block_bytes (Suc k) = w * num + i" using x True num by (metis div_mult_mod_eq)
    then have "x div block_bytes k div 512 = w * num + i" by (simp add: block_bytes_simps div_mult2_eq)
    then show ?thesis
      using d slot [OF i] tab unfolding walk_Suc True by (simp add: entry_walk_def)
  next
    case False
    have j: "x div block_bytes (Suc k) mod num < num" using num by simp
    have "\<not> (ipa \<le> x \<and> x < ipa + n)"
    proof
      assume "ipa \<le> x \<and> x < ipa + n"
      then have "x div block_bytes (Suc k) = w * num + i" using rng by simp
      then show False using False i by simp
    qed
    then show ?thesis
      unfolding walk_Suc using entry_walk_frame [where m' = ?m', OF Q(4) [OF j] slot [OF j] Qj [OF _ j False]] by auto
  qed
  moreover have "slots t num \<union> (\<Union>j<num. ?R j) \<subseteq> P \<union> ?N"
    using Q(1) A i by (auto split: if_splits)
  moreover have "?m' a = ?m a" if "a \<notin> P \<union> ?N" for a using d that Q(1) i by blast
  ultimately have "steps perm (Suc k) num t w st P st' (slots t num \<union> (\<Union>j<num. ?R j)) pa ipa n"
    unfolding steps_def using tr d by blast
  then show thesis by (rule that)
qed

lemma init_table_nth: "init_table m a n x = (if x \<in> slots a n then 0 else m x)"
proof (induction n arbitrary: m a)
  case (Suc n)
  have "slots a (Suc n) = insert a (slots (a + 8) n)"
    unfolding slots_def lessThan_Suc_eq_insert_0 by (auto simp: image_iff)
  with Suc show ?case by (auto simp: Descriptor_new_def)
qed (simp add: slots_def)

lemma zero_table:
  assumes "\<And>a. a \<in> slots t num \<Longrightarrow> m a = 0" and "0 < num"
  shows "tree m k num t (slots t num)" "walk m k num t x = None"
proof -
  have z: "m (t + 8 * i) = 0" if "i < num" for i using assms(1) that by simp
  show "tree m k num t (slots t num)"
  proof (cases k)
    case (Suc k')
    have "tree m (Suc k') num t (slots t num \<union> (\<Union>i<num. (\<lambda>_. {}) i))"
      by (rule tree_SucI) (simp_all add: subtree_def z)
    then show ?thesis by (simp add: Suc)
  qed simp
  show "walk m k num t x = None"
    using z [of "x div block_bytes k mod num"] assms(2) by (cases k) (simp_all add: Let_def)
qed

text \<open>Linking a fresh table into an entry that translates nothing.\<close>

lemma fresh_frame:
  assumes "allocator_ready al" and "allocate_pages al 1 12 = Some (Inr t', al')"
  shows "allocator_ready al'" "PAGE_SIZE dvd t'" "t' < 2 ^ 50" "slots t' 512 \<subseteq> free_bytes al"
    "slots t' 512 \<inter> free_bytes al' = {}" "free_bytes al' \<subseteq> free_bytes al"
proof -
  have p: "allocator_ready al' \<and> PAGE_SIZE dvd t' \<and> 2 ^ 12 dvd t' \<and> {t'..<t' + 1 * PAGE_SIZE} \<subseteq> free_bytes al \<and>
      free_bytes al' = free_bytes al - {t'..<t' + 1 * PAGE_SIZE}"
    by (rule allocator.alloc_ok [OF assms(1) _ _ _ assms(2)]) simp_all
  then show "allocator_ready al'" "PAGE_SIZE dvd t'" "free_bytes al' \<subseteq> free_bytes al" by auto
  have "t' \<in> {t'..<t' + 1 * PAGE_SIZE}" by (simp add: PAGE_SIZE_def)
  then show "t' < 2 ^ 50" using p allocator_ready_bound [OF assms(1)] by fastforce
  have "slots t' 512 \<subseteq> {t'..<t' + 1 * PAGE_SIZE}" by (auto simp: slots_def PAGE_SIZE_def PAGE_SHIFT_def)
  then show "slots t' 512 \<subseteq> free_bytes al" "slots t' 512 \<inter> free_bytes al' = {}" using p by blast+
qed

lemma link_step:
  assumes tr: "tree (tables st) (Suc k) num t P" and i: "i < num" and nt: "tables st (t + 8 * i) AND 3 \<noteq> 3"
    and rd: "allocator_ready (page_allocator st)" and free: "P \<inter> free_frames st = {}"
    and al: "allocate_pages (page_allocator st) 1 12 = Some (Inr t', al')"
    and none: "\<And>x. x div block_bytes (Suc k) = w * num + i \<Longrightarrow> walk (tables st) (Suc k) num t x = None"
  defines "st' \<equiv> st\<lparr>page_allocator := al', tables := (init_table (tables st) t' 512)
      (t + 8 * i := validate_as_table_descriptor (set_output_address t' Descriptor_new))\<rparr>"
  obtains P' where "steps perm (Suc k) num t w st P st' P' pa ipa 0" "is_table_descriptor (tables st' (t + 8 * i))"
    "get_next_level_table_address (tables st' (t + 8 * i)) = t'"
proof -
  let ?m = "tables st" and ?m' = "tables st'" and ?S = "slots t' 512"
  note F = fresh_frame [OF rd al]
  note tab = table_props [OF F(3,2)]
  from tr obtain Q where Q: "P = slots t num \<union> (\<Union>i<num. Q i)" "\<And>i. i < num \<Longrightarrow> slots t num \<inter> Q i = {}"
      "\<And>i j. i < num \<Longrightarrow> j < num \<Longrightarrow> i \<noteq> j \<Longrightarrow> Q i \<inter> Q j = {}" "\<And>i. i < num \<Longrightarrow> subtree ?m k t i (Q i)"
    by (rule tree_SucE) blast
  have S: "?S \<inter> P = {}" using F(4) free by blast
  have m': "?m' x = (if x = t + 8 * i then validate_as_table_descriptor (set_output_address t' Descriptor_new)
      else if x \<in> ?S then 0 else ?m x)" for x
    by (simp add: st'_def init_table_nth)
  have entry: "is_table_descriptor (?m' (t + 8 * i))" "get_next_level_table_address (?m' (t + 8 * i)) = t'"
    using tab by (simp_all add: m')
  have num: "0 < num" using i by simp
  have inP: "t + 8 * i \<in> P" using Q(1) i by simp
  have zero: "?m' a = 0" if "a \<in> ?S" for a using that S inP by (auto simp: m')
  have slot: "?m' (t + 8 * j) = ?m (t + 8 * j)" if "j < num" "j \<noteq> i" for j
  proof -
    have "t + 8 * j \<in> P" using Q(1) that by simp
    then show ?thesis using S that(2) by (auto simp: m')
  qed
  have inner: "?m' a = ?m a" if "a \<in> Q j" "j < num" for a j
  proof -
    have "a \<in> P" "a \<noteq> t + 8 * i" using that Q(1,2) i slots_iff [of t i num] by blast+
    then show ?thesis using S by (auto simp: m')
  qed
  have Qi: "Q i = {}" using Q(4) [OF i] nt by (simp add: subtree_def)
  have "subtree ?m' k t j ((Q(i := ?S)) j)" if "j < num" for j
  proof (cases "j = i")
    case True
    then show ?thesis using entry zero_table(1) [where m = ?m' and t = t' and num = 512 and k = k, OF zero]
      by (simp add: subtree_def is_table_descriptor_def)
  next
    case False
    then show ?thesis
      using subtree_frame [where m' = ?m', OF Q(4) [OF that] slot [OF that False] inner [OF _ that]] by simp
  qed
  then have tr': "tree ?m' (Suc k) num t (slots t num \<union> (\<Union>j<num. (Q(i := ?S)) j))"
  proof (rule tree_SucI [rotated 2])
    show "slots t num \<inter> (Q(i := ?S)) j = {}" if "j < num" for j using Q(1,2) S that by auto
    show "(Q(i := ?S)) j \<inter> (Q(i := ?S)) l = {}" if "j < num" "l < num" "j \<noteq> l" for j l using Q(1,3) S that by auto
  qed
  have walk: "walk ?m' (Suc k) num t x = walk ?m (Suc k) num t x" if x: "x div block_bytes (Suc k) div num = w" for x
  proof (cases "x div block_bytes (Suc k) mod num = i")
    case True
    have "x div block_bytes (Suc k) = w * num + i" using x True num by (metis div_mult_mod_eq)
    from none [OF this] show ?thesis
      unfolding walk_Suc True using entry zero_table(2) [where m = ?m' and t = t' and num = 512 and k = k and x = x, OF zero]
      by (simp add: entry_walk_def is_table_descriptor_def)
  next
    case False
    have j: "x div block_bytes (Suc k) mod num < num" using num by simp
    show ?thesis unfolding walk_Suc
      using entry_walk_frame [where m' = ?m', OF Q(4) [OF j] slot [OF j False] inner [OF _ j]] .
  qed
  have "free_frames st' = free_bytes al'" by (simp add: st'_def)
  then have new: "?S \<subseteq> free_frames st - free_frames st'" using F(4,5) by auto
  have "steps perm (Suc k) num t w st P st' (slots t num \<union> (\<Union>j<num. (Q(i := ?S)) j)) pa ipa 0"
    unfolding steps_def
  proof (intro conjI allI impI)
    show "slots t num \<union> (\<Union>j<num. (Q(i := ?S)) j) \<subseteq> P \<union> (free_frames st - free_frames st')"
      using Q(1) new by (auto split: if_splits)
    show "?m' a = ?m a" if "a \<notin> P \<union> (free_frames st - free_frames st')" for a
      using that new inP by (auto simp: m')
    show "walk ?m' (Suc k) num t x =
        (if ipa \<le> x \<and> x < ipa + 0 then Some (pa + (x - ipa), perm) else walk ?m (Suc k) num t x)"
      if "x div block_bytes (Suc k) div num = w" for x
      by (auto simp: walk [OF that] simp del: walk.simps)
  qed (use tr' F(1,6) in \<open>simp_all add: st'_def del: tree.simps\<close>)
  with entry show thesis by (intro that)
qed

end
