(* ===== verification/PagingMap.thy ===== *)
theory PagingMap
  imports PagingProps
begin

text \<open>
  The recursion of \<open>_map_address_stage2\<close>: every level maps up to the end of its
  table, or up to the end of the request, whichever comes first.
\<close>

declare walk.simps [simp del] tree.simps [simp del]

section \<open>The contract of a level\<close>

definition map_ready ::
  "nat \<Rightarrow> nat \<Rightarrow> usize \<Rightarrow> nat \<Rightarrow> Stage2 \<Rightarrow> usize set \<Rightarrow> usize \<Rightarrow> usize \<Rightarrow> usize \<Rightarrow> bool" where
  "map_ready k num t w st P pa ipa rem \<longleftrightarrow>
     tree (tables st) k num t P \<and> allocator_ready (page_allocator st) \<and> P \<inter> free_frames st = {} \<and>
     PAGE_SIZE dvd pa \<and> PAGE_SIZE dvd ipa \<and> PAGE_SIZE dvd rem \<and> 0 < rem \<and> pa + rem \<le> 2 ^ 50 \<and> ipa + rem \<le> 2 ^ 52 \<and>
     (\<forall>x. ipa \<le> x \<and> x < ipa + rem \<and> x div block_bytes k div num = w \<longrightarrow> walk (tables st) k num t x = None)"

text \<open>A result that mapped everything up to \<open>lim\<close>, or a part of it before an allocation failed.\<close>

definition mapped ::
  "u64 \<Rightarrow> nat \<Rightarrow> nat \<Rightarrow> usize \<Rightarrow> nat \<Rightarrow> Stage2 \<Rightarrow> usize set \<Rightarrow> cursor \<Rightarrow> usize \<Rightarrow> map_result \<Rightarrow> bool" where
  "mapped perm k num t w st P c lim res \<longleftrightarrow> (case c of (pa, ipa, rem) \<Rightarrow>
     (\<exists>r st' P' n. res = Some (r, st', pa + n, ipa + n, rem - n) \<and> steps perm k num t w st P st' P' pa ipa n \<and>
        PAGE_SIZE dvd n \<and> n \<le> min rem (lim - ipa) \<and> (r = Inr () \<longrightarrow> n = min rem (lim - ipa))))"

lemma map_ready_step:
  assumes "map_ready k num t w st P pa ipa rem" and "steps perm k num t w st P st' P' pa ipa n"
    and "PAGE_SIZE dvd n" and "n < rem"
  shows "map_ready k num t w st' P' (pa + n) (ipa + n) (rem - n)"
proof -
  note r = assms(1) [unfolded map_ready_def] and d = assms(2) [unfolded steps_def]
  have "walk (tables st') k num t x = None"
    if "ipa + n \<le> x \<and> x < ipa + n + (rem - n) \<and> x div block_bytes k div num = w" for x
    using r d that assms(4) by simp
  moreover have "P' \<inter> free_frames st' = {}" using steps_disjoint [OF assms(2)] r by blast
  ultimately show ?thesis unfolding map_ready_def using r d assms(3,4) by (simp add: dvd_diff_nat)
qed

text \<open>Going on after a first part that ended at \<open>mid\<close>.\<close>

lemma mapped_trans:
  assumes s: "steps perm k num t w st P st1 P1 pa ipa n1" and n1: "PAGE_SIZE dvd n1" "n1 = min rem (mid - ipa)" "n1 < rem"
    and lim: "ipa \<le> mid" "mid \<le> lim" and rest: "mapped perm k num t w st1 P1 (pa + n1, ipa + n1, rem - n1) lim res"
  shows "mapped perm k num t w st P (pa, ipa, rem) lim res"
proof -
  from rest obtain r st' P' n where n: "res = Some (r, st', pa + n1 + n, ipa + n1 + n, rem - n1 - n)"
      "steps perm k num t w st1 P1 st' P' (pa + n1) (ipa + n1) n" "PAGE_SIZE dvd n"
      "n \<le> min (rem - n1) (lim - (ipa + n1))" "r = Inr () \<longrightarrow> n = min (rem - n1) (lim - (ipa + n1))"
    unfolding mapped_def by auto
  have m: "n1 = mid - ipa" using n1(2,3) by (auto simp: min_def split: if_splits)
  have "n1 + n \<le> min rem (lim - ipa)" using n(4) m n1(3) lim by linarith
  moreover have "n1 + n = min rem (lim - ipa)" if "n = min (rem - n1) (lim - (ipa + n1))"
    using that m n1(3) lim by linarith
  ultimately have "n1 + n \<le> min rem (lim - ipa)" "r = Inr () \<longrightarrow> n1 + n = min rem (lim - ipa)" using n(5) by blast+
  then show ?thesis
    unfolding mapped_def using n(1,3) n1(1) steps_trans [OF s n(2)]
    by (auto intro!: exI [of _ r] exI [of _ st'] exI [of _ P'] exI [of _ "n1 + n"] simp: add.assoc)
qed

lemma advance_Some:
  assumes "pa + rem \<le> 2 ^ 50" "ipa + rem \<le> 2 ^ 52" "n \<le> rem"
  shows "advance (pa, ipa, rem) n = Some (pa + n, ipa + n, rem - n)"
  using assms by (simp add: advance_def usize_add_def usize_sub_def)

lemma mapped_nil:
  assumes "map_ready k num t w st P pa ipa rem" and "lim \<le> ipa"
  shows "mapped perm k num t w st P (pa, ipa, rem) lim (Some (Inr (), st, pa, ipa, rem))"
  using assms unfolding mapped_def map_ready_def steps_def by (auto intro!: exI [of _ P])

lemma mapped_continue:
  assumes ready: "map_ready k num t w st P pa ipa rem" and s: "steps perm k num t w st P st1 P1 pa ipa n1"
    and n1: "PAGE_SIZE dvd n1" "n1 = min rem (mid - ipa)" and lim: "ipa \<le> mid" "mid \<le> lim"
    and rest: "map_ready k num t w st1 P1 (pa + n1) mid (rem - n1) \<Longrightarrow> ipa + n1 = mid \<Longrightarrow>
      mapped perm k num t w st1 P1 (pa + n1, mid, rem - n1) lim res"
  shows "mapped perm k num t w st P (pa, ipa, rem) lim
    (if rem - n1 = 0 then Some (Inr (), st1, pa + n1, ipa + n1, rem - n1) else res)"
proof (cases "n1 < rem")
  case True
  have mid: "ipa + n1 = mid" using n1(2) True lim by linarith
  then show ?thesis
    using mapped_trans [OF s n1 True lim] rest map_ready_step [OF ready s n1(1) True] True by simp
next
  case False
  then have "n1 = min rem (lim - ipa)" "rem - n1 = 0" using n1(2) lim by linarith+
  then show ?thesis using s n1(1) unfolding mapped_def by (auto intro!: exI [of _ P1])
qed

section \<open>Pages\<close>

lemma window_end:
  assumes "(ipa :: nat) div B = b" and "0 < B"
  shows "b * B \<le> ipa" "ipa < Suc b * B"
  using assms by (auto simp: div_times_less_eq_dividend dividend_less_div_times)

lemma window_last: "i < num \<Longrightarrow> Suc (w * num + i) * B \<le> Suc w * num * (B :: nat)"
  by (intro mult_le_mono1) simp

lemma map_pages_loop_mapped:
  assumes "map_ready 0 num t w st P pa ipa rem" and "ipa div PAGE_SIZE = w * num + i" and "i \<le> num"
    and "\<And>j. bit perm j \<Longrightarrow> j < 2"
  shows "mapped perm 0 num t w st P (pa, ipa, rem) (Suc w * num * PAGE_SIZE)
    (map_pages_loop perm (num - i) (t + 8 * i) st (pa, ipa, rem))"
  using assms
proof (induction "num - i" arbitrary: i st P pa ipa rem)
  case 0
  then have "Suc w * num * PAGE_SIZE \<le> ipa" using window_end(1) [OF 0(3)] by (simp add: add.commute)
  then show ?case using 0 by (simp add: mapped_nil)
next
  case (Suc k)
  let ?lim = "Suc w * num * PAGE_SIZE"
  let ?st = "st\<lparr>tables := (tables st)(t + 8 * i := leaf_descriptor pa perm OR 3)\<rparr>"
  note r = Suc.prems(1) [unfolded map_ready_def]
  have i: "i < num" "k = num - Suc i" using Suc.hyps(2) by auto
  have rem: "PAGE_SIZE \<le> rem" using r dvd_imp_le by blast
  have pa: "pa < 2 ^ 50" "PAGE_SIZE dvd pa" using r by auto
  have ipa: "ipa = (w * num + i) * PAGE_SIZE" using r Suc.prems(2) by (metis dvd_div_mult_self)
  obtain P1 where s: "steps perm 0 num t w st P ?st P1 pa ipa PAGE_SIZE"
    by (rule leaf_step [of st 0 num t P ipa w i pa perm 3])
      (use r pa i Suc.prems(2-4) in \<open>auto simp: block_bytes_simps\<close>)
  have adv: "advance (pa, ipa, rem) PAGE_SIZE = Some (pa + PAGE_SIZE, ipa + PAGE_SIZE, rem - PAGE_SIZE)"
    using r rem by (intro advance_Some) auto
  have mid: "ipa + PAGE_SIZE \<le> ?lim" using window_last [OF i(1), of w PAGE_SIZE] unfolding ipa by simp
  have "mapped perm 0 num t w st P (pa, ipa, rem) ?lim
      (if rem - PAGE_SIZE = 0 then Some (Inr (), ?st, pa + PAGE_SIZE, ipa + PAGE_SIZE, rem - PAGE_SIZE)
       else map_pages_loop perm k (t + 8 * Suc i) ?st (pa + PAGE_SIZE, ipa + PAGE_SIZE, rem - PAGE_SIZE))"
  proof (rule mapped_continue [OF Suc.prems(1) s, where mid = "ipa + PAGE_SIZE"])
    assume "map_ready 0 num t w ?st P1 (pa + PAGE_SIZE) (ipa + PAGE_SIZE) (rem - PAGE_SIZE)"
    then show "mapped perm 0 num t w ?st P1 (pa + PAGE_SIZE, ipa + PAGE_SIZE, rem - PAGE_SIZE) ?lim
        (map_pages_loop perm k (t + 8 * Suc i) ?st (pa + PAGE_SIZE, ipa + PAGE_SIZE, rem - PAGE_SIZE))"
      unfolding i(2) using Suc.prems(2,4) i(1) by (intro Suc.hyps(1) i(2)) (auto simp: PAGE_SIZE_def PAGE_SHIFT_def)
  qed (use rem mid in auto)
  moreover have "t + 8 * i + 8 = t + 8 * Suc i" by simp
  ultimately show ?case
    unfolding Suc.hyps(2) [symmetric] map_pages_loop.simps Let_def fst_conv adv validate_as_page_descriptor_def Option.bind.bind_lunit snd_conv
    by (simp only:)
qed

section \<open>Tables\<close>

text \<open>What the loop over a table needs of the recursive call.\<close>

definition level_spec :: "u64 \<Rightarrow> nat \<Rightarrow> nat \<Rightarrow> (usize \<Rightarrow> Stage2 \<Rightarrow> cursor \<Rightarrow> map_result) \<Rightarrow> bool" where
  "level_spec perm k num f \<longleftrightarrow> (\<forall>t w st P pa ipa rem. map_ready k num t w st P pa ipa rem \<longrightarrow>
     ipa div block_bytes k div num = w \<longrightarrow>
     mapped perm k num t w st P (pa, ipa, rem) (Suc w * num * block_bytes k) (f t st (pa, ipa, rem)))"

lemma child_mapped:
  assumes ready: "map_ready (Suc k) num t w st P pa ipa rem" and ipa: "ipa div block_bytes (Suc k) = w * num + i"
    and i: "i < num" and tab: "tables st (t + 8 * i) AND 3 = 3" and spec: "level_spec perm k 512 f"
  shows "mapped perm (Suc k) num t w st P (pa, ipa, rem) (Suc (w * num + i) * block_bytes (Suc k))
    (f (get_next_level_table_address (tables st (t + 8 * i))) st (pa, ipa, rem))"
proof -
  let ?t = "get_next_level_table_address (tables st (t + 8 * i))" and ?b = "w * num + i"
  note r = ready [unfolded map_ready_def]
  from r obtain Q where Q: "P = slots t num \<union> (\<Union>i<num. Q i)" "\<And>i. i < num \<Longrightarrow> slots t num \<inter> Q i = {}"
      "\<And>i j. i < num \<Longrightarrow> j < num \<Longrightarrow> i \<noteq> j \<Longrightarrow> Q i \<inter> Q j = {}" "\<And>i. i < num \<Longrightarrow> subtree (tables st) k t i (Q i)"
    by (blast elim: tree_SucE)
  have blk: "x div block_bytes k div 512 = x div block_bytes (Suc k)" for x
    by (simp add: block_bytes_simps div_mult2_eq)
  have "walk (tables st) k 512 ?t x = None" if "ipa \<le> x \<and> x < ipa + rem \<and> x div block_bytes k div 512 = ?b" for x
  proof -
    have "x div block_bytes (Suc k) = ?b" using that blk by simp
    then have "walk (tables st) (Suc k) num t x = None" "x div block_bytes (Suc k) mod num = i"
      using that r i by auto
    then show ?thesis using tab unfolding walk_Suc by (simp add: entry_walk_def)
  qed
  then have "map_ready k 512 ?t ?b st (Q i) pa ipa rem"
    using r Q(1) Q(4) [OF i] tab i unfolding map_ready_def by (auto simp: subtree_def)
  moreover have "ipa div block_bytes k div 512 = ?b" using ipa blk by simp
  ultimately have "mapped perm k 512 ?t ?b st (Q i) (pa, ipa, rem) (Suc ?b * 512 * block_bytes k) (f ?t st (pa, ipa, rem))"
    using spec unfolding level_spec_def by blast
  moreover have "Suc ?b * 512 * block_bytes k = Suc ?b * block_bytes (Suc k)" by (simp only: block_bytes_simps mult_ac)
  ultimately obtain r' st' A n where n: "f ?t st (pa, ipa, rem) = Some (r', st', pa + n, ipa + n, rem - n)"
      "steps perm k 512 ?t ?b st (Q i) st' A pa ipa n" "PAGE_SIZE dvd n"
      "n \<le> min rem (Suc ?b * block_bytes (Suc k) - ipa)" "r' = Inr () \<longrightarrow> n = min rem (Suc ?b * block_bytes (Suc k) - ipa)"
    unfolding mapped_def prod.case by metis
  have "x div block_bytes (Suc k) = ?b" if "ipa \<le> x" "x < ipa + n" for x
    using that n(4) window_end [OF ipa block_bytes_pos] by (intro div_nat_eqI) (auto simp: mult.commute)
  then obtain P' where "steps perm (Suc k) num t w st P st' P' pa ipa n"
    using child_step [OF Q i tab _ n(2)] r by blast
  then show ?thesis unfolding mapped_def using n by auto
qed

lemma next_level_table_ok:
  assumes ready: "map_ready (Suc k) num t w st P pa ipa rem" and ipa: "ipa div block_bytes (Suc k) = w * num + i" and i: "i < num"
  obtains "next_level_table (t + 8 * i) st = Some (Inl (), st)"
  | t' st1 P1 where "next_level_table (t + 8 * i) st = Some (Inr t', st1)" "steps perm (Suc k) num t w st P st1 P1 pa ipa 0"
    "tables st1 (t + 8 * i) AND 3 = 3" "get_next_level_table_address (tables st1 (t + 8 * i)) = t'"
proof (cases "is_table_descriptor (tables st (t + 8 * i))")
  case True
  have "steps perm (Suc k) num t w st P st P pa ipa 0" using ready unfolding map_ready_def steps_def by auto
  then show thesis
    by (rule that(2) [rotated]) (use True in \<open>simp_all add: next_level_table_def is_table_descriptor_def\<close>)
next
  case False
  note r = ready [unfolded map_ready_def]
  have rd: "allocator_ready (page_allocator st)" and free: "P \<inter> free_frames st = {}" using r by auto
  obtain r' al' where al: "allocate_pages (page_allocator st) 1 12 = Some (r', al')"
    using allocator.alloc_returns [OF rd, of 1 12] by auto
  have nt: "tables st (t + 8 * i) AND 3 \<noteq> 3" using False by (simp add: is_table_descriptor_def)
  have "walk (tables st) (Suc k) num t ipa = None" using r ipa i by simp
  then have none: "walk (tables st) (Suc k) num t x = None" if "x div block_bytes (Suc k) = w * num + i" for x
    using ipa that i nt unfolding walk_Suc by (simp add: entry_walk_def Let_def split: if_splits)
  show thesis
  proof (cases r')
    case (Inl e)
    then have "al' = page_allocator st" using allocator.alloc_err [OF rd _ _ _ al [unfolded Inl]] by simp
    then show thesis using al False Inl by (intro that(1)) (simp add: next_level_table_def)
  next
    case (Inr t')
    let ?st = "st\<lparr>page_allocator := al', tables := (init_table (tables st) t' 512)
      (t + 8 * i := validate_as_table_descriptor (set_output_address t' Descriptor_new))\<rparr>"
    obtain P1 where "steps perm (Suc k) num t w st P ?st P1 pa ipa 0" "is_table_descriptor (tables ?st (t + 8 * i))"
      "get_next_level_table_address (tables ?st (t + 8 * i)) = t'"
      using link_step [OF _ i nt rd free al [unfolded Inr] none, where perm = perm and pa = pa and ipa = ipa] r by auto
    moreover have "next_level_table (t + 8 * i) st = Some (Inr t', ?st)"
      using al False Inr by (simp add: next_level_table_def Let_def)
    ultimately show thesis by (intro that(2) [of t' ?st P1]) (simp_all only: is_table_descriptor_def)
  qed
qed

lemma entry_mask:
  assumes "shift < 64"
  shows "usize_shl 1 shift = Some (2 ^ shift)" "usize_sub (2 ^ shift) 1 = Some (2 ^ shift - 1)"
    "(x :: nat) AND (2 ^ shift - 1) = 0 \<longleftrightarrow> 2 ^ shift dvd x"
  using assms by (simp_all add: usize_shl_one usize_sub_def mask_eq_exp_minus_1 [symmetric] take_bit_eq_mask [symmetric]
      take_bit_eq_mod mod_eq_0_iff_dvd del: One_nat_def)

lemma entry_child_mapped:
  assumes ready: "map_ready (Suc k) num t w st P pa ipa rem" and ipa: "ipa div block_bytes (Suc k) = w * num + i" and i: "i < num"
    and spec: "level_spec perm k 512 f"
  shows "mapped perm (Suc k) num t w st P (pa, ipa, rem) (Suc (w * num + i) * block_bytes (Suc k))
    (do { (e, st1) \<leftarrow> next_level_table (t + 8 * i) st;
          (case e of Inl _ \<Rightarrow> Some (Inl (), st1, pa, ipa, rem) | Inr a \<Rightarrow> f a st1 (pa, ipa, rem)) })"
  using ready ipa i
proof (cases rule: next_level_table_ok [where perm = perm])
  case 1
  have "steps perm (Suc k) num t w st P st P pa ipa 0" using ready unfolding map_ready_def steps_def by auto
  then show ?thesis unfolding mapped_def 1 by (auto intro!: exI [of _ "0 :: nat"])
next
  case (2 t' st1 P1)
  have "0 < rem" using ready by (simp add: map_ready_def)
  have r1: "map_ready (Suc k) num t w st1 P1 pa ipa rem"
    using map_ready_step [OF ready 2(2)] \<open>0 < rem\<close> by simp
  have lim: "ipa \<le> Suc (w * num + i) * block_bytes (Suc k)" using window_end(2) [OF ipa] by simp
  have "mapped perm (Suc k) num t w st P (pa, ipa, rem) (Suc (w * num + i) * block_bytes (Suc k)) (f t' st1 (pa, ipa, rem))"
    by (rule mapped_trans [OF 2(2), where mid = ipa])
      (use child_mapped [OF r1 ipa i 2(3) spec] lim \<open>0 < rem\<close> in \<open>simp_all add: 2(4)\<close>)
  then show ?thesis by (simp add: 2(1))
qed

lemma mapped_error:
  assumes "mapped perm k num t w st P c mid (Some (Inl e, st', c'))" and "mid \<le> lim"
  shows "mapped perm k num t w st P c lim (Some (Inl (), st', c'))"
  using assms unfolding mapped_def by (fastforce split: prod.splits)

text \<open>Going on after an entry that was handled by the next level.\<close>

lemma mapped_after_entry:
  assumes ready: "map_ready k num t w st P pa ipa rem" and lim: "ipa \<le> mid" "mid \<le> lim"
    and entry: "mapped perm k num t w st P (pa, ipa, rem) mid res0"
    and rest: "\<And>st1 P1 n1. map_ready k num t w st1 P1 (pa + n1) mid (rem - n1) \<Longrightarrow>
      mapped perm k num t w st1 P1 (pa + n1, mid, rem - n1) lim (go st1 (pa + n1, mid, rem - n1))"
  shows "mapped perm k num t w st P (pa, ipa, rem) lim
    (do { (r, st2, c2) \<leftarrow> res0;
          (case r of Inl _ \<Rightarrow> Some (Inl (), st2, c2)
           | Inr _ \<Rightarrow> if snd (snd c2) = 0 then Some (Inr (), st2, c2) else go st2 c2) })"
proof -
  from entry obtain r st1 P1 n1 where res0: "res0 = Some (r, st1, pa + n1, ipa + n1, rem - n1)"
      and s: "steps perm k num t w st P st1 P1 pa ipa n1" "PAGE_SIZE dvd n1" "r = Inr () \<longrightarrow> n1 = min rem (mid - ipa)"
    unfolding mapped_def by auto
  show ?thesis
  proof (cases r)
    case (Inl e)
    then show ?thesis using mapped_error [OF _ lim(2)] entry by (simp add: res0)
  next
    case (Inr u)
    have "mapped perm k num t w st P (pa, ipa, rem) lim
      (if rem - n1 = 0 then Some (Inr (), st1, pa + n1, ipa + n1, rem - n1) else go st1 (pa + n1, ipa + n1, rem - n1))"
    proof (rule mapped_continue [OF ready s(1,2) _ lim])
      assume "map_ready k num t w st1 P1 (pa + n1) mid (rem - n1)" "ipa + n1 = mid"
      then show "mapped perm k num t w st1 P1 (pa + n1, mid, rem - n1) lim (go st1 (pa + n1, ipa + n1, rem - n1))"
        using rest by metis
    qed (use s(3) Inr in simp)
    then show ?thesis by (simp add: res0 Inr)
  qed
qed

lemma map_entries_loop_mapped:
  assumes "map_ready (Suc k) num t w st P pa ipa rem" and "ipa div block_bytes (Suc k) = w * num + i" and "i \<le> num"
    and "\<And>j. bit perm j \<Longrightarrow> j < 2" and "Suc k \<le> 3" and "level_spec perm k 512 f"
  shows "mapped perm (Suc k) num t w st P (pa, ipa, rem) (Suc w * num * block_bytes (Suc k))
    (map_entries_loop f perm (3 - Suc k) (12 + 9 * Suc k) (num - i) (t + 8 * i) st (pa, ipa, rem))"
  using assms
proof (induction "num - i" arbitrary: i st P pa ipa rem)
  case 0
  then have "Suc w * num * block_bytes (Suc k) \<le> ipa" using window_end(1) [OF 0(3)] by (simp add: add.commute)
  then show ?case using 0 by (simp add: mapped_nil)
next
  case (Suc c)
  let ?lim = "Suc w * num * block_bytes (Suc k)" and ?B = "block_bytes (Suc k)"
  let ?mid = "Suc (w * num + i) * ?B"
  let ?go = "map_entries_loop f perm (3 - Suc k) (12 + 9 * Suc k) c (t + 8 * i + 8)"
  have i: "i < num" "c = num - Suc i" using Suc.hyps(2) by auto
  note mid = window_last [OF i(1), of w ?B] window_end [OF Suc.prems(2) block_bytes_pos]
  have go: "mapped perm (Suc k) num t w st1 P1 (pa1, ?mid, rem1) ?lim (?go st1 (pa1, ?mid, rem1))"
    if "map_ready (Suc k) num t w st1 P1 pa1 ?mid rem1" for st1 P1 pa1 rem1
  proof -
    have "?mid div ?B = w * num + Suc i" by (metis add_Suc_right block_bytes_pos div_mult_self_is_m)
    then show ?thesis
      using Suc.hyps(1) [OF i(2) that _ _ Suc.prems(4-6)] i by (simp only: i(2) mult_Suc_right add_ac)
  qed
  have B: "2 ^ (12 + 9 * Suc k) = ?B" by (simp only: block_bytes_def)
  have "12 + 9 * Suc k < 64" using Suc.prems(5) by simp
  note mask = entry_mask [OF this, unfolded B]
  show ?case
  proof (cases "3 - Suc k \<ge> 1 \<and> rem \<ge> ?B \<and> ?B dvd pa \<and> ?B dvd ipa")
    case True
    note r = Suc.prems(1) [unfolded map_ready_def]
    let ?st = "st\<lparr>tables := (tables st)(t + 8 * i := leaf_descriptor pa perm OR 1)\<rparr>"
    have pa: "pa < 2 ^ 50" "PAGE_SIZE dvd pa" using r by auto
    have ipa: "ipa + ?B = ?mid" using True Suc.prems(2) by (metis add.commute dvd_div_mult_self mult_Suc)
    obtain P1 where s: "steps perm (Suc k) num t w st P ?st P1 pa ipa ?B"
      by (rule leaf_step [of st "Suc k" num t P ipa w i pa perm 1]) (use r True pa i Suc.prems(2,4) in auto)
    have adv: "advance (pa, ipa, rem) ?B = Some (pa + ?B, ipa + ?B, rem - ?B)" using r True by (intro advance_Some) auto
    have "mapped perm (Suc k) num t w st P (pa, ipa, rem) ?lim
      (if rem - ?B = 0 then Some (Inr (), ?st, pa + ?B, ipa + ?B, rem - ?B) else ?go ?st (pa + ?B, ?mid, rem - ?B))"
      by (rule mapped_continue [OF Suc.prems(1) s, where mid = ?mid])
        (use True go mid ipa page_dvd_block in auto)
    then show ?thesis using True
      unfolding Suc.hyps(2) [symmetric] map_entries_loop.simps B prod.case mask Option.bind.bind_lunit
        validate_as_block_descriptor_def Let_def adv ipa snd_conv by simp
  next
    case False
    have "mapped perm (Suc k) num t w st P (pa, ipa, rem) ?lim
      (do { (r, st2, c2) \<leftarrow> do { (e, st1) \<leftarrow> next_level_table (t + 8 * i) st;
              (case e of Inl _ \<Rightarrow> Some (Inl (), st1, pa, ipa, rem) | Inr a \<Rightarrow> f a st1 (pa, ipa, rem)) };
            (case r of Inl _ \<Rightarrow> Some (Inl (), st2, c2)
             | Inr _ \<Rightarrow> if snd (snd c2) = 0 then Some (Inr (), st2, c2) else ?go st2 c2) })"
      by (rule mapped_after_entry [OF Suc.prems(1) _ _ entry_child_mapped [OF Suc.prems(1,2) i(1) Suc.prems(6)]])
        (use mid go in auto)
    then show ?thesis
      unfolding Suc.hyps(2) [symmetric] map_entries_loop.simps B prod.case mask Option.bind.bind_lunit if_not_P [OF False]
      by (cases "next_level_table (t + 8 * i) st") (auto split: sum.splits)
  qed
qed

text \<open>The index of the source is the position in the window.\<close>

lemma level_index:
  assumes "num = 2 ^ e"
  shows "drop_bit (12 + 9 * k) ipa AND (num - 1) = ipa div block_bytes k mod num"
  unfolding assms block_bytes_def
  by (simp add: drop_bit_eq_div mask_eq_exp_minus_1 [symmetric] take_bit_eq_mask [symmetric] take_bit_eq_mod del: One_nat_def)

theorem map_address_level_spec:
  assumes perm: "\<And>j. bit perm j \<Longrightarrow> j < 2"
  shows "k \<le> 3 \<Longrightarrow> num = 2 ^ e \<Longrightarrow> level_spec perm k num (map_address_level perm k num)"
proof (induction k arbitrary: num e)
  case 0
  have "mapped perm 0 num t w st P (pa, ipa, rem) (Suc w * num * block_bytes 0) (map_address_level perm 0 num t st (pa, ipa, rem))"
    if "map_ready 0 num t w st P pa ipa rem" "ipa div block_bytes 0 div num = w" for t w st P pa ipa rem
  proof -
    let ?i = "ipa div block_bytes 0 mod num"
    have "ipa div PAGE_SIZE = w * num + ?i" using that(2) by (simp add: block_bytes_simps) (metis div_mult_mod_eq)
    moreover have "?i \<le> num" using 0(2) by simp
    ultimately have "mapped perm 0 num t w st P (pa, ipa, rem) (Suc w * num * PAGE_SIZE)
        (map_pages_loop perm (num - ?i) (t + 8 * ?i) st (pa, ipa, rem))"
      by (rule map_pages_loop_mapped [OF that(1) _ _ perm])
    then show ?thesis
      unfolding map_address_level.simps prod.case Let_def level_index [OF 0(2)] block_bytes_simps .
  qed
  then show ?case unfolding level_spec_def by blast
next
  case (Suc k)
  have "mapped perm (Suc k) num t w st P (pa, ipa, rem) (Suc w * num * block_bytes (Suc k))
      (map_address_level perm (Suc k) num t st (pa, ipa, rem))"
    if "map_ready (Suc k) num t w st P pa ipa rem" "ipa div block_bytes (Suc k) div num = w" for t w st P pa ipa rem
  proof -
    let ?i = "ipa div block_bytes (Suc k) mod num"
    have ipa: "ipa div block_bytes (Suc k) = w * num + ?i" using that(2) by (metis div_mult_mod_eq)
    have "?i \<le> num" "level_spec perm k 512 (map_address_level perm k 512)"
      using Suc.prems Suc.IH [of 512 9] by simp_all
    from map_entries_loop_mapped [OF that(1) ipa this(1) perm Suc.prems(1) this(2)] show ?thesis
      unfolding map_address_level.simps prod.case Let_def level_index [OF Suc.prems(2)] .
  qed
  then show ?case unfolding level_spec_def by blast
qed

section \<open>The stage-2 table as a map\<close>

text \<open>
  The abstract view of the tables: a partial function from intermediate physical
  addresses to physical addresses with permission bits, and the operation that
  \<open>map_address_stage2\<close> implements on it.
\<close>

definition stage2_span :: "Stage2 \<Rightarrow> nat" where
  "stage2_span st = stage2_descriptors st * block_bytes (3 - stage2_level st)"

definition translation :: "Stage2 \<Rightarrow> usize \<Rightarrow> (usize \<times> u64) option" where
  "translation st x = (if x < stage2_span st
     then walk (tables st) (3 - stage2_level st) (stage2_descriptors st) (stage2_table st) x else None)"

definition map_range :: "usize \<Rightarrow> usize \<Rightarrow> usize \<Rightarrow> u64 \<Rightarrow> (usize \<Rightarrow> (usize \<times> u64) option) \<Rightarrow> usize \<Rightarrow> (usize \<times> u64) option" where
  "map_range pa ipa n perm f x = (if ipa \<le> x \<and> x < ipa + n then Some (pa + (x - ipa), perm) else f x)"

definition permission_bits :: "bool \<Rightarrow> bool \<Rightarrow> u64" where
  "permission_bits r w = (if w then 2 else 0) + (if r then 1 else 0)"

text \<open>The tables in use and the free frames of the allocator share no byte.\<close>

definition stage2_inv :: "Stage2 \<Rightarrow> usize set \<Rightarrow> bool" where
  "stage2_inv st P \<longleftrightarrow> tree (tables st) (3 - stage2_level st) (stage2_descriptors st) (stage2_table st) P \<and>
     allocator_ready (page_allocator st) \<and> P \<inter> free_frames st = {}"

lemma descriptors_power: "\<exists>e. stage2_descriptors st = 2 ^ e"
proof -
  have "number_of_concatenated_page_tables a b * 512 = 2 ^ 9 \<or>
      number_of_concatenated_page_tables a b * 512 = 2 ^ (43 - (3 - b) * 9 - a + 9)" for a b
    unfolding number_of_concatenated_page_tables_def power_add by simp
  then show ?thesis unfolding stage2_descriptors_def by metis
qed

lemma permission_word: "push_bit 1 (of_bool w) OR of_bool r = permission_bits r w"
  by (cases r; cases w) (simp_all add: permission_bits_def)

lemma permission_small: "bit (permission_bits r w) j \<Longrightarrow> j < 2"
  by (cases r; cases w) (auto simp: permission_bits_def bit_3 bit_1_iff bit_2_iff simp del: bit_numeral_word_iff)

lemma page_aligned_iff: "x AND (2 ^ PAGE_SHIFT - 1) = 0 \<longleftrightarrow> PAGE_SIZE dvd x"
  using entry_mask(3) [of PAGE_SHIFT x] by (simp add: PAGE_SHIFT_def PAGE_SIZE_def)

lemma map_address_stage2_outcome:
  assumes inv: "stage2_inv st P" and al: "PAGE_SIZE dvd pa" "PAGE_SIZE dvd ipa" "PAGE_SIZE dvd sz" and sz: "0 < sz"
    and bnd: "pa + sz \<le> 2 ^ 50" "ipa + sz \<le> 2 ^ 52" "ipa < stage2_span st"
    and none: "\<forall>x. ipa \<le> x \<and> x < ipa + sz \<longrightarrow> translation st x = None"
  obtains r st' P' n where "map_address_stage2 pa ipa sz rd wr st = Some (r, st')" "stage2_inv st' P'"
    "translation st' = map_range pa ipa n (permission_bits rd wr) (translation st)"
    "n \<le> min sz (stage2_span st - ipa)" "r = Inr () \<longrightarrow> n = min sz (stage2_span st - ipa)"
    "stage2_table st' = stage2_table st" "stage2_span st' = stage2_span st" "free_frames st' \<subseteq> free_frames st"
    "\<And>a. a \<notin> P \<union> (free_frames st - free_frames st') \<Longrightarrow> tables st' a = tables st a"
    "P' \<subseteq> P \<union> (free_frames st - free_frames st')" "vttbr_el2 st' = vttbr_el2 st" "vtcr_el2 st' = vtcr_el2 st"
proof -
  let ?k = "3 - stage2_level st" and ?num = "stage2_descriptors st" and ?t = "stage2_table st"
  let ?perm = "permission_bits rd wr"
  obtain e where num: "?num = 2 ^ e" using descriptors_power by blast
  have win: "x div block_bytes ?k div ?num = 0 \<longleftrightarrow> x < stage2_span st" for x
    unfolding stage2_span_def div_mult2_eq [symmetric] by (simp add: num mult.commute div_eq_0_iff block_bytes_def)
  have "walk (tables st) ?k ?num ?t x = None" if "ipa \<le> x \<and> x < ipa + sz \<and> x div block_bytes ?k div ?num = 0" for x
    using none [rule_format, of x] that by (simp add: translation_def win)
  then have ready: "map_ready ?k ?num ?t 0 st P pa ipa sz"
    using inv al sz bnd unfolding map_ready_def stage2_inv_def by blast
  have spec: "level_spec ?perm ?k ?num (map_address_level ?perm ?k ?num)"
    by (rule map_address_level_spec [OF permission_small diff_le_self num])
  have "mapped ?perm ?k ?num ?t 0 st P (pa, ipa, sz) (Suc 0 * ?num * block_bytes ?k)
      (map_address_level ?perm ?k ?num ?t st (pa, ipa, sz))"
    using spec ready win [of ipa] bnd(3) unfolding level_spec_def by blast
  then obtain r st' P' n where n: "map_address_level ?perm ?k ?num ?t st (pa, ipa, sz) = Some (r, st', pa + n, ipa + n, sz - n)"
      "steps ?perm ?k ?num ?t 0 st P st' P' pa ipa n" "n \<le> min sz (stage2_span st - ipa)"
      "r = Inr () \<longrightarrow> n = min sz (stage2_span st - ipa)"
    unfolding mapped_def stage2_span_def by auto
  have same: "stage2_level st' = stage2_level st" "stage2_descriptors st' = ?num" "stage2_table st' = ?t"
      "stage2_span st' = stage2_span st"
    using n(2) unfolding steps_def stage2_span_def stage2_level_def stage2_descriptors_def stage2_table_def by auto
  have "map_address_stage2 pa ipa sz rd wr st = Some (r, st')"
    unfolding map_address_stage2_def page_aligned_iff permission_word using al(3) n(1) by simp
  moreover have "stage2_inv st' P'"
    using n(2) steps_disjoint [OF n(2)] inv unfolding stage2_inv_def same steps_def by blast
  moreover have "translation st' = map_range pa ipa n ?perm (translation st)"
  proof
    show "translation st' x = map_range pa ipa n ?perm (translation st) x" for x
      using n(2,3) bnd(3) win [of x] unfolding translation_def map_range_def same steps_def by auto
  qed
  moreover have "free_frames st' \<subseteq> free_frames st"
      "\<And>a. a \<notin> P \<union> (free_frames st - free_frames st') \<Longrightarrow> tables st' a = tables st a"
      "P' \<subseteq> P \<union> (free_frames st - free_frames st')" "vttbr_el2 st' = vttbr_el2 st" "vtcr_el2 st' = vtcr_el2 st"
    using n(2) unfolding steps_def by blast+
  ultimately show thesis using n(3,4) same by (intro that [of r st' P' n])
qed

section \<open>Initialisation\<close>

definition stage2_vtcr :: "u64 \<Rightarrow> u64" where
  "stage2_vtcr ps = VTCR_EL2_RES1
     OR push_bit VTCR_EL2_PS_BITS_OFFSET ps
     OR push_bit VTCR_EL2_TG0_BITS_OFFSET 0
     OR push_bit VTCR_EL2_SH0_BITS_OFFSET 0b11
     OR push_bit VTCR_EL2_ORGN0_BITS_OFFSET 0b11
     OR push_bit VTCR_EL2_IRGN0_BITS_OFFSET 0b11
     OR push_bit VTCR_EL2_SL0_BITS_OFFSET (if snd (stage2_parameters ps) = 1 then 0b01 else 0b10)
     OR push_bit VTCR_EL2_T0SZ_BITS_OFFSET (word_of_nat (fst (stage2_parameters ps)))"

lemmas vtcr_defs = VTCR_EL2_RES1_def VTCR_EL2_PS_BITS_OFFSET_def VTCR_EL2_TG0_BITS_OFFSET_def
  VTCR_EL2_SH0_BITS_OFFSET_def VTCR_EL2_ORGN0_BITS_OFFSET_def VTCR_EL2_IRGN0_BITS_OFFSET_def
  VTCR_EL2_SL0_BITS_OFFSET_def VTCR_EL2_T0SZ_BITS_OFFSET_def VTCR_EL2_SL0_def VTCR_EL2_T0SZ_def

lemma ps_field: "ps * 0x10000 AND 0xc0 = (0 :: u64)" "ps * 0x10000 AND 0x3f = (0 :: u64)"
proof -
  have "push_bit 16 ps AND push_bit 6 (mask 2) = 0" "push_bit 16 ps AND mask 6 = 0"
    by (rule bit_word_eqI, auto simp: bit_simps)+
  then show "ps * 0x10000 AND 0xc0 = 0" "ps * 0x10000 AND 0x3f = 0"
    by (simp_all add: mask_eq_exp_minus_1 push_bit_eq_mult)
qed

text \<open>The registers hold what the mapping code reads back.\<close>

lemma stage2_vtcr_fields:
  "initial_lookup_level (drop_bit VTCR_EL2_SL0_BITS_OFFSET (stage2_vtcr ps AND VTCR_EL2_SL0)) = snd (stage2_parameters ps)"
  "unat (drop_bit VTCR_EL2_T0SZ_BITS_OFFSET (stage2_vtcr ps AND VTCR_EL2_T0SZ)) = fst (stage2_parameters ps)"
  unfolding stage2_vtcr_def stage2_parameters_def
  by (auto simp: vtcr_defs initial_lookup_level_def bit.conj_disj_distrib2 ps_field push_bit_eq_mult drop_bit_eq_div
      split: if_splits)

lemma tables_of_parameters:
  assumes "stage2_parameters ps = (t0sz, l)"
  defines "n \<equiv> number_of_concatenated_page_tables t0sz l"
  shows "0 < n" "n \<le> 8" "2 ^ (64 - t0sz) \<le> n * 512 * block_bytes (3 - l)"
  using assms by (auto simp: stage2_parameters_def number_of_concatenated_page_tables_def block_bytes_def split: if_splits)

lemma init_run:
  assumes "init_stage2_translation_table v st = Some st'"
  defines "ps \<equiv> v AND ID_AA64MMFR0_EL1_PARANGE"
  defines "n \<equiv> number_of_concatenated_page_tables (fst (stage2_parameters ps)) (snd (stage2_parameters ps))"
  obtains t al' where "allocate_pages (page_allocator st) n (12 + n - 1) = Some (Inr t, al')"
    "st' = st\<lparr>page_allocator := al', tables := init_table (tables st) t (n * 512), vtcr_el2 := stage2_vtcr ps,
       vttbr_el2 := word_of_nat t\<rparr>"
proof -
  note run = assms(1) [unfolded init_stage2_translation_table_def, folded ps_def,
      unfolded Let_def case_prod_beta, folded n_def]
  then obtain r al' where al: "allocate_pages (page_allocator st) n (12 + n - 1) = Some (r, al')"
    by (cases "allocate_pages (page_allocator st) n (12 + n - 1)") auto
  show thesis
  proof (cases r)
    case (Inr t)
    show thesis by (rule that [of t al']) (use run al Inr in \<open>simp_all add: stage2_vtcr_def\<close>)
  qed (use run al in simp)
qed

lemma vttbr_table:
  assumes "PAGE_SIZE dvd t" and "t < 2 ^ 47"
  shows "unat (word_of_nat t AND VTTBR_BADDR) = t"
proof -
  have tb: "take_bit 47 t = t" using assms(2) by (simp add: take_bit_nat_eq_self)
  have "VTTBR_BADDR = push_bit 1 (mask 46)"
    by (simp add: VTTBR_BADDR_def mask_eq_exp_minus_1 push_bit_eq_mult)
  moreover have "word_of_nat t AND push_bit 1 (mask 46) = (word_of_nat t :: u64)"
  proof (rule bit_word_eqI)
    fix n
    have "bit (word_of_nat t :: u64) n \<Longrightarrow> 12 \<le> n" using page_bits(1) [of t n] assms by simp
    moreover have "bit (word_of_nat t :: u64) n \<Longrightarrow> n < 47"
      unfolding bit_word_of_nat_iff by (subst (asm) tb [symmetric]) (simp add: bit_take_bit_iff)
    ultimately show "bit (word_of_nat t AND push_bit 1 (mask 46) :: u64) n \<longleftrightarrow> bit (word_of_nat t :: u64) n"
      unfolding bit_and_iff bit_shifted_mask by auto
  qed
  ultimately show ?thesis using assms(2) by (simp add: unat_of_nat take_bit_nat_eq_self)
qed

lemma init_stage2_outcome:
  assumes rd: "allocator_ready (page_allocator st)" and low: "free_frames st \<subseteq> {..<2 ^ 47}"
    and run: "init_stage2_translation_table v st = Some st'"
  defines "par \<equiv> stage2_parameters (v AND ID_AA64MMFR0_EL1_PARANGE)"
  shows "stage2_level st' = snd par" "2 ^ (64 - fst par) \<le> stage2_span st'" "translation st' = (\<lambda>_. None)"
    "stage2_inv st' (slots (stage2_table st') (stage2_descriptors st'))" "free_frames st' \<subseteq> free_frames st"
    "slots (stage2_table st') (stage2_descriptors st') \<subseteq> free_frames st - free_frames st'"
    "\<forall>a. a \<notin> free_frames st - free_frames st' \<longrightarrow> tables st' a = tables st a"
proof -
  obtain t0sz l where par: "par = (t0sz, l)" by (cases par)
  define n where "n = number_of_concatenated_page_tables t0sz l"
  note n = tables_of_parameters [OF par [unfolded par_def], folded n_def]
  obtain t al' where al: "allocate_pages (page_allocator st) n (12 + n - 1) = Some (Inr t, al')"
    and st': "st' = st\<lparr>page_allocator := al', tables := init_table (tables st) t (n * 512),
       vtcr_el2 := stage2_vtcr (v AND ID_AA64MMFR0_EL1_PARANGE), vttbr_el2 := word_of_nat t\<rparr>"
    using init_run [OF run] par unfolding par_def n_def by auto
  have p: "allocator_ready al'" "PAGE_SIZE dvd t" "{t..<t + n * PAGE_SIZE} \<subseteq> free_frames st"
      "free_bytes al' = free_frames st - {t..<t + n * PAGE_SIZE}"
    using allocator.alloc_ok [OF rd n(1) _ _ al] n(2) by auto
  have t: "t < 2 ^ 47" using p(3) low n(1) by (force simp: PAGE_SIZE_def)
  show lvl: "stage2_level st' = snd par"
    unfolding stage2_level_def st' par_def by (simp add: stage2_vtcr_fields del: drop_bit_and)
  have num: "stage2_descriptors st' = n * 512"
    using lvl par unfolding stage2_descriptors_def st'
    by (simp add: stage2_vtcr_fields par_def n_def del: drop_bit_and)
  have tab: "stage2_table st' = t" using vttbr_table [OF p(2) t] by (simp add: stage2_table_def st')
  show "2 ^ (64 - fst par) \<le> stage2_span st'" using n(3) par by (simp add: stage2_span_def num lvl)
  have zero: "tables st' a = 0" if "a \<in> slots t (n * 512)" for a using that by (simp add: st' init_table_nth)
  note z = zero_table [OF zero, of t "n * 512", simplified, OF _ n(1)]
  show "translation st' = (\<lambda>_. None)"
    unfolding translation_def num tab using zero_table(2) [OF zero] n(1) by auto
  have sub: "slots t (n * 512) \<subseteq> {t..<t + n * PAGE_SIZE}" by (auto simp: slots_def PAGE_SIZE_def PAGE_SHIFT_def)
  then show "stage2_inv st' (slots (stage2_table st') (stage2_descriptors st'))"
    unfolding stage2_inv_def num tab using zero_table(1) [OF zero] n(1) p by (auto simp: st')
  have fr: "free_frames st' = free_frames st - {t..<t + n * PAGE_SIZE}" using p(4) by (simp add: st')
  then show "free_frames st' \<subseteq> free_frames st" "slots (stage2_table st') (stage2_descriptors st') \<subseteq> free_frames st - free_frames st'"
    unfolding num tab using sub p(3) by auto
  show "\<forall>a. a \<notin> free_frames st - free_frames st' \<longrightarrow> tables st' a = tables st a"
    using fr sub p(3) by (auto simp: st' init_table_nth)
qed

section \<open>Claims\<close>


text \<open>
  C9. Mapping keeps the tables a tree that is disjoint from the free memory, keeps the
  allocator ready, leaves the base and the size of the table alone, and writes only to
  tables in use and to frames it took from the allocator.
\<close>

theorem map_address_stage2_confined:
  assumes "stage2_inv st P" and "PAGE_SIZE dvd pa" and "PAGE_SIZE dvd ipa" and "PAGE_SIZE dvd sz" and "0 < sz"
    and "pa + sz \<le> 2 ^ 50" and "ipa + sz \<le> 2 ^ 52" and "ipa < stage2_span st"
    and "\<forall>x. ipa \<le> x \<and> x < ipa + sz \<longrightarrow> translation st x = None"
  shows "\<exists>r st' P'. map_address_stage2 pa ipa sz rd wr st = Some (r, st') \<and> stage2_inv st' P' \<and>
    stage2_table st' = stage2_table st \<and> stage2_span st' = stage2_span st \<and> free_frames st' \<subseteq> free_frames st \<and>
    (\<forall>a. a \<notin> P \<union> (free_frames st - free_frames st') \<longrightarrow> tables st' a = tables st a)"
  by (rule map_address_stage2_outcome [OF assms, of rd wr]) (intro exI conjI allI impI, assumption+)

text \<open>
  A size that is not a multiple of the page size is refused and nothing changes.
\<close>

theorem map_address_stage2_unaligned:
  assumes "\<not> PAGE_SIZE dvd sz"
  shows "map_address_stage2 pa ipa sz rd wr st = Some (Inl (), st)"
  using assms unfolding map_address_stage2_def page_aligned_iff by simp

text \<open>
  C10. After \<open>init_stage2_translation_table\<close> the registers read back as the table that was
  written: the lookup level is the one chosen for the physical address range, the table
  covers the address space of \<open>T0SZ\<close>, it translates nothing, and it is a tree disjoint from
  the free memory. The memory has to lie below 2^47, which the mask of \<open>VTTBR_EL2\<close> keeps.
\<close>

theorem init_stage2_translation_table_correct:
  assumes "allocator_ready (page_allocator st)" and "free_frames st \<subseteq> {..<2 ^ 47}"
    and "init_stage2_translation_table v st = Some st'"
  shows "stage2_level st' = snd (stage2_parameters (v AND ID_AA64MMFR0_EL1_PARANGE)) \<and>
    2 ^ (64 - fst (stage2_parameters (v AND ID_AA64MMFR0_EL1_PARANGE))) \<le> stage2_span st' \<and>
    translation st' = (\<lambda>_. None) \<and> stage2_inv st' (slots (stage2_table st') (stage2_descriptors st'))"
  using init_stage2_outcome(1-4) [OF assms] by blast

section \<open>The claims at a concrete state\<close>

text \<open>A table of two concatenated level-1 tables below the RAM of the boot allocator.\<close>

definition sample_stage2 :: Stage2 where
  "sample_stage2 = \<lparr>tables = (\<lambda>_. 0), page_allocator = boot_allocator, vttbr_el2 = 0x10000, vtcr_el2 = stage2_vtcr 2\<rparr>"

lemma sample_registers: "stage2_level sample_stage2 = 1" "stage2_descriptors sample_stage2 = 1024"
  "stage2_table sample_stage2 = 0x10000" "stage2_span sample_stage2 = 2 ^ 40"
proof -
  show l: "stage2_level sample_stage2 = 1"
    unfolding stage2_level_def sample_stage2_def by (simp add: stage2_vtcr_fields stage2_parameters_def del: drop_bit_and)
  show d: "stage2_descriptors sample_stage2 = 1024"
    using l unfolding stage2_descriptors_def sample_stage2_def
    by (simp add: stage2_vtcr_fields stage2_parameters_def number_of_concatenated_page_tables_def del: drop_bit_and)
  show "stage2_table sample_stage2 = 0x10000"
    by (simp add: stage2_table_def sample_stage2_def VTTBR_BADDR_def)
  show "stage2_span sample_stage2 = 2 ^ 40" using l d by (simp add: stage2_span_def block_bytes_def)
qed

lemma sample_inv: "stage2_inv sample_stage2 (slots 0x10000 1024)" "translation sample_stage2 x = None"
proof -
  have z: "tables sample_stage2 a = 0" for a by (simp add: sample_stage2_def)
  have "slots 0x10000 1024 \<inter> free_frames sample_stage2 = {}"
    by (auto simp: slots_def sample_stage2_def boot_allocator_facts)
  then show "stage2_inv sample_stage2 (slots 0x10000 1024)"
    using zero_table(1) [OF z, of 1024] boot_ready sample_registers
    unfolding stage2_inv_def by (simp add: sample_stage2_def)
  show "translation sample_stage2 x = None"
    using zero_table(2) [OF z, of 1024] by (simp add: translation_def sample_registers)
qed


theorem map_address_stage2_confined_witness:
  "\<exists>r st' P'. map_address_stage2 0x44000000 0x40000000 0x201000 True True sample_stage2 = Some (r, st') \<and>
    stage2_inv st' P' \<and> stage2_table st' = stage2_table sample_stage2 \<and> stage2_span st' = stage2_span sample_stage2 \<and>
    free_frames st' \<subseteq> free_frames sample_stage2 \<and>
    (\<forall>a. a \<notin> slots 0x10000 1024 \<union> (free_frames sample_stage2 - free_frames st') \<longrightarrow>
      tables st' a = tables sample_stage2 a)"
  by (rule map_address_stage2_confined [OF sample_inv(1)])
    (simp_all add: sample_inv(2) sample_registers PAGE_SIZE_def PAGE_SHIFT_def)

theorem map_address_stage2_unaligned_witness:
  "map_address_stage2 0x44000000 0x40000000 0x1800 True True sample_stage2 = Some (Inl (), sample_stage2)"
  by (rule map_address_stage2_unaligned) (simp add: PAGE_SIZE_def PAGE_SHIFT_def)

theorem init_stage2_translation_table_correct_witness:
  "\<exists>st'. init_stage2_translation_table 0x1125 sample_stage2 = Some st' \<and> stage2_level st' = 0 \<and> 2 ^ 48 \<le> stage2_span st'"
proof -
  obtain a al' where al: "allocate_pages boot_allocator 1 12 = Some (Inr a, al')" using boot_allocate_aligned [of 12] by auto
  have ps: "stage2_parameters (0x1125 AND ID_AA64MMFR0_EL1_PARANGE) = (16, 0)"
    by (simp add: stage2_parameters_def ID_AA64MMFR0_EL1_PARANGE_def)
  have "number_of_concatenated_page_tables 16 0 = 1" by (simp add: number_of_concatenated_page_tables_def)
  then obtain st' where run: "init_stage2_translation_table 0x1125 sample_stage2 = Some st'"
    using al ps by (simp add: init_stage2_translation_table_def sample_stage2_def Let_def del: One_nat_def)
  have "free_frames sample_stage2 \<subseteq> {..<2 ^ 47}" by (auto simp: sample_stage2_def boot_allocator_facts)
  from init_stage2_translation_table_correct [OF _ this run] run ps boot_ready show ?thesis
    by (auto simp: sample_stage2_def)
qed

end
