(* ===== verification/Asm.thy ===== *)
theory Asm
  imports Prelude
begin

text \<open>
  The system registers of one processor, as \<open>src/src/asm.rs\<close> accesses them. A
  register that is read back is a field with its value; a register whose write is
  a command to the interrupt controller (\<open>ICC_SGI1R_EL1\<close>, \<open>ICC_EOIR1_EL1\<close>,
  \<open>ICC_DIR_EL1\<close>) is a field with the values written so far, the latest first. The
  constants are those of \<open>src/src/registers.rs\<close>. The stage-2 registers are in
  \<open>Paging\<close>.
\<close>

record Cpu =
  hcr_el2 :: u64
  elr_el2 :: u64
  spsr_el2 :: u64
  vbar_el2 :: u64
  esr_el2 :: u64
  far_el2 :: u64
  hpfar_el2 :: u64
  midr_el1 :: u64
  mpidr_el1 :: u64
  vpidr_el2 :: u64
  vmpidr_el2 :: u64
  tpidr_el2 :: u64
  cntvoff_el2 :: u64
  icc_ctlr_el1 :: u64
  icc_iar1_el1 :: u64
  icc_sgi1r_el1 :: "u64 list"
  icc_eoir1_el1 :: "u64 list"
  icc_dir_el1 :: "u64 list"
  ich_hcr_el2 :: u64
  ich_vtr_el2 :: u64
  ich_eisr_el2 :: u64
  ich_lr0_el2 :: u64
  ich_lr1_el2 :: u64
  ich_lr2_el2 :: u64

section \<open>Accessors\<close>

definition set_hcr_el2 :: "u64 \<Rightarrow> Cpu \<Rightarrow> Cpu" where "set_hcr_el2 v c = c\<lparr>hcr_el2 := v\<rparr>"
definition set_elr_el2 :: "u64 \<Rightarrow> Cpu \<Rightarrow> Cpu" where "set_elr_el2 v c = c\<lparr>elr_el2 := v\<rparr>"
definition set_spsr_el2 :: "u64 \<Rightarrow> Cpu \<Rightarrow> Cpu" where "set_spsr_el2 v c = c\<lparr>spsr_el2 := v\<rparr>"
definition set_vbar_el2 :: "u64 \<Rightarrow> Cpu \<Rightarrow> Cpu" where "set_vbar_el2 v c = c\<lparr>vbar_el2 := v\<rparr>"
definition get_elr_el2 :: "Cpu \<Rightarrow> u64" where "get_elr_el2 c = elr_el2 c"

text \<open>The addition of \<open>advance_elr_el2\<close> panics when it overflows.\<close>

definition advance_elr_el2 :: "Cpu \<Rightarrow> Cpu option" where
  "advance_elr_el2 c =
     (if unat (get_elr_el2 c) + 4 < 2 ^ 64 then Some (set_elr_el2 (get_elr_el2 c + 4) c) else None)"

definition get_esr_el2 :: "Cpu \<Rightarrow> u64" where "get_esr_el2 c = esr_el2 c"
definition get_far_el2 :: "Cpu \<Rightarrow> u64" where "get_far_el2 c = far_el2 c"
definition get_hpfar_el2 :: "Cpu \<Rightarrow> u64" where "get_hpfar_el2 c = hpfar_el2 c"
definition get_mpidr_el1 :: "Cpu \<Rightarrow> u64" where "get_mpidr_el1 c = mpidr_el1 c"

definition mpidr_to_affinity :: "u64 \<Rightarrow> u64" where
  "mpidr_to_affinity mpidr = mpidr AND NOT (push_bit 31 1 OR push_bit 30 1)"

definition get_packed_affinity :: "Cpu \<Rightarrow> u32" where
  "get_packed_affinity c = (let mpidr = mpidr_to_affinity (get_mpidr_el1 c)
     in ucast ((mpidr AND (push_bit 24 1 - 1)) OR drop_bit (32 - 24) (mpidr AND push_bit 32 0xff)))"

definition set_icc_eoir1_el1 :: "u64 \<Rightarrow> Cpu \<Rightarrow> Cpu" where
  "set_icc_eoir1_el1 v c = c\<lparr>icc_eoir1_el1 := v # icc_eoir1_el1 c\<rparr>"
definition get_icc_iar1_el1 :: "Cpu \<Rightarrow> u64" where "get_icc_iar1_el1 c = icc_iar1_el1 c"
definition get_midr_el1 :: "Cpu \<Rightarrow> u64" where "get_midr_el1 c = midr_el1 c"
definition set_vmpidr_el2 :: "u64 \<Rightarrow> Cpu \<Rightarrow> Cpu" where "set_vmpidr_el2 v c = c\<lparr>vmpidr_el2 := v\<rparr>"
definition set_vpidr_el2 :: "u64 \<Rightarrow> Cpu \<Rightarrow> Cpu" where "set_vpidr_el2 v c = c\<lparr>vpidr_el2 := v\<rparr>"
definition set_icc_sgi1r_el1 :: "u64 \<Rightarrow> Cpu \<Rightarrow> Cpu" where
  "set_icc_sgi1r_el1 v c = c\<lparr>icc_sgi1r_el1 := v # icc_sgi1r_el1 c\<rparr>"
definition get_ich_eisr_el2 :: "Cpu \<Rightarrow> u64" where "get_ich_eisr_el2 c = ich_eisr_el2 c"
definition get_ich_vtr_el2 :: "Cpu \<Rightarrow> u64" where "get_ich_vtr_el2 c = ich_vtr_el2 c"
definition set_ich_hcr_el2 :: "u64 \<Rightarrow> Cpu \<Rightarrow> Cpu" where "set_ich_hcr_el2 v c = c\<lparr>ich_hcr_el2 := v\<rparr>"
definition get_ich_lr0_el2 :: "Cpu \<Rightarrow> u64" where "get_ich_lr0_el2 c = ich_lr0_el2 c"
definition set_ich_lr0_el2 :: "u64 \<Rightarrow> Cpu \<Rightarrow> Cpu" where "set_ich_lr0_el2 v c = c\<lparr>ich_lr0_el2 := v\<rparr>"
definition get_ich_lr1_el2 :: "Cpu \<Rightarrow> u64" where "get_ich_lr1_el2 c = ich_lr1_el2 c"
definition set_ich_lr1_el2 :: "u64 \<Rightarrow> Cpu \<Rightarrow> Cpu" where "set_ich_lr1_el2 v c = c\<lparr>ich_lr1_el2 := v\<rparr>"
definition get_ich_lr2_el2 :: "Cpu \<Rightarrow> u64" where "get_ich_lr2_el2 c = ich_lr2_el2 c"
definition set_ich_lr2_el2 :: "u64 \<Rightarrow> Cpu \<Rightarrow> Cpu" where "set_ich_lr2_el2 v c = c\<lparr>ich_lr2_el2 := v\<rparr>"
definition set_icc_dir_el1 :: "u64 \<Rightarrow> Cpu \<Rightarrow> Cpu" where
  "set_icc_dir_el1 v c = c\<lparr>icc_dir_el1 := v # icc_dir_el1 c\<rparr>"
definition get_icc_ctlr_el1 :: "Cpu \<Rightarrow> u64" where "get_icc_ctlr_el1 c = icc_ctlr_el1 c"
definition set_icc_ctlr_el1 :: "u64 \<Rightarrow> Cpu \<Rightarrow> Cpu" where "set_icc_ctlr_el1 v c = c\<lparr>icc_ctlr_el1 := v\<rparr>"
definition set_cntvoff_el2 :: "u64 \<Rightarrow> Cpu \<Rightarrow> Cpu" where "set_cntvoff_el2 v c = c\<lparr>cntvoff_el2 := v\<rparr>"
definition get_tpidr_el2 :: "Cpu \<Rightarrow> u64" where "get_tpidr_el2 c = tpidr_el2 c"
definition set_tpidr_el2 :: "u64 \<Rightarrow> Cpu \<Rightarrow> Cpu" where "set_tpidr_el2 v c = c\<lparr>tpidr_el2 := v\<rparr>"

lemmas asm_defs = set_hcr_el2_def set_elr_el2_def set_spsr_el2_def set_vbar_el2_def get_elr_el2_def get_esr_el2_def
  get_far_el2_def get_hpfar_el2_def get_mpidr_el1_def set_icc_eoir1_el1_def get_icc_iar1_el1_def get_midr_el1_def
  set_vmpidr_el2_def set_vpidr_el2_def set_icc_sgi1r_el1_def get_ich_eisr_el2_def get_ich_vtr_el2_def
  set_ich_hcr_el2_def get_ich_lr0_el2_def set_ich_lr0_el2_def get_ich_lr1_el2_def set_ich_lr1_el2_def
  get_ich_lr2_el2_def set_ich_lr2_el2_def set_icc_dir_el1_def get_icc_ctlr_el1_def set_icc_ctlr_el1_def
  set_cntvoff_el2_def get_tpidr_el2_def set_tpidr_el2_def

section \<open>Register constants\<close>

definition HCR_EL2_API :: u64 where "HCR_EL2_API = push_bit 41 1"
definition HCR_EL2_RW :: u64 where "HCR_EL2_RW = push_bit 31 1"
definition HCR_EL2_AMO :: u64 where "HCR_EL2_AMO = push_bit 5 1"
definition HCR_EL2_IMO :: u64 where "HCR_EL2_IMO = push_bit 4 1"
definition HCR_EL2_FMO :: u64 where "HCR_EL2_FMO = push_bit 3 1"
definition HCR_EL2_VM :: u64 where "HCR_EL2_VM = push_bit 0 1"
definition SPSR_EL2_M_EL1H :: u64 where "SPSR_EL2_M_EL1H = 0b0101"
definition ESR_EL2_EC_BITS_OFFSET :: nat where "ESR_EL2_EC_BITS_OFFSET = 26"
definition ESR_EL2_EC :: u64 where "ESR_EL2_EC = push_bit ESR_EL2_EC_BITS_OFFSET 0b111111"
definition ESR_EL2_EC_DATA_ABORT :: u64 where "ESR_EL2_EC_DATA_ABORT = push_bit 26 0b100100"
definition ESR_EL2_ISS_ISV :: u64 where "ESR_EL2_ISS_ISV = push_bit 24 1"
definition ESR_EL2_ISS_SAS_BITS_OFFSET :: nat where "ESR_EL2_ISS_SAS_BITS_OFFSET = 22"
definition ESR_EL2_ISS_SAS :: u64 where "ESR_EL2_ISS_SAS = push_bit ESR_EL2_ISS_SAS_BITS_OFFSET 0b11"
definition ESR_EL2_ISS_SRT_BITS_OFFSET :: nat where "ESR_EL2_ISS_SRT_BITS_OFFSET = 16"
definition ESR_EL2_ISS_SRT :: u64 where "ESR_EL2_ISS_SRT = push_bit ESR_EL2_ISS_SRT_BITS_OFFSET 0b11111"
definition ESR_EL2_ISS_SF :: u64 where "ESR_EL2_ISS_SF = push_bit 15 1"
definition ESR_EL2_ISS_WNR :: u64 where "ESR_EL2_ISS_WNR = push_bit 6 1"
definition HPFAR_EL2_FIPA_BITS_OFFSET :: nat where "HPFAR_EL2_FIPA_BITS_OFFSET = 4"
definition HPFAR_EL2_FIPA :: u64 where "HPFAR_EL2_FIPA = (push_bit 44 1 - 1) AND NOT (push_bit 4 1 - 1)"
definition ICC_CTLR1_EL1_EOI_MODE :: u64 where "ICC_CTLR1_EL1_EOI_MODE = push_bit 1 1"

end
