(* ===== verification/Vgic.thy ===== *)
theory Vgic
  imports Asm
begin

text \<open>
  The virtual interrupt interface, \<open>src/src/vgic.rs\<close>: the list registers through
  which a processor presents interrupts to its guest. The tables of accessor
  functions are lists of functions. The handler of the maintenance interrupt, which
  also updates the emulated GIC, is in \<open>GicMmio\<close>.
\<close>

definition MAINTENANCE_INTERRUPT_INTID :: u32 where "MAINTENANCE_INTERRUPT_INTID = 25"
definition ICH_HCR_EL2_EN :: u64 where "ICH_HCR_EL2_EN = push_bit 0 1"
definition ICH_VTR_EL2_LIST_REGS :: u64 where "ICH_VTR_EL2_LIST_REGS = 0b11111"
definition ICH_LRN_EL2_STATUS :: u64 where "ICH_LRN_EL2_STATUS = push_bit 62 0b11"
definition ICH_LRN_EL2_STATUS_INACTIVE :: u64 where "ICH_LRN_EL2_STATUS_INACTIVE = push_bit 62 0b00"
definition ICH_LRN_EL2_STATUS_PENDING :: u64 where "ICH_LRN_EL2_STATUS_PENDING = push_bit 62 0b01"
definition ICH_LRN_EL2_HW :: u64 where "ICH_LRN_EL2_HW = push_bit 61 1"
definition ICH_LRN_EL2_EOI :: u64 where "ICH_LRN_EL2_EOI = push_bit 41 1"
definition ICH_LRN_EL2_VINTID :: u64 where "ICH_LRN_EL2_VINTID = push_bit 32 1 - 1"

definition GET_ICH_LRN_EL2 :: "(Cpu \<Rightarrow> u64) list" where
  "GET_ICH_LRN_EL2 = [get_ich_lr0_el2, get_ich_lr1_el2, get_ich_lr2_el2]"
definition SET_ICH_LRN_EL2 :: "(u64 \<Rightarrow> Cpu \<Rightarrow> Cpu) list" where
  "SET_ICH_LRN_EL2 = [set_ich_lr0_el2, set_ich_lr1_el2, set_ich_lr2_el2]"

definition create_list_register_entry :: "u32 \<Rightarrow> u32 \<Rightarrow> u32 \<Rightarrow> u32 option \<Rightarrow> u64" where
  "create_list_register_entry int_id grp priority physical_int_id =
     (let entry = ICH_LRN_EL2_STATUS_PENDING OR push_bit 60 (ucast grp) OR push_bit 48 (ucast priority) OR ucast int_id
      in (case physical_int_id of
            Some p_int_id \<Rightarrow> entry OR (ICH_LRN_EL2_HW OR push_bit 32 (ucast p_int_id))
          | None \<Rightarrow> entry OR ICH_LRN_EL2_EOI))"

definition supported_lrn :: "Cpu \<Rightarrow> nat" where
  "supported_lrn c = min (unat (get_ich_vtr_el2 c AND ICH_VTR_EL2_LIST_REGS) + 1) (length GET_ICH_LRN_EL2)"

text \<open>The loop over the list registers from \<open>i\<close> on; the overflow message is not modelled.\<close>

fun add_virtual_interrupt_loop :: "nat list \<Rightarrow> u64 \<Rightarrow> Cpu \<Rightarrow> Cpu" where
  "add_virtual_interrupt_loop [] entry c = c"
| "add_virtual_interrupt_loop (i # js) entry c = (let ich_lrn_el2 = (GET_ICH_LRN_EL2 ! i) c in
     if ich_lrn_el2 AND ICH_LRN_EL2_STATUS = ICH_LRN_EL2_STATUS_INACTIVE then (SET_ICH_LRN_EL2 ! i) entry c
     else if ich_lrn_el2 AND (push_bit 32 1 - 1) = entry AND (push_bit 32 1 - 1)
       then (SET_ICH_LRN_EL2 ! i) (ich_lrn_el2 OR ICH_LRN_EL2_STATUS_PENDING) c
     else add_virtual_interrupt_loop js entry c)"

definition add_virtual_interrupt :: "u64 \<Rightarrow> Cpu \<Rightarrow> Cpu" where
  "add_virtual_interrupt entry c = add_virtual_interrupt_loop [0..<supported_lrn c] entry c"

section \<open>The list registers as an array\<close>

definition lrs :: "Cpu \<Rightarrow> u64 list" where
  "lrs c = [ich_lr0_el2 c, ich_lr1_el2 c, ich_lr2_el2 c]"

definition set_lr :: "nat \<Rightarrow> u64 \<Rightarrow> Cpu \<Rightarrow> Cpu" where
  "set_lr i v c = (SET_ICH_LRN_EL2 ! i) v c"

lemma lrs_length [simp]: "length (lrs c) = 3"
  by (simp add: lrs_def)

lemma supported_le [simp]: "supported_lrn c \<le> 3" "0 < supported_lrn c"
  by (simp_all add: supported_lrn_def GET_ICH_LRN_EL2_def)

lemma three_cases: "i < (3 :: nat) \<Longrightarrow> i = 0 \<or> i = 1 \<or> i = 2"
  by auto

lemma get_lr: "i < 3 \<Longrightarrow> (GET_ICH_LRN_EL2 ! i) c = lrs c ! i"
  by (drule three_cases) (auto simp: GET_ICH_LRN_EL2_def lrs_def asm_defs numeral_2_eq_2)

lemma lrs_set_lr: "i < 3 \<Longrightarrow> lrs (set_lr i v c) = (lrs c)[i := v]"
  by (drule three_cases) (auto simp: set_lr_def SET_ICH_LRN_EL2_def lrs_def asm_defs numeral_2_eq_2)

lemma supported_set_lr [simp]: "i < 3 \<Longrightarrow> supported_lrn (set_lr i v c) = supported_lrn c"
  by (drule three_cases) (auto simp: set_lr_def SET_ICH_LRN_EL2_def supported_lrn_def asm_defs numeral_2_eq_2)

definition inactive :: "u64 \<Rightarrow> bool" where
  "inactive e \<longleftrightarrow> e AND ICH_LRN_EL2_STATUS = 0"

definition vintid :: "u64 \<Rightarrow> u64" where
  "vintid e = e AND ICH_LRN_EL2_VINTID"

text \<open>The register that \<open>add_virtual_interrupt\<close> chooses, and what it becomes.\<close>

definition lr_slot :: "u64 \<Rightarrow> Cpu \<Rightarrow> nat option" where
  "lr_slot entry c = List.find (\<lambda>i. inactive (lrs c ! i) \<or> vintid (lrs c ! i) = vintid entry) [0..<supported_lrn c]"

definition lr_merge :: "u64 \<Rightarrow> u64 \<Rightarrow> u64" where
  "lr_merge old entry = (if inactive old then entry else old OR ICH_LRN_EL2_STATUS_PENDING)"

lemma add_virtual_interrupt_loop_find:
  assumes "set js \<subseteq> {..<3}"
  shows "add_virtual_interrupt_loop js entry c =
    (case List.find (\<lambda>i. inactive (lrs c ! i) \<or> vintid (lrs c ! i) = vintid entry) js of
       None \<Rightarrow> c | Some i \<Rightarrow> set_lr i (lr_merge (lrs c ! i) entry) c)"
  using assms
  by (induction js) (auto simp: get_lr Let_def set_lr_def lr_merge_def inactive_def vintid_def
      ICH_LRN_EL2_STATUS_INACTIVE_def ICH_LRN_EL2_VINTID_def)

lemma add_virtual_interrupt_slot:
  "add_virtual_interrupt entry c =
    (case lr_slot entry c of None \<Rightarrow> c | Some i \<Rightarrow> set_lr i (lr_merge (lrs c ! i) entry) c)"
proof -
  have "set [0..<supported_lrn c] \<subseteq> {..<3}" using supported_le(1) [of c] by (auto simp del: supported_le)
  then show ?thesis unfolding add_virtual_interrupt_def lr_slot_def by (rule add_virtual_interrupt_loop_find)
qed

section \<open>Fields of a list register\<close>

definition lr_pending :: "u64 \<Rightarrow> bool" where "lr_pending e \<longleftrightarrow> bit e 62"
definition lr_group :: "u64 \<Rightarrow> u64" where "lr_group e = drop_bit 60 e AND 1"
definition lr_priority :: "u64 \<Rightarrow> u64" where "lr_priority e = drop_bit 48 e AND 0xff"
definition lr_hw :: "u64 \<Rightarrow> bool" where "lr_hw e \<longleftrightarrow> bit e 61"
definition lr_pintid :: "u64 \<Rightarrow> u64" where "lr_pintid e = drop_bit 32 e AND 0x3ff"
definition lr_eoi :: "u64 \<Rightarrow> bool" where "lr_eoi e \<longleftrightarrow> bit e 41"

lemma low_mask: "(1 :: u64) = mask 1" "(0xff :: u64) = mask 8" "(0x3ff :: u64) = mask 10" "ICH_LRN_EL2_VINTID = mask 32"
  by (simp_all add: mask_eq_exp_minus_1 ICH_LRN_EL2_VINTID_def)

lemma bit_small:
  assumes "unat (w :: 'a::len word) < 2 ^ k" and "bit w n"
  shows "n < k"
proof (rule ccontr)
  assume "\<not> n < k"
  then have "(2::nat) ^ k \<le> 2 ^ n" by simp
  then have "unat w < 2 ^ n" using assms(1) by (rule less_le_trans [rotated])
  then have "unat (drop_bit n w) = 0" unfolding unat_drop_bit_eq by (simp add: drop_bit_eq_div)
  then have "drop_bit n w = 0" by (simp only: unsigned_eq_0_iff)
  then show False using assms(2) by (simp add: bit_iff_odd_drop_bit)
qed

lemma bit_ucast32 [simp]: "bit (ucast (w :: 32 word) :: u64) n \<longleftrightarrow> bit w n"
  by (auto simp: bit_ucast_iff dest: bit_imp_le_length)

lemma unat_ucast32 [simp]: "unat (ucast (w :: 32 word) :: u64) = unat w"
proof -
  have "unat w < 2 ^ 32" using unsigned_less [of w, where ?'a = nat] by simp
  then show ?thesis by (simp add: unsigned_ucast_eq take_bit_nat_eq_self)
qed

lemma bit_shl1: "bit (push_bit k 1 :: u64) n \<longleftrightarrow> n = k \<and> n < 64"
  by (auto simp: bit_push_bit_iff bit_1_iff simp del: push_bit_of_1)

lemmas lr_defs = create_list_register_entry_def ICH_LRN_EL2_STATUS_PENDING_def ICH_LRN_EL2_HW_def ICH_LRN_EL2_EOI_def

lemma entry_bits:
  assumes "unat grp < 2 ^ 1" and "unat prio < 2 ^ 8" and "case p of None \<Rightarrow> True | Some q \<Rightarrow> unat q < 2 ^ 10"
  shows "bit (create_list_register_entry int_id grp prio p) n \<longleftrightarrow> n = 62 \<or> (n = 60 \<and> bit grp 0) \<or>
    (48 \<le> n \<and> n < 56 \<and> bit prio (n - 48)) \<or> bit int_id n \<or>
    (case p of None \<Rightarrow> n = 41 | Some q \<Rightarrow> n = 61 \<or> (32 \<le> n \<and> n < 42 \<and> bit q (n - 32)))"
proof -
  have "bit (push_bit 60 (ucast grp) :: u64) n \<longleftrightarrow> n = 60 \<and> bit grp 0"
    using bit_small [OF assms(1), of "n - 60"] by (auto simp: bit_push_bit_iff)
  moreover have "bit (push_bit 48 (ucast prio) :: u64) n \<longleftrightarrow> 48 \<le> n \<and> n < 56 \<and> bit prio (n - 48)"
    using bit_small [OF assms(2), of "n - 48"] by (auto simp: bit_push_bit_iff)
  moreover have "bit (push_bit 32 (ucast q) :: u64) n \<longleftrightarrow> 32 \<le> n \<and> n < 42 \<and> bit q (n - 32)" if "p = Some q" for q
    using bit_small [of q 10 "n - 32"] assms(3) that by (auto simp: bit_push_bit_iff)
  moreover have "bit (push_bit 62 1 :: u64) n \<longleftrightarrow> n = 62" "bit (push_bit 61 1 :: u64) n \<longleftrightarrow> n = 61"
      "bit (push_bit 41 1 :: u64) n \<longleftrightarrow> n = 41"
    unfolding bit_shl1 by auto
  ultimately show ?thesis
    by (cases p) (simp_all only: lr_defs Let_def option.case bit_or_iff bit_ucast32, blast+)
qed

text \<open>
  A list register entry decodes to what it was built from: it is pending, its
  virtual interrupt number, group and priority are the arguments, and it is either
  tied to the physical interrupt or asks for a maintenance interrupt on completion.
\<close>

theorem create_list_register_entry_fields:
  fixes int_id :: u32
  assumes "unat grp < 2" and "unat prio < 256" and "\<forall>q. p = Some q \<longrightarrow> unat q < 1024"
  defines "e \<equiv> create_list_register_entry int_id grp prio p"
  shows "vintid e = ucast int_id \<and> lr_group e = ucast grp \<and> lr_priority e = ucast prio \<and> lr_pending e \<and>
    \<not> bit e 63 \<and> lr_hw e = (p \<noteq> None) \<and> (case p of None \<Rightarrow> lr_eoi e | Some q \<Rightarrow> lr_pintid e = ucast q)"
proof -
  have p: "case p of None \<Rightarrow> True | Some q \<Rightarrow> unat q < 2 ^ 10" using assms(3) by (simp split: option.split)
  note b = entry_bits [of grp prio p int_id, OF _ _ p, folded e_def, simplified, OF assms(1,2)]
  have id: "bit int_id n \<Longrightarrow> n < 32" for n by (auto dest: bit_imp_le_length)
  have small: "bit grp n \<Longrightarrow> n = 0" "bit prio n \<Longrightarrow> n < 8" for n
    using bit_small [of grp 1 n] bit_small [of prio 8 n] assms(1,2) by simp_all
  have "vintid e = ucast int_id"
    unfolding vintid_def low_mask
    by (rule bit_word_eqI) (use id in \<open>auto simp: bit_and_iff bit_mask_iff b split: option.splits\<close>)
  moreover have "lr_group e = ucast grp"
    unfolding lr_group_def low_mask
    by (rule bit_word_eqI) (use id [of 60] small in \<open>auto simp: bit_and_iff bit_1_iff bit_drop_bit_eq b split: option.splits\<close>)
  moreover have "lr_priority e = ucast prio"
    unfolding lr_priority_def low_mask
    by (rule bit_word_eqI) (use id small in \<open>fastforce simp: bit_and_iff bit_mask_iff bit_drop_bit_eq b split: option.splits\<close>)
  moreover have "lr_pintid e = ucast q" if "p = Some q" for q
    using that bit_small [of q 10] assms(3) id unfolding lr_pintid_def low_mask
    by (intro bit_word_eqI) (fastforce simp: bit_and_iff bit_mask_iff bit_drop_bit_eq b)
  ultimately show ?thesis
    using id [of 63] by (auto simp: lr_pending_def lr_hw_def lr_eoi_def b dest: id split: option.splits)
qed

theorem create_list_register_entry_fields_witness:
  "vintid (create_list_register_entry 27 1 0xa0 (Some 30)) = 27 \<and> lr_pintid (create_list_register_entry 27 1 0xa0 (Some 30)) = 30"
  using create_list_register_entry_fields [of 1 "0xa0" "Some 30" 27] by simp

section \<open>Adding an interrupt\<close>

lemma find_upt_Some:
  "List.find P [0..<n] = Some i \<Longrightarrow> i < n \<and> P i \<and> (\<forall>j<i. \<not> P j)"
  by (auto simp: find_Some_iff)

lemma find_upt_None: "List.find P [0..<n] = None \<longleftrightarrow> (\<forall>i<n. \<not> P i)"
  by (auto simp: find_None_iff)

lemma lr_merge_props:
  assumes "lr_pending entry" and "inactive old \<or> vintid old = vintid entry"
  shows "lr_pending (lr_merge old entry)" "vintid (lr_merge old entry) = vintid entry" "\<not> inactive (lr_merge old entry)"
proof -
  have p62: "bit ICH_LRN_EL2_STATUS_PENDING n \<longleftrightarrow> n = 62" for n
    unfolding ICH_LRN_EL2_STATUS_PENDING_def bit_shl1 by auto
  have "vintid (old OR ICH_LRN_EL2_STATUS_PENDING) = vintid old"
    unfolding vintid_def low_mask by (rule bit_word_eqI) (auto simp: bit_and_iff bit_or_iff bit_mask_iff p62)
  with assms show "vintid (lr_merge old entry) = vintid entry" by (auto simp: lr_merge_def)
  show pend: "lr_pending (lr_merge old entry)"
    using assms(1) by (simp add: lr_merge_def lr_pending_def bit_or_iff p62)
  have "bit ICH_LRN_EL2_STATUS 62" by (simp add: ICH_LRN_EL2_STATUS_def bit_push_bit_iff)
  then have "bit (lr_merge old entry AND ICH_LRN_EL2_STATUS) 62" using pend by (simp add: bit_and_iff lr_pending_def)
  then show "\<not> inactive (lr_merge old entry)" by (auto simp: inactive_def)
qed

text \<open>
  C15. \<open>add_virtual_interrupt\<close> delivers an interrupt whenever it can: if a list register is
  inactive or already holds that interrupt, then afterwards exactly one register has
  changed, and it holds the interrupt as pending; only an inactive register or one with
  the same interrupt is overwritten. Otherwise no register changes.
\<close>

theorem add_virtual_interrupt_delivers:
  assumes "lr_pending entry"
  shows "if \<exists>i< supported_lrn c. inactive (lrs c ! i) \<or> vintid (lrs c ! i) = vintid entry
    then \<exists>i v. i < supported_lrn c \<and> lrs (add_virtual_interrupt entry c) = (lrs c)[i := v] \<and>
      (inactive (lrs c ! i) \<or> vintid (lrs c ! i) = vintid entry) \<and> lr_pending v \<and> vintid v = vintid entry
    else add_virtual_interrupt entry c = c"
proof (cases "lr_slot entry c")
  case None
  then have "add_virtual_interrupt entry c = c" by (simp add: add_virtual_interrupt_slot)
  moreover have "\<not> (\<exists>i < supported_lrn c. inactive (lrs c ! i) \<or> vintid (lrs c ! i) = vintid entry)"
    using None unfolding lr_slot_def find_upt_None by blast
  ultimately show ?thesis by (simp only: if_False)
next
  case (Some i)
  note i = find_upt_Some [OF Some [unfolded lr_slot_def]]
  then have "i < 3" using supported_le(1) less_le_trans by blast
  then have "lrs (add_virtual_interrupt entry c) = (lrs c)[i := lr_merge (lrs c ! i) entry]"
    by (simp add: add_virtual_interrupt_slot Some lrs_set_lr)
  then show ?thesis using i lr_merge_props [OF assms, of "lrs c ! i"] by metis
qed

text \<open>
  The search stops at the first inactive register, although a later one may hold the
  interrupt already: then two registers hold the same virtual interrupt afterwards.
\<close>

theorem add_virtual_interrupt_duplicates:
  assumes "lr_pending entry" and "i < j" and "j < supported_lrn c" and "inactive (lrs c ! i)"
    and "\<forall>k<i. \<not> inactive (lrs c ! k) \<and> vintid (lrs c ! k) \<noteq> vintid entry"
    and "\<not> inactive (lrs c ! j)" and "vintid (lrs c ! j) = vintid entry"
  defines "c' \<equiv> add_virtual_interrupt entry c"
  shows "vintid (lrs c' ! i) = vintid (lrs c' ! j) \<and> \<not> inactive (lrs c' ! i) \<and> \<not> inactive (lrs c' ! j)"
proof -
  have j: "j < 3" using assms(3) supported_le(1) less_le_trans by blast
  have "lr_slot entry c = Some i"
    unfolding lr_slot_def find_Some_iff using assms(2-5) by (auto intro!: exI [of _ i])
  then have "lrs c' = (lrs c)[i := lr_merge (lrs c ! i) entry]"
    using assms(2) j by (simp add: c'_def add_virtual_interrupt_slot lrs_set_lr)
  then show ?thesis
    using lr_merge_props [OF assms(1), of "lrs c ! i"] assms(2,4,6,7) j by simp
qed

text \<open>A processor whose second list register holds interrupt 33.\<close>

definition sample_cpu :: Cpu where
  "sample_cpu = \<lparr>hcr_el2 = 0, elr_el2 = 0, spsr_el2 = 0, vbar_el2 = 0, esr_el2 = 0, far_el2 = 0, hpfar_el2 = 0,
     midr_el1 = 0, mpidr_el1 = 0x80000000, vpidr_el2 = 0, vmpidr_el2 = 0, tpidr_el2 = 0, cntvoff_el2 = 0,
     icc_ctlr_el1 = 0, icc_iar1_el1 = 0, icc_sgi1r_el1 = [], icc_eoir1_el1 = [], icc_dir_el1 = [], ich_hcr_el2 = 0,
     ich_vtr_el2 = 3, ich_eisr_el2 = 0, ich_lr0_el2 = 0, ich_lr1_el2 = create_list_register_entry 33 1 0 None,
     ich_lr2_el2 = 0\<rparr>"

lemma sample_cpu_lrs: "lrs sample_cpu = [0, 0x5000020000000021, 0]" "supported_lrn sample_cpu = 3"
  by (simp_all add: lrs_def sample_cpu_def lr_defs Let_def supported_lrn_def get_ich_vtr_el2_def ICH_VTR_EL2_LIST_REGS_def
      GET_ICH_LRN_EL2_def)

lemma sample_entry: "lr_pending 0x5000020000000021" "inactive 0" "\<not> inactive 0x5000020000000021"
  by (simp_all add: lr_pending_def inactive_def ICH_LRN_EL2_STATUS_def)

theorem add_virtual_interrupt_delivers_witness:
  "\<exists>i v. lrs (add_virtual_interrupt 0x5000020000000021 sample_cpu) = (lrs sample_cpu)[i := v] \<and> lr_pending v"
proof -
  have "\<exists>i < supported_lrn sample_cpu. inactive (lrs sample_cpu ! i) \<or>
      vintid (lrs sample_cpu ! i) = vintid 0x5000020000000021"
    by (rule exI [of _ 0]) (simp add: sample_cpu_lrs sample_entry)
  then show ?thesis using add_virtual_interrupt_delivers [OF sample_entry(1), of sample_cpu] by auto
qed

theorem add_virtual_interrupt_duplicates_witness:
  "vintid (lrs (add_virtual_interrupt 0x5000020000000021 sample_cpu) ! 0) =
   vintid (lrs (add_virtual_interrupt 0x5000020000000021 sample_cpu) ! 1)"
  using add_virtual_interrupt_duplicates [OF sample_entry(1), of 0 1 sample_cpu] sample_entry(2,3)
  by (simp add: sample_cpu_lrs)

end
