(* ===== verification/GicMmio.thy ===== *)
theory GicMmio
  imports Vgic
begin

text \<open>
  The emulated interrupt controller of a guest, \<open>src/src/mmio/gicv3.rs\<close>: the
  distributor (shared interrupts) and the redistributor (interrupts of one processor),
  their registers as the guest reads and writes them, and the delivery of interrupts to
  the list registers of \<open>Vgic\<close>. Methods that may deliver an interrupt also pass on
  the processor state. The messages they print are not modelled.
\<close>

section \<open>Distributor\<close>

record GicDistributorMmio =
  gicd_ctlr :: u32
  gicd_group :: "u32 list"
  gicd_enable :: "u32 list"
  gicd_pending :: "u32 list"
  gicd_active :: "u32 list"
  gicd_priority :: "u32 list"
  gicd_configuration :: "u32 list"
  gicd_group_modifier :: "u32 list"
  gicd_router :: "u64 list"
  gicd_to_inject_interrupt :: "u64 list"

definition GIC_REVISION :: u64 where "GIC_REVISION = 3"

definition GICD_CTLR :: usize where "GICD_CTLR = 0x0000"
definition GICD_TYPER :: usize where "GICD_TYPER = 0x0004"
definition GICD_IGROUPR0 :: usize where "GICD_IGROUPR0 = 0x0080"
definition GICD_IGROUPR31 :: usize where "GICD_IGROUPR31 = 0x00FC"
definition GICD_ISENABLER0 :: usize where "GICD_ISENABLER0 = 0x0100"
definition GICD_ISENABLER31 :: usize where "GICD_ISENABLER31 = 0x017C"
definition GICD_ICENABLER0 :: usize where "GICD_ICENABLER0 = 0x0180"
definition GICD_ICENABLER31 :: usize where "GICD_ICENABLER31 = 0x01FC"
definition GICD_ISPENDR0 :: usize where "GICD_ISPENDR0 = 0x0200"
definition GICD_ISPENDR31 :: usize where "GICD_ISPENDR31 = 0x027C"
definition GICD_ICPENDR0 :: usize where "GICD_ICPENDR0 = 0x0280"
definition GICD_ICPENDR31 :: usize where "GICD_ICPENDR31 = 0x02FC"
definition GICD_ISACTIVER0 :: usize where "GICD_ISACTIVER0 = 0x0300"
definition GICD_ISACTIVER31 :: usize where "GICD_ISACTIVER31 = 0x037C"
definition GICD_ICACTIVER0 :: usize where "GICD_ICACTIVER0 = 0x0380"
definition GICD_ICACTIVER31 :: usize where "GICD_ICACTIVER31 = 0x03FC"
definition GICD_IPRIORITYR0 :: usize where "GICD_IPRIORITYR0 = 0x0400"
definition GICD_IPRIORITYR254 :: usize where "GICD_IPRIORITYR254 = 0x07F8"
definition GICD_ICFGR0 :: usize where "GICD_ICFGR0 = 0x0C00"
definition GICD_ICFGR63 :: usize where "GICD_ICFGR63 = 0x0CFC"
definition GICD_IGRPMODR0 :: usize where "GICD_IGRPMODR0 = 0x0D00"
definition GICD_IGRPMODR31 :: usize where "GICD_IGRPMODR31 = 0x0F7C"
definition GICD_IROUTER0 :: usize where "GICD_IROUTER0 = 0x6100"
definition GICD_IROUTER1019 :: usize where "GICD_IROUTER1019 = 0x7FD8"
definition GICD_PIDR2 :: usize where "GICD_PIDR2 = 0xFFE8"
definition GICD_CTLR_ARE_S :: u32 where "GICD_CTLR_ARE_S = push_bit 4 1"
definition GICD_CTLR_ENABLE_GRP1NS :: u32 where "GICD_CTLR_ENABLE_GRP1NS = push_bit 1 1"
definition GICD_TYPER_VALUE :: u32 where "GICD_TYPER_VALUE = push_bit 25 1 OR 31"
definition INJECT_INTERRUPT_INT_ID :: u32 where "INJECT_INTERRUPT_INT_ID = 11"

lemmas gicd_offsets = GICD_CTLR_def GICD_TYPER_def GICD_IGROUPR0_def GICD_IGROUPR31_def GICD_ISENABLER0_def
  GICD_ISENABLER31_def GICD_ICENABLER0_def GICD_ICENABLER31_def GICD_ISPENDR0_def GICD_ISPENDR31_def
  GICD_ICPENDR0_def GICD_ICPENDR31_def GICD_ISACTIVER0_def GICD_ISACTIVER31_def GICD_ICACTIVER0_def
  GICD_ICACTIVER31_def GICD_IPRIORITYR0_def GICD_IPRIORITYR254_def GICD_ICFGR0_def GICD_ICFGR63_def
  GICD_IGRPMODR0_def GICD_IGRPMODR31_def GICD_IROUTER0_def GICD_IROUTER1019_def GICD_PIDR2_def

definition GicDistributorMmio_MMIO_SIZE :: usize where "GicDistributorMmio_MMIO_SIZE = 0x10000"

definition GicDistributorMmio_new :: GicDistributorMmio where
  "GicDistributorMmio_new = \<lparr>gicd_ctlr = 0, gicd_group = replicate 32 0, gicd_enable = replicate 32 0,
     gicd_pending = replicate 32 0, gicd_active = replicate 32 0, gicd_priority = replicate 255 0,
     gicd_configuration = replicate 64 0, gicd_group_modifier = replicate 32 0, gicd_router = replicate 1020 0,
     gicd_to_inject_interrupt = []\<rparr>"

text \<open>
  Interrupt \<open>n\<close> has bit \<open>n mod 32\<close> of word \<open>n div 32\<close>; \<open>get_group\<close>, \<open>get_enable\<close>,
  \<open>get_pending\<close> and \<open>get_group_modifier\<close> read that bit.
\<close>

definition gicd_get_group :: "GicDistributorMmio \<Rightarrow> u32 \<Rightarrow> u32 option" where
  "gicd_get_group d int_id = (let register = unat int_id div 32; offset = unat int_id mod 32 in
     do { r \<leftarrow> rust_nth (gicd_group d) register; Some (drop_bit offset r AND 1) })"

definition gicd_get_enable :: "GicDistributorMmio \<Rightarrow> u32 \<Rightarrow> bool option" where
  "gicd_get_enable d int_id = (let register = unat int_id div 32; offset = unat int_id mod 32 in
     do { r \<leftarrow> rust_nth (gicd_enable d) register; Some (drop_bit offset r AND 1 \<noteq> 0) })"

definition gicd_get_pending :: "GicDistributorMmio \<Rightarrow> u32 \<Rightarrow> bool option" where
  "gicd_get_pending d int_id = (let register = unat int_id div 32; offset = unat int_id mod 32 in
     do { r \<leftarrow> rust_nth (gicd_pending d) register; Some (drop_bit offset r AND 1 \<noteq> 0) })"

definition gicd_change_pending_status :: "u32 \<Rightarrow> bool \<Rightarrow> GicDistributorMmio \<Rightarrow> GicDistributorMmio option" where
  "gicd_change_pending_status int_id is_pending d = (let register = unat int_id div 32; offset = unat int_id mod 32 in
     do { r \<leftarrow> rust_nth (gicd_pending d) register;
          p \<leftarrow> rust_update (gicd_pending d) register
                 (if is_pending then r OR push_bit offset 1 else r AND NOT (push_bit offset 1));
          Some (d\<lparr>gicd_pending := p\<rparr>) })"

definition gicd_change_active_status :: "u32 \<Rightarrow> bool \<Rightarrow> GicDistributorMmio \<Rightarrow> GicDistributorMmio option" where
  "gicd_change_active_status int_id is_active d = (let register = unat int_id div 32; offset = unat int_id mod 32 in
     do { r \<leftarrow> rust_nth (gicd_active d) register;
          p \<leftarrow> rust_update (gicd_active d) register
                 (if is_active then r OR push_bit offset 1 else r AND NOT (push_bit offset 1));
          Some (d\<lparr>gicd_active := p\<rparr>) })"

definition gicd_get_priority :: "GicDistributorMmio \<Rightarrow> u32 \<Rightarrow> u32 option" where
  "gicd_get_priority d int_id = (let register = unat int_id div 4; offset = unat int_id mod 4 * 8 in
     do { r \<leftarrow> rust_nth (gicd_priority d) register; Some (drop_bit offset r AND 0xFF) })"

definition gicd_get_group_modifier :: "GicDistributorMmio \<Rightarrow> u32 \<Rightarrow> u32 option" where
  "gicd_get_group_modifier d int_id = (let register = unat int_id div 32; offset = unat int_id mod 32 in
     do { r \<leftarrow> rust_nth (gicd_group_modifier d) register; Some (drop_bit offset r AND 1) })"

definition gicd_get_router :: "GicDistributorMmio \<Rightarrow> u32 \<Rightarrow> u64 option" where
  "gicd_get_router d int_id = rust_nth (gicd_router d) (unat int_id)"

text \<open>The four affinity fields of a router or of \<open>MPIDR_EL1\<close>.\<close>

definition aff3 :: "u64 \<Rightarrow> u64" where "aff3 v = drop_bit 32 (v AND (push_bit 40 1 - 1))"
definition aff2 :: "u64 \<Rightarrow> u64" where "aff2 v = drop_bit 16 (v AND (push_bit 24 1 - 1))"
definition aff1 :: "u64 \<Rightarrow> u64" where "aff1 v = drop_bit 8 (v AND (push_bit 16 1 - 1))"
definition aff0 :: "u64 \<Rightarrow> u64" where "aff0 v = v AND (push_bit 8 1 - 1)"

text \<open>The software-generated interrupt that asks the processor of another VM to inject.\<close>

definition inject_sgi :: "u64 \<Rightarrow> u64" where
  "inject_sgi v = push_bit 48 (aff3 v) OR push_bit 32 (aff2 v) OR push_bit 24 (ucast INJECT_INTERRUPT_INT_ID)
     OR push_bit 48 (aff1 v) OR push_bit (unat (aff0 v)) 1"

definition gicd_trigger_interrupt ::
  "u32 \<Rightarrow> u32 option \<Rightarrow> GicDistributorMmio \<Rightarrow> Cpu \<Rightarrow> (GicDistributorMmio \<times> Cpu) option" where
  "gicd_trigger_interrupt int_id physical_int_id d c =
     (if gicd_ctlr d AND GICD_CTLR_ENABLE_GRP1NS = 0 then Some (d, c)
      else do {
        d1 \<leftarrow> gicd_change_pending_status int_id True d;
        e \<leftarrow> gicd_get_enable d1 int_id;
        (if \<not> e then Some (d1, c)
         else do {
           m \<leftarrow> gicd_get_group_modifier d1 int_id;
           (if m = 1 then Some (d1, c)
            else do {
              grp \<leftarrow> gicd_get_group d1 int_id;
              priority \<leftarrow> gicd_get_priority d1 int_id;
              router \<leftarrow> gicd_get_router d1 int_id;
              (if gicd_ctlr d1 AND GICD_CTLR_ARE_S = 0 then Some (d1, c)
               else do {
                 let mpidr = get_mpidr_el1 c;
                 let list_entry = create_list_register_entry int_id grp priority physical_int_id;
                 (if aff3 router = aff3 mpidr \<and> aff2 router = aff2 mpidr \<and> aff1 router = aff1 mpidr \<and>
                     aff0 router = aff0 mpidr
                  then Some (d1, add_virtual_interrupt list_entry c)
                  else do {
                    _ \<leftarrow> rust_assert (aff0 router < 16);
                    Some (d1\<lparr>gicd_to_inject_interrupt := gicd_to_inject_interrupt d1 @ [list_entry]\<rparr>,
                          set_icc_sgi1r_el1 (inject_sgi router) c) }) }) }) }) })"

text \<open>\<open>(A..=B).contains(&offset)\<close>, and the word of a register bank at \<open>offset\<close>.\<close>

definition in_bank :: "usize \<Rightarrow> usize \<Rightarrow> usize \<Rightarrow> bool" where
  "in_bank first final offset \<longleftrightarrow> first \<le> offset \<and> offset \<le> final"

definition read_bank :: "u32 list \<Rightarrow> usize \<Rightarrow> usize \<Rightarrow> u64 option" where
  "read_bank regs first offset = do { r \<leftarrow> rust_nth regs ((offset - first) div 4); Some (ucast r) }"

definition update_bank :: "u32 list \<Rightarrow> usize \<Rightarrow> usize \<Rightarrow> (u32 \<Rightarrow> u32) \<Rightarrow> u32 list option" where
  "update_bank regs first offset f = do {
     r \<leftarrow> rust_nth regs ((offset - first) div 4);
     rust_update regs ((offset - first) div 4) (f r) }"

text \<open>Priority registers allow byte accesses besides aligned words; others read as zero and are not written.\<close>

definition read_priority :: "u32 list \<Rightarrow> usize \<Rightarrow> usize \<Rightarrow> u64 \<Rightarrow> u64 option" where
  "read_priority regs first offset access_width =
     (let register_offset = (offset - first) div 4; byte_offset = (offset - first) - register_offset * 4
      in (if access_width = 8 then do {
            r \<leftarrow> rust_nth regs register_offset;
            Some (drop_bit (byte_offset * 8) (ucast r) AND 0xff) }
          else if byte_offset = 0 \<and> access_width = 32 then do {
            r \<leftarrow> rust_nth regs register_offset; Some (ucast r) }
          else Some 0))"

definition write_priority :: "u32 list \<Rightarrow> usize \<Rightarrow> usize \<Rightarrow> u64 \<Rightarrow> u64 \<Rightarrow> u32 list option" where
  "write_priority regs first offset access_width value =
     (let register_offset = (offset - first) div 4; byte_offset = (offset - first) - register_offset * 4;
          bit_offset = byte_offset * 8
      in (if access_width = 8 then do {
            r \<leftarrow> rust_nth regs register_offset;
            rust_update regs register_offset
              ((r AND NOT (push_bit bit_offset 0xFF)) OR ucast (push_bit bit_offset value)) }
          else if byte_offset = 0 \<and> access_width = 32 then rust_update regs register_offset (ucast value)
          else Some regs))"

definition GicDistributorMmio_read :: "GicDistributorMmio \<Rightarrow> usize \<Rightarrow> u64 \<Rightarrow> (unit + u64) option" where
  "GicDistributorMmio_read d offset access_width = do {
     result \<leftarrow>
      (if offset = GICD_CTLR \<and> access_width = 32 then Some (ucast (gicd_ctlr d))
       else if offset = GICD_TYPER \<and> access_width = 32 then Some (ucast GICD_TYPER_VALUE)
       else if in_bank GICD_IGROUPR0 GICD_IGROUPR31 offset \<and> access_width = 32
         then read_bank (gicd_group d) GICD_IGROUPR0 offset
       else if in_bank GICD_ISENABLER0 GICD_ISENABLER31 offset \<and> access_width = 32
         then read_bank (gicd_enable d) GICD_ISENABLER0 offset
       else if in_bank GICD_ICENABLER0 GICD_ICENABLER31 offset \<and> access_width = 32
         then read_bank (gicd_enable d) GICD_ICENABLER0 offset
       else if in_bank GICD_ISPENDR0 GICD_ISPENDR31 offset \<and> access_width = 32
         then read_bank (gicd_pending d) GICD_ISPENDR0 offset
       else if in_bank GICD_ICPENDR0 GICD_ICPENDR31 offset \<and> access_width = 32
         then read_bank (gicd_pending d) GICD_ICPENDR0 offset
       else if in_bank GICD_ISACTIVER0 GICD_ISACTIVER31 offset \<and> access_width = 32
         then read_bank (gicd_active d) GICD_ISACTIVER0 offset
       else if in_bank GICD_ICACTIVER0 GICD_ICACTIVER31 offset \<and> access_width = 32
         then read_bank (gicd_active d) GICD_ICACTIVER0 offset
       else if GICD_IPRIORITYR0 \<le> offset \<and> offset < GICD_IPRIORITYR254 + 4
         then read_priority (gicd_priority d) GICD_IPRIORITYR0 offset access_width
       else if in_bank GICD_ICFGR0 GICD_ICFGR63 offset \<and> access_width = 32
         then read_bank (gicd_configuration d) GICD_ICFGR0 offset
       else if in_bank GICD_IGRPMODR0 GICD_IGRPMODR31 offset \<and> access_width = 32
         then read_bank (gicd_group_modifier d) GICD_IGRPMODR0 offset
       else if in_bank GICD_IROUTER0 GICD_IROUTER1019 offset \<and> access_width = 64
         then rust_nth (gicd_router d) ((offset - GICD_IROUTER0) div 8)
       else if offset = GICD_PIDR2 \<and> access_width = 32 then Some (push_bit 4 GIC_REVISION)
       else Some 0);
     Some (Inr result) }"

lemma drop_bit_1_less: "(v :: u64) \<noteq> 0 \<Longrightarrow> unat (drop_bit 1 v) < unat v"
proof -
  assume "v \<noteq> 0"
  then have "0 < unat v" by (simp add: unat_gt_0)
  then show ?thesis unfolding unat_drop_bit_eq by (simp add: drop_bit_eq_div)
qed

text \<open>
  The loop after a write to \<open>ISENABLERn\<close> or \<open>ISPENDRn\<close>: every interrupt whose bit is
  set in \<open>value\<close> and that passes \<open>check\<close> is triggered.
\<close>

function gicd_trigger_loop ::
  "(GicDistributorMmio \<Rightarrow> u32 \<Rightarrow> bool option) \<Rightarrow> usize \<Rightarrow> u64 \<Rightarrow> GicDistributorMmio \<Rightarrow> Cpu \<Rightarrow>
     (GicDistributorMmio \<times> Cpu) option" where
  "gicd_trigger_loop check int_id value d c =
     (if value = 0 then Some (d, c)
      else do {
        b \<leftarrow> (if value AND 1 \<noteq> 0 then check d (word_of_nat int_id) else Some False);
        (d1, c1) \<leftarrow> (if b then gicd_trigger_interrupt (word_of_nat int_id) None d c else Some (d, c));
        gicd_trigger_loop check (int_id + 1) (drop_bit 1 value) d1 c1 })"
  by pat_completeness auto

termination
  by (relation "measure (\<lambda>(check, int_id, value, d, c). unat value)") (auto intro: drop_bit_1_less [unfolded One_nat_def])

declare gicd_trigger_loop.simps [simp del]

definition GicDistributorMmio_write ::
  "usize \<Rightarrow> u64 \<Rightarrow> u64 \<Rightarrow> GicDistributorMmio \<Rightarrow> Cpu \<Rightarrow> ((unit + unit) \<times> GicDistributorMmio \<times> Cpu) option" where
  "GicDistributorMmio_write offset access_width value d c = do {
     (d', c') \<leftarrow>
      (if offset = GICD_CTLR \<and> access_width = 32 then Some (d\<lparr>gicd_ctlr := ucast value\<rparr>, c)
       else if in_bank GICD_IGROUPR0 GICD_IGROUPR31 offset \<and> access_width = 32 then do {
         r \<leftarrow> update_bank (gicd_group d) GICD_IGROUPR0 offset (\<lambda>_. ucast value);
         Some (d\<lparr>gicd_group := r\<rparr>, c) }
       else if in_bank GICD_ISENABLER0 GICD_ISENABLER31 offset \<and> access_width = 32 then do {
         r \<leftarrow> update_bank (gicd_enable d) GICD_ISENABLER0 offset (\<lambda>r. r OR ucast value);
         gicd_trigger_loop gicd_get_pending ((offset - GICD_ISENABLER0) div 4 * 32) value (d\<lparr>gicd_enable := r\<rparr>) c }
       else if in_bank GICD_ICENABLER0 GICD_ICENABLER31 offset \<and> access_width = 32 then do {
         r \<leftarrow> update_bank (gicd_enable d) GICD_ICENABLER0 offset (\<lambda>r. r AND NOT (ucast value));
         Some (d\<lparr>gicd_enable := r\<rparr>, c) }
       else if in_bank GICD_ISPENDR0 GICD_ISPENDR31 offset \<and> access_width = 32 then do {
         r \<leftarrow> update_bank (gicd_pending d) GICD_ISPENDR0 offset (\<lambda>r. r OR ucast value);
         gicd_trigger_loop gicd_get_enable ((offset - GICD_ISPENDR0) div 4 * 4 * 8) value (d\<lparr>gicd_pending := r\<rparr>) c }
       else if in_bank GICD_ICPENDR0 GICD_ICPENDR31 offset \<and> access_width = 32 then do {
         r \<leftarrow> update_bank (gicd_pending d) GICD_ICPENDR0 offset (\<lambda>r. r AND NOT (ucast value));
         Some (d\<lparr>gicd_pending := r\<rparr>, c) }
       else if in_bank GICD_ISACTIVER0 GICD_ISACTIVER31 offset \<and> access_width = 32 then do {
         r \<leftarrow> update_bank (gicd_active d) GICD_ISACTIVER0 offset (\<lambda>r. r OR ucast value);
         Some (d\<lparr>gicd_active := r\<rparr>, c) }
       else if in_bank GICD_ICACTIVER0 GICD_ICACTIVER31 offset \<and> access_width = 32 then do {
         r \<leftarrow> update_bank (gicd_active d) GICD_ICACTIVER0 offset (\<lambda>r. r AND NOT (ucast value));
         Some (d\<lparr>gicd_active := r\<rparr>, c) }
       else if GICD_IPRIORITYR0 \<le> offset \<and> offset < GICD_IPRIORITYR254 + 4 then do {
         r \<leftarrow> write_priority (gicd_priority d) GICD_IPRIORITYR0 offset access_width value;
         Some (d\<lparr>gicd_priority := r\<rparr>, c) }
       else if in_bank GICD_ICFGR0 GICD_ICFGR63 offset \<and> access_width = 32 then do {
         r \<leftarrow> update_bank (gicd_configuration d) GICD_ICFGR0 offset (\<lambda>_. ucast value);
         Some (d\<lparr>gicd_configuration := r\<rparr>, c) }
       else if in_bank GICD_IGRPMODR0 GICD_IGRPMODR31 offset \<and> access_width = 32 then do {
         r \<leftarrow> update_bank (gicd_group_modifier d) GICD_IGRPMODR0 offset (\<lambda>_. ucast value);
         Some (d\<lparr>gicd_group_modifier := r\<rparr>, c) }
       else if in_bank GICD_IROUTER0 GICD_IROUTER1019 offset \<and> access_width = 64 then do {
         r \<leftarrow> rust_update (gicd_router d) ((offset - GICD_IROUTER0) div 8) value;
         Some (d\<lparr>gicd_router := r\<rparr>, c) }
       else Some (d, c));
     Some (Inr (), d', c') }"

section \<open>Redistributor\<close>

record GicRedistributorMmio =
  gicr_affinity :: u64
  gicr_ctlr :: u32
  gicr_waker :: u32
  gicr_group :: u32
  gicr_enable :: u32
  gicr_pending :: u32
  gicr_active :: u32
  gicr_priority :: "u32 list"
  gicr_configuration :: "u32 list"
  gicr_group_modifier :: u32
  gicr_to_inject_interrupt :: "u64 list"

definition GICR_CTLR :: usize where "GICR_CTLR = 0x0000"
definition GICR_TYPER :: usize where "GICR_TYPER = 0x0008"
definition GICR_WAKER :: usize where "GICR_WAKER = 0x0014"
definition GICR_PIDR2 :: usize where "GICR_PIDR2 = 0xFFE8"
definition GICR_VLPI_BASE :: usize where "GICR_VLPI_BASE = 0x10000"
definition GICR_IGROUPR0 :: usize where "GICR_IGROUPR0 = GICR_VLPI_BASE + 0x0080"
definition GICR_ISENABLER0 :: usize where "GICR_ISENABLER0 = GICR_VLPI_BASE + 0x0100"
definition GICR_ICENABLER0 :: usize where "GICR_ICENABLER0 = GICR_VLPI_BASE + 0x0180"
definition GICR_ISPENDR0 :: usize where "GICR_ISPENDR0 = GICR_VLPI_BASE + 0x0200"
definition GICR_ICPENDR0 :: usize where "GICR_ICPENDR0 = GICR_VLPI_BASE + 0x0280"
definition GICR_ISACTIVER0 :: usize where "GICR_ISACTIVER0 = GICR_VLPI_BASE + 0x0300"
definition GICR_ICACTIVER0 :: usize where "GICR_ICACTIVER0 = GICR_VLPI_BASE + 0x0380"
definition GICR_IPRIORITYR0 :: usize where "GICR_IPRIORITYR0 = GICR_VLPI_BASE + 0x0400"
definition GICR_IPRIORITYR7 :: usize where "GICR_IPRIORITYR7 = GICR_VLPI_BASE + 0x041C"
definition GICR_ICFGR0 :: usize where "GICR_ICFGR0 = GICR_VLPI_BASE + 0x0C00"
definition GICR_ICFGR1 :: usize where "GICR_ICFGR1 = GICR_VLPI_BASE + 0x0C04"
definition GICR_IGRPMODR0 :: usize where "GICR_IGRPMODR0 = GICR_VLPI_BASE + 0x0D00"
definition GICR_TYPER_LAST :: u32 where "GICR_TYPER_LAST = push_bit 4 1"
definition GICR_WAKER_CHILDREN_ASLEEP :: u32 where "GICR_WAKER_CHILDREN_ASLEEP = push_bit 2 1"
definition GICR_WAKER_PROCESSOR_SLEEP :: u32 where "GICR_WAKER_PROCESSOR_SLEEP = push_bit 1 1"

lemmas gicr_offsets = GICR_CTLR_def GICR_TYPER_def GICR_WAKER_def GICR_PIDR2_def GICR_VLPI_BASE_def GICR_IGROUPR0_def
  GICR_ISENABLER0_def GICR_ICENABLER0_def GICR_ISPENDR0_def GICR_ICPENDR0_def GICR_ISACTIVER0_def
  GICR_ICACTIVER0_def GICR_IPRIORITYR0_def GICR_IPRIORITYR7_def GICR_ICFGR0_def GICR_ICFGR1_def GICR_IGRPMODR0_def

definition GicRedistributorMmio_MMIO_SIZE :: usize where "GicRedistributorMmio_MMIO_SIZE = 0x10000 * 2"

definition GicRedistributorMmio_new :: "u64 \<Rightarrow> GicRedistributorMmio" where
  "GicRedistributorMmio_new mpidr = \<lparr>gicr_affinity = mpidr_to_affinity mpidr, gicr_ctlr = 0,
     gicr_waker = GICR_WAKER_CHILDREN_ASLEEP, gicr_group = 0, gicr_enable = 0, gicr_pending = 0, gicr_active = 0,
     gicr_priority = replicate 8 0, gicr_configuration = replicate 2 0, gicr_group_modifier = 0,
     gicr_to_inject_interrupt = []\<rparr>"

definition generate_typer :: "GicRedistributorMmio \<Rightarrow> u64" where
  "generate_typer r = ucast GICR_TYPER_LAST OR push_bit 32 (aff0 (gicr_affinity r)) OR push_bit 40 (aff1 (gicr_affinity r))
     OR push_bit 48 (aff2 (gicr_affinity r)) OR push_bit 56 (aff3 (gicr_affinity r))"

text \<open>A shift of a \<open>u32\<close> by 32 or more panics.\<close>

definition gicr_bit :: "u32 \<Rightarrow> u32 \<Rightarrow> u32 option" where
  "gicr_bit reg int_id = (if unat int_id < 32 then Some (drop_bit (unat int_id) reg AND 1) else None)"

definition gicr_set_bit :: "u32 \<Rightarrow> u32 \<Rightarrow> bool \<Rightarrow> u32 option" where
  "gicr_set_bit reg int_id b =
     (if unat int_id < 32 then Some (if b then reg OR push_bit (unat int_id) 1 else reg AND NOT (push_bit (unat int_id) 1))
      else None)"

definition gicr_get_group :: "GicRedistributorMmio \<Rightarrow> u32 \<Rightarrow> u32 option" where
  "gicr_get_group r int_id = gicr_bit (gicr_group r) int_id"
definition gicr_get_enable :: "GicRedistributorMmio \<Rightarrow> u32 \<Rightarrow> bool option" where
  "gicr_get_enable r int_id = do { b \<leftarrow> gicr_bit (gicr_enable r) int_id; Some (b \<noteq> 0) }"
definition gicr_get_pending :: "GicRedistributorMmio \<Rightarrow> u32 \<Rightarrow> bool option" where
  "gicr_get_pending r int_id = do { b \<leftarrow> gicr_bit (gicr_pending r) int_id; Some (b \<noteq> 0) }"
definition gicr_change_pending_status :: "u32 \<Rightarrow> bool \<Rightarrow> GicRedistributorMmio \<Rightarrow> GicRedistributorMmio option" where
  "gicr_change_pending_status int_id is_pending r =
     do { v \<leftarrow> gicr_set_bit (gicr_pending r) int_id is_pending; Some (r\<lparr>gicr_pending := v\<rparr>) }"
definition gicr_change_active_status :: "u32 \<Rightarrow> bool \<Rightarrow> GicRedistributorMmio \<Rightarrow> GicRedistributorMmio option" where
  "gicr_change_active_status int_id is_active r =
     do { v \<leftarrow> gicr_set_bit (gicr_active r) int_id is_active; Some (r\<lparr>gicr_active := v\<rparr>) }"
definition gicr_get_priority :: "GicRedistributorMmio \<Rightarrow> u32 \<Rightarrow> u32 option" where
  "gicr_get_priority r int_id = (let register = unat int_id div 4; offset = unat int_id mod 4 * 8 in
     do { v \<leftarrow> rust_nth (gicr_priority r) register; Some (drop_bit offset v AND 0xFF) })"
definition gicr_get_group_modifier :: "GicRedistributorMmio \<Rightarrow> u32 \<Rightarrow> u32 option" where
  "gicr_get_group_modifier r int_id = gicr_bit (gicr_group_modifier r) int_id"

definition gicr_trigger_interrupt ::
  "u32 \<Rightarrow> u32 option \<Rightarrow> GicRedistributorMmio \<Rightarrow> Cpu \<Rightarrow> (GicRedistributorMmio \<times> Cpu) option" where
  "gicr_trigger_interrupt int_id physical_int_id r c =
     (if gicr_waker r AND GICR_WAKER_CHILDREN_ASLEEP \<noteq> 0 then Some (r, c)
      else do {
        r1 \<leftarrow> gicr_change_pending_status int_id True r;
        e \<leftarrow> gicr_get_enable r1 int_id;
        (if \<not> e then Some (r1, c)
         else do {
           m \<leftarrow> gicr_get_group_modifier r1 int_id;
           (if m = 1 then Some (r1, c)
            else do {
              grp \<leftarrow> gicr_get_group r1 int_id;
              priority \<leftarrow> gicr_get_priority r1 int_id;
              let list_entry = create_list_register_entry int_id grp priority physical_int_id;
              (if gicr_affinity r1 = mpidr_to_affinity (get_mpidr_el1 c)
               then Some (r1, add_virtual_interrupt list_entry c)
               else do {
                 _ \<leftarrow> rust_assert (aff0 (gicr_affinity r1) < 16);
                 Some (r1\<lparr>gicr_to_inject_interrupt := gicr_to_inject_interrupt r1 @ [list_entry]\<rparr>,
                       set_icc_sgi1r_el1 (inject_sgi (gicr_affinity r1)) c) }) }) }) })"

definition GicRedistributorMmio_read :: "GicRedistributorMmio \<Rightarrow> usize \<Rightarrow> u64 \<Rightarrow> (unit + u64) option" where
  "GicRedistributorMmio_read r offset access_width = do {
     result \<leftarrow>
      (if offset = GICR_CTLR \<and> access_width = 32 then Some (ucast (gicr_ctlr r))
       else if offset = GICR_TYPER \<and> (access_width = 32 \<or> access_width = 64) then Some (generate_typer r)
       else if offset = GICR_TYPER + 4 \<and> access_width = 32 then Some (drop_bit 32 (generate_typer r))
       else if offset = GICR_WAKER \<and> access_width = 32 then Some (ucast (gicr_waker r))
       else if offset = GICR_PIDR2 \<and> access_width = 32 then Some (push_bit 4 GIC_REVISION)
       else if offset = GICR_IGROUPR0 \<and> access_width = 32 then Some (ucast (gicr_group r))
       else if (offset = GICR_ISENABLER0 \<or> offset = GICR_ICENABLER0) \<and> access_width = 32
         then Some (ucast (gicr_enable r))
       else if (offset = GICR_ISPENDR0 \<or> offset = GICR_ICPENDR0) \<and> access_width = 32
         then Some (ucast (gicr_pending r))
       else if (offset = GICR_ISACTIVER0 \<or> offset = GICR_ICACTIVER0) \<and> access_width = 32
         then Some (ucast (gicr_active r))
       else if in_bank GICR_IPRIORITYR0 GICR_IPRIORITYR7 offset \<and> access_width = 32
         then read_bank (gicr_priority r) GICR_IPRIORITYR0 offset
       else if in_bank GICR_ICFGR0 GICR_ICFGR1 offset \<and> access_width = 32
         then read_bank (gicr_configuration r) GICR_ICFGR0 offset
       else if offset = GICR_IGRPMODR0 \<and> access_width = 32 then Some (ucast (gicr_group_modifier r))
       else Some 0);
     Some (Inr result) }"

text \<open>The same loop over the 32 interrupts of the redistributor, \<open>n\<close> of them left.\<close>

fun gicr_trigger_loop ::
  "(GicRedistributorMmio \<Rightarrow> u32 \<Rightarrow> bool option) \<Rightarrow> nat \<Rightarrow> u64 \<Rightarrow> GicRedistributorMmio \<Rightarrow> Cpu \<Rightarrow>
     (GicRedistributorMmio \<times> Cpu) option" where
  "gicr_trigger_loop check 0 value r c = Some (r, c)"
| "gicr_trigger_loop check (Suc n) value r c =
     (if value = 0 then Some (r, c)
      else do {
        b \<leftarrow> (if value AND 1 \<noteq> 0 then check r (word_of_nat (31 - n)) else Some False);
        (r1, c1) \<leftarrow> (if b then gicr_trigger_interrupt (word_of_nat (31 - n)) None r c else Some (r, c));
        gicr_trigger_loop check n (drop_bit 1 value) r1 c1 })"

text \<open>A write to \<open>CTLR\<close> does not end the chain of tests in the source, but no later test matches it.\<close>

definition GicRedistributorMmio_write ::
  "usize \<Rightarrow> u64 \<Rightarrow> u64 \<Rightarrow> GicRedistributorMmio \<Rightarrow> Cpu \<Rightarrow> ((unit + unit) \<times> GicRedistributorMmio \<times> Cpu) option" where
  "GicRedistributorMmio_write offset access_width value r0 c = do {
     let r = (if offset = GICR_CTLR \<and> access_width = 32 then r0\<lparr>gicr_ctlr := ucast value\<rparr> else r0);
     (r', c') \<leftarrow>
      (if offset = GICR_WAKER \<and> access_width = 32 then
         Some (r\<lparr>gicr_waker := (if (ucast value :: u32) AND GICR_WAKER_PROCESSOR_SLEEP = 0 then 0
                 else GICR_WAKER_CHILDREN_ASLEEP OR GICR_WAKER_PROCESSOR_SLEEP)\<rparr>, c)
       else if offset = GICR_IGROUPR0 \<and> access_width = 32 then Some (r\<lparr>gicr_group := ucast value\<rparr>, c)
       else if offset = GICR_ISENABLER0 \<and> access_width = 32 then
         gicr_trigger_loop gicr_get_pending 32 value (r\<lparr>gicr_enable := gicr_enable r OR ucast value\<rparr>) c
       else if offset = GICR_ICENABLER0 \<and> access_width = 32 then
         Some (r\<lparr>gicr_enable := gicr_enable r AND NOT (ucast value)\<rparr>, c)
       else if offset = GICR_ISPENDR0 \<and> access_width = 32 then
         gicr_trigger_loop gicr_get_enable 32 value (r\<lparr>gicr_pending := gicr_pending r OR ucast value\<rparr>) c
       else if offset = GICR_ICPENDR0 \<and> access_width = 32 then
         Some (r\<lparr>gicr_pending := gicr_pending r AND NOT (ucast value)\<rparr>, c)
       else if offset = GICR_ISACTIVER0 \<and> access_width = 32 then
         Some (r\<lparr>gicr_active := gicr_active r OR ucast value\<rparr>, c)
       else if offset = GICR_ICACTIVER0 \<and> access_width = 32 then
         Some (r\<lparr>gicr_active := gicr_active r AND NOT (ucast value)\<rparr>, c)
       else if GICR_IPRIORITYR0 \<le> offset \<and> offset < GICR_IPRIORITYR7 + 4 then do {
         v \<leftarrow> write_priority (gicr_priority r) GICR_IPRIORITYR0 offset access_width value;
         Some (r\<lparr>gicr_priority := v\<rparr>, c) }
       else if in_bank GICR_ICFGR0 GICR_ICFGR1 offset \<and> access_width = 32 then do {
         v \<leftarrow> update_bank (gicr_configuration r) GICR_ICFGR0 offset (\<lambda>_. ucast value);
         Some (r\<lparr>gicr_configuration := v\<rparr>, c) }
       else if offset = GICR_IGRPMODR0 \<and> access_width = 32 then Some (r\<lparr>gicr_group_modifier := ucast value\<rparr>, c)
       else Some (r, c));
     Some (Inr (), r', c') }"

section \<open>Interrupts of the hypervisor for the emulated controller\<close>

text \<open>
  \<open>inject_interrupt_handler\<close>, which runs on the processor of the target VM, moves all
  waiting entries of both queues to the list registers.
\<close>

definition inject_interrupt_handler ::
  "GicDistributorMmio \<Rightarrow> GicRedistributorMmio \<Rightarrow> Cpu \<Rightarrow> GicDistributorMmio \<times> GicRedistributorMmio \<times> Cpu" where
  "inject_interrupt_handler d r c =
     (d\<lparr>gicd_to_inject_interrupt := []\<rparr>, r\<lparr>gicr_to_inject_interrupt := []\<rparr>,
      fold add_virtual_interrupt (gicr_to_inject_interrupt r)
        (fold add_virtual_interrupt (gicd_to_inject_interrupt d) c))"

text \<open>The body of the loop of \<open>maintenance_interrupt_handler\<close> for register \<open>i\<close>, and the loop.\<close>

definition complete_interrupt ::
  "nat \<Rightarrow> GicDistributorMmio \<Rightarrow> GicRedistributorMmio \<Rightarrow> Cpu \<Rightarrow> (GicDistributorMmio \<times> GicRedistributorMmio \<times> Cpu) option" where
  "complete_interrupt i d r c =
     (let entry = (GET_ICH_LRN_EL2 ! i) c; int_id = ucast (entry AND ICH_LRN_EL2_VINTID) :: u32
      in (if int_id \<ge> 32 then do {
            d1 \<leftarrow> gicd_change_pending_status int_id False d;
            d2 \<leftarrow> gicd_change_active_status int_id False d1;
            Some (d2, r, (SET_ICH_LRN_EL2 ! i) 0 c) }
          else do {
            r1 \<leftarrow> gicr_change_pending_status int_id False r;
            r2 \<leftarrow> gicr_change_active_status int_id False r1;
            Some (d, r2, (SET_ICH_LRN_EL2 ! i) 0 c) }))"

fun maintenance_loop ::
  "nat list \<Rightarrow> u64 \<Rightarrow> GicDistributorMmio \<Rightarrow> GicRedistributorMmio \<Rightarrow> Cpu \<Rightarrow>
     (GicDistributorMmio \<times> GicRedistributorMmio \<times> Cpu) option" where
  "maintenance_loop [] eoi_bits d r c = Some (d, r, c)"
| "maintenance_loop (i # js) eoi_bits d r c = do {
     (d1, r1, c1) \<leftarrow> (if eoi_bits AND 1 \<noteq> 0 then complete_interrupt i d r c else Some (d, r, c));
     maintenance_loop js (drop_bit 1 eoi_bits) d1 r1 c1 }"

definition maintenance_interrupt_handler ::
  "GicDistributorMmio \<Rightarrow> GicRedistributorMmio \<Rightarrow> Cpu \<Rightarrow> (GicDistributorMmio \<times> GicRedistributorMmio \<times> Cpu) option" where
  "maintenance_interrupt_handler d r c = maintenance_loop [0..<supported_lrn c] (get_ich_eisr_el2 c) d r c"

end
