(* ===== verification/GicProps.thy ===== *)
theory GicProps
  imports GicMmio
begin

text \<open>
  Properties of the emulated interrupt controller. The registers of the
  distributor are read as sets of interrupt numbers (\<open>bank_bits\<close>); writes of the
  guest refine the operations of the architecture on these sets, no access panics
  outside the cases that are stated, and an interrupt for another processor arrives
  there as it would have arrived locally.
\<close>

section \<open>Register banks as sets\<close>

definition bank_bits :: "u32 list \<Rightarrow> nat set" where
  "bank_bits regs = {n. n div 32 < length regs \<and> bit (regs ! (n div 32)) (n mod 32)}"

text \<open>The interrupts that a value written to word \<open>k\<close> names.\<close>

definition value_bits :: "nat \<Rightarrow> u64 \<Rightarrow> nat set" where
  "value_bits k v = {n. n div 32 = k \<and> bit v (n mod 32)}"

lemma bit_test: "(drop_bit i (w :: 'a::len word) AND 1 \<noteq> 0) \<longleftrightarrow> bit w i"
  "(drop_bit i w AND 1 = 1) \<longleftrightarrow> bit w i" "(drop_bit i w AND 1 = 0) \<longleftrightarrow> \<not> bit w i"
  by (auto simp: and_one_eq bit_iff_odd_drop_bit odd_iff_mod_2_eq_one even_iff_mod_2_eq_zero)

lemma bank_bits_set:
  assumes "n div 32 < length regs"
  shows "bank_bits (regs[n div 32 := regs ! (n div 32) OR push_bit (n mod 32) 1]) = insert n (bank_bits regs)"
    and "bank_bits (regs[n div 32 := regs ! (n div 32) AND NOT (push_bit (n mod 32) 1)]) = bank_bits regs - {n}"
proof -
  have b: "bit (push_bit (n mod 32) 1 :: u32) (m mod 32) \<longleftrightarrow> m mod 32 = n mod 32" for m
    by (auto simp: bit_push_bit_iff bit_1_iff simp del: push_bit_of_1)
  have eq: "m = n \<longleftrightarrow> m div 32 = n div 32 \<and> m mod 32 = n mod 32" for m by (metis div_mult_mod_eq)
  show "bank_bits (regs[n div 32 := regs ! (n div 32) OR push_bit (n mod 32) 1]) = insert n (bank_bits regs)"
    using assms by (auto simp: bank_bits_def nth_list_update bit_or_iff b eq simp del: push_bit_of_1)
  have lt: "m mod 32 < 32" for m :: nat by simp
  show "bank_bits (regs[n div 32 := regs ! (n div 32) AND NOT (push_bit (n mod 32) 1)]) = bank_bits regs - {n}"
    using assms lt by (auto simp: bank_bits_def nth_list_update bit_and_iff bit_not_iff b eq simp del: push_bit_of_1)
qed

lemma bank_bits_update:
  assumes "k < length regs"
  shows "bank_bits (regs[k := regs ! k OR ucast v]) = bank_bits regs \<union> value_bits k v"
    and "bank_bits (regs[k := regs ! k AND NOT (ucast v)]) = bank_bits regs - value_bits k v"
    and "bank_bits (regs[k := ucast v]) = {n \<in> bank_bits regs. n div 32 \<noteq> k} \<union> value_bits k v"
  using assms by (auto simp: bank_bits_def value_bits_def nth_list_update bit_or_iff bit_and_iff bit_not_iff bit_ucast_iff
      split: if_splits)

lemma set_bit_same: "n \<in> bank_bits regs \<Longrightarrow> regs[n div 32 := regs ! (n div 32) OR push_bit (n mod 32) 1] = regs"
proof -
  assume n: "n \<in> bank_bits regs"
  have "regs ! (n div 32) OR push_bit (n mod 32) 1 = regs ! (n div 32)"
    by (rule bit_word_eqI)
      (use n in \<open>auto simp: bank_bits_def bit_or_iff bit_push_bit_iff bit_1_iff simp del: push_bit_of_1\<close>)
  then show ?thesis by simp
qed

section \<open>Well-formedness\<close>

definition gicd_wf :: "GicDistributorMmio \<Rightarrow> bool" where
  "gicd_wf d \<longleftrightarrow> length (gicd_group d) = 32 \<and> length (gicd_enable d) = 32 \<and> length (gicd_pending d) = 32 \<and>
     length (gicd_active d) = 32 \<and> length (gicd_priority d) = 255 \<and> length (gicd_configuration d) = 64 \<and>
     length (gicd_group_modifier d) = 32 \<and> length (gicd_router d) = 1020"

definition gicr_wf :: "GicRedistributorMmio \<Rightarrow> bool" where
  "gicr_wf r \<longleftrightarrow> length (gicr_priority r) = 8 \<and> length (gicr_configuration r) = 2"

lemma gicd_get:
  assumes "gicd_wf d" and "unat int_id < 1024"
  shows "gicd_get_enable d int_id = Some (unat int_id \<in> bank_bits (gicd_enable d))"
    and "gicd_get_pending d int_id = Some (unat int_id \<in> bank_bits (gicd_pending d))"
    and "gicd_get_group d int_id = Some (of_bool (unat int_id \<in> bank_bits (gicd_group d)))"
    and "gicd_get_group_modifier d int_id = Some (of_bool (unat int_id \<in> bank_bits (gicd_group_modifier d)))"
  using assms
  by (auto simp: gicd_wf_def gicd_get_enable_def gicd_get_pending_def gicd_get_group_def gicd_get_group_modifier_def
      Let_def bank_bits_def rust_nth_def bit_test of_bool_def)

lemma gicd_change:
  assumes "gicd_wf d" and "unat int_id < 1024"
  shows "\<exists>p. gicd_change_pending_status int_id b d = Some (d\<lparr>gicd_pending := p\<rparr>) \<and> length p = 32 \<and>
      bank_bits p = (if b then insert (unat int_id) else (\<lambda>P. P - {unat int_id})) (bank_bits (gicd_pending d))"
    and "\<exists>p. gicd_change_active_status int_id b d = Some (d\<lparr>gicd_active := p\<rparr>) \<and> length p = 32 \<and>
      bank_bits p = (if b then insert (unat int_id) else (\<lambda>P. P - {unat int_id})) (bank_bits (gicd_active d))"
  using assms bank_bits_set [of "unat int_id" "gicd_pending d"] bank_bits_set [of "unat int_id" "gicd_active d"]
  by (auto simp: gicd_wf_def gicd_change_pending_status_def gicd_change_active_status_def Let_def rust_nth_def
      rust_update_def simp del: push_bit_of_1)

lemma gicd_get_priority_router:
  assumes "gicd_wf d" and "unat int_id < 1020"
  shows "\<exists>p. gicd_get_priority d int_id = Some p \<and> unat p < 256"
    and "\<exists>r \<in> set (gicd_router d). gicd_get_router d int_id = Some r"
proof -
  have "unat (v AND 0xFF) < 256" for v :: u32
    using word_and_le1 [of v "0xFF"] unfolding word_le_nat_alt by simp
  then show "\<exists>p. gicd_get_priority d int_id = Some p \<and> unat p < 256"
    using assms by (auto simp: gicd_wf_def gicd_get_priority_def Let_def rust_nth_def)
  show "\<exists>r \<in> set (gicd_router d). gicd_get_router d int_id = Some r"
    using assms by (auto simp: gicd_wf_def gicd_get_router_def rust_nth_def)
qed

section \<open>Triggering an interrupt\<close>

definition same_affinity :: "u64 \<Rightarrow> u64 \<Rightarrow> bool" where
  "same_affinity v w \<longleftrightarrow> aff3 v = aff3 w \<and> aff2 v = aff2 w \<and> aff1 v = aff1 w \<and> aff0 v = aff0 w"

text \<open>The distributor forwards interrupt \<open>n\<close>.\<close>

definition gicd_forwards :: "GicDistributorMmio \<Rightarrow> nat \<Rightarrow> bool" where
  "gicd_forwards d n \<longleftrightarrow> n \<in> bank_bits (gicd_enable d) \<and> n \<notin> bank_bits (gicd_group_modifier d) \<and>
     gicd_ctlr d AND GICD_CTLR_ARE_S \<noteq> 0"

definition gicd_on :: "GicDistributorMmio \<Rightarrow> bool" where
  "gicd_on d \<longleftrightarrow> gicd_ctlr d AND GICD_CTLR_ENABLE_GRP1NS \<noteq> 0"

text \<open>The entry of interrupt \<open>n\<close> and the processor it is routed to.\<close>

definition gicd_entry :: "GicDistributorMmio \<Rightarrow> u32 \<Rightarrow> u32 option \<Rightarrow> u64" where
  "gicd_entry d int_id p = create_list_register_entry int_id (the (gicd_get_group d int_id))
     (the (gicd_get_priority d int_id)) p"

definition gicd_route :: "GicDistributorMmio \<Rightarrow> u32 \<Rightarrow> u64" where
  "gicd_route d int_id = gicd_router d ! unat int_id"

lemma gicd_pending_only:
  "gicd_get_enable (d\<lparr>gicd_pending := p\<rparr>) i = gicd_get_enable d i"
  "gicd_get_group (d\<lparr>gicd_pending := p\<rparr>) i = gicd_get_group d i"
  "gicd_get_group_modifier (d\<lparr>gicd_pending := p\<rparr>) i = gicd_get_group_modifier d i"
  "gicd_get_priority (d\<lparr>gicd_pending := p\<rparr>) i = gicd_get_priority d i"
  "gicd_get_router (d\<lparr>gicd_pending := p\<rparr>) i = gicd_get_router d i"
  by (simp_all add: gicd_get_enable_def gicd_get_group_def gicd_get_group_modifier_def gicd_get_priority_def
      gicd_get_router_def)

text \<open>The pending words with interrupt \<open>n\<close> added.\<close>

definition pended :: "GicDistributorMmio \<Rightarrow> nat \<Rightarrow> u32 list" where
  "pended d n = (gicd_pending d)[n div 32 := gicd_pending d ! (n div 32) OR push_bit (n mod 32) 1]"

lemma pended_props:
  assumes "gicd_wf d" and "n < 1024"
  shows "length (pended d n) = 32" "bank_bits (pended d n) = insert n (bank_bits (gicd_pending d))"
    "n \<in> bank_bits (gicd_pending d) \<Longrightarrow> pended d n = gicd_pending d"
  using assms bank_bits_set(1) [of n "gicd_pending d"] set_bit_same [of n "gicd_pending d"]
  by (simp_all add: pended_def gicd_wf_def)

lemma gicd_trigger_outcome:
  assumes wf: "gicd_wf d" and id: "unat int_id < 1020" and on: "gicd_on d"
  shows "gicd_trigger_interrupt int_id q d c =
      (if \<not> gicd_forwards d (unat int_id) then Some (d\<lparr>gicd_pending := pended d (unat int_id)\<rparr>, c)
       else if same_affinity (gicd_route d int_id) (mpidr_el1 c)
         then Some (d\<lparr>gicd_pending := pended d (unat int_id)\<rparr>, add_virtual_interrupt (gicd_entry d int_id q) c)
       else if aff0 (gicd_route d int_id) < 16
         then Some (d\<lparr>gicd_pending := pended d (unat int_id),
                  gicd_to_inject_interrupt := gicd_to_inject_interrupt d @ [gicd_entry d int_id q]\<rparr>,
                set_icc_sgi1r_el1 (inject_sgi (gicd_route d int_id)) c)
       else None)"
proof -
  have id': "unat int_id < 1024" using id by simp
  have ch: "gicd_change_pending_status int_id True d = Some (d\<lparr>gicd_pending := pended d (unat int_id)\<rparr>)"
    using wf id' by (simp add: pended_def gicd_wf_def gicd_change_pending_status_def Let_def rust_nth_def rust_update_def
        del: push_bit_of_1)
  obtain pr where pr: "gicd_get_priority d int_id = Some pr" using gicd_get_priority_router(1) [OF wf id] by blast
  have ro: "gicd_get_router d int_id = Some (gicd_route d int_id)"
    using wf id by (simp add: gicd_get_router_def gicd_route_def gicd_wf_def rust_nth_def)
  show ?thesis
    using on by (simp add: gicd_trigger_interrupt_def gicd_on_def ch gicd_pending_only gicd_get [OF wf id'] pr ro
        gicd_forwards_def same_affinity_def gicd_entry_def Let_def rust_assert_def get_mpidr_el1_def)
qed

text \<open>Every router names a processor that the code can signal.\<close>

definition gicd_routable :: "GicDistributorMmio \<Rightarrow> bool" where
  "gicd_routable d \<longleftrightarrow> (\<forall>r \<in> set (gicd_router d). aff0 r < 16)"

lemma gicd_trigger_known:
  assumes wf: "gicd_wf d" "gicd_routable d" and n: "n < 1020" and pend: "n \<in> bank_bits (gicd_pending d)"
  shows "\<exists>q c'. gicd_trigger_interrupt (word_of_nat n) p d c = Some (d\<lparr>gicd_to_inject_interrupt := q\<rparr>, c')"
proof (cases "gicd_on d")
  case True
  have u: "unat (word_of_nat n :: u32) = n" using n by (simp add: unat_of_nat take_bit_nat_eq_self)
  have "aff0 (gicd_route d (word_of_nat n)) < 16"
    using wf n by (simp add: gicd_routable_def gicd_route_def u gicd_wf_def)
  then show ?thesis
    using gicd_trigger_outcome [OF wf(1) _ True, of "word_of_nat n" p c, unfolded u, OF n] pended_props(3) [OF wf(1) _ pend] n
    by (auto intro: exI [of _ "gicd_to_inject_interrupt d"])
next
  case False
  then show ?thesis
    by (intro exI [of _ "gicd_to_inject_interrupt d"] exI [of _ c]) (simp add: gicd_trigger_interrupt_def gicd_on_def)
qed

lemma gicd_trigger_loop_outcome:
  assumes "gicd_wf d" and "gicd_routable d" and "\<And>i. bit v i \<Longrightarrow> int_id + i < 1020"
    and "\<And>q i. bit v i \<Longrightarrow> \<exists>b. check (d\<lparr>gicd_to_inject_interrupt := q\<rparr>) (word_of_nat (int_id + i)) = Some b \<and>
      (b \<longrightarrow> int_id + i \<in> bank_bits (gicd_pending d))"
  shows "\<exists>q c'. gicd_trigger_loop check int_id v d c = Some (d\<lparr>gicd_to_inject_interrupt := q\<rparr>, c')"
  using assms
proof (induction check int_id v d c rule: gicd_trigger_loop.induct)
  case (1 check int_id v d c)
  have keep: "d\<lparr>gicd_to_inject_interrupt := gicd_to_inject_interrupt d\<rparr> = d" by simp
  show ?case
  proof (cases "v = 0")
    case True
    then show ?thesis by (subst gicd_trigger_loop.simps) (auto intro: exI [of _ "gicd_to_inject_interrupt d"])
  next
    case False
    have odd: "v AND 1 \<noteq> 0 \<longleftrightarrow> bit v 0" using bit_test(1) [of 0 v] by simp
    obtain b where b: "(if v AND 1 \<noteq> 0 then check d (word_of_nat int_id) else Some False) = Some b"
        "b \<longrightarrow> bit v 0 \<and> int_id \<in> bank_bits (gicd_pending d)"
      using "1.prems"(4) [of 0 "gicd_to_inject_interrupt d"] unfolding keep odd by (cases "bit v 0") auto
    obtain q c1 where t: "(if b then gicd_trigger_interrupt (word_of_nat int_id) None d c else Some (d, c)) =
        Some (d\<lparr>gicd_to_inject_interrupt := q\<rparr>, c1)"
    proof (cases b)
      case True
      then show thesis using gicd_trigger_known [OF "1.prems"(1,2), of int_id None c] "1.prems"(3) [of 0] b(2) that by auto
    next
      case False
      then show thesis by (intro that [of "gicd_to_inject_interrupt d" c]) simp
    qed
    have "\<exists>q' c'. gicd_trigger_loop check (int_id + 1) (drop_bit 1 v) (d\<lparr>gicd_to_inject_interrupt := q\<rparr>) c1 =
        Some (d\<lparr>gicd_to_inject_interrupt := q, gicd_to_inject_interrupt := q'\<rparr>, c')"
    proof (rule "1.IH" [OF False b(1) t refl])
      show "gicd_wf (d\<lparr>gicd_to_inject_interrupt := q\<rparr>)" using "1.prems"(1) by (simp add: gicd_wf_def)
      show "gicd_routable (d\<lparr>gicd_to_inject_interrupt := q\<rparr>)" using "1.prems"(2) by (simp add: gicd_routable_def)
      show "int_id + 1 + i < 1020" if "bit (drop_bit 1 v) i" for i
        using "1.prems"(3) [of "Suc i"] that by (simp add: bit_drop_bit_eq)
      show "\<exists>b. check (d\<lparr>gicd_to_inject_interrupt := q, gicd_to_inject_interrupt := q'\<rparr>) (word_of_nat (int_id + 1 + i)) = Some b \<and>
          (b \<longrightarrow> int_id + 1 + i \<in> bank_bits (gicd_pending (d\<lparr>gicd_to_inject_interrupt := q\<rparr>)))"
        if "bit (drop_bit 1 v) i" for q' i
        using "1.prems"(4) [of "Suc i" q'] that by (simp add: bit_drop_bit_eq)
    qed
    then show ?thesis using False b(1) t by (subst gicd_trigger_loop.simps) auto
  qed
qed

section \<open>Guest writes as operations on sets\<close>

datatype bank_op = SetEnable | ClearEnable | SetPending | ClearPending | SetActive | ClearActive

fun bank_offset :: "bank_op \<Rightarrow> usize" where
  "bank_offset SetEnable = GICD_ISENABLER0"
| "bank_offset ClearEnable = GICD_ICENABLER0"
| "bank_offset SetPending = GICD_ISPENDR0"
| "bank_offset ClearPending = GICD_ICPENDR0"
| "bank_offset SetActive = GICD_ISACTIVER0"
| "bank_offset ClearActive = GICD_ICACTIVER0"

text \<open>The abstract state: the enabled, the pending and the active interrupts.\<close>

record gic_view =
  enabled :: "nat set"
  pending :: "nat set"
  active :: "nat set"

definition gicd_view :: "GicDistributorMmio \<Rightarrow> gic_view" where
  "gicd_view d = \<lparr>enabled = bank_bits (gicd_enable d), pending = bank_bits (gicd_pending d),
     active = bank_bits (gicd_active d)\<rparr>"

fun bank_effect :: "bank_op \<Rightarrow> nat set \<Rightarrow> gic_view \<Rightarrow> gic_view" where
  "bank_effect SetEnable N g = g\<lparr>enabled := enabled g \<union> N\<rparr>"
| "bank_effect ClearEnable N g = g\<lparr>enabled := enabled g - N\<rparr>"
| "bank_effect SetPending N g = g\<lparr>pending := pending g \<union> N\<rparr>"
| "bank_effect ClearPending N g = g\<lparr>pending := pending g - N\<rparr>"
| "bank_effect SetActive N g = g\<lparr>active := active g \<union> N\<rparr>"
| "bank_effect ClearActive N g = g\<lparr>active := active g - N\<rparr>"

lemma update_bank_word:
  assumes "length regs = 32" and "k < 32"
  shows "update_bank regs first (first + 4 * k) f = Some (regs[k := f (regs ! k)])"
  using assms by (simp add: update_bank_def rust_nth_def rust_update_def)

text \<open>What a write to word \<open>k\<close> of each bank runs.\<close>

lemma write_bank_run:
  assumes wf: "gicd_wf d" and k: "k < 32"
  shows "GicDistributorMmio_write (bank_offset op + 4 * k) 32 v d c =
    (case op of
       SetEnable \<Rightarrow> do { (d', c') \<leftarrow> gicd_trigger_loop gicd_get_pending (k * 32) v
           (d\<lparr>gicd_enable := (gicd_enable d)[k := gicd_enable d ! k OR ucast v]\<rparr>) c; Some (Inr (), d', c') }
     | SetPending \<Rightarrow> do { (d', c') \<leftarrow> gicd_trigger_loop gicd_get_enable (k * 32) v
           (d\<lparr>gicd_pending := (gicd_pending d)[k := gicd_pending d ! k OR ucast v]\<rparr>) c; Some (Inr (), d', c') }
     | ClearEnable \<Rightarrow> Some (Inr (), d\<lparr>gicd_enable := (gicd_enable d)[k := gicd_enable d ! k AND NOT (ucast v)]\<rparr>, c)
     | ClearPending \<Rightarrow> Some (Inr (), d\<lparr>gicd_pending := (gicd_pending d)[k := gicd_pending d ! k AND NOT (ucast v)]\<rparr>, c)
     | SetActive \<Rightarrow> Some (Inr (), d\<lparr>gicd_active := (gicd_active d)[k := gicd_active d ! k OR ucast v]\<rparr>, c)
     | ClearActive \<Rightarrow> Some (Inr (), d\<lparr>gicd_active := (gicd_active d)[k := gicd_active d ! k AND NOT (ucast v)]\<rparr>, c))"
proof -
  have "length (gicd_enable d) = 32" "length (gicd_pending d) = 32" "length (gicd_active d) = 32"
    using wf by (simp_all add: gicd_wf_def)
  note u = this [THEN update_bank_word [OF _ k]]
  show ?thesis
    using k by (cases op) (simp_all add: GicDistributorMmio_write_def gicd_offsets in_bank_def
        u(1) [of "0x100", simplified] u(1) [of "0x180", simplified] u(2) [of "0x200", simplified]
        u(2) [of "0x280", simplified] u(3) [of "0x300", simplified] u(3) [of "0x380", simplified] mult.commute [of k])
qed

lemma value_index:
  assumes "k < 32" and "unat (v :: u64) < (if k = 31 then 2 ^ 28 else 2 ^ 32)" and "bit v i"
  shows "k * 32 + i < 1020" "i < 32" "unat (word_of_nat (k * 32 + i) :: u32) = k * 32 + i"
proof -
  have i: "i < (if k = 31 then 28 else 32)"
    using assms(2,3) bit_small [of v 28 i] bit_small [of v 32 i] by (simp split: if_splits)
  then show n: "k * 32 + i < 1020" and "i < 32" using assms(1) by (simp_all split: if_splits)
  show "unat (word_of_nat (k * 32 + i) :: u32) = k * 32 + i"
    using n unfolding unat_of_nat by (simp add: take_bit_nat_eq_self)
qed

lemma enable_loop:
  assumes wf: "gicd_wf d" "gicd_routable d" and k: "k < 32" and v: "unat v < (if k = 31 then 2 ^ 28 else 2 ^ 32)"
  shows "\<exists>q c'. gicd_trigger_loop gicd_get_pending (k * 32) v d c = Some (d\<lparr>gicd_to_inject_interrupt := q\<rparr>, c')"
proof (rule gicd_trigger_loop_outcome [OF wf])
  fix i assume i: "bit v i"
  note n = value_index [OF k v i]
  show "k * 32 + i < 1020" by (rule n)
  show "\<exists>b. gicd_get_pending (d\<lparr>gicd_to_inject_interrupt := q\<rparr>) (word_of_nat (k * 32 + i)) = Some b \<and>
      (b \<longrightarrow> k * 32 + i \<in> bank_bits (gicd_pending d))" for q
    using gicd_get(2) [of "d\<lparr>gicd_to_inject_interrupt := q\<rparr>" "word_of_nat (k * 32 + i)"] wf(1) n
    by (simp add: gicd_wf_def)
qed

lemma pending_loop:
  assumes wf: "gicd_wf d" "gicd_routable d" and k: "k < 32" and v: "unat v < (if k = 31 then 2 ^ 28 else 2 ^ 32)"
    and pend: "value_bits k v \<subseteq> bank_bits (gicd_pending d)"
  shows "\<exists>q c'. gicd_trigger_loop gicd_get_enable (k * 32) v d c = Some (d\<lparr>gicd_to_inject_interrupt := q\<rparr>, c')"
proof (rule gicd_trigger_loop_outcome [OF wf])
  fix i assume i: "bit v i"
  note n = value_index [OF k v i]
  show "k * 32 + i < 1020" by (rule n)
  have "k * 32 + i \<in> value_bits k v" using n(2) i by (simp add: value_bits_def)
  then show "\<exists>b. gicd_get_enable (d\<lparr>gicd_to_inject_interrupt := q\<rparr>) (word_of_nat (k * 32 + i)) = Some b \<and>
      (b \<longrightarrow> k * 32 + i \<in> bank_bits (gicd_pending d))" for q
    using gicd_get(1) [of "d\<lparr>gicd_to_inject_interrupt := q\<rparr>" "word_of_nat (k * 32 + i)"] wf(1) n pend
    by (auto simp: gicd_wf_def)
qed

text \<open>
  C11. A guest write to a set or clear register of the distributor refines the operation on
  sets of interrupts: it returns without a panic, the enabled, pending and active sets
  change exactly as the register demands, and the arrays keep their sizes. The four
  reserved interrupt numbers from 1020 on may not be named, and routers must name
  processors that can be signalled.
\<close>

theorem GicDistributorMmio_write_refines:
  assumes "gicd_wf d" and "gicd_routable d" and "k < 32" and "unat v < (if k = 31 then 2 ^ 28 else 2 ^ 32)"
  shows "\<exists>d' c'. GicDistributorMmio_write (bank_offset op + 4 * k) 32 v d c = Some (Inr (), d', c') \<and>
    gicd_view d' = bank_effect op (value_bits k v) (gicd_view d) \<and> gicd_wf d' \<and> gicd_routable d'"
proof -
  have len: "k < length (gicd_enable d)" "k < length (gicd_pending d)" "k < length (gicd_active d)"
    using assms(1,3) by (simp_all add: gicd_wf_def)
  note b = len [THEN bank_bits_update(1)] len [THEN bank_bits_update(2)]
  note run = write_bank_run [OF assms(1,3), of op v c]
  show ?thesis
  proof (cases op)
    case SetEnable
    let ?d = "d\<lparr>gicd_enable := (gicd_enable d)[k := gicd_enable d ! k OR ucast v]\<rparr>"
    obtain q c' where "gicd_trigger_loop gicd_get_pending (k * 32) v ?d c = Some (?d\<lparr>gicd_to_inject_interrupt := q\<rparr>, c')"
      using enable_loop [of ?d k v c] assms by (auto simp: gicd_wf_def gicd_routable_def)
    then show ?thesis using run assms(1,2) SetEnable by (simp add: gicd_view_def b gicd_wf_def gicd_routable_def)
  next
    case SetPending
    let ?d = "d\<lparr>gicd_pending := (gicd_pending d)[k := gicd_pending d ! k OR ucast v]\<rparr>"
    obtain q c' where "gicd_trigger_loop gicd_get_enable (k * 32) v ?d c = Some (?d\<lparr>gicd_to_inject_interrupt := q\<rparr>, c')"
      using pending_loop [of ?d k v c] assms b by (auto simp: gicd_wf_def gicd_routable_def)
    then show ?thesis using run assms(1,2) SetPending by (simp add: gicd_view_def b gicd_wf_def gicd_routable_def)
  qed (use run assms(1,2) in \<open>simp_all add: gicd_view_def b gicd_wf_def gicd_routable_def\<close>)
qed

section \<open>Reads\<close>

lemma read_bank_total:
  "offset - first < 4 * length regs \<Longrightarrow> \<exists>r. read_bank regs first offset = Some r"
  "4 * length regs \<le> offset - first \<Longrightarrow> read_bank regs first offset = None"
  by (auto simp: read_bank_def rust_nth_def)

lemma read_priority_total:
  "offset - first < 4 * length regs \<Longrightarrow> \<exists>r. read_priority regs first offset w = Some r"
  by (auto simp: read_priority_def rust_nth_def Let_def)

text \<open>The words past the last \<open>IGRPMODR\<close> register that the code still takes for registers.\<close>

definition gicd_hole :: "usize \<Rightarrow> u64 \<Rightarrow> bool" where
  "gicd_hole offset w \<longleftrightarrow> 0xD80 \<le> offset \<and> offset \<le> 0xF7C \<and> w = 32"

lemma gicd_read_banks:
  assumes "gicd_wf d"
  shows "in_bank GICD_IGROUPR0 GICD_IGROUPR31 offset \<Longrightarrow> \<exists>r. read_bank (gicd_group d) GICD_IGROUPR0 offset = Some r"
    and "in_bank GICD_ISENABLER0 GICD_ISENABLER31 offset \<Longrightarrow> \<exists>r. read_bank (gicd_enable d) GICD_ISENABLER0 offset = Some r"
    and "in_bank GICD_ICENABLER0 GICD_ICENABLER31 offset \<Longrightarrow> \<exists>r. read_bank (gicd_enable d) GICD_ICENABLER0 offset = Some r"
    and "in_bank GICD_ISPENDR0 GICD_ISPENDR31 offset \<Longrightarrow> \<exists>r. read_bank (gicd_pending d) GICD_ISPENDR0 offset = Some r"
    and "in_bank GICD_ICPENDR0 GICD_ICPENDR31 offset \<Longrightarrow> \<exists>r. read_bank (gicd_pending d) GICD_ICPENDR0 offset = Some r"
    and "in_bank GICD_ISACTIVER0 GICD_ISACTIVER31 offset \<Longrightarrow> \<exists>r. read_bank (gicd_active d) GICD_ISACTIVER0 offset = Some r"
    and "in_bank GICD_ICACTIVER0 GICD_ICACTIVER31 offset \<Longrightarrow> \<exists>r. read_bank (gicd_active d) GICD_ICACTIVER0 offset = Some r"
    and "in_bank GICD_ICFGR0 GICD_ICFGR63 offset \<Longrightarrow> \<exists>r. read_bank (gicd_configuration d) GICD_ICFGR0 offset = Some r"
    and "\<not> gicd_hole offset 32 \<Longrightarrow> in_bank GICD_IGRPMODR0 GICD_IGRPMODR31 offset \<Longrightarrow>
      \<exists>r. read_bank (gicd_group_modifier d) GICD_IGRPMODR0 offset = Some r"
  using assms by (auto intro!: read_bank_total(1) simp: in_bank_def gicd_offsets gicd_wf_def gicd_hole_def)

lemma gicd_read_other:
  assumes "gicd_wf d"
  shows "GICD_IPRIORITYR0 \<le> offset \<Longrightarrow> offset < GICD_IPRIORITYR254 + 4 \<Longrightarrow>
      \<exists>r. read_priority (gicd_priority d) GICD_IPRIORITYR0 offset w = Some r"
    and "in_bank GICD_IROUTER0 GICD_IROUTER1019 offset \<Longrightarrow>
      \<exists>r. rust_nth (gicd_router d) ((offset - GICD_IROUTER0) div 8) = Some r"
  using assms by (auto intro!: read_priority_total simp: in_bank_def gicd_offsets gicd_wf_def)

lemma gicd_read_ok:
  assumes "gicd_wf d" and "\<not> gicd_hole offset w"
  shows "\<exists>v. GicDistributorMmio_read d offset w = Some (Inr v)"
  unfolding GicDistributorMmio_read_def
  using gicd_read_banks [OF assms(1), of offset] gicd_read_other(1) [OF assms(1), of offset w]
    gicd_read_other(2) [OF assms(1), of offset] assms(2)
  by (auto simp: gicd_hole_def)

text \<open>
  C17. Reading the distributor never panics and never fails, at any offset and width,
  except at the 32-bit words from 0xD80 to 0xF7C; there it always panics.
\<close>

theorem GicDistributorMmio_read_total:
  assumes "gicd_wf d"
  shows "if gicd_hole offset w then GicDistributorMmio_read d offset w = None
    else \<exists>v. GicDistributorMmio_read d offset w = Some (Inr v)"
proof (cases "gicd_hole offset w")
  case True
  have "4 * length (gicd_group_modifier d) \<le> offset - GICD_IGRPMODR0"
    using True assms by (auto simp: gicd_hole_def gicd_wf_def gicd_offsets)
  then show ?thesis
    using True read_bank_total(2) by (simp add: gicd_hole_def GicDistributorMmio_read_def in_bank_def gicd_offsets)
next
  case False
  then show ?thesis using gicd_read_ok [OF assms] by simp
qed

section \<open>Delivery\<close>


text \<open>
  C12. Remote delivery is equivalent to local delivery: when an interrupt is triggered on a
  processor it is not routed to, the handler that the target processor runs leaves the
  target's list registers as if the interrupt had been triggered there, and leaves the
  distributor as that would have left it.
\<close>

theorem remote_delivery_equals_local:
  assumes "gicd_wf d" and "unat int_id < 1020" and "aff0 (gicd_route d int_id) < 16" and "gicd_on d"
    and "gicd_forwards d (unat int_id)" and "gicd_to_inject_interrupt d = []" and "gicr_to_inject_interrupt r = []"
    and "\<not> same_affinity (gicd_route d int_id) (mpidr_el1 source)"
    and "same_affinity (gicd_route d int_id) (mpidr_el1 target)"
  shows "\<exists>d1 c1 d2 c2. gicd_trigger_interrupt int_id q d source = Some (d1, c1) \<and>
    gicd_trigger_interrupt int_id q d target = Some (d2, c2) \<and> inject_interrupt_handler d1 r target = (d2, r, c2)"
  using gicd_trigger_outcome [OF assms(1,2,4), of q source] gicd_trigger_outcome [OF assms(1,2,4), of q target] assms(3,5-9)
  by (simp add: inject_interrupt_handler_def)

text \<open>
  The signal to another processor never carries its \<open>Aff1\<close>: the field of \<open>ICC_SGI1R_EL1\<close>
  for it, bits 16 to 23, is always zero, and \<open>Aff1\<close> lands on top of \<open>Aff3\<close>.
\<close>

theorem inject_sgi_loses_aff1:
  assumes "aff0 v < 16"
  shows "drop_bit 16 (inject_sgi v) AND 0xff = 0 \<and> drop_bit 48 (inject_sgi v) AND 0xff = aff3 v OR aff1 v"
proof -
  have ff: "bit (0xff :: u64) n \<longleftrightarrow> n < 8" for n by (auto simp: low_mask bit_mask_iff simp del: bit_numeral_word_iff)
  have b: "bit (aff3 v) n \<longleftrightarrow> n < 8 \<and> bit v (32 + n)" "bit (aff2 v) n \<longleftrightarrow> n < 8 \<and> bit v (16 + n)"
    "bit (aff1 v) n \<longleftrightarrow> n < 8 \<and> bit v (8 + n)" for n
    by (auto simp: aff3_def aff2_def aff1_def bit_drop_bit_eq bit_and_iff ff simp del: bit_numeral_word_iff)
  have id: "bit (push_bit 24 (ucast INJECT_INTERRUPT_INT_ID) :: u64) n \<Longrightarrow> 24 \<le> n \<and> n < 32" for n
  proof -
    have "unat INJECT_INTERRUPT_INT_ID < 2 ^ 4" by (simp add: INJECT_INTERRUPT_INT_ID_def)
    from bit_small [OF this, of "n - 24"]
    show "bit (push_bit 24 (ucast INJECT_INTERRUPT_INT_ID) :: u64) n \<Longrightarrow> 24 \<le> n \<and> n < 32" by (auto simp: bit_push_bit_iff)
  qed
  have "unat (aff0 v) < 16" using assms unfolding word_less_nat_alt by simp
  then have sgi: "bit (inject_sgi v) n \<longleftrightarrow> (48 \<le> n \<and> (bit (aff3 v) (n - 48) \<or> bit (aff1 v) (n - 48))) \<or>
      (32 \<le> n \<and> bit (aff2 v) (n - 32)) \<or> bit (push_bit 24 (ucast INJECT_INTERRUPT_INT_ID) :: u64) n \<or> n = unat (aff0 v)"
    if "n < 64" for n
    using that unfolding inject_sgi_def bit_or_iff by (auto simp: bit_push_bit_iff bit_1_iff simp del: push_bit_of_1)
  have "drop_bit 16 (inject_sgi v) AND 0xff = 0"
  proof (rule bit_word_eqI)
    show "bit (drop_bit 16 (inject_sgi v) AND 0xff) n \<longleftrightarrow> bit (0 :: u64) n" for n
      using sgi [of "16 + n"] id [of "16 + n"] \<open>unat (aff0 v) < 16\<close>
      by (auto simp: bit_and_iff bit_drop_bit_eq ff simp del: bit_numeral_word_iff)
  qed
  moreover have "drop_bit 48 (inject_sgi v) AND 0xff = aff3 v OR aff1 v"
  proof (rule bit_word_eqI)
    show "bit (drop_bit 48 (inject_sgi v) AND 0xff) n \<longleftrightarrow> bit (aff3 v OR aff1 v) n" for n
      using sgi [of "48 + n"] id [of "48 + n"] \<open>unat (aff0 v) < 16\<close>
      by (auto simp: bit_and_iff bit_or_iff bit_drop_bit_eq ff b simp del: bit_numeral_word_iff)
  qed
  ultimately show ?thesis by blast
qed

section \<open>Redistributor\<close>

definition gicr_view :: "GicRedistributorMmio \<Rightarrow> gic_view" where
  "gicr_view r = \<lparr>enabled = bank_bits [gicr_enable r], pending = bank_bits [gicr_pending r],
     active = bank_bits [gicr_active r]\<rparr>"

lemma gicr_change:
  assumes "unat int_id < 32"
  shows "\<exists>v. gicr_change_pending_status int_id b r = Some (r\<lparr>gicr_pending := v\<rparr>) \<and>
      bank_bits [v] = (if b then insert (unat int_id) else (\<lambda>P. P - {unat int_id})) (bank_bits [gicr_pending r])"
    and "\<exists>v. gicr_change_active_status int_id b r = Some (r\<lparr>gicr_active := v\<rparr>) \<and>
      bank_bits [v] = (if b then insert (unat int_id) else (\<lambda>P. P - {unat int_id})) (bank_bits [gicr_active r])"
  using assms bank_bits_set [of "unat int_id" "[gicr_pending r]"] bank_bits_set [of "unat int_id" "[gicr_active r]"]
  by (auto simp: gicr_change_pending_status_def gicr_change_active_status_def gicr_set_bit_def simp del: push_bit_of_1)

lemma gicr_get_total:
  assumes "gicr_wf r" and "unat int_id < 32"
  shows "\<exists>b. gicr_get_enable r int_id = Some b" "\<exists>b. gicr_get_pending r int_id = Some b"
    "\<exists>g. gicr_get_group r int_id = Some g" "\<exists>g. gicr_get_group_modifier r int_id = Some g"
    "\<exists>p. gicr_get_priority r int_id = Some p"
  using assms by (auto simp: gicr_get_enable_def gicr_get_pending_def gicr_get_group_def gicr_get_group_modifier_def
      gicr_get_priority_def gicr_bit_def Let_def rust_nth_def gicr_wf_def)

lemma gicr_trigger_total:
  assumes wf: "gicr_wf r" and aff: "aff0 (gicr_affinity r) < 16" and id: "unat int_id < 32"
  shows "\<exists>r' c'. gicr_trigger_interrupt int_id p r c = Some (r', c') \<and> gicr_wf r' \<and> gicr_affinity r' = gicr_affinity r"
proof (cases "gicr_waker r AND GICR_WAKER_CHILDREN_ASLEEP \<noteq> 0")
  case True
  then show ?thesis using wf by (simp add: gicr_trigger_interrupt_def)
next
  case False
  obtain v where ch: "gicr_change_pending_status int_id True r = Some (r\<lparr>gicr_pending := v\<rparr>)"
    using gicr_change(1) [OF id, of True r] by auto
  have wf1: "gicr_wf (r\<lparr>gicr_pending := v\<rparr>)" using wf by (simp add: gicr_wf_def)
  obtain e m g q where get: "gicr_get_enable (r\<lparr>gicr_pending := v\<rparr>) int_id = Some e"
      "gicr_get_group_modifier (r\<lparr>gicr_pending := v\<rparr>) int_id = Some m"
      "gicr_get_group (r\<lparr>gicr_pending := v\<rparr>) int_id = Some g" "gicr_get_priority (r\<lparr>gicr_pending := v\<rparr>) int_id = Some q"
    using gicr_get_total [OF wf1 id] by blast
  show ?thesis
    using False wf1 aff wf by (simp add: gicr_trigger_interrupt_def ch get Let_def rust_assert_def gicr_wf_def)
qed

lemma gicr_trigger_loop_total:
  assumes "gicr_wf r" and "aff0 (gicr_affinity r) < 16" and "n \<le> 32"
    and "\<And>r i. gicr_wf r \<Longrightarrow> unat i < 32 \<Longrightarrow> \<exists>b. check r i = Some b"
  shows "\<exists>r' c'. gicr_trigger_loop check n v r c = Some (r', c') \<and> gicr_wf r' \<and> gicr_affinity r' = gicr_affinity r"
  using assms(1-3)
proof (induction n arbitrary: v r c)
  case (Suc n)
  let ?i = "word_of_nat (31 - n) :: u32"
  have i: "unat ?i < 32" by (simp add: unat_of_nat take_bit_nat_eq_self)
  obtain b where b: "(if v AND 1 \<noteq> 0 then check r ?i else Some False) = Some b"
    using assms(4) [OF Suc.prems(1) i] by (cases "v AND 1 \<noteq> 0") auto
  obtain r1 c1 where t: "(if b then gicr_trigger_interrupt ?i None r c else Some (r, c)) = Some (r1, c1)"
      "gicr_wf r1" "gicr_affinity r1 = gicr_affinity r"
    using gicr_trigger_total [OF Suc.prems(1,2) i, of None c] Suc.prems(1) by (cases b) auto
  show ?case
    using Suc.IH [of r1 "drop_bit 1 v" c1] Suc.prems(1,2,3) t b unfolding gicr_trigger_loop.simps by auto
qed simp

lemma write_total:
  assumes "offset - first < 4 * length regs"
  shows "\<exists>v. write_priority regs first offset w x = Some v \<and> length v = length regs"
    and "\<exists>v. update_bank regs first offset f = Some v \<and> length v = length regs"
  using assms by (auto simp: write_priority_def update_bank_def rust_nth_def rust_update_def Let_def)

definition gicr_ok :: "u64 \<Rightarrow> (GicRedistributorMmio \<times> Cpu) option \<Rightarrow> bool" where
  "gicr_ok aff m \<longleftrightarrow> (\<exists>r' c'. m = Some (r', c') \<and> gicr_wf r' \<and> gicr_affinity r' = aff)"

lemma gicr_ok_if: "(b \<Longrightarrow> gicr_ok aff m) \<Longrightarrow> (\<not> b \<Longrightarrow> gicr_ok aff m') \<Longrightarrow> gicr_ok aff (if b then m else m')"
  by simp

lemma gicr_ok_Some: "gicr_wf r \<Longrightarrow> gicr_affinity r = aff \<Longrightarrow> gicr_ok aff (Some (r, c))"
  by (simp add: gicr_ok_def)

lemma gicr_write_total:
  assumes "gicr_wf r" and "aff0 (gicr_affinity r) < 16"
  shows "\<exists>r' c'. GicRedistributorMmio_write offset w x r c = Some (Inr (), r', c') \<and> gicr_wf r' \<and>
      gicr_affinity r' = gicr_affinity r"
proof -
  define r1 where "r1 = (if offset = GICR_CTLR \<and> w = 32 then r\<lparr>gicr_ctlr := ucast x\<rparr> else r)"
  have r1: "gicr_wf r1" "gicr_affinity r1 = gicr_affinity r" using assms(1) by (simp_all add: r1_def gicr_wf_def)
  have loop: "gicr_ok (gicr_affinity r) (gicr_trigger_loop check 32 x (f r1) c)"
    if "check = gicr_get_pending \<or> check = gicr_get_enable" "gicr_wf (f r1)" "gicr_affinity (f r1) = gicr_affinity r1" for check f
    using gicr_trigger_loop_total [of "f r1" 32 check x c] gicr_get_total(1,2) that r1 assms(2) by (auto simp: gicr_ok_def)
  have prio: "\<exists>v. write_priority (gicr_priority r1) GICR_IPRIORITYR0 offset w x = Some v \<and> length v = 8"
    if "GICR_IPRIORITYR0 \<le> offset \<and> offset < GICR_IPRIORITYR7 + 4"
    using write_total(1) [of offset GICR_IPRIORITYR0 "gicr_priority r1" w x] that r1(1) by (auto simp: gicr_wf_def gicr_offsets)
  have cfg: "\<exists>v. update_bank (gicr_configuration r1) GICR_ICFGR0 offset (\<lambda>_. ucast x) = Some v \<and> length v = 2"
    if "in_bank GICR_ICFGR0 GICR_ICFGR1 offset \<and> w = 32"
    using write_total(2) [of offset GICR_ICFGR0 "gicr_configuration r1" "\<lambda>_. ucast x"] that r1(1)
    by (auto simp: gicr_wf_def gicr_offsets in_bank_def)
  note en = loop [of gicr_get_pending "\<lambda>r. r\<lparr>gicr_enable := gicr_enable r OR ucast x\<rparr>"]
  note pe = loop [of gicr_get_enable "\<lambda>r. r\<lparr>gicr_pending := gicr_pending r OR ucast x\<rparr>"]
  have "\<exists>m. GicRedistributorMmio_write offset w x r c = do { (r', c') \<leftarrow> m; Some (Inr (), r', c') } \<and> gicr_ok (gicr_affinity r) m"
    unfolding GicRedistributorMmio_write_def r1_def [symmetric] Let_def
    by (rule exI, rule conjI, rule refl, intro gicr_ok_if gicr_ok_Some)
      (use en pe r1 in \<open>auto simp: gicr_wf_def gicr_ok_def dest!: prio cfg\<close>)
  then show ?thesis by (auto simp: gicr_ok_def)
qed

lemma gicr_read_ok:
  assumes "gicr_wf r"
  shows "\<exists>v. GicRedistributorMmio_read r offset w = Some (Inr v)"
  using assms read_bank_total(1) [of offset GICR_IPRIORITYR0 "gicr_priority r"]
    read_bank_total(1) [of offset GICR_ICFGR0 "gicr_configuration r"]
  by (auto simp: GicRedistributorMmio_read_def gicr_wf_def in_bank_def gicr_offsets)

text \<open>
  C18. Reading and writing the redistributor never panics and never fails, at any offset, width
  and value, if its processor can be signalled; its arrays keep their sizes.
\<close>

theorem GicRedistributorMmio_total:
  assumes "gicr_wf r" and "aff0 (gicr_affinity r) < 16"
  shows "(\<exists>v. GicRedistributorMmio_read r offset w = Some (Inr v)) \<and>
    (\<exists>r' c'. GicRedistributorMmio_write offset w x r c = Some (Inr (), r', c') \<and> gicr_wf r' \<and>
      gicr_affinity r' = gicr_affinity r)"
  using gicr_read_ok [OF assms(1)] gicr_write_total [OF assms] by blast

section \<open>Completion of interrupts\<close>

text \<open>The interrupts that registers \<open>a\<close> to \<open>n\<close> report as completed.\<close>

definition completed :: "nat \<Rightarrow> nat \<Rightarrow> u64 \<Rightarrow> u64 list \<Rightarrow> nat set" where
  "completed a n eisr regs = {unat (vintid (regs ! i)) | i. a \<le> i \<and> i < n \<and> bit eisr i}"

lemma vintid_word: "unat (ucast (e AND ICH_LRN_EL2_VINTID) :: u32) = unat (vintid e)"
proof -
  have "bit (vintid e) n \<Longrightarrow> n < 32" for n
    unfolding vintid_def low_mask by (auto simp: bit_and_iff bit_mask_iff)
  then have "bit (ucast (ucast (vintid e) :: u32) :: u64) n \<longleftrightarrow> bit (vintid e) n" for n
    unfolding bit_ucast32 by (auto simp: bit_ucast_iff)
  then have "ucast (ucast (vintid e) :: u32) = vintid e" by (intro bit_word_eqI)
  then have "unat (ucast (ucast (vintid e) :: u32) :: u64) = unat (vintid e)" by (rule arg_cong)
  then show ?thesis unfolding vintid_def by simp
qed

text \<open>The state of the emulated controller with the interrupts of \<open>S\<close> neither pending nor active.\<close>

definition retire :: "nat set \<Rightarrow> gic_view \<Rightarrow> gic_view" where
  "retire S g = g\<lparr>pending := pending g - S, active := active g - S\<rparr>"

lemma retire_retire: "retire S (retire T g) = retire (S \<union> T) g"
proof -
  have "A - T - S = A - (S \<union> T)" for A by blast
  then show ?thesis by (simp add: retire_def)
qed

lemma gicd_retire:
  assumes "gicd_wf d" and "unat int_id < 1024"
  shows "\<exists>d'. do { d1 \<leftarrow> gicd_change_pending_status int_id False d; gicd_change_active_status int_id False d1 } = Some d' \<and>
    gicd_wf d' \<and> gicd_view d' = retire {unat int_id} (gicd_view d)"
proof -
  obtain p where p: "gicd_change_pending_status int_id False d = Some (d\<lparr>gicd_pending := p\<rparr>)" "length p = 32"
      "bank_bits p = bank_bits (gicd_pending d) - {unat int_id}"
    using gicd_change(1) [OF assms, of False] by auto
  have wf: "gicd_wf (d\<lparr>gicd_pending := p\<rparr>)" using assms(1) p(2) by (simp add: gicd_wf_def)
  show ?thesis using gicd_change(2) [OF wf assms(2), of False] p wf by (auto simp: gicd_view_def retire_def gicd_wf_def)
qed

lemma gicr_retire:
  assumes "unat int_id < 32"
  shows "\<exists>r'. do { r1 \<leftarrow> gicr_change_pending_status int_id False r; gicr_change_active_status int_id False r1 } = Some r' \<and>
    gicr_view r' = retire {unat int_id} (gicr_view r)"
  using gicr_change(1) [OF assms, of False r] gicr_change(2) [OF assms, of False] by (fastforce simp: gicr_view_def retire_def)

lemma complete_outcome:
  assumes wf: "gicd_wf d" and i: "i < 3" and id: "unat (vintid (lrs c ! i)) < 1024"
  shows "\<exists>d' r'. complete_interrupt i d r c = Some (d', r', set_lr i 0 c) \<and> gicd_wf d' \<and>
    gicd_view d' = retire ({unat (vintid (lrs c ! i))} \<inter> {32..}) (gicd_view d) \<and>
    gicr_view r' = retire ({unat (vintid (lrs c ! i))} \<inter> {..<32}) (gicr_view r)"
proof -
  define int_id where "int_id = (ucast (lrs c ! i AND ICH_LRN_EL2_VINTID) :: u32)"
  have u: "unat int_id = unat (vintid (lrs c ! i))" unfolding int_id_def by (rule vintid_word)
  have big: "int_id \<ge> 32 \<longleftrightarrow> unat int_id \<ge> 32" unfolding word_le_nat_alt by simp
  have none: "retire {} g = g" for g by (simp add: retire_def)
  show ?thesis
  proof (cases "unat int_id \<ge> 32")
    case True
    then have "{unat int_id} \<inter> {32..} = {unat int_id}" "{unat int_id} \<inter> {..<32} = {}" by auto
    then show ?thesis
      using gicd_retire [OF wf, of int_id] id True
      by (auto simp: complete_interrupt_def get_lr [OF i] int_id_def [symmetric] u [symmetric] big set_lr_def none)
  next
    case False
    then have "{unat int_id} \<inter> {32..} = {}" "{unat int_id} \<inter> {..<32} = {unat int_id}" by auto
    then show ?thesis
      using gicr_retire [of int_id r] wf False
      by (auto simp: complete_interrupt_def get_lr [OF i] int_id_def [symmetric] u [symmetric] big set_lr_def none)
  qed
qed

lemma completed_step:
  assumes "a < n" and "\<And>i. a < i \<Longrightarrow> i < n \<Longrightarrow> regs' ! i = regs ! i"
  shows "completed a n e regs = completed (Suc a) n e regs' \<union> (if bit e a then {unat (vintid (regs ! a))} else {})"
  unfolding completed_def using assms by (auto simp: Suc_le_eq) (metis le_neq_implies_less)+

lemma maintenance_loop_outcome:
  assumes "n \<le> 3" and "gicd_wf d" and "\<And>i. a \<le> i \<Longrightarrow> i < n \<Longrightarrow> bit e i \<Longrightarrow> unat (vintid (lrs c ! i)) < 1024"
  shows "\<exists>d' r' c'. maintenance_loop [a..<n] (drop_bit a e) d r c = Some (d', r', c') \<and> gicd_wf d' \<and>
    gicd_view d' = retire (completed a n e (lrs c) \<inter> {32..}) (gicd_view d) \<and>
    gicr_view r' = retire (completed a n e (lrs c) \<inter> {..<32}) (gicr_view r) \<and>
    (\<forall>i<3. lrs c' ! i = (if a \<le> i \<and> i < n \<and> bit e i then 0 else lrs c ! i))"
  using assms
proof (induction "n - a" arbitrary: a d r c)
  case 0
  then have "completed a n e (lrs c) = {}" by (auto simp: completed_def)
  then show ?case using 0 by (auto simp: retire_def)
next
  case (Suc k)
  have a: "a < n" "a < 3" "k = n - Suc a" using Suc.hyps(2) Suc.prems(1) by auto
  have upt: "[a..<n] = a # [Suc a..<n]" using a by (simp add: upt_conv_Cons)
  have bit: "drop_bit a e AND 1 \<noteq> 0 \<longleftrightarrow> bit e a" by (rule bit_test)
  have drop: "drop_bit 1 (drop_bit a e) = drop_bit (Suc a) e" by simp
  obtain d1 r1 c1 where step: "(if drop_bit a e AND 1 \<noteq> 0 then complete_interrupt a d r c else Some (d, r, c)) = Some (d1, r1, c1)"
      "gicd_wf d1" "lrs c1 = (if bit e a then (lrs c)[a := 0] else lrs c)"
      "gicd_view d1 = retire ((if bit e a then {unat (vintid (lrs c ! a))} else {}) \<inter> {32..}) (gicd_view d)"
      "gicr_view r1 = retire ((if bit e a then {unat (vintid (lrs c ! a))} else {}) \<inter> {..<32}) (gicr_view r)"
  proof (cases "bit e a")
    case True
    then show thesis
      using complete_outcome [OF Suc.prems(2) a(2) Suc.prems(3) [OF _ a(1)], of r] that lrs_set_lr [OF a(2)] bit by auto
  next
    case False
    then show thesis using Suc.prems(2) bit by (intro that [of d r c]) (simp_all add: retire_def)
  qed
  have keep: "lrs c1 ! i = lrs c ! i" if "a < i" for i using that step(3) by simp
  have comp: "completed a n e (lrs c) =
      completed (Suc a) n e (lrs c1) \<union> (if bit e a then {unat (vintid (lrs c ! a))} else {})"
    by (rule completed_step [OF a(1)]) (rule keep)
  obtain d' r' c' where rest: "maintenance_loop [Suc a..<n] (drop_bit (Suc a) e) d1 r1 c1 = Some (d', r', c')" "gicd_wf d'"
      "gicd_view d' = retire (completed (Suc a) n e (lrs c1) \<inter> {32..}) (gicd_view d1)"
      "gicr_view r' = retire (completed (Suc a) n e (lrs c1) \<inter> {..<32}) (gicr_view r1)"
      "\<forall>i<3. lrs c' ! i = (if Suc a \<le> i \<and> i < n \<and> bit e i then 0 else lrs c1 ! i)"
    using Suc.hyps(1) [OF a(3) Suc.prems(1) step(2), of c1 r1] Suc.prems(3) keep by auto
  have "lrs c' ! i = (if a \<le> i \<and> i < n \<and> bit e i then 0 else lrs c ! i)" if "i < 3" for i
    using rest(5) that step(3) a by (cases "i = a") (auto simp: nth_list_update)
  then show ?case
    unfolding upt maintenance_loop.simps drop step(1) comp using rest step(4,5) by (simp add: retire_retire Int_Un_distrib2)
qed

text \<open>
  C14. The maintenance handler retires exactly the completed interrupts: each list register
  whose completion bit is set is cleared and the others keep their contents; the interrupts
  they held are neither pending nor active afterwards, shared ones in the distributor and
  private ones in the redistributor; nothing else changes in these sets.
\<close>

theorem maintenance_interrupt_handler_correct:
  assumes "gicd_wf d" and "\<forall>i < supported_lrn c. bit (ich_eisr_el2 c) i \<longrightarrow> unat (vintid (lrs c ! i)) < 1024"
  defines "S \<equiv> completed 0 (supported_lrn c) (ich_eisr_el2 c) (lrs c)"
  shows "\<exists>d' r' c'. maintenance_interrupt_handler d r c = Some (d', r', c') \<and> gicd_wf d' \<and>
    gicd_view d' = retire (S \<inter> {32..}) (gicd_view d) \<and> gicr_view r' = retire (S \<inter> {..<32}) (gicr_view r) \<and>
    (\<forall>i<3. lrs c' ! i = (if i < supported_lrn c \<and> bit (ich_eisr_el2 c) i then 0 else lrs c ! i))"
  using maintenance_loop_outcome [OF supported_le(1) [of c] assms(1), of 0 "ich_eisr_el2 c" c r] assms(2)
  unfolding S_def maintenance_interrupt_handler_def get_ich_eisr_el2_def by simp

section \<open>Writes never panic\<close>

definition gicd_ok :: "(GicDistributorMmio \<times> Cpu) option \<Rightarrow> bool" where
  "gicd_ok m \<longleftrightarrow> (\<exists>d' c'. m = Some (d', c') \<and> gicd_wf d' \<and> gicd_routable d')"

lemma gicd_ok_if: "(b \<Longrightarrow> gicd_ok m) \<Longrightarrow> (\<not> b \<Longrightarrow> gicd_ok m') \<Longrightarrow> gicd_ok (if b then m else m')"
  by simp

text \<open>
  The writes that the distributor survives: not to the hole behind \<open>IGRPMODR\<close>, no
  router of a processor that cannot be signalled, and, for the registers that deliver
  interrupts, no bits beyond the register and none of the reserved interrupts.
\<close>

definition gicd_safe_write :: "usize \<Rightarrow> u64 \<Rightarrow> u64 \<Rightarrow> bool" where
  "gicd_safe_write offset w v \<longleftrightarrow> \<not> gicd_hole offset w \<and>
     (in_bank GICD_IROUTER0 GICD_IROUTER1019 offset \<longrightarrow> aff0 v < 16) \<and>
     (in_bank GICD_ISENABLER0 GICD_ISENABLER31 offset \<longrightarrow> unat v < (if offset = GICD_ISENABLER31 then 2 ^ 28 else 2 ^ 32)) \<and>
     (in_bank GICD_ISPENDR0 GICD_ISPENDR31 offset \<longrightarrow> unat v < (if offset = GICD_ISPENDR31 then 2 ^ 28 else 2 ^ 32))"

lemma gicd_update_ok:
  assumes "gicd_wf d" and "gicd_routable d" and "offset - first < 4 * length regs"
    and "\<And>v. length v = length regs \<Longrightarrow> gicd_wf (g v) \<and> gicd_router (g v) = gicd_router d"
  shows "gicd_ok (do { r \<leftarrow> update_bank regs first offset f; Some (g r, c) })"
    and "gicd_ok (do { r \<leftarrow> write_priority regs first offset w x; Some (g r, c) })"
  using write_total(2) [OF assms(3), of f] write_total(1) [OF assms(3), of w x] assms(2,4)
  by (auto simp: gicd_ok_def gicd_routable_def)

lemma gicd_set_enable_ok:
  assumes wf: "gicd_wf d" "gicd_routable d" and off: "in_bank GICD_ISENABLER0 GICD_ISENABLER31 offset"
    and v: "unat v < (if offset = GICD_ISENABLER31 then 2 ^ 28 else 2 ^ 32)"
  shows "gicd_ok (do { r \<leftarrow> update_bank (gicd_enable d) GICD_ISENABLER0 offset (\<lambda>r. r OR ucast v);
    gicd_trigger_loop gicd_get_pending ((offset - GICD_ISENABLER0) div 4 * 32) v (d\<lparr>gicd_enable := r\<rparr>) c })"
proof -
  let ?k = "(offset - GICD_ISENABLER0) div 4"
  have k: "?k < 32" "?k = 31 \<Longrightarrow> offset = GICD_ISENABLER31" using off by (auto simp: in_bank_def gicd_offsets)
  obtain r where r: "update_bank (gicd_enable d) GICD_ISENABLER0 offset (\<lambda>r. r OR ucast v) = Some r" "length r = 32"
  proof -
    have "offset - GICD_ISENABLER0 < 4 * length (gicd_enable d)" using wf off by (auto simp: gicd_wf_def in_bank_def gicd_offsets)
    from write_total(2) [OF this, of "\<lambda>r. r OR ucast v"] wf that show thesis by (auto simp: gicd_wf_def)
  qed
  have "gicd_wf (d\<lparr>gicd_enable := r\<rparr>)" "gicd_routable (d\<lparr>gicd_enable := r\<rparr>)"
    using wf r(2) by (simp_all add: gicd_wf_def gicd_routable_def)
  moreover have "unat v < (if ?k = 31 then 2 ^ 28 else 2 ^ 32)" using v k(2) by (auto split: if_splits)
  ultimately show ?thesis
    using enable_loop [of "d\<lparr>gicd_enable := r\<rparr>" ?k v c] k(1) r(1) by (auto simp: gicd_ok_def gicd_wf_def gicd_routable_def)
qed

lemma gicd_set_pending_ok:
  assumes wf: "gicd_wf d" "gicd_routable d" and off: "in_bank GICD_ISPENDR0 GICD_ISPENDR31 offset"
    and v: "unat v < (if offset = GICD_ISPENDR31 then 2 ^ 28 else 2 ^ 32)"
  shows "gicd_ok (do { r \<leftarrow> update_bank (gicd_pending d) GICD_ISPENDR0 offset (\<lambda>r. r OR ucast v);
    gicd_trigger_loop gicd_get_enable ((offset - GICD_ISPENDR0) div 4 * 4 * 8) v (d\<lparr>gicd_pending := r\<rparr>) c })"
proof -
  let ?k = "(offset - GICD_ISPENDR0) div 4"
  have k: "?k < 32" "?k = 31 \<Longrightarrow> offset = GICD_ISPENDR31" "?k * 4 * 8 = ?k * 32" using off by (auto simp: in_bank_def gicd_offsets)
  have len: "?k < length (gicd_pending d)" using wf k(1) by (simp add: gicd_wf_def)
  let ?r = "(gicd_pending d)[?k := gicd_pending d ! ?k OR ucast v]"
  have r: "update_bank (gicd_pending d) GICD_ISPENDR0 offset (\<lambda>r. r OR ucast v) = Some ?r"
    using len by (simp add: update_bank_def rust_nth_def rust_update_def)
  have "gicd_wf (d\<lparr>gicd_pending := ?r\<rparr>)" "gicd_routable (d\<lparr>gicd_pending := ?r\<rparr>)"
    using wf by (simp_all add: gicd_wf_def gicd_routable_def)
  moreover have "unat v < (if ?k = 31 then 2 ^ 28 else 2 ^ 32)" using v k(2) by (auto split: if_splits)
  moreover have "value_bits ?k v \<subseteq> bank_bits ?r" using bank_bits_update(1) [OF len, of v] by blast
  ultimately show ?thesis
    using pending_loop [of "d\<lparr>gicd_pending := ?r\<rparr>" ?k v c] k(1) unfolding r k(3)
    by (auto simp: gicd_ok_def gicd_wf_def gicd_routable_def)
qed

lemma gicd_set_router_ok:
  assumes "gicd_wf d" and "gicd_routable d" and "in_bank GICD_IROUTER0 GICD_IROUTER1019 offset" and "aff0 v < 16"
  shows "gicd_ok (do { r \<leftarrow> rust_update (gicd_router d) ((offset - GICD_IROUTER0) div 8) v; Some (d\<lparr>gicd_router := r\<rparr>, c) })"
proof -
  have "(offset - GICD_IROUTER0) div 8 < 1020" using assms(3) by (auto simp: in_bank_def gicd_offsets)
  moreover have "aff0 x < 16" if "x \<in> set ((gicd_router d)[n := v])" for x n
    using that assms(2,4) set_update_subset_insert [of "gicd_router d" n v] by (auto simp: gicd_routable_def)
  ultimately show ?thesis using assms(1) by (auto simp: gicd_ok_def rust_update_def gicd_wf_def gicd_routable_def)
qed

lemma gicd_bank_ok:
  assumes "gicd_wf d" and "gicd_routable d"
  shows "in_bank GICD_IGROUPR0 GICD_IGROUPR31 offset \<Longrightarrow>
      gicd_ok (do { r \<leftarrow> update_bank (gicd_group d) GICD_IGROUPR0 offset f; Some (d\<lparr>gicd_group := r\<rparr>, c) })"
    and "in_bank GICD_ICENABLER0 GICD_ICENABLER31 offset \<Longrightarrow>
      gicd_ok (do { r \<leftarrow> update_bank (gicd_enable d) GICD_ICENABLER0 offset f; Some (d\<lparr>gicd_enable := r\<rparr>, c) })"
    and "in_bank GICD_ICPENDR0 GICD_ICPENDR31 offset \<Longrightarrow>
      gicd_ok (do { r \<leftarrow> update_bank (gicd_pending d) GICD_ICPENDR0 offset f; Some (d\<lparr>gicd_pending := r\<rparr>, c) })"
    and "in_bank GICD_ISACTIVER0 GICD_ISACTIVER31 offset \<Longrightarrow>
      gicd_ok (do { r \<leftarrow> update_bank (gicd_active d) GICD_ISACTIVER0 offset f; Some (d\<lparr>gicd_active := r\<rparr>, c) })"
    and "in_bank GICD_ICACTIVER0 GICD_ICACTIVER31 offset \<Longrightarrow>
      gicd_ok (do { r \<leftarrow> update_bank (gicd_active d) GICD_ICACTIVER0 offset f; Some (d\<lparr>gicd_active := r\<rparr>, c) })"
    and "in_bank GICD_ICFGR0 GICD_ICFGR63 offset \<Longrightarrow>
      gicd_ok (do { r \<leftarrow> update_bank (gicd_configuration d) GICD_ICFGR0 offset f; Some (d\<lparr>gicd_configuration := r\<rparr>, c) })"
    and "\<not> gicd_hole offset 32 \<Longrightarrow> in_bank GICD_IGRPMODR0 GICD_IGRPMODR31 offset \<Longrightarrow>
      gicd_ok (do { r \<leftarrow> update_bank (gicd_group_modifier d) GICD_IGRPMODR0 offset f; Some (d\<lparr>gicd_group_modifier := r\<rparr>, c) })"
    and "GICD_IPRIORITYR0 \<le> offset \<Longrightarrow> offset < GICD_IPRIORITYR254 + 4 \<Longrightarrow>
      gicd_ok (do { r \<leftarrow> write_priority (gicd_priority d) GICD_IPRIORITYR0 offset w x; Some (d\<lparr>gicd_priority := r\<rparr>, c) })"
  using assms(1)
  by (auto intro!: gicd_update_ok [OF assms] simp: in_bank_def gicd_offsets gicd_wf_def gicd_hole_def)

lemma gicd_ok_Some: "gicd_wf d \<Longrightarrow> gicd_routable d \<Longrightarrow> gicd_ok (Some (d, c))"
  by (simp add: gicd_ok_def)

lemma gicd_write_ok:
  assumes "gicd_wf d" and "gicd_routable d" and "gicd_safe_write offset w v"
  shows "\<exists>d' c'. GicDistributorMmio_write offset w v d c = Some (Inr (), d', c') \<and> gicd_wf d' \<and> gicd_routable d'"
proof -
  note safe = assms(3) [unfolded gicd_safe_write_def]
  have ctlr: "gicd_ok (Some (d\<lparr>gicd_ctlr := x\<rparr>, c))" for x
    using assms(1,2) by (simp add: gicd_ok_def gicd_wf_def gicd_routable_def)
  have "\<exists>m. GicDistributorMmio_write offset w v d c = do { (d', c') \<leftarrow> m; Some (Inr (), d', c') } \<and> gicd_ok m"
    unfolding GicDistributorMmio_write_def
    by (rule exI, rule conjI, rule refl, intro gicd_ok_if)
      ((elim conjE)?, rule ctlr gicd_ok_Some [OF assms(1,2)] gicd_bank_ok [OF assms(1,2)] gicd_set_enable_ok [OF assms(1,2)]
        gicd_set_pending_ok [OF assms(1,2)] gicd_set_router_ok [OF assms(1,2)]; use safe in simp)+
  then show ?thesis by (auto simp: gicd_ok_def)
qed

text \<open>
  C16. A guest write to the distributor, at any offset and width, returns without a panic and
  keeps the arrays and routers well-formed, unless it is one of the writes that
  \<open>gicd_safe_write\<close> excludes.
\<close>

theorem GicDistributorMmio_write_total:
  assumes "gicd_wf d" and "gicd_routable d" and "gicd_safe_write offset w v"
  shows "\<exists>d' c'. GicDistributorMmio_write offset w v d c = Some (Inr (), d', c') \<and> gicd_wf d' \<and> gicd_routable d'"
  by (rule gicd_write_ok [OF assms])

section \<open>The claims at a concrete state\<close>

text \<open>A distributor that is switched on, with interrupt 33 enabled and routed to processor 0.\<close>

definition sample_gicd :: GicDistributorMmio where
  "sample_gicd = GicDistributorMmio_new\<lparr>gicd_ctlr := 0x12, gicd_enable := (replicate 32 0)[1 := 2]\<rparr>"

lemma sample_gicd_wf: "gicd_wf sample_gicd" "gicd_routable sample_gicd"
  by (simp_all add: sample_gicd_def GicDistributorMmio_new_def gicd_wf_def gicd_routable_def aff0_def)

lemma sample_gicd_on: "gicd_on sample_gicd" "gicd_forwards sample_gicd 33" "gicd_route sample_gicd 33 = 0"
  "gicd_to_inject_interrupt sample_gicd = []" "mpidr_el1 sample_cpu = 0x80000000"
  by (simp_all add: sample_gicd_def GicDistributorMmio_new_def gicd_on_def gicd_forwards_def gicd_route_def bank_bits_def
      GICD_CTLR_ENABLE_GRP1NS_def GICD_CTLR_ARE_S_def sample_cpu_def)

lemma aff_zero: "aff0 0 = 0" "aff1 0 = 0" "aff2 0 = 0" "aff3 0 = 0"
  by (simp_all add: aff0_def aff1_def aff2_def aff3_def)

theorem GicDistributorMmio_write_refines_witness:
  "\<exists>d' c'. GicDistributorMmio_write 0x204 32 4 sample_gicd sample_cpu = Some (Inr (), d', c') \<and>
    pending (gicd_view d') = pending (gicd_view sample_gicd) \<union> value_bits 1 4"
  using GicDistributorMmio_write_refines [OF sample_gicd_wf, of 1 4 SetPending sample_cpu] by (auto simp: gicd_offsets)

theorem GicDistributorMmio_read_total_witness:
  "GicDistributorMmio_read sample_gicd 0xD80 32 = None \<and> (\<exists>v. GicDistributorMmio_read sample_gicd 0xD80 8 = Some (Inr v))"
  using GicDistributorMmio_read_total [OF sample_gicd_wf(1), of "0xD80" 32]
    GicDistributorMmio_read_total [OF sample_gicd_wf(1), of "0xD80" 8] by (simp add: gicd_hole_def)


theorem remote_delivery_equals_local_witness:
  "\<exists>d1 c1 d2 c2. gicd_trigger_interrupt 33 None sample_gicd (sample_cpu\<lparr>mpidr_el1 := 0x80000001\<rparr>) = Some (d1, c1) \<and>
    gicd_trigger_interrupt 33 None sample_gicd sample_cpu = Some (d2, c2) \<and>
    inject_interrupt_handler d1 (GicRedistributorMmio_new 0) sample_cpu = (d2, GicRedistributorMmio_new 0, c2)"
  by (rule remote_delivery_equals_local [OF sample_gicd_wf(1)])
    (simp_all add: sample_gicd_on aff_zero GicRedistributorMmio_new_def same_affinity_def aff0_def aff1_def aff2_def aff3_def)

theorem inject_sgi_loses_aff1_witness: "drop_bit 16 (inject_sgi 0x0300) AND 0xff = 0 \<and> aff1 0x0300 = 3"
  using inject_sgi_loses_aff1 [of "0x0300"] by (simp add: aff0_def aff1_def)

theorem GicRedistributorMmio_total_witness:
  "\<exists>r' c'. GicRedistributorMmio_write 0x10200 32 0xffffffff (GicRedistributorMmio_new 0) sample_cpu = Some (Inr (), r', c')"
  using GicRedistributorMmio_total [of "GicRedistributorMmio_new 0" "0x10200" 32 "0xffffffff" sample_cpu]
  by (auto simp: GicRedistributorMmio_new_def gicr_wf_def mpidr_to_affinity_def aff_zero)

theorem maintenance_interrupt_handler_correct_witness:
  "\<exists>d' r' c'. maintenance_interrupt_handler sample_gicd (GicRedistributorMmio_new 0) (sample_cpu\<lparr>ich_eisr_el2 := 2\<rparr>) = Some (d', r', c') \<and>
     lrs c' ! 1 = 0"
proof -
  let ?c = "sample_cpu\<lparr>ich_eisr_el2 := 2\<rparr>"
  have l: "lrs ?c = [0, 0x5000020000000021, 0]" "supported_lrn ?c = 3"
    using sample_cpu_lrs by (simp_all add: lrs_def supported_lrn_def get_ich_vtr_el2_def)
  have "unat (vintid (lrs ?c ! i)) < 1024" if "bit (ich_eisr_el2 ?c) i" for i
  proof -
    have "i = 1" using that by (auto simp: bit_2_iff simp del: bit_numeral_word_iff)
    then show ?thesis by (simp add: l vintid_def ICH_LRN_EL2_VINTID_def)
  qed
  then show ?thesis
    using maintenance_interrupt_handler_correct [OF sample_gicd_wf(1), of ?c "GicRedistributorMmio_new 0"]
    by (fastforce simp: l)
qed

theorem GicDistributorMmio_write_total_witness:
  "\<exists>d' c'. GicDistributorMmio_write 0x100 32 0xffffffff sample_gicd sample_cpu = Some (Inr (), d', c')"
  using GicDistributorMmio_write_total [OF sample_gicd_wf, of "0x100" 32 "0xffffffff" sample_cpu]
  by (auto simp: gicd_safe_write_def gicd_hole_def in_bank_def gicd_offsets)

end
