(* ===== verification/Pl011Mmio.thy ===== *)
theory Pl011Mmio
  imports GicProps
begin

text \<open>
  The emulated serial port of a guest, \<open>src/src/mmio/pl011.rs\<close>: a receive buffer of
  four bytes that the hypervisor fills and the guest reads, and the registers around it.
  Characters that the guest transmits, with codes up to 255, are appended to an output,
  the latest last; printing them is the job of the console. The properties read the
  buffer as a queue.
\<close>

definition UART_DR :: usize where "UART_DR = 0x000"
definition UART_FR :: usize where "UART_FR = 0x018"
definition UART_CR :: usize where "UART_CR = 0x030"
definition UART_IMSC :: usize where "UART_IMSC = 0x038"
definition UART_RIS :: usize where "UART_RIS = 0x03C"
definition UART_ICR :: usize where "UART_ICR = 0x044"
definition UART_PERIPH_ID0 :: usize where "UART_PERIPH_ID0 = 0xFE0"
definition UART_PERIPH_ID1 :: usize where "UART_PERIPH_ID1 = 0xFE4"
definition UART_PERIPH_ID2 :: usize where "UART_PERIPH_ID2 = 0xFE8"
definition UART_PERIPH_ID3 :: usize where "UART_PERIPH_ID3 = 0xFEC"
definition UART_PCELL_ID0 :: usize where "UART_PCELL_ID0 = 0xFF0"
definition UART_PCELL_ID1 :: usize where "UART_PCELL_ID1 = 0xFF4"
definition UART_PCELL_ID2 :: usize where "UART_PCELL_ID2 = 0xFF8"
definition UART_PCELL_ID3 :: usize where "UART_PCELL_ID3 = 0xFFC"
definition UART_FR_RXFE :: u16 where "UART_FR_RXFE = push_bit 4 1"
definition UART_IMSC_RXIM :: u16 where "UART_IMSC_RXIM = push_bit 4 1"
definition UART_RIS_RXRIS :: u16 where "UART_RIS_RXRIS = push_bit 4 1"
definition PL011_INT_ID :: u32 where "PL011_INT_ID = 33"

lemmas uart_offsets = UART_DR_def UART_FR_def UART_CR_def UART_IMSC_def UART_RIS_def UART_ICR_def UART_PERIPH_ID0_def
  UART_PERIPH_ID1_def UART_PERIPH_ID2_def UART_PERIPH_ID3_def UART_PCELL_ID0_def UART_PCELL_ID1_def UART_PCELL_ID2_def
  UART_PCELL_ID3_def

record Pl011Mmio =
  flag :: u16
  interrupt_mask :: u16
  raw_interrupt_status :: u16
  control :: u16
  read_buffer :: "u8 list"

definition Pl011Mmio_new :: Pl011Mmio where
  "Pl011Mmio_new = \<lparr>flag = 0, interrupt_mask = 0, raw_interrupt_status = 0, control = 0, read_buffer = replicate 4 0\<rparr>"

text \<open>The loop of \<open>push\<close>: the first zero byte of the buffer is replaced.\<close>

fun push_buffer :: "u8 \<Rightarrow> u8 list \<Rightarrow> u8 list" where
  "push_buffer data [] = []"
| "push_buffer data (c # cs) = (if c = 0 then data # cs else c # push_buffer data cs)"

definition put_byte :: "u8 \<Rightarrow> Pl011Mmio \<Rightarrow> Pl011Mmio" where
  "put_byte data s = s\<lparr>read_buffer := push_buffer data (read_buffer s), flag := flag s AND NOT UART_FR_RXFE\<rparr>"

definition Pl011Mmio_push ::
  "u8 \<Rightarrow> Pl011Mmio \<Rightarrow> GicDistributorMmio \<Rightarrow> Cpu \<Rightarrow> (Pl011Mmio \<times> GicDistributorMmio \<times> Cpu) option" where
  "Pl011Mmio_push data s d c =
     (let s1 = put_byte data s
      in if interrupt_mask s1 AND UART_IMSC_RXIM \<noteq> 0 then do {
           (d', c') \<leftarrow> gicd_trigger_interrupt PL011_INT_ID None d c;
           Some (s1\<lparr>raw_interrupt_status := raw_interrupt_status s1 OR UART_RIS_RXRIS\<rparr>, d', c') }
         else Some (s1, d, c))"

text \<open>The loop \<open>read_buffer[i - 1] = read_buffer[i]\<close> for \<open>i\<close> from 1 to \<open>n\<close> exclusive.\<close>

fun shift_buffer :: "nat \<Rightarrow> nat \<Rightarrow> u8 list \<Rightarrow> u8 list" where
  "shift_buffer i 0 b = b"
| "shift_buffer i (Suc n) b = shift_buffer (Suc i) n (b[i - 1 := b ! i])"

definition Pl011Mmio_read :: "usize \<Rightarrow> u64 \<Rightarrow> Pl011Mmio \<Rightarrow> (unit + u64) \<times> Pl011Mmio" where
  "Pl011Mmio_read offset access_width s =
     (if offset = UART_DR then
        (let v = ucast (read_buffer s ! 0);
             b = shift_buffer 1 (length (read_buffer s) - 1) (read_buffer s);
             s1 = s\<lparr>read_buffer := b\<rparr>
         in (Inr v, if b ! 0 = 0
               then s1\<lparr>flag := flag s1 OR UART_FR_RXFE, raw_interrupt_status := raw_interrupt_status s1 AND NOT UART_RIS_RXRIS\<rparr>
               else s1))
      else if offset = UART_FR then (Inr (ucast (flag s)), s)
      else if offset = UART_CR then (Inr (ucast (control s)), s)
      else if offset = UART_IMSC then (Inr (ucast (interrupt_mask s)), s)
      else if offset = UART_RIS then (Inr (ucast (raw_interrupt_status s)), s)
      else if offset = UART_PERIPH_ID0 then (Inr 0x11, s)
      else if offset = UART_PERIPH_ID1 then (Inr (push_bit 4 0x01), s)
      else if offset = UART_PERIPH_ID2 then (Inr (push_bit 4 0x03 OR 0x04), s)
      else if offset = UART_PERIPH_ID3 then (Inr 0x00, s)
      else if offset = UART_PCELL_ID0 then (Inr 0x0D, s)
      else if offset = UART_PCELL_ID1 then (Inr 0xF0, s)
      else if offset = UART_PCELL_ID2 then (Inr 0x05, s)
      else if offset = UART_PCELL_ID3 then (Inr 0xB1, s)
      else (Inr 0x00, s))"

definition Pl011Mmio_write :: "usize \<Rightarrow> u64 \<Rightarrow> u64 \<Rightarrow> Pl011Mmio \<Rightarrow> u8 list \<Rightarrow> (unit + unit) \<times> Pl011Mmio \<times> u8 list" where
  "Pl011Mmio_write offset access_width v s out =
     (if offset = UART_DR then (Inr (), s, out @ [ucast v])
      else if offset = UART_CR then (Inr (), s\<lparr>control := ucast v\<rparr>, out)
      else if offset = UART_IMSC then (Inr (), s\<lparr>interrupt_mask := ucast v\<rparr>, out)
      else if offset = UART_ICR then (Inr (), s\<lparr>raw_interrupt_status := raw_interrupt_status s AND NOT (ucast v)\<rparr>, out)
      else (Inr (), s, out))"

section \<open>The buffer as a queue\<close>

text \<open>The buffer holds the bytes of \<open>q\<close>, none of them zero, and zeros behind them.\<close>

definition holds :: "Pl011Mmio \<Rightarrow> u8 list \<Rightarrow> bool" where
  "holds s q \<longleftrightarrow> length q \<le> 4 \<and> 0 \<notin> set q \<and> read_buffer s = q @ replicate (4 - length q) 0"

lemma push_buffer_queue:
  assumes "0 \<notin> set q"
  shows "push_buffer x (q @ replicate n 0) = (case n of 0 \<Rightarrow> q | Suc m \<Rightarrow> q @ x # replicate m 0)"
  using assms by (induction q) (auto split: nat.splits)

lemma shift_buffer_four: "shift_buffer 1 3 [a, b, c, d] = [b, c, d, d]"
  by (simp add: numeral_3_eq_3 numeral_2_eq_2)

lemma queue_cases:
  assumes "length q \<le> 4"
  obtains "q = []" | a where "q = [a]" | a b where "q = [a, b]" | a b c where "q = [a, b, c]"
    | a b c d where "q = [a, b, c, d]"
proof -
  have "length q = 0 \<or> length q = 1 \<or> length q = 2 \<or> length q = 3 \<or> length q = 4" using assms by linarith
  then show thesis
    using that by (auto simp: length_Suc_conv numeral_2_eq_2 numeral_3_eq_3 numeral_eq_Suc)
qed

lemma dr_read:
  assumes "holds s (x # q)"
  shows "fst (Pl011Mmio_read UART_DR w s) = Inr (ucast x)"
    and "length q < 3 \<Longrightarrow> holds (snd (Pl011Mmio_read UART_DR w s)) q"
    and "length q = 3 \<Longrightarrow> holds (snd (Pl011Mmio_read UART_DR w s)) (q @ [List.last q])"
    and "flag (snd (Pl011Mmio_read UART_DR w s)) = (if q = [] then flag s OR UART_FR_RXFE else flag s)"
proof -
  have len: "length (x # q) \<le> 4" using assms by (simp add: holds_def)
  show "fst (Pl011Mmio_read UART_DR w s) = Inr (ucast x)" using assms by (simp add: Pl011Mmio_read_def holds_def Let_def)
  show "length q < 3 \<Longrightarrow> holds (snd (Pl011Mmio_read UART_DR w s)) q"
    using len assms by (cases rule: queue_cases) (auto simp: Pl011Mmio_read_def holds_def Let_def eval_nat_numeral)
  show "length q = 3 \<Longrightarrow> holds (snd (Pl011Mmio_read UART_DR w s)) (q @ [List.last q])"
    using len assms by (cases rule: queue_cases) (auto simp: Pl011Mmio_read_def holds_def Let_def eval_nat_numeral)
  show "flag (snd (Pl011Mmio_read UART_DR w s)) = (if q = [] then flag s OR UART_FR_RXFE else flag s)"
    using len assms by (cases rule: queue_cases) (auto simp: Pl011Mmio_read_def holds_def Let_def eval_nat_numeral)
qed

section \<open>A queue of bounded capacity\<close>

text \<open>
  What the users of the buffer rely on: \<open>put\<close> appends and \<open>get\<close> removes at the front, as
  long as at most \<open>cap\<close> elements are waiting.
\<close>

locale bounded_queue =
  fixes content :: "'s \<Rightarrow> 'a list \<Rightarrow> bool"
    and item :: "'a \<Rightarrow> bool"
    and put :: "'a \<Rightarrow> 's \<Rightarrow> 's"
    and get :: "'s \<Rightarrow> 'b \<times> 's"
    and shown :: "'a \<Rightarrow> 'b"
    and cap :: nat
  assumes put_ok: "content s q \<Longrightarrow> item x \<Longrightarrow> length q < cap \<Longrightarrow> content (put x s) (q @ [x])"
    and get_ok: "content s (x # q) \<Longrightarrow> length q < cap \<Longrightarrow> fst (get s) = shown x \<and> content (snd (get s)) q"
begin

fun get_all :: "nat \<Rightarrow> 's \<Rightarrow> 'b list \<times> 's" where
  "get_all 0 s = ([], s)"
| "get_all (Suc n) s = (let (v, s1) = get s; (vs, s2) = get_all n s1 in (v # vs, s2))"

lemma put_all:
  "content s q \<Longrightarrow> (\<And>x. x \<in> set xs \<Longrightarrow> item x) \<Longrightarrow> length q + length xs \<le> cap \<Longrightarrow> content (fold put xs s) (q @ xs)"
proof (induction xs arbitrary: s q)
  case (Cons x xs)
  have "content (put x s) (q @ [x])" using Cons.prems by (intro put_ok) auto
  from Cons.IH [OF this] show ?case using Cons.prems by simp
qed simp

lemma get_all_content:
  "content s q \<Longrightarrow> length q \<le> cap \<Longrightarrow> fst (get_all (length q) s) = map shown q \<and> content (snd (get_all (length q) s)) []"
proof (induction q arbitrary: s)
  case (Cons x q)
  have "fst (get s) = shown x" "content (snd (get s)) q" using get_ok [OF Cons.prems(1)] Cons.prems(2) by auto
  with Cons.IH [of "snd (get s)"] Cons.prems(2) show ?case by (auto simp: Let_def case_prod_beta)
qed simp

lemma put_get_roundtrip:
  assumes "content s []" and "\<And>x. x \<in> set xs \<Longrightarrow> item x" and "length xs \<le> cap"
  shows "fst (get_all (length xs) (fold put xs s)) = map shown xs"
  using get_all_content [of "fold put xs s" xs] put_all [of s "[]" xs] assms by simp

end

lemma put_byte_holds:
  assumes "holds s q" and "x \<noteq> 0"
  shows "holds (put_byte x s) (if length q < 4 then q @ [x] else q)"
proof -
  have q: "length q \<le> 4" "0 \<notin> set q" "read_buffer s = q @ replicate (4 - length q) 0" using assms(1) by (simp_all add: holds_def)
  show ?thesis
  proof (cases "length q < 4")
    case True
    then obtain m where m: "4 - length q = Suc m" by (metis Suc_diff_Suc)
    then have "4 - length (q @ [x]) = m" by simp
    then show ?thesis
      using q assms(2) True m push_buffer_queue [OF q(2), of x "Suc m"] by (simp add: holds_def put_byte_def)
  next
    case False
    then have "length q = 4" using q(1) by simp
    then show ?thesis using q push_buffer_queue [OF q(2), of x 0] by (simp add: holds_def put_byte_def)
  qed
qed

interpretation uart: bounded_queue holds "\<lambda>x. x \<noteq> 0" put_byte "Pl011Mmio_read UART_DR 32" "\<lambda>x. Inr (ucast x)" 3
proof
  show "holds (put_byte x s) (q @ [x])" if "holds s q" "x \<noteq> 0" "length q < 3" for s q x
    using put_byte_holds [OF that(1,2)] that(3) by simp
  show "fst (Pl011Mmio_read UART_DR 32 s) = Inr (ucast x) \<and> holds (snd (Pl011Mmio_read UART_DR 32 s)) q"
    if "holds s (x # q)" "length q < 3" for s x q
    using dr_read(1,2) [OF that(1)] that(2) by simp
qed

section \<open>Claims\<close>

text \<open>The values of \<open>n\<close> reads of the data register, and the device afterwards.\<close>

fun dr_reads :: "nat \<Rightarrow> Pl011Mmio \<Rightarrow> (unit + u64) list \<times> Pl011Mmio" where
  "dr_reads 0 s = ([], s)"
| "dr_reads (Suc n) s = (let (v, s1) = Pl011Mmio_read UART_DR 32 s; (vs, s2) = dr_reads n s1 in (v # vs, s2))"

lemma dr_reads_get_all: "dr_reads n s = uart.get_all n s"
  by (induction n arbitrary: s) simp_all

text \<open>
  C33. Up to three bytes other than zero that are put into the empty buffer are read back by the
  guest in the same order.
\<close>

theorem pl011_fifo_roundtrip:
  assumes "holds s []" and "\<forall>x \<in> set xs. x \<noteq> 0" and "length xs \<le> 3"
  shows "fst (dr_reads (length xs) (fold put_byte xs s)) = map (\<lambda>x. Inr (ucast x)) xs"
  unfolding dr_reads_get_all using assms by (intro uart.put_get_roundtrip) auto

text \<open>
  C34. Once the buffer is full it never empties: from the fourth read on the guest gets the last
  byte again and again, the empty flag is never raised, and the buffer stays full.
\<close>

theorem pl011_full_never_empties:
  assumes "holds s [a, b, c, d]"
  shows "fst (dr_reads (n + 3) s) = map (\<lambda>x. Inr (ucast x)) [a, b, c] @ replicate n (Inr (ucast d)) \<and>
    flag (snd (dr_reads (n + 3) s)) = flag s \<and> holds (snd (dr_reads (n + 3) s)) [d, d, d, d]"
proof -
  have step: "fst (Pl011Mmio_read UART_DR 32 t) = Inr (ucast x)" "holds (snd (Pl011Mmio_read UART_DR 32 t)) [y, z, v, v]"
      "flag (snd (Pl011Mmio_read UART_DR 32 t)) = flag t" if "holds t [x, y, z, v]" for t x y z v
    using dr_read [OF that, of 32] by simp_all
  have last: "fst (dr_reads n t) = replicate n (Inr (ucast d)) \<and> flag (snd (dr_reads n t)) = flag t \<and>
      holds (snd (dr_reads n t)) [d, d, d, d]" if "holds t [d, d, d, d]" for n t
    using that
  proof (induction n arbitrary: t)
    case (Suc n)
    from Suc.IH [OF step(2) [OF Suc.prems]] step [OF Suc.prems] show ?case by (simp add: case_prod_beta Let_def)
  qed simp
  let ?s1 = "snd (Pl011Mmio_read UART_DR 32 s)"
  let ?s2 = "snd (Pl011Mmio_read UART_DR 32 ?s1)"
  note s1 = step [OF assms]
  note s2 = step [OF s1(2)]
  note s3 = step [OF s2(2)]
  have "n + 3 = Suc (Suc (Suc n))" by simp
  then show ?thesis
    using last [OF s3(2), of n] s1 s2 s3 by (simp only: dr_reads.simps) (simp add: case_prod_beta Let_def)
qed

lemma new_holds: "holds Pl011Mmio_new []"
  by (simp add: holds_def Pl011Mmio_new_def)

theorem pl011_fifo_roundtrip_witness:
  "fst (dr_reads (length [0x6c, 0x73, 0x0d :: u8]) (fold put_byte [0x6c, 0x73, 0x0d] Pl011Mmio_new)) =
     [Inr 0x6c, Inr 0x73, Inr 0x0d]"
  by (subst pl011_fifo_roundtrip [OF new_holds]) simp_all

theorem pl011_full_never_empties_witness:
  "fst (dr_reads (5 + 3) (Pl011Mmio_new\<lparr>read_buffer := [1, 2, 3, 4]\<rparr>)) =
     [Inr 1, Inr 2, Inr 3] @ replicate 5 (Inr 4)"
proof -
  have "holds (Pl011Mmio_new\<lparr>read_buffer := [1, 2, 3, 4]\<rparr>) [1, 2, 3, 4]" by (simp add: holds_def)
  from pl011_full_never_empties [OF this, of 5] show ?thesis by simp
qed

end
