(* ===== verification/Memory.thy ===== *)
theory Memory
  imports Prelude
begin

text \<open>
  The memory of the machine as the code sees it through raw pointers: a map from addresses to
  bytes, with the structures of the devices and of the guest read and written as
  little-endian integers, and the header fields of the device tree as big-endian ones.
\<close>

type_synonym memory = "usize \<Rightarrow> u8"

definition read_u16 :: "memory \<Rightarrow> usize \<Rightarrow> u16" where
  "read_u16 m a = ucast (m a) OR push_bit 8 (ucast (m (a + 1)))"

definition read_u32 :: "memory \<Rightarrow> usize \<Rightarrow> u32" where
  "read_u32 m a = ucast (read_u16 m a) OR push_bit 16 (ucast (read_u16 m (a + 2)))"

definition read_u64 :: "memory \<Rightarrow> usize \<Rightarrow> u64" where
  "read_u64 m a = ucast (read_u32 m a) OR push_bit 32 (ucast (read_u32 m (a + 4)))"

definition write_u16 :: "usize \<Rightarrow> u16 \<Rightarrow> memory \<Rightarrow> memory" where
  "write_u16 a v m = m(a := ucast v, a + 1 := ucast (drop_bit 8 v))"

definition write_u32 :: "usize \<Rightarrow> u32 \<Rightarrow> memory \<Rightarrow> memory" where
  "write_u32 a v m = write_u16 (a + 2) (ucast (drop_bit 16 v)) (write_u16 a (ucast v) m)"

definition write_u64 :: "usize \<Rightarrow> u64 \<Rightarrow> memory \<Rightarrow> memory" where
  "write_u64 a v m = write_u32 (a + 4) (ucast (drop_bit 32 v)) (write_u32 a (ucast v) m)"

text \<open>\<open>u32::from_be_bytes\<close>, and \<open>u32::from_be\<close> of a field that was read in the native byte order.\<close>

definition from_be_bytes :: "u8 list \<Rightarrow> u32" where
  "from_be_bytes bs = foldl (\<lambda>v b. push_bit 8 v OR ucast b) 0 bs"

fun bytes_from :: "memory \<Rightarrow> usize \<Rightarrow> nat \<Rightarrow> u8 list" where
  "bytes_from m a 0 = []"
| "bytes_from m a (Suc n) = m a # bytes_from m (a + 1) n"

definition read_be32 :: "memory \<Rightarrow> usize \<Rightarrow> u32" where
  "read_be32 m a = from_be_bytes (bytes_from m a 4)"

section \<open>Words in memory\<close>

lemma bit_u8: "bit (x :: u8) n \<Longrightarrow> n < 8" and bit_u16: "bit (y :: u16) n \<Longrightarrow> n < 16"
  by (auto dest: bit_imp_le_length)

lemma read_write_u16: "read_u16 (write_u16 a v m) a = v"
proof (rule bit_word_eqI)
  fix n assume "n < LENGTH(16)"
  then show "bit (read_u16 (write_u16 a v m) a) n \<longleftrightarrow> bit v n"
    by (auto simp: read_u16_def write_u16_def bit_or_iff bit_ucast_iff bit_push_bit_iff bit_drop_bit_eq)
qed

lemma read_write_u16_other:
  assumes "\<And>i. i < 2 \<Longrightarrow> b + i \<noteq> a \<and> b + i \<noteq> a + 1"
  shows "read_u16 (write_u16 a v m) b = read_u16 m b"
  using assms [of 0] assms [of 1] by (simp add: read_u16_def write_u16_def)

lemma read_write_u32: "read_u32 (write_u32 a v m) a = v"
proof -
  have lo: "read_u16 (write_u32 a v m) a = ucast v"
    unfolding write_u32_def by (subst read_write_u16_other) (auto simp: read_write_u16 less_2_cases_iff)
  have hi: "read_u16 (write_u32 a v m) (a + 2) = ucast (drop_bit 16 v)"
    unfolding write_u32_def by (rule read_write_u16)
  show ?thesis
  proof (rule bit_word_eqI)
    fix n assume "n < LENGTH(32)"
    then show "bit (read_u32 (write_u32 a v m) a) n \<longleftrightarrow> bit v n"
      unfolding read_u32_def lo hi by (auto simp: bit_or_iff bit_ucast_iff bit_push_bit_iff bit_drop_bit_eq)
  qed
qed

lemma read_write_u32_other:
  assumes "\<And>i j. i < 4 \<Longrightarrow> j < 4 \<Longrightarrow> b + i \<noteq> a + j"
  shows "read_u32 (write_u32 a v m) b = read_u32 m b" and "i < 4 \<Longrightarrow> write_u32 a v m (b + i) = m (b + i)"
proof -
  show eq: "write_u32 a v m (b + i) = m (b + i)" if "i < 4" for i
    using assms [OF that, of 0] assms [OF that, of 1] assms [OF that, of 2] assms [OF that, of 3]
    by (simp add: write_u32_def write_u16_def eval_nat_numeral)
  show "read_u32 (write_u32 a v m) b = read_u32 m b"
    using eq [of 0] eq [of 1] eq [of 2] eq [of 3] by (simp add: read_u32_def read_u16_def eval_nat_numeral)
qed

lemma read_write_u64: "read_u64 (write_u64 a v m) a = v"
proof -
  have lo: "read_u32 (write_u64 a v m) a = ucast v"
    unfolding write_u64_def by (subst read_write_u32_other) (auto simp: read_write_u32)
  have hi: "read_u32 (write_u64 a v m) (a + 4) = ucast (drop_bit 32 v)" unfolding write_u64_def by (rule read_write_u32)
  show ?thesis
  proof (rule bit_word_eqI)
    fix n assume "n < LENGTH(64)"
    then show "bit (read_u64 (write_u64 a v m) a) n \<longleftrightarrow> bit v n"
      unfolding read_u64_def lo hi by (auto simp: bit_or_iff bit_ucast_iff bit_push_bit_iff bit_drop_bit_eq)
  qed
qed

text \<open>What a write leaves alone, and what a read depends on.\<close>

definition same_on :: "usize set \<Rightarrow> memory \<Rightarrow> memory \<Rightarrow> bool" where
  "same_on X m m' \<longleftrightarrow> (\<forall>a \<in> X. m' a = m a)"

lemma same_on_trans: "same_on X m m' \<Longrightarrow> same_on X m' m'' \<Longrightarrow> same_on X m m''"
  by (simp add: same_on_def)

lemma same_on_mono: "same_on X m m' \<Longrightarrow> Y \<subseteq> X \<Longrightarrow> same_on Y m m'"
  by (auto simp: same_on_def)

lemma write_same:
  "same_on (- {a..<a + 2}) m (write_u16 a v m)" "same_on (- {a..<a + 4}) m (write_u32 a w m)"
  "same_on (- {a..<a + 8}) m (write_u64 a x m)" "same_on (- {a}) m (m(a := y))"
  by (auto simp: same_on_def write_u16_def write_u32_def write_u64_def)

lemma read_same:
  "same_on {a..<a + 2} m m' \<Longrightarrow> read_u16 m' a = read_u16 m a" "same_on {a..<a + 4} m m' \<Longrightarrow> read_u32 m' a = read_u32 m a"
  "same_on {a..<a + 8} m m' \<Longrightarrow> read_u64 m' a = read_u64 m a"
  by (simp_all add: same_on_def read_u16_def read_u32_def read_u64_def)

end
