(* ===== verification/VirtioBlkMmio.thy ===== *)
theory VirtioBlkMmio
  imports GicProps Memory
begin

text \<open>
  The emulated block device of a guest, \<open>src/src/mmio/virtio_blk.rs\<close>, with the ring
  structures of \<open>src/src/drivers/virtio.rs\<close> and the request of
  \<open>src/src/drivers/virtio_blk.rs\<close>. The queue lies in memory, a map from addresses to
  bytes, and is read and written as little-endian structures.

  Two calls leave this file: \<open>get_physical_address\<close> of the current VM is the argument
  \<open>phys\<close> (it is defined in \<open>Vm\<close>), and the transfer between memory and the file on the
  FAT32 volume is the argument \<open>transfer\<close>. \<open>'d\<close> is the state of the disk.
\<close>

section \<open>Constants and structures\<close>

definition VIRTIO_MMIO_MAGIC :: usize where "VIRTIO_MMIO_MAGIC = 0x000"
definition VIRTIO_MMIO_MAGIC_VALUE :: u32 where "VIRTIO_MMIO_MAGIC_VALUE = 0x74726976"
definition VIRTIO_MMIO_VERSION :: usize where "VIRTIO_MMIO_VERSION = 0x04"
definition VIRTIO_MMIO_DEVICE_ID :: usize where "VIRTIO_MMIO_DEVICE_ID = 0x008"
definition VIRTIO_MMIO_VENDOR_ID :: usize where "VIRTIO_MMIO_VENDOR_ID = 0x00c"
definition VIRTIO_MMIO_DEVICE_FEATURES :: usize where "VIRTIO_MMIO_DEVICE_FEATURES = 0x010"
definition VIRTIO_MMIO_GUEST_PAGE_SIZE :: usize where "VIRTIO_MMIO_GUEST_PAGE_SIZE = 0x028"
definition VIRTIO_MMIO_QUEUE_NUM_MAX :: usize where "VIRTIO_MMIO_QUEUE_NUM_MAX = 0x034"
definition VIRTIO_MMIO_QUEUE_NUM :: usize where "VIRTIO_MMIO_QUEUE_NUM = 0x038"
definition VIRTIO_MMIO_QUEUE_PFN :: usize where "VIRTIO_MMIO_QUEUE_PFN = 0x040"
definition VIRTIO_MMIO_QUEUE_READY :: usize where "VIRTIO_MMIO_QUEUE_READY = 0x044"
definition VIRTIO_MMIO_QUEUE_NOTIFY :: usize where "VIRTIO_MMIO_QUEUE_NOTIFY = 0x050"
definition VIRTIO_MMIO_INTERRUPT_STATUS :: usize where "VIRTIO_MMIO_INTERRUPT_STATUS = 0x060"
definition VIRTIO_MMIO_INTERRUPT_ACK :: usize where "VIRTIO_MMIO_INTERRUPT_ACK = 0x064"
definition VIRTIO_MMIO_STATUS :: usize where "VIRTIO_MMIO_STATUS = 0x070"
definition VIRTIO_CONFIG_OFFSET :: usize where "VIRTIO_CONFIG_OFFSET = 0x100"
definition VIRT_QUEUE_DESC_FLAGS_NEXT :: u16 where "VIRT_QUEUE_DESC_FLAGS_NEXT = 1"
definition VIRTIO_BLK_TYPE_OUT :: u32 where "VIRTIO_BLK_TYPE_OUT = 1"
definition VIRTIO_BLK_S_OK :: u8 where "VIRTIO_BLK_S_OK = 0"
definition VIRTIO_BLK_S_IOERR :: u8 where "VIRTIO_BLK_S_IOERR = 1"
definition VIRTIO_BLK_INT_ID :: u32 where "VIRTIO_BLK_INT_ID = 40"

lemmas virtio_offsets = VIRTIO_MMIO_MAGIC_def VIRTIO_MMIO_VERSION_def VIRTIO_MMIO_DEVICE_ID_def VIRTIO_MMIO_VENDOR_ID_def
  VIRTIO_MMIO_DEVICE_FEATURES_def VIRTIO_MMIO_GUEST_PAGE_SIZE_def VIRTIO_MMIO_QUEUE_NUM_MAX_def VIRTIO_MMIO_QUEUE_NUM_def
  VIRTIO_MMIO_QUEUE_PFN_def VIRTIO_MMIO_QUEUE_READY_def VIRTIO_MMIO_QUEUE_NOTIFY_def VIRTIO_MMIO_INTERRUPT_STATUS_def
  VIRTIO_MMIO_INTERRUPT_ACK_def VIRTIO_MMIO_STATUS_def VIRTIO_CONFIG_OFFSET_def

record VirtQueueDesc =
  desc_address :: u64
  desc_length :: u32
  desc_flags :: u16
  desc_next :: u16

definition read_desc :: "memory \<Rightarrow> usize \<Rightarrow> VirtQueueDesc" where
  "read_desc m a = \<lparr>desc_address = read_u64 m a, desc_length = read_u32 m (a + 8), desc_flags = read_u16 m (a + 12),
     desc_next = read_u16 m (a + 14)\<rparr>"

record VirtioBlkReq =
  req_type :: u32
  req_reserved :: u32
  req_sector :: u64

definition read_req :: "memory \<Rightarrow> usize \<Rightarrow> VirtioBlkReq" where
  "read_req m a = \<lparr>req_type = read_u32 m a, req_reserved = read_u32 m (a + 4), req_sector = read_u64 m (a + 8)\<rparr>"

record FileInfo =
  entry_cluster :: u32
  file_size :: u32

definition get_file_size :: "FileInfo \<Rightarrow> usize" where
  "get_file_size f = unat (file_size f)"

section \<open>The device\<close>

record VirtioBlkMmio =
  blk_file :: FileInfo
  interrupt_status :: u32
  status :: u32
  queue_size :: usize
  queue_ready :: bool
  page_size :: usize
  descriptor :: usize
  avail_ring :: usize
  used_ring :: usize
  last_avail_id :: u16
  used_id :: u16

text \<open>A file whose size is not a multiple of 512 is refused with a panic.\<close>

definition VirtioBlkMmio_new :: "FileInfo \<Rightarrow> VirtioBlkMmio option" where
  "VirtioBlkMmio_new f =
     (if get_file_size f AND 0x1FF \<noteq> 0 then None
      else Some \<lparr>blk_file = f, interrupt_status = 0, status = 0, queue_size = 0, queue_ready = False, page_size = 2 ^ 12,
        descriptor = 0, avail_ring = 0, used_ring = 0, last_avail_id = 0, used_id = 0\<rparr>)"

text \<open>What the request loop works on besides the device.\<close>

record 'd BlkEnv =
  env_memory :: memory
  env_disk :: 'd
  env_distributor :: GicDistributorMmio
  env_cpu :: Cpu

definition get_descriptor :: "VirtioBlkMmio \<Rightarrow> memory \<Rightarrow> u16 \<Rightarrow> VirtQueueDesc option option" where
  "get_descriptor s m i =
     (if descriptor s \<noteq> 0 then do { a \<leftarrow> usize_add (descriptor s) (16 * unat i); Some (Some (read_desc m a)) } else Some None)"

definition get_descriptor_id :: "VirtioBlkMmio \<Rightarrow> memory \<Rightarrow> u16 \<Rightarrow> u16 option option" where
  "get_descriptor_id s m i =
     (if avail_ring s \<noteq> 0 then do { a \<leftarrow> usize_add (avail_ring s) (2 * 2 + 2 * unat i); Some (Some (read_u16 m a)) }
      else Some None)"

text \<open>The increment of a \<open>u16\<close> panics on overflow, as does the remainder by zero.\<close>

definition u16_inc :: "u16 \<Rightarrow> u16 option" where
  "u16_inc x = (if unat x + 1 < 2 ^ 16 then Some (x + 1) else None)"

definition ring_index :: "u16 \<Rightarrow> usize \<Rightarrow> u16 option" where
  "ring_index i sz = (let n = word_of_nat sz :: u16 in if n = 0 then None else Some (i mod n))"

text \<open>A null available ring is dereferenced without a test; that does not return.\<close>

definition get_next_avail_id :: "VirtioBlkMmio \<Rightarrow> memory \<Rightarrow> (u16 option \<times> VirtioBlkMmio) option" where
  "get_next_avail_id s m =
     (if avail_ring s = 0 then None
      else if last_avail_id s = read_u16 m (avail_ring s + 2) then Some (None, s)
      else do {
        next_id \<leftarrow> ring_index (last_avail_id s) (queue_size s);
        l \<leftarrow> u16_inc (last_avail_id s);
        Some (Some next_id, s\<lparr>last_avail_id := l\<rparr>) })"

definition write_used :: "u16 \<Rightarrow> u32 \<Rightarrow> VirtioBlkMmio \<Rightarrow> memory \<Rightarrow> (VirtioBlkMmio \<times> memory) option" where
  "write_used i len s m = do {
     u \<leftarrow> ring_index (used_id s) (queue_size s);
     u' \<leftarrow> u16_inc (used_id s);
     a \<leftarrow> usize_add (used_ring s) (2 * 2 + 8 * unat u);
     _ \<leftarrow> rust_assert (used_ring s \<noteq> 0);
     Some (s\<lparr>used_id := u'\<rparr>, write_u16 (used_ring s + 2) u' (write_u32 (a + 4) len (write_u32 a (ucast i) m))) }"

type_synonym 'd transfer = "bool \<Rightarrow> FileInfo \<Rightarrow> usize \<Rightarrow> usize \<Rightarrow> usize \<Rightarrow> memory \<times> 'd \<Rightarrow> ((unit + usize) \<times> memory \<times> 'd) option"

definition u32_add :: "u32 \<Rightarrow> u32 \<Rightarrow> u32 option" where
  "u32_add a b = (if unat a + unat b < 2 ^ 32 then Some (a + b) else None)"

text \<open>
  The inner loop: the chain of descriptors after the request header, up to the first one
  without \<open>NEXT\<close>. \<open>Inl ()\<close> is the early \<open>return\<close> of \<open>operation\<close>. Nothing bounds the
  length of the chain, so that the loop need not end.
\<close>

partial_function (option) io_loop ::
  "(usize \<Rightarrow> usize option option) \<Rightarrow> 'd transfer \<Rightarrow> bool \<Rightarrow> VirtioBlkMmio \<Rightarrow> VirtQueueDesc \<Rightarrow> u32 \<Rightarrow> u8 \<Rightarrow> usize \<Rightarrow> 'd BlkEnv \<Rightarrow>
     ((unit + VirtQueueDesc \<times> u32 \<times> u8) \<times> 'd BlkEnv) option" where
  "io_loop phys transfer is_write s desc total_size st offset env =
     Option.bind (get_descriptor s (env_memory env) (desc_next desc)) (\<lambda>n. case n of
       None \<Rightarrow> Some (Inl (), env)
     | Some d \<Rightarrow>
         (if desc_flags d AND VIRT_QUEUE_DESC_FLAGS_NEXT = 0 then Some (Inr (d, total_size, st), env)
          else Option.bind (u32_add total_size (desc_length d)) (\<lambda>total_size1.
            Option.bind (phys (unat (desc_address d))) (\<lambda>p. case p of
              None \<Rightarrow> io_loop phys transfer is_write s d total_size1 VIRTIO_BLK_S_IOERR offset env
            | Some address \<Rightarrow>
                Option.bind (transfer is_write (blk_file s) address offset (unat (desc_length d)) (env_memory env, env_disk env)) (\<lambda>t.
                  Option.bind (usize_add offset (unat (desc_length d))) (\<lambda>offset1.
                    io_loop phys transfer is_write s d total_size1 (if isl (fst t) then VIRTIO_BLK_S_IOERR else st) offset1
                      (env\<lparr>env_memory := fst (snd t), env_disk := snd (snd t)\<rparr>)))))))"

text \<open>One round of the outer loop; \<open>Inl ()\<close> is the early \<open>return\<close>.\<close>

definition operation_request ::
  "(usize \<Rightarrow> usize option option) \<Rightarrow> 'd transfer \<Rightarrow> u16 \<Rightarrow> VirtioBlkMmio \<Rightarrow> 'd BlkEnv \<Rightarrow>
     ((unit + unit) \<times> VirtioBlkMmio \<times> 'd BlkEnv) option" where
  "operation_request phys transfer i s env = do {
     di \<leftarrow> get_descriptor_id s (env_memory env) i;
     (case di of None \<Rightarrow> Some (Inl (), s, env)
      | Some descriptor_id \<Rightarrow> do {
          rd \<leftarrow> get_descriptor s (env_memory env) descriptor_id;
          (case rd of None \<Rightarrow> Some (Inl (), s, env)
           | Some request_descriptor \<Rightarrow>
               (if unat (desc_length request_descriptor) \<noteq> 16 then Some (Inl (), s, env)
                else do {
                  pr \<leftarrow> phys (unat (desc_address request_descriptor));
                  (case pr of None \<Rightarrow> Some (Inl (), s, env)
                   | Some blk_req \<Rightarrow> do {
                       let req = read_req (env_memory env) blk_req;
                       let is_write = (req_type req = VIRTIO_BLK_TYPE_OUT);
                       let offset = unat (push_bit 9 (req_sector req));
                       (if desc_flags request_descriptor AND VIRT_QUEUE_DESC_FLAGS_NEXT = 0 then Some (Inl (), s, env)
                        else do {
                          (r, env1) \<leftarrow> io_loop phys transfer is_write s request_descriptor 0 VIRTIO_BLK_S_OK offset env;
                          (case r of Inl _ \<Rightarrow> Some (Inl (), s, env1)
                           | Inr (d, total_size, st) \<Rightarrow> do {
                               pa \<leftarrow> phys (unat (desc_address d));
                               (m1, total_size1) \<leftarrow> (case pa of
                                   None \<Rightarrow> Some (env_memory env1, total_size)
                                 | Some a \<Rightarrow> do { t \<leftarrow> u32_add total_size (desc_length d); Some ((env_memory env1)(a := st), t) });
                               (s1, m2) \<leftarrow> write_used descriptor_id total_size1 s m1;
                               Some (Inr (), s1, env1\<lparr>env_memory := m2\<rparr>) }) }) }) })) }) }"

partial_function (option) operation_loop ::
  "(usize \<Rightarrow> usize option option) \<Rightarrow> 'd transfer \<Rightarrow> VirtioBlkMmio \<Rightarrow> 'd BlkEnv \<Rightarrow>
     ((unit + unit) \<times> VirtioBlkMmio \<times> 'd BlkEnv) option" where
  "operation_loop phys transfer s env =
     Option.bind (get_next_avail_id s (env_memory env)) (\<lambda>n. case fst n of
       None \<Rightarrow> Some (Inr (), snd n, env)
     | Some i \<Rightarrow> Option.bind (operation_request phys transfer i (snd n) env) (\<lambda>r. case fst r of
           Inl _ \<Rightarrow> Some r
         | Inr _ \<Rightarrow> operation_loop phys transfer (fst (snd r)) (snd (snd r))))"

definition operation ::
  "(usize \<Rightarrow> usize option option) \<Rightarrow> 'd transfer \<Rightarrow> VirtioBlkMmio \<Rightarrow> 'd BlkEnv \<Rightarrow> (VirtioBlkMmio \<times> 'd BlkEnv) option" where
  "operation phys transfer s env = do {
     (r, s1, env1) \<leftarrow> operation_loop phys transfer s env;
     (case r of Inl _ \<Rightarrow> Some (s1, env1)
      | Inr _ \<Rightarrow> do {
          (d, c) \<leftarrow> gicd_trigger_interrupt VIRTIO_BLK_INT_ID None (env_distributor env1) (env_cpu env1);
          Some (s1\<lparr>interrupt_status := interrupt_status s1 OR 1\<rparr>, env1\<lparr>env_distributor := d, env_cpu := c\<rparr>) }) }"

definition VirtioBlkMmio_read :: "VirtioBlkMmio \<Rightarrow> usize \<Rightarrow> u64 \<Rightarrow> (unit + u64) option" where
  "VirtioBlkMmio_read s offset access_width = do {
     v \<leftarrow>
      (if offset = VIRTIO_MMIO_MAGIC then Some (ucast VIRTIO_MMIO_MAGIC_VALUE)
       else if offset = VIRTIO_MMIO_VERSION then Some 0x01
       else if offset = VIRTIO_MMIO_DEVICE_ID then Some 0x02
       else if offset = VIRTIO_MMIO_VENDOR_ID then Some 0x554d4551
       else if offset = VIRTIO_MMIO_DEVICE_FEATURES then Some 0x00
       else if offset = VIRTIO_MMIO_QUEUE_NUM_MAX then Some 1024
       else if offset = VIRTIO_MMIO_QUEUE_READY then Some (of_bool (queue_ready s))
       else if offset = VIRTIO_MMIO_QUEUE_PFN then
         (if page_size s = 0 then None else Some (word_of_nat (descriptor s div page_size s)))
       else if offset = VIRTIO_MMIO_INTERRUPT_STATUS then Some (ucast (interrupt_status s))
       else if offset = VIRTIO_MMIO_STATUS then Some (ucast (status s))
       else if offset \<ge> VIRTIO_CONFIG_OFFSET then
         (let config_offset = offset - VIRTIO_CONFIG_OFFSET
          in if config_offset < 8
             then Some (word_of_nat (drop_bit (config_offset * 8) (drop_bit 9 (get_file_size (blk_file s)))))
             else Some 0)
       else Some 0);
     Some (Inr v) }"

text \<open>The addresses of the rings behind a descriptor table.\<close>

definition place_rings :: "VirtioBlkMmio \<Rightarrow> VirtioBlkMmio option" where
  "place_rings s = do {
     n \<leftarrow> usize_mul 16 (queue_size s);
     avail \<leftarrow> usize_add (descriptor s) n;
     k \<leftarrow> usize_add 3 (queue_size s);
     k2 \<leftarrow> usize_mul 2 k;
     e \<leftarrow> usize_add avail k2;
     e1 \<leftarrow> usize_sub e 1;
     p1 \<leftarrow> usize_sub (page_size s) 1;
     used \<leftarrow> usize_add (e1 AND usize_not p1) (page_size s);
     Some (s\<lparr>avail_ring := avail, used_ring := used\<rparr>) }"

definition VirtioBlkMmio_write ::
  "(usize \<Rightarrow> usize option option) \<Rightarrow> 'd transfer \<Rightarrow> usize \<Rightarrow> u64 \<Rightarrow> u64 \<Rightarrow> VirtioBlkMmio \<Rightarrow> 'd BlkEnv \<Rightarrow>
     ((unit + unit) \<times> VirtioBlkMmio \<times> 'd BlkEnv) option" where
  "VirtioBlkMmio_write phys transfer offset access_width v s env = do {
     (s', env') \<leftarrow>
      (if offset = VIRTIO_MMIO_GUEST_PAGE_SIZE then Some (s\<lparr>page_size := unat v\<rparr>, env)
       else if offset = VIRTIO_MMIO_QUEUE_NUM then do {
         s1 \<leftarrow> place_rings (s\<lparr>queue_size := unat v\<rparr>); Some (s1, env) }
       else if offset = VIRTIO_MMIO_QUEUE_PFN then do {
         a \<leftarrow> usize_mul (unat v) (page_size s);
         p \<leftarrow> phys a;
         (case p of None \<Rightarrow> Some (s, env)
          | Some address \<Rightarrow> do { s1 \<leftarrow> place_rings (s\<lparr>descriptor := address\<rparr>); Some (s1, env) }) }
       else if offset = VIRTIO_MMIO_QUEUE_NOTIFY then
         (if v = 0 then operation phys transfer s env else Some (s, env))
       else if offset = VIRTIO_MMIO_INTERRUPT_ACK then
         Some (s\<lparr>interrupt_status := interrupt_status s AND NOT (ucast v)\<rparr>, env)
       else if offset = VIRTIO_MMIO_STATUS then
         (if v = 0 then Some (s\<lparr>queue_size := 0, queue_ready := False, page_size := 2 ^ 12, interrupt_status := 0, status := 0,
              descriptor := 0, avail_ring := 0, used_ring := 0, last_avail_id := 0, used_id := 0\<rparr>, env)
          else Some (s\<lparr>status := ucast v\<rparr>, env))
       else Some (s, env));
     Some (Inr (), s', env') }"

end
