(* ===== verification/Vm.thy ===== *)
theory Vm
  imports PagingMap Pl011Mmio VirtioBlkMmio
begin

text \<open>
  Virtual machines, \<open>src/src/vm.rs\<close>: the table of emulated devices and the dispatch of
  guest accesses to them, the translation of guest addresses, the list of the machines
  and the choice of the current and of the active one, and the memory that a new machine
  gets. The last section is the trap that leads to the dispatch,
  \<open>src/src/exception.rs\<close>.

  A device behind an \<open>Arc<Mutex<...>>\<close> is a field of the record of its machine, and an
  entry of the device table names the field, so that the shared references of the source
  see the same device.
\<close>

section \<open>Machines\<close>

datatype Device = Pl011Device | VirtioBlkDevice | GicDistributorDevice | GicRedistributorDevice

record MmioEntry =
  base_address :: usize
  entry_length :: usize
  handler :: Device

record VM =
  vm_id :: usize
  ram_virtual_base_address :: usize
  ram_physical_base_address :: usize
  ram_size :: usize
  mmio_handlers :: "MmioEntry list"
  gic_distributor_mmio :: GicDistributorMmio
  gic_redistributor_mmio :: GicRedistributorMmio
  pl011_mmio :: Pl011Mmio
  virtio_blk_mmio :: VirtioBlkMmio

text \<open>
  What the code of one processor works on: the machines (\<open>VM_LIST\<close>), the active one
  (\<open>ACTIVE_VM\<close>, as its position in the list), the memory, the disk, what guests have
  sent to their serial ports, and the registers of the processor.
\<close>

record 'd Host =
  vm_list :: "VM list"
  active_vm :: "usize option"
  ram :: memory
  disk :: 'd
  uart_output :: "u8 list"
  cpu :: Cpu

definition get_physical_address :: "VM \<Rightarrow> usize \<Rightarrow> usize option option" where
  "get_physical_address vm virtual_address = do {
     e \<leftarrow> usize_add (ram_virtual_base_address vm) (ram_size vm);
     (if ram_virtual_base_address vm \<le> virtual_address \<and> virtual_address < e then do {
        a \<leftarrow> usize_add (virtual_address - ram_virtual_base_address vm) (ram_physical_base_address vm);
        Some (Some a) }
      else Some None) }"

fun find_vm :: "VM list \<Rightarrow> usize \<Rightarrow> usize option" where
  "find_vm [] i = None"
| "find_vm (vm # vms) i = (if vm_id vm = i then Some 0 else map_option Suc (find_vm vms i))"

text \<open>The position of the current machine; \<open>None\<close> is the panic of \<open>unwrap\<close>.\<close>

definition get_current_vm :: "'d Host \<Rightarrow> usize option" where
  "get_current_vm s = find_vm (vm_list s) (unat (get_tpidr_el2 (cpu s)))"

definition get_active_vm :: "'d Host \<Rightarrow> usize option" where
  "get_active_vm s = active_vm s"

definition switch_active_vm :: "usize \<Rightarrow> 'd Host \<Rightarrow> bool \<times> 'd Host" where
  "switch_active_vm i s = (case find_vm (vm_list s) i of
     Some k \<Rightarrow> (True, s\<lparr>active_vm := Some k\<rparr>) | None \<Rightarrow> (False, s))"

definition update_vm :: "usize \<Rightarrow> (VM \<Rightarrow> VM) \<Rightarrow> 'd Host \<Rightarrow> 'd Host" where
  "update_vm k f s = s\<lparr>vm_list := (vm_list s)[k := f (vm_list s ! k)]\<rparr>"

definition input_uart :: "u8 \<Rightarrow> 'd Host \<Rightarrow> 'd Host option" where
  "input_uart ch s = do {
     k \<leftarrow> get_active_vm s;
     vm \<leftarrow> rust_nth (vm_list s) k;
     (u, d, c) \<leftarrow> Pl011Mmio_push ch (pl011_mmio vm) (gic_distributor_mmio vm) (cpu s);
     Some (update_vm k (\<lambda>vm. vm\<lparr>pl011_mmio := u, gic_distributor_mmio := d\<rparr>) s\<lparr>cpu := c\<rparr>) }"

section \<open>Dispatch\<close>

text \<open>The entry whose window holds the address; its end is computed only when needed.\<close>

fun find_entry :: "MmioEntry list \<Rightarrow> usize \<Rightarrow> MmioEntry option option" where
  "find_entry [] address = Some None"
| "find_entry (e # es) address =
     (if base_address e \<le> address then do {
        e_end \<leftarrow> usize_add (base_address e) (entry_length e);
        (if address < e_end then Some (Some e) else find_entry es address) }
      else find_entry es address)"

definition device_read :: "Device \<Rightarrow> usize \<Rightarrow> u64 \<Rightarrow> VM \<Rightarrow> ((unit + u64) \<times> VM) option" where
  "device_read dev offset access_width vm = (case dev of
     Pl011Device \<Rightarrow>
       (let (r, u) = Pl011Mmio_read offset access_width (pl011_mmio vm) in Some (r, vm\<lparr>pl011_mmio := u\<rparr>))
   | VirtioBlkDevice \<Rightarrow> do { r \<leftarrow> VirtioBlkMmio_read (virtio_blk_mmio vm) offset access_width; Some (r, vm) }
   | GicDistributorDevice \<Rightarrow> do { r \<leftarrow> GicDistributorMmio_read (gic_distributor_mmio vm) offset access_width; Some (r, vm) }
   | GicRedistributorDevice \<Rightarrow>
       do { r \<leftarrow> GicRedistributorMmio_read (gic_redistributor_mmio vm) offset access_width; Some (r, vm) })"

definition handle_mmio_read :: "usize \<Rightarrow> usize \<Rightarrow> u64 \<Rightarrow> 'd Host \<Rightarrow> ((unit + u64) \<times> 'd Host) option" where
  "handle_mmio_read k address access_width s = do {
     vm \<leftarrow> rust_nth (vm_list s) k;
     m \<leftarrow> find_entry (mmio_handlers vm) address;
     (case m of None \<Rightarrow> Some (Inl (), s)
      | Some e \<Rightarrow> do {
          (r, vm') \<leftarrow> device_read (handler e) (address - base_address e) access_width vm;
          Some (r, update_vm k (\<lambda>_. vm') s) }) }"

text \<open>\<open>get_current_vm().get_physical_address(...)\<close> of the block device.\<close>

definition current_physical_address :: "'d Host \<Rightarrow> usize \<Rightarrow> usize option option" where
  "current_physical_address s a = do {
     j \<leftarrow> get_current_vm s; vm \<leftarrow> rust_nth (vm_list s) j; get_physical_address vm a }"

text \<open>
  The block device translates addresses for the current machine \<open>j\<close> and interrupts through its
  distributor. The trap, from which alone the device is reached, has looked up the
  current machine before, so that looking it up here again cannot fail.
\<close>

definition virtio_blk_write ::
  "'d transfer \<Rightarrow> usize \<Rightarrow> usize \<Rightarrow> u64 \<Rightarrow> u64 \<Rightarrow> 'd Host \<Rightarrow> ((unit + unit) \<times> 'd Host) option" where
  "virtio_blk_write transfer k offset access_width v s = do {
     j \<leftarrow> get_current_vm s;
     (r, b, env) \<leftarrow> VirtioBlkMmio_write (current_physical_address s) transfer offset access_width v (virtio_blk_mmio (vm_list s ! k))
       \<lparr>env_memory = ram s, env_disk = disk s, env_distributor = gic_distributor_mmio (vm_list s ! j), env_cpu = cpu s\<rparr>;
     Some (r, update_vm j (\<lambda>vm. vm\<lparr>gic_distributor_mmio := env_distributor env\<rparr>)
       (update_vm k (\<lambda>vm. vm\<lparr>virtio_blk_mmio := b\<rparr>) s)\<lparr>ram := env_memory env, disk := env_disk env, cpu := env_cpu env\<rparr>) }"

definition device_write ::
  "'d transfer \<Rightarrow> Device \<Rightarrow> usize \<Rightarrow> usize \<Rightarrow> u64 \<Rightarrow> u64 \<Rightarrow> 'd Host \<Rightarrow> ((unit + unit) \<times> 'd Host) option" where
  "device_write transfer dev k offset access_width v s = (case dev of
     Pl011Device \<Rightarrow>
       (let (r, u, out) = Pl011Mmio_write offset access_width v (pl011_mmio (vm_list s ! k)) (uart_output s)
        in Some (r, update_vm k (\<lambda>vm. vm\<lparr>pl011_mmio := u\<rparr>) s\<lparr>uart_output := out\<rparr>))
   | VirtioBlkDevice \<Rightarrow> virtio_blk_write transfer k offset access_width v s
   | GicDistributorDevice \<Rightarrow> do {
       (r, d, c) \<leftarrow> GicDistributorMmio_write offset access_width v (gic_distributor_mmio (vm_list s ! k)) (cpu s);
       Some (r, update_vm k (\<lambda>vm. vm\<lparr>gic_distributor_mmio := d\<rparr>) s\<lparr>cpu := c\<rparr>) }
   | GicRedistributorDevice \<Rightarrow> do {
       (r, d, c) \<leftarrow> GicRedistributorMmio_write offset access_width v (gic_redistributor_mmio (vm_list s ! k)) (cpu s);
       Some (r, update_vm k (\<lambda>vm. vm\<lparr>gic_redistributor_mmio := d\<rparr>) s\<lparr>cpu := c\<rparr>) })"

definition handle_mmio_write ::
  "'d transfer \<Rightarrow> usize \<Rightarrow> usize \<Rightarrow> u64 \<Rightarrow> u64 \<Rightarrow> 'd Host \<Rightarrow> ((unit + unit) \<times> 'd Host) option" where
  "handle_mmio_write transfer k address access_width v s = do {
     vm \<leftarrow> rust_nth (vm_list s) k;
     m \<leftarrow> find_entry (mmio_handlers vm) address;
     (case m of None \<Rightarrow> Some (Inl (), s)
      | Some e \<Rightarrow> device_write transfer (handler e) k (address - base_address e) access_width v s) }"

section \<open>Registers and start\<close>

definition setup_hypervisor_registers :: "Cpu \<Rightarrow> Cpu" where
  "setup_hypervisor_registers c =
     (let c1 = set_vpidr_el2 (get_midr_el1 c) c;
          c2 = set_vmpidr_el2 (get_mpidr_el1 c1) c1
      in set_hcr_el2 (HCR_EL2_RW OR HCR_EL2_API OR HCR_EL2_AMO OR HCR_EL2_IMO OR HCR_EL2_FMO OR HCR_EL2_VM) c2)"

text \<open>\<open>eret\<close> leaves to the address in \<open>ELR_EL2\<close> with the four arguments in \<open>x0\<close> to \<open>x3\<close>.\<close>

definition boot_vm :: "usize \<Rightarrow> usize \<Rightarrow> Cpu \<Rightarrow> Cpu \<times> u64 list" where
  "boot_vm entry_point argument c =
     (set_elr_el2 (word_of_nat entry_point) (set_spsr_el2 SPSR_EL2_M_EL1H c), [word_of_nat argument, 0, 0, 0])"

section \<open>Creation\<close>

definition RAM_VIRTUAL_BASE :: usize where "RAM_VIRTUAL_BASE = 0x40000000"
definition RAM_SIZE :: usize where "RAM_SIZE = 0x10000000"
definition ALIGN_SIZE :: usize where "ALIGN_SIZE = 0x200000"

text \<open>
  The memory of a new machine: its RAM, an empty stage-2 table and the mapping of the RAM.
  The argument is \<open>ID_AA64MMFR0_EL1\<close>; every failure is a panic.
\<close>

definition create_vm_memory :: "u64 \<Rightarrow> Stage2 \<Rightarrow> (usize \<times> Stage2) option" where
  "create_vm_memory id_aa64mmfr0_el1 st = do {
     (r, al) \<leftarrow> allocate_pages (page_allocator st) (drop_bit PAGE_SHIFT RAM_SIZE) PAGE_SHIFT;
     ram_physical_address \<leftarrow> result_ok r;
     st1 \<leftarrow> init_stage2_translation_table id_aa64mmfr0_el1 (st\<lparr>page_allocator := al\<rparr>);
     (r, st2) \<leftarrow> map_address_stage2 ram_physical_address RAM_VIRTUAL_BASE RAM_SIZE True True st1;
     _ \<leftarrow> result_ok r;
     Some (ram_physical_address, st2) }"

text \<open>The device table of a new machine.\<close>

definition create_vm_devices :: "MmioEntry list" where
  "create_vm_devices =
     [\<lparr>base_address = 0x9000000, entry_length = 0x1000, handler = Pl011Device\<rparr>,
      \<lparr>base_address = 0xa000000, entry_length = 0x0200, handler = VirtioBlkDevice\<rparr>,
      \<lparr>base_address = 0x8000000, entry_length = GicDistributorMmio_MMIO_SIZE, handler = GicDistributorDevice\<rparr>,
      \<lparr>base_address = 0x80a0000, entry_length = GicRedistributorMmio_MMIO_SIZE, handler = GicRedistributorDevice\<rparr>]"

definition VM_new :: "usize \<Rightarrow> usize \<Rightarrow> u64 \<Rightarrow> FileInfo \<Rightarrow> VM option" where
  "VM_new i ram_physical_address cpu_mpidr disk_file = do {
     b \<leftarrow> VirtioBlkMmio_new disk_file;
     Some \<lparr>vm_id = i, ram_virtual_base_address = RAM_VIRTUAL_BASE, ram_physical_base_address = ram_physical_address,
       ram_size = RAM_SIZE, mmio_handlers = create_vm_devices, gic_distributor_mmio = GicDistributorMmio_new,
       gic_redistributor_mmio = GicRedistributorMmio_new cpu_mpidr, pl011_mmio = Pl011Mmio_new, virtio_blk_mmio = b\<rparr> }"

section \<open>The trap\<close>

type_synonym Registers = "u64 list"

definition access_width_of :: "u64 \<Rightarrow> u64" where
  "access_width_of esr =
     (let sas = drop_bit ESR_EL2_ISS_SAS_BITS_OFFSET (esr AND ESR_EL2_ISS_SAS)
      in if sas = 0b00 then 8 else if sas = 0b01 then 16 else if sas = 0b10 then 32 else 64)"

definition fault_address :: "Cpu \<Rightarrow> u64" where
  "fault_address c = push_bit PAGE_SHIFT (drop_bit HPFAR_EL2_FIPA_BITS_OFFSET (get_hpfar_el2 c AND HPFAR_EL2_FIPA))
     OR (get_far_el2 c AND (push_bit PAGE_SHIFT 1 - 1))"

definition data_abort_handler ::
  "'d transfer \<Rightarrow> Registers \<Rightarrow> u64 \<Rightarrow> 'd Host \<Rightarrow> (Registers \<times> 'd Host) option" where
  "data_abort_handler transfer registers esr s = do {
     _ \<leftarrow> rust_assert (esr AND ESR_EL2_ISS_ISV \<noteq> 0);
     let is_64bit_register = (esr AND ESR_EL2_ISS_SF \<noteq> 0);
     let access_width = access_width_of esr;
     let is_write_access = (esr AND ESR_EL2_ISS_WNR \<noteq> 0);
     let register_number = unat (drop_bit ESR_EL2_ISS_SRT_BITS_OFFSET (esr AND ESR_EL2_ISS_SRT));
     let address = unat (fault_address (cpu s));
     x \<leftarrow> rust_nth registers register_number;
     k \<leftarrow> get_current_vm s;
     (registers1, s1) \<leftarrow>
      (if is_write_access then do {
         let register_value = (if is_64bit_register then x else x AND 0xffffffff);
         (r, s1) \<leftarrow> handle_mmio_write transfer k address access_width register_value s;
         _ \<leftarrow> result_ok r;
         Some (registers, s1) }
       else do {
         (r, s1) \<leftarrow> handle_mmio_read k address access_width s;
         v \<leftarrow> result_ok r;
         Some (registers[register_number := v], s1) });
     c \<leftarrow> advance_elr_el2 (cpu s1);
     Some (registers1, s1\<lparr>cpu := c\<rparr>) }"

definition synchronous_handler :: "'d transfer \<Rightarrow> Registers \<Rightarrow> 'd Host \<Rightarrow> (Registers \<times> 'd Host) option" where
  "synchronous_handler transfer registers s =
     (let esr = get_esr_el2 (cpu s)
      in if esr AND ESR_EL2_EC = ESR_EL2_EC_DATA_ABORT then data_abort_handler transfer registers esr s else None)"

definition setup_exception :: "u64 \<Rightarrow> Cpu \<Rightarrow> Cpu" where
  "setup_exception exception_table c =
     (let c1 = set_vbar_el2 exception_table c
      in set_icc_ctlr_el1 (get_icc_ctlr_el1 c1 OR ICC_CTLR1_EL1_EOI_MODE) c1)"

end
