(* ===== verification/VirtioProps.thy ===== *)
theory VirtioProps
  imports VirtioBlkMmio
begin

text \<open>
  Properties of the emulated block device: the layout of its rings, what a reset does,
  that a chain of descriptors with an end is processed to its end, and the guest actions
  that bring the hypervisor down.
\<close>

section \<open>A sample device\<close>

text \<open>
  A device with a queue of eight entries at \<open>0x1000\<close>. Its descriptor 0 leads to descriptor 1, a
  buffer of 512 bytes, and that to descriptor 2; descriptor 5 leads back to itself.
\<close>

definition sample_blk :: VirtioBlkMmio where
  "sample_blk = \<lparr>blk_file = \<lparr>entry_cluster = 2, file_size = 1024\<rparr>, interrupt_status = 0, status = 0, queue_size = 8, queue_ready = False,
     page_size = 4096, descriptor = 0x1000, avail_ring = 0x1080, used_ring = 0x2000, last_avail_id = 0xffff, used_id = 0\<rparr>"

definition sample_blk_memory :: memory where
  "sample_blk_memory = (\<lambda>_. 0)(0x1000 + 12 := 1, 0x1000 + 14 := 1, 0x1010 + 9 := 2, 0x1010 + 12 := 1, 0x1010 + 14 := 2,
     0x1050 + 12 := 1, 0x1050 + 14 := 5)"

definition sample_blk_env :: "unit BlkEnv" where
  "sample_blk_env = \<lparr>env_memory = sample_blk_memory, env_disk = (), env_distributor = sample_gicd, env_cpu = sample_cpu\<rparr>"

definition sample_phys :: "usize \<Rightarrow> usize option option" where
  "sample_phys a = Some (if a < 0x1000 then None else Some a)"

definition sample_transfer :: "unit transfer" where
  "sample_transfer wr f a off n x = Some (Inr n, x)"

definition sample_desc :: "u16 \<Rightarrow> VirtQueueDesc" where
  "sample_desc j = read_desc sample_blk_memory (0x1000 + 16 * unat j)"

lemmas sample_reads = sample_desc_def read_desc_def read_u64_def read_u32_def read_u16_def sample_blk_memory_def

section \<open>Layout of the rings\<close>

lemma place_rings_run:
  assumes "page_size s = 2 ^ k" and "descriptor s + 18 * queue_size s + 6 + page_size s < 2 ^ 64"
  defines "e \<equiv> descriptor s + 16 * queue_size s + 2 * (3 + queue_size s)"
  shows "place_rings s = Some (s\<lparr>avail_ring := descriptor s + 16 * queue_size s,
    used_ring := (e - 1) - (e - 1) mod page_size s + page_size s\<rparr>)"
proof -
  have k: "k \<le> 64"
  proof (rule ccontr)
    assume "\<not> k \<le> 64"
    then have "(2::nat) ^ 64 \<le> 2 ^ k" by (intro power_increasing) simp_all
    then show False using assms(1,2) by simp
  qed
  have e: "0 < e" "e + page_size s < 2 ^ 64" using assms(2) by (simp_all add: e_def)
  have m: "(e - 1) AND usize_not (2 ^ k - 1) = (e - 1) - (e - 1) mod 2 ^ k"
    using e by (intro and_not_mask [OF _ k]) simp
  have u: "(e - 1) - (e - 1) mod 2 ^ k + 2 ^ k < 2 ^ 64"
    using e assms(1) diff_le_self [of "e - 1" "(e - 1) mod 2 ^ k"] by linarith
  have p: "usize_sub (page_size s) 1 = Some (2 ^ k - 1)" by (simp add: assms(1))
  show ?thesis
    using e m u assms(1,2) unfolding e_def
    by (simp add: place_rings_def usize_mul_def usize_add_def usize_sub_def del: One_nat_def)
qed

text \<open>
  After the guest has set the size of the queue, the rings have the layout of the virtio
  legacy interface: the available ring follows the descriptor table, and the used ring
  starts at the first page boundary behind the end of the available ring.
\<close>

theorem virtio_rings_layout:
  assumes "page_size s = 2 ^ k" and "descriptor s + 18 * unat v + 6 + page_size s < 2 ^ 64"
  shows "\<exists>s'. VirtioBlkMmio_write phys transfer VIRTIO_MMIO_QUEUE_NUM w v s env = Some (Inr (), s', env) \<and>
    avail_ring s' = descriptor s + 16 * unat v \<and> page_size s dvd used_ring s' \<and>
    avail_ring s' + 2 * (3 + unat v) \<le> used_ring s' \<and> used_ring s' < avail_ring s' + 2 * (3 + unat v) + page_size s"
proof -
  define e where "e = descriptor s + 16 * unat v + 2 * (3 + unat v)"
  have run: "place_rings (s\<lparr>queue_size := unat v\<rparr>) = Some (s\<lparr>queue_size := unat v,
      avail_ring := descriptor s + 16 * unat v, used_ring := (e - 1) - (e - 1) mod page_size s + page_size s\<rparr>)"
    using place_rings_run [of "s\<lparr>queue_size := unat v\<rparr>" k] assms by (simp add: e_def)
  have "0 < e" "0 < page_size s" by (simp_all add: e_def assms(1))
  note r = round_up [OF this]
  show ?thesis using run r(1-3) by (simp add: VirtioBlkMmio_write_def virtio_offsets e_def)
qed

theorem virtio_rings_layout_witness:
  "\<exists>s'. VirtioBlkMmio_write sample_phys sample_transfer VIRTIO_MMIO_QUEUE_NUM 2 8 sample_blk sample_blk_env = Some (Inr (), s', sample_blk_env) \<and>
    avail_ring s' = 0x1080 \<and> 4096 dvd used_ring s' \<and> 0x1080 + 2 * (3 + 8) \<le> used_ring s' \<and> used_ring s' < 0x1080 + 2 * (3 + 8) + 4096"
  using virtio_rings_layout [of sample_blk 12 8 sample_phys sample_transfer 2 sample_blk_env] by (force simp: sample_blk_def)

text \<open>
  Writing zero to the status register resets the device to the state in which
  \<open>VirtioBlkMmio::new\<close> creates it for the same file, whatever state it was in.
\<close>

theorem virtio_reset_equals_new:
  assumes "512 dvd get_file_size (blk_file s)"
  shows "\<exists>s'. VirtioBlkMmio_new (blk_file s) = Some s' \<and>
    VirtioBlkMmio_write phys transfer VIRTIO_MMIO_STATUS w 0 s env = Some (Inr (), s', env)"
proof -
  have "get_file_size (blk_file s) AND 0x1FF = get_file_size (blk_file s) mod 2 ^ 9"
    using take_bit_eq_mask [of 9 "get_file_size (blk_file s)"] by (simp add: take_bit_eq_mod mask_eq_exp_minus_1)
  then show ?thesis
    using assms by (simp add: VirtioBlkMmio_new_def VirtioBlkMmio_write_def virtio_offsets mod_eq_0_iff_dvd)
qed

theorem virtio_reset_equals_new_witness:
  "\<exists>s'. VirtioBlkMmio_new (blk_file sample_blk) = Some s' \<and>
    VirtioBlkMmio_write sample_phys sample_transfer VIRTIO_MMIO_STATUS 2 0 sample_blk sample_blk_env = Some (Inr (), s', sample_blk_env)"
  by (rule virtio_reset_equals_new) (simp add: sample_blk_def get_file_size_def)

text \<open>
  A guest that sets its page size to zero brings the hypervisor down: afterwards reading the
  queue address divides by zero, and setting the queue size underflows.
\<close>

theorem virtio_page_size_zero_panics:
  "\<exists>s'. VirtioBlkMmio_write phys transfer VIRTIO_MMIO_GUEST_PAGE_SIZE w 0 s env = Some (Inr (), s', env) \<and>
    VirtioBlkMmio_read s' VIRTIO_MMIO_QUEUE_PFN w = None \<and>
    VirtioBlkMmio_write phys transfer VIRTIO_MMIO_QUEUE_NUM w v s' env = None"
proof -
  have "place_rings (s\<lparr>page_size := 0, queue_size := unat v\<rparr>) = None"
    by (cases "place_rings (s\<lparr>page_size := 0, queue_size := unat v\<rparr>)") (auto simp: place_rings_def)
  then show ?thesis by (simp add: VirtioBlkMmio_write_def VirtioBlkMmio_read_def virtio_offsets)
qed

text \<open>
  C32. The ring counters are 16-bit and wrap in the interface, but not here: a guest that makes
  one more request after 65535 of them makes the hypervisor panic.
\<close>

theorem virtio_counter_overflow_panics:
  assumes "last_avail_id s = 0xffff" and "read_u16 (env_memory env) (avail_ring s + 2) \<noteq> 0xffff"
  shows "operation phys transfer s env = None"
proof -
  have "get_next_avail_id s (env_memory env) = None"
    using assms by (cases "ring_index 0xffff (queue_size s)") (auto simp: get_next_avail_id_def u16_inc_def)
  then show ?thesis by (simp add: operation_def operation_loop.simps)
qed

theorem virtio_counter_overflow_panics_witness:
  "operation sample_phys sample_transfer sample_blk sample_blk_env = None"
  by (rule virtio_counter_overflow_panics)
    (simp_all add: sample_blk_def sample_blk_env_def sample_blk_memory_def read_u16_def)

section \<open>Descriptor chains\<close>

text \<open>The descriptors from number \<open>j\<close> on are \<open>ds\<close>, and the last of them has no successor.\<close>

fun chain :: "VirtioBlkMmio \<Rightarrow> memory \<Rightarrow> u16 \<Rightarrow> VirtQueueDesc list \<Rightarrow> bool" where
  "chain s m j [] \<longleftrightarrow> False"
| "chain s m j [d] \<longleftrightarrow> get_descriptor s m j = Some (Some d) \<and> desc_flags d AND VIRT_QUEUE_DESC_FLAGS_NEXT = 0"
| "chain s m j (d # e # ds) \<longleftrightarrow> get_descriptor s m j = Some (Some d) \<and>
     desc_flags d AND VIRT_QUEUE_DESC_FLAGS_NEXT \<noteq> 0 \<and> chain s m (desc_next d) (e # ds)"

definition bytes :: "VirtQueueDesc list \<Rightarrow> nat" where
  "bytes ds = sum_list (map (\<lambda>d. unat (desc_length d)) ds)"

text \<open>
  What the loop needs of the transfer: it returns, and it does not touch the descriptors.
  The translation of guest addresses must not panic.
\<close>

definition well_behaved :: "VirtioBlkMmio \<Rightarrow> (usize \<Rightarrow> usize option option) \<Rightarrow> 'd transfer \<Rightarrow> bool" where
  "well_behaved s phys transfer \<longleftrightarrow> (\<forall>x. phys x \<noteq> None) \<and>
     (\<forall>wr f a off n m dk. \<exists>r m' dk'. transfer wr f a off n (m, dk) = Some (r, m', dk') \<and>
        (\<forall>j. get_descriptor s m' j = get_descriptor s m j))"

lemma chain_cong: "(\<And>j. get_descriptor s m' j = get_descriptor s m j) \<Longrightarrow> chain s m' j ds = chain s m j ds"
  by (induction s m j ds rule: chain.induct) auto

lemma io_loop_chain:
  assumes "well_behaved s phys transfer" and "chain s (env_memory env) (desc_next desc) ds"
    and "unat t + bytes (butlast ds) < 2 ^ 32" and "offset + bytes (butlast ds) < 2 ^ 64"
  shows "\<exists>st' env'. io_loop phys transfer wr s desc t st offset env =
    Some (Inr (last ds, t + word_of_nat (bytes (butlast ds)), st'), env')"
  using assms(2-4)
proof (induction ds arbitrary: desc t st offset env rule: induct_list012)
  case (2 d)
  then show ?case by (subst io_loop.simps) (simp add: bytes_def)
next
  case (3 d e ds)
  let ?n = "unat (desc_length d)"
  have d: "get_descriptor s (env_memory env) (desc_next desc) = Some (Some d)"
      "desc_flags d AND VIRT_QUEUE_DESC_FLAGS_NEXT \<noteq> 0" "chain s (env_memory env) (desc_next d) (e # ds)"
    using "3.prems"(1) by simp_all
  have b: "bytes (butlast (d # e # ds)) = ?n + bytes (butlast (e # ds))" by (simp add: bytes_def)
  have t: "u32_add t (desc_length d) = Some (t + desc_length d)" "unat (t + desc_length d) = unat t + ?n"
    using "3.prems"(2) b by (simp_all add: u32_add_def unat_word_ariths)
  have sum: "t + word_of_nat (bytes (butlast (d # e # ds))) = t + desc_length d + word_of_nat (bytes (butlast (e # ds)))"
    unfolding b by simp
  have last: "List.last (d # e # ds) = List.last (e # ds)" by simp
  obtain p where p: "phys (unat (desc_address d)) = Some p" using assms(1) unfolding well_behaved_def by blast
  show ?case
  proof (cases p)
    case None
    have "\<exists>st' env'. io_loop phys transfer wr s d (t + desc_length d) VIRTIO_BLK_S_IOERR offset env =
        Some (Inr (last (e # ds), t + desc_length d + word_of_nat (bytes (butlast (e # ds))), st'), env')"
      by (rule "3.IH"(2)) (use d(3) "3.prems"(2,3) b t(2) in simp_all)
    moreover have "io_loop phys transfer wr s desc t st offset env =
        io_loop phys transfer wr s d (t + desc_length d) VIRTIO_BLK_S_IOERR offset env"
      using d p None t(1) by (subst io_loop.simps) simp
    ultimately show ?thesis unfolding sum last by simp
  next
    case (Some a)
    obtain r m' dk' where tr: "transfer wr (blk_file s) a offset ?n (env_memory env, env_disk env) = Some (r, m', dk')"
        "\<And>j. get_descriptor s m' j = get_descriptor s (env_memory env) j"
      using assms(1) unfolding well_behaved_def by blast
    have o: "usize_add offset ?n = Some (offset + ?n)" using "3.prems"(3) b by simp
    have "\<exists>st' env'. io_loop phys transfer wr s d (t + desc_length d) (if isl r then VIRTIO_BLK_S_IOERR else st) (offset + ?n)
        (env\<lparr>env_memory := m', env_disk := dk'\<rparr>) =
        Some (Inr (last (e # ds), t + desc_length d + word_of_nat (bytes (butlast (e # ds))), st'), env')"
      by (rule "3.IH"(2)) (use d(3) "3.prems"(2,3) b t(2) chain_cong [OF tr(2)] in simp_all)
    moreover have "io_loop phys transfer wr s desc t st offset env =
        io_loop phys transfer wr s d (t + desc_length d) (if isl r then VIRTIO_BLK_S_IOERR else st) (offset + ?n)
          (env\<lparr>env_memory := m', env_disk := dk'\<rparr>)"
      using d p Some t(1) tr(1) by (subst io_loop.simps) (simp add: o del: usize_add_Some)
    ultimately show ?thesis unfolding sum last by simp
  qed
qed simp





end
