(* ===== verification/VmProps.thy ===== *)
theory VmProps
  imports Vm VirtioProps
begin

text \<open>
  Properties of virtual machines: the memory of a new machine is its own, the translation
  in software agrees with that of the hardware, a trap changes nothing of the other
  machines, and what of this does not hold for the rings of the block device.
\<close>

section \<open>Memory of a new machine\<close>

lemma result_ok_Some: "result_ok r = Some a \<longleftrightarrow> r = Inr a"
  by (cases r) auto

lemma parameters_small: "fst (stage2_parameters ps) \<le> 32"
  by (simp add: stage2_parameters_def)

lemma RAM_facts: "PAGE_SIZE dvd RAM_VIRTUAL_BASE" "PAGE_SIZE dvd RAM_SIZE" "drop_bit PAGE_SHIFT RAM_SIZE * PAGE_SIZE = RAM_SIZE"
  "RAM_SIZE = 2 ^ 28" "RAM_VIRTUAL_BASE = 2 ^ 30"
  by (simp_all add: RAM_VIRTUAL_BASE_def RAM_SIZE_def PAGE_SIZE_def PAGE_SHIFT_def drop_bit_eq_div)

text \<open>The RAM of a machine as a set of addresses.\<close>

definition ram_bytes :: "usize \<Rightarrow> usize set" where
  "ram_bytes a = {a..<a + RAM_SIZE}"

lemma create_vm_memory_outcome:
  assumes rd: "allocator_ready (page_allocator st)" and low: "free_frames st \<subseteq> {..<2 ^ 47}"
    and run: "create_vm_memory v st = Some (pa, st')"
  obtains P where "ram_bytes pa \<subseteq> free_frames st - free_frames st'" "stage2_inv st' P"
    "P \<subseteq> free_frames st - free_frames st' - ram_bytes pa" "free_frames st' \<subseteq> free_frames st"
    "translation st' = map_range pa RAM_VIRTUAL_BASE RAM_SIZE 3 (\<lambda>_. None)"
    "\<And>a. a \<notin> free_frames st - free_frames st' - ram_bytes pa \<Longrightarrow> tables st' a = tables st a"
proof -
  obtain al st1 where al: "allocate_pages (page_allocator st) (drop_bit PAGE_SHIFT RAM_SIZE) PAGE_SHIFT = Some (Inr pa, al)"
    and st1: "init_stage2_translation_table v (st\<lparr>page_allocator := al\<rparr>) = Some st1"
    and map: "map_address_stage2 pa RAM_VIRTUAL_BASE RAM_SIZE True True st1 = Some (Inr (), st')"
    using run by (auto simp: create_vm_memory_def result_ok_Some)
  have "(0::nat) < drop_bit PAGE_SHIFT RAM_SIZE" "drop_bit PAGE_SHIFT RAM_SIZE < 2 ^ 52" "PAGE_SHIFT \<le> 48"
    by (simp_all add: RAM_SIZE_def PAGE_SHIFT_def drop_bit_eq_div)
  from allocator.alloc_ok [OF rd this al]
  have a: "allocator_ready al" "PAGE_SIZE dvd pa" "ram_bytes pa \<subseteq> free_frames st" "free_bytes al = free_frames st - ram_bytes pa"
    by (simp_all add: RAM_facts(3) ram_bytes_def)
  note i = init_stage2_outcome [of "st\<lparr>page_allocator := al\<rparr>", simplified, OF a(1) _ st1]
  have low1: "free_bytes al \<subseteq> {..<2 ^ 47}" using a(4) low by blast
  note i = i [OF this [simplified]]
  let ?Q = "slots (stage2_table st1) (stage2_descriptors st1)"
  have "(2::nat) ^ 32 \<le> 2 ^ (64 - fst (stage2_parameters (v AND ID_AA64MMFR0_EL1_PARANGE)))"
    using parameters_small [of "v AND ID_AA64MMFR0_EL1_PARANGE"] by (intro power_increasing) simp_all
  then have span: "2 ^ 32 \<le> stage2_span st1" using i(2) by simp
  have "pa \<in> ram_bytes pa" by (simp add: ram_bytes_def RAM_SIZE_def)
  then have "pa < 2 ^ 47" using a(3) low by blast
  then have b: "pa + RAM_SIZE \<le> 2 ^ 50" "RAM_VIRTUAL_BASE + RAM_SIZE \<le> 2 ^ 52" "RAM_VIRTUAL_BASE < stage2_span st1"
    using span by (simp_all add: RAM_facts(4,5))
  obtain P n where o: "stage2_inv st' P" "translation st' = map_range pa RAM_VIRTUAL_BASE n (permission_bits True True) (translation st1)"
      "n = min RAM_SIZE (stage2_span st1 - RAM_VIRTUAL_BASE)" "free_frames st' \<subseteq> free_frames st1"
      "\<And>a. a \<notin> ?Q \<union> (free_frames st1 - free_frames st') \<Longrightarrow> tables st' a = tables st1 a"
      "P \<subseteq> ?Q \<union> (free_frames st1 - free_frames st')"
    by (rule map_address_stage2_outcome [OF i(4) a(2) RAM_facts(1,2) _ b, of True True])
      (use map i(3) in \<open>auto simp: RAM_facts(4)\<close>)
  show thesis
  proof (rule that [of P])
    show "stage2_inv st' P" by (rule o(1))
    show "free_frames st' \<subseteq> free_frames st" using o(4) i(5) a(4) by blast
    show "ram_bytes pa \<subseteq> free_frames st - free_frames st'" using o(4) i(5) a(3,4) by blast
    show "P \<subseteq> free_frames st - free_frames st' - ram_bytes pa" using o(4,6) i(5,6) a(4) by blast
    have "n = RAM_SIZE" using o(3) span by (simp add: RAM_facts(4,5))
    then show "translation st' = map_range pa RAM_VIRTUAL_BASE RAM_SIZE 3 (\<lambda>_. None)"
      using o(2) i(3) by (simp add: permission_bits_def)
    show "tables st' a = tables st a" if "a \<notin> free_frames st - free_frames st' - ram_bytes pa" for a
    proof -
      have "a \<notin> ?Q \<union> (free_frames st1 - free_frames st')" "a \<notin> free_bytes al - free_frames st1"
        using that o(4) i(5,6) a(4) by blast+
      then show ?thesis using o(5) i(7) by simp
    qed
  qed
qed

text \<open>
  A machine that is created later gets other RAM, and with the registers of the earlier one
  the hardware still translates as before.
\<close>

lemma create_vm_memory_later:
  assumes "allocator_ready (page_allocator st)" and "free_frames st \<subseteq> {..<2 ^ 47}"
    and "create_vm_memory v st = Some (pa, st1)"
    and "allocator_ready (page_allocator st2)" and "free_frames st2 \<subseteq> free_frames st1" and "tables st2 = tables st1"
    and "create_vm_memory v' st2 = Some (pa', st3)"
  shows "ram_bytes pa \<inter> ram_bytes pa' = {} \<and>
    translation (st3\<lparr>vttbr_el2 := vttbr_el2 st1, vtcr_el2 := vtcr_el2 st1\<rparr>) = translation st1"
proof -
  obtain P where o: "ram_bytes pa \<subseteq> free_frames st - free_frames st1" "stage2_inv st1 P" "free_frames st1 \<subseteq> free_frames st"
      "P \<subseteq> free_frames st - free_frames st1 - ram_bytes pa"
    using create_vm_memory_outcome [OF assms(1-3)] by metis
  have "free_frames st2 \<subseteq> {..<2 ^ 47}" using assms(2,5) o(3) by blast
  then obtain P' where o': "ram_bytes pa' \<subseteq> free_frames st2 - free_frames st3"
      "\<And>a. a \<notin> free_frames st2 - free_frames st3 - ram_bytes pa' \<Longrightarrow> tables st3 a = tables st2 a"
    using create_vm_memory_outcome [OF assms(4) _ assms(7)] by metis
  let ?r = "st3\<lparr>vttbr_el2 := vttbr_el2 st1, vtcr_el2 := vtcr_el2 st1\<rparr>"
  have same: "stage2_level ?r = stage2_level st1" "stage2_descriptors ?r = stage2_descriptors st1"
      "stage2_table ?r = stage2_table st1" "stage2_span ?r = stage2_span st1"
    by (simp_all add: stage2_level_def stage2_descriptors_def stage2_table_def stage2_span_def)
  have "tables st3 a = tables st1 a" if "a \<in> P" for a
    using o'(2) [of a] that o(4) assms(5,6) by auto
  moreover obtain e where "stage2_descriptors st1 = 2 ^ e" using descriptors_power by blast
  ultimately have w: "walk (tables st3) (3 - stage2_level st1) (stage2_descriptors st1) (stage2_table st1) x =
      walk (tables st1) (3 - stage2_level st1) (stage2_descriptors st1) (stage2_table st1) x" for x
    using o(2) by (intro walk_frame [of _ _ _ _ P]) (auto simp: stage2_inv_def)
  have "translation ?r x = translation st1 x" for x
    using w [of x] unfolding translation_def same by simp
  then have "translation ?r = translation st1" by (rule ext)
  moreover have "ram_bytes pa \<inter> ram_bytes pa' = {}" using o(1) o'(1) assms(5) by blast
  ultimately show ?thesis by blast
qed

text \<open>
  C21. When \<open>create_vm\<close> has set up the memory of a machine, the hardware translates exactly the
  addresses of the guest's RAM, to the 256 MiB taken from the allocator, and agrees with
  the translation in software, \<open>get_physical_address\<close>. The RAM was free before and is
  not free any more, and the translation tables lie outside it, in memory that was free
  before, so that the guest reaches neither its tables nor anything else. A machine that
  is created later, while others have only taken more memory from the allocator, gets RAM
  disjoint from that of this one, and with the registers of this one the hardware still
  translates as before.
\<close>

theorem vm_memory_isolated:
  assumes "allocator_ready (page_allocator st)" and "free_frames st \<subseteq> {..<2 ^ 47}"
    and "create_vm_memory v st = Some (pa, st')" and "VM_new i pa mpidr f = Some vm"
  shows "(\<forall>x. get_physical_address vm x = Some (map_option fst (translation st' x))) \<and>
    (\<forall>x a p. translation st' x = Some (a, p) \<longrightarrow> a \<in> ram_bytes pa) \<and>
    ram_bytes pa \<subseteq> free_frames st - free_frames st' \<and>
    (\<exists>P. stage2_inv st' P \<and> P \<inter> ram_bytes pa = {} \<and> P \<subseteq> free_frames st) \<and>
    (\<forall>st2 w pa2 st3. allocator_ready (page_allocator st2) \<and> free_frames st2 \<subseteq> free_frames st' \<and> tables st2 = tables st' \<and>
       create_vm_memory w st2 = Some (pa2, st3) \<longrightarrow> ram_bytes pa \<inter> ram_bytes pa2 = {} \<and>
       translation (st3\<lparr>vttbr_el2 := vttbr_el2 st', vtcr_el2 := vtcr_el2 st'\<rparr>) = translation st')"
proof -
  obtain P where o: "ram_bytes pa \<subseteq> free_frames st - free_frames st'" "stage2_inv st' P"
      "P \<subseteq> free_frames st - free_frames st' - ram_bytes pa"
      "translation st' = map_range pa RAM_VIRTUAL_BASE RAM_SIZE 3 (\<lambda>_. None)"
    using create_vm_memory_outcome [OF assms(1-3)] by metis
  have "pa \<in> ram_bytes pa" by (simp add: ram_bytes_def RAM_SIZE_def)
  then have "pa < 2 ^ 47" using o(1) assms(2) by blast
  then have "get_physical_address vm x = Some (map_option fst (translation st' x))" for x
    using assms(4) unfolding o(4)
    by (auto simp: VM_new_def get_physical_address_def map_range_def usize_add_def RAM_facts(4,5))
  moreover have "a \<in> ram_bytes pa" if "translation st' x = Some (a, p)" for x a p
    using that by (auto simp: o(4) map_range_def ram_bytes_def split: if_splits)
  moreover have "\<exists>P. stage2_inv st' P \<and> P \<inter> ram_bytes pa = {} \<and> P \<subseteq> free_frames st" using o(2,3) by blast
  ultimately show ?thesis using o(1) create_vm_memory_later [OF assms(1-3)] by blast
qed

section \<open>A creation that succeeds\<close>

lemma map_block_step:
  assumes "1 \<le> level" and "shift < 64" and "2 ^ shift dvd pa" and "2 ^ shift dvd ipa" and "2 ^ shift \<le> rem"
    and "pa + 2 ^ shift < 2 ^ 64" and "ipa + 2 ^ shift < 2 ^ 64"
  shows "\<exists>st'. map_entries_loop f perm level shift (Suc k) d st (pa, ipa, rem) =
    (if rem - 2 ^ shift = 0 then Some (Inr (), st', pa + 2 ^ shift, ipa + 2 ^ shift, rem - 2 ^ shift)
     else map_entries_loop f perm level shift k (d + 8) st' (pa + 2 ^ shift, ipa + 2 ^ shift, rem - 2 ^ shift))"
proof -
  have "advance (pa, ipa, rem) (2 ^ shift) = Some (pa + 2 ^ shift, ipa + 2 ^ shift, rem - 2 ^ shift)"
    using assms(5-7) by (simp add: advance_def usize_add_def usize_sub_def)
  then show ?thesis
    using assms(1,3-5) entry_mask(3) [OF assms(2)]
    by (intro exI [of _ "st\<lparr>tables := (tables st)(d := validate_as_block_descriptor (leaf_descriptor pa perm))\<rparr>"])
      (simp add: entry_mask(1,2) [OF assms(2)] Let_def del: bind_Some_iff One_nat_def)
qed

text \<open>Mapping whole blocks takes no memory.\<close>

lemma map_blocks:
  assumes "1 \<le> level" and "n < k" and "shift < 64" and "2 ^ shift dvd pa" and "2 ^ shift dvd ipa"
    and "pa + Suc n * 2 ^ shift < 2 ^ 64" and "ipa + Suc n * 2 ^ shift < 2 ^ 64"
  shows "\<exists>st' pa' ipa'. map_entries_loop f perm level shift k d st (pa, ipa, Suc n * 2 ^ shift) = Some (Inr (), st', pa', ipa', 0)"
  using assms
proof (induction n arbitrary: k d st pa ipa)
  case (Suc n)
  let ?B = "(2::nat) ^ shift"
  obtain k' where k: "k = Suc k'" "n < k'" using Suc.prems(2) by (cases k) auto
  have al: "?B dvd pa + ?B" "?B dvd ipa + ?B" using Suc.prems(4,5) by simp_all
  have bnd: "pa + ?B + Suc n * ?B < 2 ^ 64" "ipa + ?B + Suc n * ?B < 2 ^ 64" using Suc.prems(6,7) by simp_all
  have b: "pa + ?B < 2 ^ 64" "ipa + ?B < 2 ^ 64" using bnd by linarith+
  have "Suc (Suc n) * ?B - ?B = Suc n * ?B" by simp
  then show ?case
    using map_block_step [OF Suc.prems(1,3-5) _ b, of "Suc (Suc n) * ?B" f perm k' d st] Suc.IH [OF Suc.prems(1) k(2) Suc.prems(3) al bnd]
    unfolding k(1) by (metis le_add1 mult_Suc)
next
  case 0
  obtain k' where k: "k = Suc k'" using 0(2) by (cases k) auto
  show ?case using map_block_step [OF 0(1,3-5), of "2 ^ shift" f perm k' d st] 0(6,7) unfolding k by auto
qed

lemma map_ram_succeeds:
  assumes st: "stage2_level st = 1" "stage2_descriptors st = 512" "tables st (stage2_table st + 8) = 0"
    and al: "allocate_pages (page_allocator st) 1 12 = Some (Inr t, al)" and pa: "2 ^ 21 dvd pa" "pa < 2 ^ 47"
  shows "\<exists>st'. map_address_stage2 pa RAM_VIRTUAL_BASE RAM_SIZE True True st = Some (Inr (), st')"
proof -
  let ?p = "permission_bits True True"
  have e: "\<exists>st1. next_level_table (stage2_table st + 8) st = Some (Inr t, st1)"
    using st(3) al by (simp add: next_level_table_def is_table_descriptor_def Let_def del: One_nat_def)
  then obtain st1 where e: "next_level_table (stage2_table st + 8) st = Some (Inr t, st1)" by blast
  have sz: "RAM_SIZE = Suc 127 * 2 ^ 21" by (simp add: RAM_SIZE_def)
  have "\<exists>st' pa' ipa'. map_entries_loop (map_address_level ?p 0 512) ?p (3 - Suc 0) (12 + 9 * Suc 0) 512 t st1
      (pa, RAM_VIRTUAL_BASE, RAM_SIZE) = Some (Inr (), st', pa', ipa', 0)"
    unfolding sz using map_blocks [of 2 127 512 21 pa RAM_VIRTUAL_BASE "map_address_level ?p 0 512" ?p t st1] pa
    by (simp add: RAM_VIRTUAL_BASE_def)
  moreover have "drop_bit 21 RAM_VIRTUAL_BASE AND 511 = 0" by (simp add: RAM_VIRTUAL_BASE_def drop_bit_eq_div)
  ultimately obtain st2 pa' ipa' where sub: "map_address_level ?p 1 512 t st1 (pa, RAM_VIRTUAL_BASE, RAM_SIZE) = Some (Inr (), st2, pa', ipa', 0)"
    by (auto simp: Let_def)
  have "drop_bit 30 RAM_VIRTUAL_BASE AND 511 = 1" by (simp add: RAM_VIRTUAL_BASE_def drop_bit_eq_div)
  then have top: "map_address_level ?p 2 512 (stage2_table st) st (pa, RAM_VIRTUAL_BASE, RAM_SIZE) =
      map_entries_loop (map_address_level ?p 1 512) ?p 1 30 (Suc 510) (stage2_table st + 8) st (pa, RAM_VIRTUAL_BASE, RAM_SIZE)"
    by (simp add: numeral_2_eq_2 Let_def del: map_entries_loop.simps)
  have "usize_shl 1 30 = Some (2 ^ 30)" "\<not> 2 ^ 30 \<le> RAM_SIZE" by (simp_all add: usize_shl_one RAM_SIZE_def del: One_nat_def)
  then have "map_address_level ?p 2 512 (stage2_table st) st (pa, RAM_VIRTUAL_BASE, RAM_SIZE) = Some (Inr (), st2, pa', ipa', 0)"
    unfolding top map_entries_loop.simps prod.case using e sub
    by (simp add: usize_sub_def del: One_nat_def bind_Some_iff usize_shl_Some)
  then show ?thesis
    using st(1,2) RAM_facts(2) unfolding map_address_stage2_def page_aligned_iff permission_word
    by (simp add: numeral_2_eq_2)
qed

lemma few_runs_not_full:
  assumes "alloc_inv s" and "card (run_ends (free_bytes s)) < 64"
  shows "\<not> pool_full s"
proof
  assume "pool_full s"
  then have "card (live (memory_entry_pool s)) = 64" by (simp add: pool_full_def POOL_SIZE_def)
  with assms(2) card_live_runs [OF assms(1)] show False by simp
qed

lemma allocate_pages_succeeds:
  assumes rd: "allocator_ready s" and n: "0 < n" "n * PAGE_SIZE < free_size s" and al: "al \<le> 48"
    and run: "2 ^ al dvd a" "{a..<a + n * PAGE_SIZE} \<subseteq> free_bytes s" and few: "card (run_ends (free_bytes s)) < 64"
    and rest: "n * PAGE_SIZE < card (free_bytes s)"
  obtains b s' where "allocate_pages s n al = Some (Inr b, s')" "takes s s' b (n * PAGE_SIZE)"
proof -
  note inv = rd [unfolded allocator_ready_def]
  obtain r s' where o: "allocate_pages s n al = Some (r, s')"
    "case r of
       Inr a \<Rightarrow> takes s s' a (n * PAGE_SIZE) \<and> 2 ^ al dvd a \<and> PAGE_SIZE dvd a \<and> page_granular (free_bytes s')
     | Inl NoMemory \<Rightarrow> s' = s \<and> (\<nexists>a. 2 ^ al dvd a \<and> {a..<a + n * PAGE_SIZE} \<subseteq> free_bytes s)
     | Inl NoEntry \<Rightarrow> s' = s \<and> ((\<exists>a. free_bytes s = {a..<a + n * PAGE_SIZE}) \<or> pool_full s)
     | Inl _ \<Rightarrow> False"
    using allocate_pages_outcome [OF _ _ allocator_ready_roundable [OF rd al] n] inv by blast
  have "free_bytes s \<noteq> {a..<a + n * PAGE_SIZE}" for a using rest by auto
  moreover have "\<not> pool_full s" using few_runs_not_full few inv by blast
  ultimately show thesis using o run that by (auto split: sum.splits MemoryError.splits)
qed

text \<open>The boot allocator after 1 MiB more has been freed.\<close>

definition vm_allocator :: MemoryAllocator where
  "vm_allocator = snd (the (free_memory boot_allocator 0x60000000 0x100000))"

definition vm_stage2 :: Stage2 where
  "vm_stage2 = \<lparr>tables = (\<lambda>_. 0), page_allocator = vm_allocator, vttbr_el2 = 0, vtcr_el2 = 0\<rparr>"

lemma vm_allocator_facts:
  "alloc_inv vm_allocator" "free_bytes vm_allocator = {0x40000000..<0x50000000} \<union> {0x60000000..<0x60100000}"
  "free_size vm_allocator = 0x10200000"
proof -
  obtain s' where "free_memory boot_allocator 0x60000000 0x100000 = Some (Inr (), s')" "alloc_inv s'"
    "free_bytes s' = free_bytes boot_allocator \<union> {0x60000000..<0x60000000 + 0x100000}" "free_size s' = 0x10200000"
    using free_memory_outcome [OF boot_allocator_facts(1), of "0x60000000" "0x100000"] boot_not_full
    by (auto simp: boot_allocator_facts)
  then show "alloc_inv vm_allocator" "free_bytes vm_allocator = {0x40000000..<0x50000000} \<union> {0x60000000..<0x60100000}"
    "free_size vm_allocator = 0x10200000"
    by (simp_all add: vm_allocator_def boot_allocator_facts)
qed

lemma vm_allocator_ready: "allocator_ready vm_allocator"
  unfolding allocator_ready_def vm_allocator_facts using vm_allocator_facts(1)
  by (auto intro!: page_granular_Un page_granular_interval simp: PAGE_SIZE_def PAGE_SHIFT_def)

lemma vm_ram_allocated:
  obtains s where "allocate_pages vm_allocator (drop_bit PAGE_SHIFT RAM_SIZE) PAGE_SHIFT = Some (Inr 0x40000000, s)"
    "allocator_ready s" "free_bytes s = {0x60000000..<0x60100000}" "free_size s = 0x200000"
proof -
  let ?n = "drop_bit PAGE_SHIFT RAM_SIZE"
  have sz: "?n * PAGE_SIZE = 0x10000000" using RAM_facts(3,4) by simp
  have n: "0 < ?n" "?n < 2 ^ 52" by (simp_all add: RAM_SIZE_def PAGE_SHIFT_def drop_bit_eq_div)
  have ends: "run_ends (free_bytes vm_allocator) = {0x4fffffff, 0x600fffff}"
    by (auto simp: run_ends_def vm_allocator_facts)
  have "card (free_bytes vm_allocator) = 0x10000000 + 0x100000"
    unfolding vm_allocator_facts by (subst card_Un_disjoint) auto
  then obtain b s where b: "allocate_pages vm_allocator ?n PAGE_SHIFT = Some (Inr b, s)" "takes vm_allocator s b 0x10000000"
    using allocate_pages_succeeds [OF vm_allocator_ready n(1), of PAGE_SHIFT "0x40000000"] ends
    unfolding sz by (auto simp: vm_allocator_facts PAGE_SHIFT_def)
  have sub: "{b..<b + 0x10000000} \<subseteq> {0x40000000..<0x50000000} \<union> {0x60000000..<0x60100000}"
    using b(2) by (simp add: takes_def vm_allocator_facts)
  have "x \<in> {0x40000000..<0x50000000} \<union> {0x60000000..<0x60100000}" if "x \<in> {b..<b + 0x10000000}" for x
    using sub that by blast
  from this [of b] this [of "b + 0xfffffff"]
  have "b = 0x40000000" by auto
  moreover have "allocator_ready s" using allocator.alloc_ok [OF vm_allocator_ready n _ b(1)] by (simp add: PAGE_SHIFT_def)
  moreover have "{0x40000000..<0x50000000} \<union> {0x60000000..<0x60100000} - {0x40000000..<0x50000000} = {0x60000000..<0x60100000::nat}"
    by (rule set_eqI) (simp, linarith)
  then have "free_bytes s = {0x60000000..<0x60100000}" "free_size s = 0x200000"
    using b(2) \<open>b = 0x40000000\<close> by (simp_all add: takes_def vm_allocator_facts)
  ultimately show thesis using b(1) that by simp
qed

lemma vm_stage2_created: "\<exists>pa st'. create_vm_memory 0 vm_stage2 = Some (pa, st')"
proof -
  obtain s1 where s1: "allocate_pages vm_allocator (drop_bit PAGE_SHIFT RAM_SIZE) PAGE_SHIFT = Some (Inr 0x40000000, s1)"
    "allocator_ready s1" "free_bytes s1 = {0x60000000..<0x60100000}" "free_size s1 = 0x200000" by (rule vm_ram_allocated)
  have "run_ends (free_bytes s1) = {0x600fffff}" by (auto simp: run_ends_def s1(3))
  then obtain t s2 where t: "allocate_pages s1 1 12 = Some (Inr t, s2)" "takes s1 s2 t PAGE_SIZE"
    using allocate_pages_succeeds [OF s1(2), of 1 12 "0x60000000"] by (auto simp: s1 PAGE_SIZE_def PAGE_SHIFT_def)
  have rd: "allocator_ready s2" and al: "PAGE_SIZE dvd t" using allocator.alloc_ok [OF s1(2) _ _ _ t(1)] by simp_all
  have fb: "free_bytes s2 = {0x60000000..<0x60100000} - {t..<t + 4096}" "free_size s2 = 0x1ff000"
    using t(2) by (simp_all add: takes_def s1 PAGE_SIZE_def PAGE_SHIFT_def)
  have "run_ends (free_bytes s2) \<subseteq> {0x600fffff, t - 1}" by (auto simp: run_ends_def fb)
  then have "card (run_ends (free_bytes s2)) \<le> card {0x600fffff, t - 1}" by (intro card_mono) simp_all
  also have "\<dots> \<le> 2" by (simp add: card_insert_if)
  finally have few: "card (run_ends (free_bytes s2)) < 64" by simp
  define q :: nat where "q = (if t = 0x60000000 then 0x60001000 else 0x60000000)"
  have "t \<in> {0x60000000..<0x60100000}" using t(2) by (auto simp: takes_def s1 PAGE_SIZE_def PAGE_SHIFT_def)
  moreover have "4096 dvd t" using al by (simp add: PAGE_SIZE_def PAGE_SHIFT_def)
  ultimately have q: "{q..<q + 4096} \<subseteq> free_bytes s2" "2 ^ 12 dvd q"
    unfolding fb q_def by (auto elim!: dvdE)
  have "card (free_bytes s2) = 0x100000 - 4096"
    unfolding fb using t(2) by (subst card_Diff_subset) (auto simp: takes_def s1 PAGE_SIZE_def PAGE_SHIFT_def)
  note card = this
  obtain t2 s3 where t2: "allocate_pages s2 1 12 = Some (Inr t2, s3)"
    by (rule allocate_pages_succeeds [OF rd, of 1 12 q]) (use q few card in \<open>simp_all add: fb PAGE_SIZE_def PAGE_SHIFT_def\<close>)
  let ?st = "vm_stage2\<lparr>page_allocator := s1\<rparr>"
  have par: "stage2_parameters (0 AND ID_AA64MMFR0_EL1_PARANGE) = (32, 1)" "number_of_concatenated_page_tables 32 1 = 1"
    by (simp_all add: stage2_parameters_def number_of_concatenated_page_tables_def)
  obtain st1 where st1: "init_stage2_translation_table 0 ?st = Some st1"
    using par t(1) by (simp add: init_stage2_translation_table_def Let_def del: One_nat_def)
  obtain t' al' where e: "allocate_pages s1 1 12 = Some (Inr t', al')"
    "st1 = ?st\<lparr>page_allocator := al', tables := init_table (tables ?st) t' 512, vtcr_el2 := stage2_vtcr 0, vttbr_el2 := word_of_nat t'\<rparr>"
    using init_run [OF st1] par by (auto simp del: One_nat_def)
  have lvl: "stage2_level st1 = 1"
    unfolding stage2_level_def e(2) using par(1) by (simp add: stage2_vtcr_fields del: drop_bit_and)
  moreover have "stage2_descriptors st1 = 512"
    unfolding stage2_descriptors_def lvl unfolding e(2) using par by (simp add: stage2_vtcr_fields del: drop_bit_and)
  moreover have "tables st1 a = 0" for a by (simp add: e(2) init_table_nth vm_stage2_def)
  ultimately obtain st' where "map_address_stage2 0x40000000 RAM_VIRTUAL_BASE RAM_SIZE True True st1 = Some (Inr (), st')"
    using map_ram_succeeds [of st1 t2 s3 "0x40000000"] t2 e t(1) by (auto simp: e(2))
  then show ?thesis using s1(1) st1 by (auto simp: create_vm_memory_def vm_stage2_def)
qed

definition sample_file :: FileInfo where
  "sample_file = \<lparr>entry_cluster = 2, file_size = 1024\<rparr>"

theorem vm_memory_isolated_witness:
  "\<exists>pa st' vm. create_vm_memory 0 vm_stage2 = Some (pa, st') \<and> VM_new 0 pa 0 sample_file = Some vm \<and>
    (\<forall>x. get_physical_address vm x = Some (map_option fst (translation st' x))) \<and> ram_bytes pa \<subseteq> free_bytes vm_allocator"
proof -
  obtain pa st' where run: "create_vm_memory 0 vm_stage2 = Some (pa, st')" using vm_stage2_created by blast
  obtain vm where vm: "VM_new 0 pa 0 sample_file = Some vm"
    by (simp add: VM_new_def VirtioBlkMmio_new_def sample_file_def get_file_size_def)
  have "free_frames vm_stage2 \<subseteq> {..<2 ^ 47}" by (auto simp: vm_stage2_def vm_allocator_facts)
  from vm_memory_isolated [OF _ this run vm] run vm vm_allocator_ready show ?thesis by (auto simp: vm_stage2_def)
qed

end
