(* ===== verification/VmTrap.thy ===== *)
theory VmTrap
  imports VmProps
begin

text \<open>
  Properties of the trap that emulates a device access: it returns for the accesses that
  the devices allow, and whatever the guest does, it changes one register of the guest,
  the program counter and the guest's own machine only. The devices are used through the
  locale \<open>mmio_device\<close>.
\<close>

section \<open>Registers that devices leave alone\<close>

definition host_regs :: "Cpu \<Rightarrow> u64 list \<times> u64 list \<times> u64 list" where
  "host_regs c = ([hcr_el2 c, elr_el2 c, spsr_el2 c, vbar_el2 c, tpidr_el2 c, mpidr_el1 c, esr_el2 c, far_el2 c, hpfar_el2 c],
     icc_eoir1_el1 c, icc_dir_el1 c)"

definition keeps :: "Cpu \<Rightarrow> ('a \<times> Cpu) option \<Rightarrow> bool" where
  "keeps c m \<longleftrightarrow> (\<forall>x c'. m = Some (x, c') \<longrightarrow> host_regs c' = host_regs c)"

lemma keeps_if: "(b \<Longrightarrow> keeps c m) \<Longrightarrow> (\<not> b \<Longrightarrow> keeps c m') \<Longrightarrow> keeps c (if b then m else m')"
  by simp

lemma keeps_bind: "(\<And>y. m = Some y \<Longrightarrow> keeps c (f y)) \<Longrightarrow> keeps c (Option.bind m f)"
  by (cases m) (simp_all add: keeps_def)

lemma keeps_Some: "host_regs c' = host_regs c \<Longrightarrow> keeps c (Some (x, c'))"
  by (simp add: keeps_def)

lemma host_regs_add: "host_regs (add_virtual_interrupt e c) = host_regs c"
proof -
  have "host_regs (set_lr i v c) = host_regs c" if "i < 3" for i v
    using that by (auto simp: set_lr_def SET_ICH_LRN_EL2_def host_regs_def asm_defs less_Suc_eq numeral_3_eq_3)
  moreover have "i < 3" if "lr_slot e c = Some i" for i
    using that supported_le(1) [of c] by (auto simp: lr_slot_def find_Some_iff simp del: supported_le)
  ultimately show ?thesis by (simp add: add_virtual_interrupt_slot split: option.splits)
qed

lemma host_regs_sgi: "host_regs (set_icc_sgi1r_el1 v c) = host_regs c"
  by (simp add: host_regs_def set_icc_sgi1r_el1_def)

lemmas keeps_rules = keeps_if keeps_bind keeps_Some host_regs_add host_regs_sgi refl

lemma gicd_trigger_keeps: "keeps c (gicd_trigger_interrupt i p d c)"
  unfolding gicd_trigger_interrupt_def Let_def by (intro keeps_rules)

lemma gicr_trigger_keeps: "keeps c (gicr_trigger_interrupt i p d c)"
  unfolding gicr_trigger_interrupt_def Let_def by (intro keeps_rules)

lemma keeps_trans:
  assumes "keeps c m" and "\<And>x c1. m = Some (x, c1) \<Longrightarrow> keeps c1 (f x c1)"
  shows "keeps c (do { (x, c1) \<leftarrow> m; f x c1 })"
  using assms by (cases m) (auto simp: keeps_def)

lemma gicd_trigger_loop_keeps: "keeps c (gicd_trigger_loop check i v d c)"
proof (induction check i v d c rule: gicd_trigger_loop.induct)
  case (1 check i v d c)
  have t: "keeps c (if b then gicd_trigger_interrupt (word_of_nat i) None d c else Some (d, c))" for b
    by (intro keeps_rules gicd_trigger_keeps)
  show ?case
    by (subst gicd_trigger_loop.simps) (rule keeps_if, simp add: keeps_def, rule keeps_bind, rule keeps_trans [OF t], rule "1.IH", assumption+, simp)
qed

lemma gicr_trigger_loop_keeps: "keeps c (gicr_trigger_loop check n v r c)"
proof (induction check n v r c rule: gicr_trigger_loop.induct)
  case (2 check n v r c)
  have t: "keeps c (if b then gicr_trigger_interrupt (word_of_nat (31 - n)) None r c else Some (r, c))" for b
    by (intro keeps_rules gicr_trigger_keeps)
  show ?case
    unfolding gicr_trigger_loop.simps
    by (rule keeps_if, simp add: keeps_def, rule keeps_bind, rule keeps_trans [OF t], rule "2.IH", assumption+, simp)
qed (simp add: keeps_def)

lemma keeps_write:
  assumes "keeps c m" and "(do { (d', c') \<leftarrow> m; Some (Inr () :: unit + unit, d', c') }) = Some (r, d', c')"
  shows "host_regs c' = host_regs c"
  using assms by (cases m) (auto simp: keeps_def)

lemma gicd_write_keeps:
  assumes "GicDistributorMmio_write offset w v d c = Some (r, d', c')"
  shows "host_regs c' = host_regs c"
  by (rule keeps_write [OF _ assms [unfolded GicDistributorMmio_write_def]]) (intro keeps_rules gicd_trigger_loop_keeps)

lemma gicr_write_keeps:
  assumes "GicRedistributorMmio_write offset w v d c = Some (r, d', c')"
  shows "host_regs c' = host_regs c"
  by (rule keeps_write [OF _ assms [unfolded GicRedistributorMmio_write_def Let_def]]) (intro keeps_rules gicr_trigger_loop_keeps)

section \<open>The block device\<close>

definition same_cpu :: "('x \<Rightarrow> 'c) \<Rightarrow> 'c \<Rightarrow> 'x option \<Rightarrow> bool" where
  "same_cpu get c m \<longleftrightarrow> (\<forall>r. m = Some r \<longrightarrow> get r = c)"

lemma same_cpu_rules:
  "(b \<Longrightarrow> same_cpu get c m) \<Longrightarrow> (\<not> b \<Longrightarrow> same_cpu get c m') \<Longrightarrow> same_cpu get c (if b then m else m')"
  "(\<And>y. n = Some y \<Longrightarrow> same_cpu get c (f y)) \<Longrightarrow> same_cpu get c (Option.bind n f)"
  "(o' = None \<Longrightarrow> same_cpu get c m) \<Longrightarrow> (\<And>z. o' = Some z \<Longrightarrow> same_cpu get c (g z)) \<Longrightarrow>
     same_cpu get c (case o' of None \<Rightarrow> m | Some z \<Rightarrow> g z)"
  "(\<And>a. u = Inl a \<Longrightarrow> same_cpu get c (h a)) \<Longrightarrow> (\<And>b. u = Inr b \<Longrightarrow> same_cpu get c (k b)) \<Longrightarrow>
     same_cpu get c (case u of Inl a \<Rightarrow> h a | Inr b \<Rightarrow> k b)"
  "(\<And>a b. p = (a, b) \<Longrightarrow> same_cpu get c (q a b)) \<Longrightarrow> same_cpu get c (case p of (a, b) \<Rightarrow> q a b)"
  "get r = c \<Longrightarrow> same_cpu get c (Some r)"
  by (auto simp: same_cpu_def split: option.splits sum.splits prod.splits)

lemma same_cpuI: "(\<And>r. m = Some r \<Longrightarrow> get r = c) \<Longrightarrow> same_cpu get c m"
  and same_cpuD: "m = Some r \<Longrightarrow> same_cpu get c m \<Longrightarrow> get r = c"
  by (auto simp: same_cpu_def)

lemma io_loop_cpu:
  assumes "io_loop phys transfer wr s desc t st offset env = Some r"
  shows "env_cpu (snd r) = env_cpu env"
proof (rule io_loop.raw_induct [OF _ assms, where P = "\<lambda>_ _ _ _ _ _ _ _ env r. env_cpu (snd r) = env_cpu env"], goal_cases)
  case (1 f phys transfer wr s desc t st offset env r)
  show ?case
    by (rule same_cpuD [OF 1(2), where get = "\<lambda>r. env_cpu (snd r)"])
      (intro same_cpu_rules; (simp; fail | rule same_cpuI, drule 1(1), simp))
qed

lemma operation_request_cpu: "same_cpu (\<lambda>r. env_cpu (snd (snd r))) (env_cpu env) (operation_request phys transfer i s env)"
  unfolding operation_request_def Let_def
  by (intro same_cpu_rules) (auto dest!: io_loop_cpu)

lemma operation_loop_cpu:
  assumes "operation_loop phys transfer s env = Some r"
  shows "env_cpu (snd (snd r)) = env_cpu env"
proof (rule operation_loop.raw_induct [OF _ assms, where P = "\<lambda>_ _ _ env r. env_cpu (snd (snd r)) = env_cpu env"], goal_cases)
  case (1 f phys transfer s env r)
  note req = operation_request_cpu [of env phys transfer, unfolded same_cpu_def, rule_format]
  show ?case
    by (rule same_cpuD [OF 1(2), where get = "\<lambda>r. env_cpu (snd (snd r))"])
      (intro same_cpu_rules; (simp add: req; fail | rule same_cpuI, drule 1(1), simp add: req))
qed

lemma operation_keeps:
  assumes "operation phys transfer s env = Some (s', env')"
  shows "host_regs (env_cpu env') = host_regs (env_cpu env)"
proof -
  obtain r s1 env1 where l: "operation_loop phys transfer s env = Some (r, s1, env1)"
    using assms by (auto simp: operation_def)
  then have c: "env_cpu env1 = env_cpu env" using operation_loop_cpu by fastforce
  show ?thesis
    using assms l c gicd_trigger_keeps [of "env_cpu env1" VIRTIO_BLK_INT_ID None "env_distributor env1"]
    by (cases r) (auto simp: operation_def keeps_def)
qed

lemma virtio_write_keeps:
  assumes "VirtioBlkMmio_write phys transfer offset w v s env = Some (r, s', env')"
  shows "host_regs (env_cpu env') = host_regs (env_cpu env)"
proof -
  have "same_cpu (\<lambda>p. host_regs (env_cpu (snd p))) (host_regs (env_cpu env)) m"
    if "m = operation phys transfer s env" for m
    using that operation_keeps by (auto simp: same_cpu_def)
  with assms show ?thesis unfolding VirtioBlkMmio_write_def
    by (auto simp: same_cpu_def split: if_splits option.splits)
qed

section \<open>What an access changes\<close>

definition vm_frame :: "VM \<Rightarrow> VM \<Rightarrow> bool" where
  "vm_frame vm vm' \<longleftrightarrow> vm_id vm' = vm_id vm \<and> ram_virtual_base_address vm' = ram_virtual_base_address vm \<and>
     ram_physical_base_address vm' = ram_physical_base_address vm \<and> ram_size vm' = ram_size vm \<and>
     mmio_handlers vm' = mmio_handlers vm"

text \<open>Only machine \<open>k\<close> has changed, and of it only the state of its devices.\<close>

definition only_machine :: "usize \<Rightarrow> 'd Host \<Rightarrow> 'd Host \<Rightarrow> bool" where
  "only_machine k s s' \<longleftrightarrow> length (vm_list s') = length (vm_list s) \<and> active_vm s' = active_vm s \<and>
     (\<forall>j<length (vm_list s). if j = k then vm_frame (vm_list s ! k) (vm_list s' ! k) else vm_list s' ! j = vm_list s ! j)"

lemma only_machine_update:
  assumes "k < length (vm_list s) \<Longrightarrow> vm_frame (vm_list s ! k) (f (vm_list s ! k))"
  shows "only_machine k s (update_vm k f s)"
  using assms by (auto simp: only_machine_def update_vm_def nth_list_update)

lemma only_machine_fields:
  "only_machine k s (s'\<lparr>cpu := c\<rparr>) = only_machine k s s'" "only_machine k s (s'\<lparr>ram := m\<rparr>) = only_machine k s s'"
  "only_machine k s (s'\<lparr>disk := x\<rparr>) = only_machine k s s'" "only_machine k s (s'\<lparr>uart_output := y\<rparr>) = only_machine k s s'"
  "update_vm k f (s\<lparr>cpu := c\<rparr>) = (update_vm k f s)\<lparr>cpu := c\<rparr>" "update_vm k f (s\<lparr>uart_output := y\<rparr>) = (update_vm k f s)\<lparr>uart_output := y\<rparr>"
  "cpu (update_vm k f s) = cpu s"
  by (simp_all add: only_machine_def update_vm_def)

lemma only_machine_trans:
  assumes "only_machine k s s'" and "only_machine k s' s''"
  shows "only_machine k s s''"
  using assms by (auto simp: only_machine_def vm_frame_def split: if_splits)

lemma device_read_frame: "device_read dev off w vm = Some (r, vm') \<Longrightarrow> vm_frame vm vm'"
  by (auto simp: device_read_def vm_frame_def split: Device.splits prod.splits)

lemma handle_mmio_read_only:
  assumes "handle_mmio_read k a w s = Some (r, s')"
  shows "only_machine k s s' \<and> cpu s' = cpu s"
proof -
  obtain m where vm: "k < length (vm_list s)" and m: "find_entry (mmio_handlers (vm_list s ! k)) a = Some m"
    using assms by (auto simp: handle_mmio_read_def)
  show ?thesis
  proof (cases m)
    case None
    then show ?thesis using assms vm m by (auto simp: handle_mmio_read_def only_machine_def vm_frame_def)
  next
    case (Some e)
    then obtain vm' where "device_read (handler e) (a - base_address e) w (vm_list s ! k) = Some (r, vm')"
        "s' = update_vm k (\<lambda>_. vm') s"
      using assms vm m by (auto simp: handle_mmio_read_def)
    then show ?thesis using device_read_frame by (auto simp: only_machine_fields intro!: only_machine_update)
  qed
qed

lemma virtio_blk_write_only:
  assumes "virtio_blk_write transfer k off w v s = Some (r, s')" and "get_current_vm s = Some k"
  shows "only_machine k s s' \<and> host_regs (cpu s') = host_regs (cpu s)"
proof -
  obtain b env where w: "VirtioBlkMmio_write (current_physical_address s) transfer off w v (virtio_blk_mmio (vm_list s ! k))
       \<lparr>env_memory = ram s, env_disk = disk s, env_distributor = gic_distributor_mmio (vm_list s ! k), env_cpu = cpu s\<rparr> = Some (r, b, env)"
    and s': "s' = update_vm k (\<lambda>vm. vm\<lparr>gic_distributor_mmio := env_distributor env\<rparr>)
       (update_vm k (\<lambda>vm. vm\<lparr>virtio_blk_mmio := b\<rparr>) s)\<lparr>ram := env_memory env, disk := env_disk env, cpu := env_cpu env\<rparr>"
    using assms by (auto simp: virtio_blk_write_def)
  have "only_machine k s (update_vm k (\<lambda>vm. vm\<lparr>gic_distributor_mmio := env_distributor env\<rparr>) (update_vm k (\<lambda>vm. vm\<lparr>virtio_blk_mmio := b\<rparr>) s))"
    by (rule only_machine_trans; rule only_machine_update; simp add: vm_frame_def)
  then show ?thesis using virtio_write_keeps [OF w] by (simp add: s' only_machine_fields)
qed

lemma device_write_only:
  assumes "device_write transfer dev k off w v s = Some (r, s')" and "get_current_vm s = Some k"
  shows "only_machine k s s' \<and> host_regs (cpu s') = host_regs (cpu s)"
  using assms virtio_blk_write_only [of transfer k off w v s r s']
  by (cases dev) (auto simp: device_write_def only_machine_fields vm_frame_def split: prod.splits
      intro!: only_machine_update dest: gicd_write_keeps gicr_write_keeps)

lemma handle_mmio_write_only:
  assumes "handle_mmio_write transfer k a w v s = Some (r, s')" and "get_current_vm s = Some k"
  shows "only_machine k s s' \<and> host_regs (cpu s') = host_regs (cpu s)"
proof -
  obtain m where vm: "k < length (vm_list s)" and m: "find_entry (mmio_handlers (vm_list s ! k)) a = Some m"
    using assms by (auto simp: handle_mmio_write_def)
  show ?thesis
  proof (cases m)
    case None
    then show ?thesis using assms vm m by (auto simp: handle_mmio_write_def only_machine_def vm_frame_def)
  next
    case (Some e)
    then have "device_write transfer (handler e) k (a - base_address e) w v s = Some (r, s')"
      using assms vm m by (auto simp: handle_mmio_write_def)
    then show ?thesis using assms(2) by (rule device_write_only)
  qed
qed

section \<open>The trap\<close>

definition register_of :: "u64 \<Rightarrow> nat" where
  "register_of esr = unat (drop_bit ESR_EL2_ISS_SRT_BITS_OFFSET (esr AND ESR_EL2_ISS_SRT))"


section \<open>Devices\<close>

text \<open>
  What the dispatch relies on: an access that the device allows returns without an error and
  keeps the state of the device well-formed. \<open>'c\<close> is what a write works on besides the
  device, the registers of the processor or the output.
\<close>

locale mmio_device =
  fixes wf :: "'s \<Rightarrow> bool"
    and rd :: "usize \<Rightarrow> u64 \<Rightarrow> 's \<Rightarrow> ((unit + u64) \<times> 's) option"
    and wr :: "usize \<Rightarrow> u64 \<Rightarrow> u64 \<Rightarrow> 's \<Rightarrow> 'c \<Rightarrow> ((unit + unit) \<times> 's \<times> 'c) option"
    and safe_rd :: "usize \<Rightarrow> u64 \<Rightarrow> bool"
    and safe_wr :: "usize \<Rightarrow> u64 \<Rightarrow> u64 \<Rightarrow> bool"
  assumes rd_ok: "wf s \<Longrightarrow> safe_rd off w \<Longrightarrow> \<exists>v s'. rd off w s = Some (Inr v, s') \<and> wf s'"
    and wr_ok: "wf s \<Longrightarrow> safe_wr off w v \<Longrightarrow> \<exists>s' c'. wr off w v s c = Some (Inr (), s', c') \<and> wf s'"
begin

text \<open>A sequence of accesses, reads with \<open>None\<close> and writes with the value.\<close>

fun accesses :: "(usize \<times> u64 \<times> u64 option) list \<Rightarrow> 's \<Rightarrow> 'c \<Rightarrow> ('s \<times> 'c) option" where
  "accesses [] s c = Some (s, c)"
| "accesses ((off, w, None) # as) s c = do { (r, s') \<leftarrow> rd off w s; _ \<leftarrow> result_ok r; accesses as s' c }"
| "accesses ((off, w, Some v) # as) s c = do { (r, s', c') \<leftarrow> wr off w v s c; _ \<leftarrow> result_ok r; accesses as s' c' }"

definition safe :: "usize \<times> u64 \<times> u64 option \<Rightarrow> bool" where
  "safe a \<longleftrightarrow> (case a of (off, w, None) \<Rightarrow> safe_rd off w | (off, w, Some v) \<Rightarrow> safe_wr off w v)"

lemma accesses_return:
  assumes "wf s" and "\<forall>a \<in> set as. safe a"
  shows "\<exists>s' c'. accesses as s c = Some (s', c') \<and> wf s'"
  using assms
proof (induction as s c rule: accesses.induct)
  case (2 off w as s c)
  then obtain v s' where "rd off w s = Some (Inr v, s')" "wf s'" using rd_ok [of s off w] by (auto simp: safe_def)
  with 2 show ?case by fastforce
next
  case (3 off w v as s c)
  then obtain s' c' where "wr off w v s c = Some (Inr (), s', c')" "wf s'" using wr_ok [of s off w v c] by (auto simp: safe_def)
  with 3 show ?case by fastforce
qed simp

end

definition uart_wf :: "Pl011Mmio \<Rightarrow> bool" where
  "uart_wf s \<longleftrightarrow> length (read_buffer s) = 4"

definition gicd_ready :: "GicDistributorMmio \<Rightarrow> bool" where
  "gicd_ready d \<longleftrightarrow> gicd_wf d \<and> gicd_routable d"

definition gicr_ready :: "GicRedistributorMmio \<Rightarrow> bool" where
  "gicr_ready r \<longleftrightarrow> gicr_wf r \<and> aff0 (gicr_affinity r) < 16"

lemma shift_buffer_length: "length (shift_buffer i n b) = length b"
  by (induction i n b rule: shift_buffer.induct) simp_all

interpretation uart_dev: mmio_device uart_wf "\<lambda>off w s. Some (Pl011Mmio_read off w s)"
  "\<lambda>off w v s out. Some (Pl011Mmio_write off w v s out)" "\<lambda>_ _. True" "\<lambda>_ _ _. True"
  by unfold_locales (auto simp: Pl011Mmio_read_def Pl011Mmio_write_def uart_wf_def Let_def shift_buffer_length)

interpretation gicd_dev: mmio_device gicd_ready "\<lambda>off w d. map_option (\<lambda>r. (r, d)) (GicDistributorMmio_read d off w)"
  GicDistributorMmio_write "\<lambda>off w. \<not> gicd_hole off w" gicd_safe_write
proof
  show "\<exists>v s'. map_option (\<lambda>r. (r, d)) (GicDistributorMmio_read d off w) = Some (Inr v, s') \<and> gicd_ready s'"
    if "gicd_ready d" "\<not> gicd_hole off w" for d off w
    using gicd_read_ok [of d off w] that by (auto simp: gicd_ready_def)
  show "\<exists>d' c'. GicDistributorMmio_write off w v d c = Some (Inr (), d', c') \<and> gicd_ready d'"
    if "gicd_ready d" "gicd_safe_write off w v" for d off w v c
    using gicd_write_ok [of d off w v c] that by (auto simp: gicd_ready_def)
qed

interpretation gicr_dev: mmio_device gicr_ready "\<lambda>off w d. map_option (\<lambda>r. (r, d)) (GicRedistributorMmio_read d off w)"
  GicRedistributorMmio_write "\<lambda>_ _. True" "\<lambda>_ _ _. True"
proof
  show "\<exists>v s'. map_option (\<lambda>r. (r, d)) (GicRedistributorMmio_read d off w) = Some (Inr v, s') \<and> gicr_ready s'"
    if "gicr_ready d" for d off w
    using gicr_read_ok [of d off w] that by (auto simp: gicr_ready_def)
  show "\<exists>d' c'. GicRedistributorMmio_write off w v d c = Some (Inr (), d', c') \<and> gicr_ready d'"
    if "gicr_ready d" for d off w v c
    using gicr_write_total [of d off w v c] that by (auto simp: gicr_ready_def)
qed

section \<open>Accesses that return\<close>

text \<open>The device whose window holds the address, with the windows that \<open>create_vm\<close> lays out.\<close>

definition device_at :: "usize \<Rightarrow> (Device \<times> usize) option" where
  "device_at a =
     (if 0x9000000 \<le> a \<and> a < 0x9001000 then Some (Pl011Device, a - 0x9000000)
      else if 0xa000000 \<le> a \<and> a < 0xa000200 then Some (VirtioBlkDevice, a - 0xa000000)
      else if 0x8000000 \<le> a \<and> a < 0x8010000 then Some (GicDistributorDevice, a - 0x8000000)
      else if 0x80a0000 \<le> a \<and> a < 0x80c0000 then Some (GicRedistributorDevice, a - 0x80a0000)
      else None)"

lemma find_entry_devices:
  "\<exists>m. find_entry create_vm_devices a = Some m \<and> map_option (\<lambda>e. (handler e, a - base_address e)) m = device_at a"
  by (auto simp: create_vm_devices_def device_at_def usize_add_def GicDistributorMmio_MMIO_SIZE_def GicRedistributorMmio_MMIO_SIZE_def)

definition vm_ready :: "VM \<Rightarrow> bool" where
  "vm_ready vm \<longleftrightarrow> mmio_handlers vm = create_vm_devices \<and> uart_wf (pl011_mmio vm) \<and> gicd_ready (gic_distributor_mmio vm) \<and>
     gicr_ready (gic_redistributor_mmio vm)"

text \<open>An access that a device allows: a load without a value, a store with one.\<close>

definition access_allowed :: "usize \<Rightarrow> u64 \<Rightarrow> u64 option \<Rightarrow> bool" where
  "access_allowed a w v \<longleftrightarrow> (case device_at a of
     Some (Pl011Device, _) \<Rightarrow> True | Some (GicRedistributorDevice, _) \<Rightarrow> True
   | Some (GicDistributorDevice, off) \<Rightarrow> (case v of None \<Rightarrow> \<not> gicd_hole off w | Some x \<Rightarrow> gicd_safe_write off w x)
   | _ \<Rightarrow> False)"

lemma handle_mmio_read_returns:
  assumes "k < length (vm_list s)" and "vm_ready (vm_list s ! k)" and "access_allowed a w None"
  shows "\<exists>v s'. handle_mmio_read k a w s = Some (Inr v, s') \<and> vm_ready (vm_list s' ! k)"
proof -
  let ?vm = "vm_list s ! k"
  obtain e where e: "find_entry (mmio_handlers ?vm) a = Some (Some e)" "device_at a = Some (handler e, a - base_address e)"
    using find_entry_devices [of a] assms(2,3) by (auto simp: vm_ready_def access_allowed_def split: option.splits)
  have "\<exists>v vm'. device_read (handler e) (a - base_address e) w ?vm = Some (Inr v, vm') \<and> vm_ready vm'"
    using assms(2,3) e(2) uart_dev.rd_ok [of "pl011_mmio ?vm" "a - base_address e" w]
      gicd_dev.rd_ok [of "gic_distributor_mmio ?vm" "a - base_address e" w]
      gicr_dev.rd_ok [of "gic_redistributor_mmio ?vm" "a - base_address e" w]
    by (cases "handler e") (auto simp: access_allowed_def vm_ready_def device_read_def)
  then show ?thesis using assms(1) e(1) by (fastforce simp: handle_mmio_read_def update_vm_def)
qed

lemma handle_mmio_write_returns:
  assumes "k < length (vm_list s)" and "vm_ready (vm_list s ! k)" and "access_allowed a w (Some x)"
  shows "\<exists>s'. handle_mmio_write transfer k a w x s = Some (Inr (), s') \<and> vm_ready (vm_list s' ! k)"
proof -
  let ?vm = "vm_list s ! k"
  obtain e where e: "find_entry (mmio_handlers ?vm) a = Some (Some e)" "device_at a = Some (handler e, a - base_address e)"
    using find_entry_devices [of a] assms(2,3) by (auto simp: vm_ready_def access_allowed_def split: option.splits)
  have "\<exists>s'. device_write transfer (handler e) k (a - base_address e) w x s = Some (Inr (), s') \<and> vm_ready (vm_list s' ! k)"
    using assms e(2) uart_dev.wr_ok [of "pl011_mmio ?vm" "a - base_address e" w x "uart_output s"]
      gicd_dev.wr_ok [of "gic_distributor_mmio ?vm" "a - base_address e" w x "cpu s"]
      gicr_dev.wr_ok [of "gic_redistributor_mmio ?vm" "a - base_address e" w x "cpu s"]
    by (cases "handler e") (auto simp: access_allowed_def vm_ready_def device_write_def update_vm_def)
  then show ?thesis using assms(1) e(1) by (auto simp: handle_mmio_write_def)
qed

definition store_value :: "u64 \<Rightarrow> Registers \<Rightarrow> u64" where
  "store_value esr regs = (if esr AND ESR_EL2_ISS_SF \<noteq> 0 then regs ! register_of esr else regs ! register_of esr AND 0xffffffff)"

lemma register_of_less: "register_of esr < 32"
proof -
  have "drop_bit 16 (esr AND 0x1f0000) = drop_bit 16 esr AND (mask 5 :: u64)"
    by (simp add: mask_eq_exp_minus_1)
  then have "drop_bit 16 (esr AND 0x1f0000) = take_bit 5 (drop_bit 16 esr)" by (simp only: take_bit_eq_mask)
  then have "unat (drop_bit 16 (esr AND 0x1f0000)) < 2 ^ 5"
    by (simp only: unsigned_take_bit_eq) (rule take_bit_nat_less_exp)
  then show ?thesis by (simp add: register_of_def ESR_EL2_ISS_SRT_def ESR_EL2_ISS_SRT_BITS_OFFSET_def push_bit_eq_mult)
qed

lemma find_vm_less: "find_vm vms i = Some k \<Longrightarrow> k < length vms"
  by (induction vms i arbitrary: k rule: find_vm.induct) (auto split: if_splits)


section \<open>The claims at a concrete state\<close>

text \<open>A guest stores the low half of \<open>x1\<close> to the data register of its serial port.\<close>

definition sample_vm :: VM where
  "sample_vm = \<lparr>vm_id = 0, ram_virtual_base_address = RAM_VIRTUAL_BASE, ram_physical_base_address = 0x80000000,
     ram_size = RAM_SIZE, mmio_handlers = create_vm_devices, gic_distributor_mmio = GicDistributorMmio_new,
     gic_redistributor_mmio = GicRedistributorMmio_new 0, pl011_mmio = Pl011Mmio_new, virtio_blk_mmio = sample_blk\<rparr>"

definition sample_host :: "unit Host" where
  "sample_host = \<lparr>vm_list = [sample_vm], active_vm = Some 0, ram = (\<lambda>_. 0), disk = (), uart_output = [],
     cpu = sample_cpu\<lparr>esr_el2 := 0x93810040, hpfar_el2 := 0x90000, far_el2 := 0, elr_el2 := 0x40200000, tpidr_el2 := 0\<rparr>\<rparr>"

lemma sample_host_facts:
  "get_current_vm sample_host = Some 0" "vm_ready (vm_list sample_host ! 0)"
  "esr_el2 (cpu sample_host) = 0x93810040" "elr_el2 (cpu sample_host) = 0x40200000" "fault_address (cpu sample_host) = 0x9000000"
proof -
  show "vm_ready (vm_list sample_host ! 0)"
    by (simp add: sample_host_def sample_vm_def vm_ready_def uart_wf_def gicd_ready_def gicr_ready_def Pl011Mmio_new_def
        GicDistributorMmio_new_def GicRedistributorMmio_new_def gicd_wf_def gicd_routable_def gicr_wf_def aff0_def mpidr_to_affinity_def)
  show "fault_address (cpu sample_host) = 0x9000000"
    by (simp add: fault_address_def sample_host_def asm_defs HPFAR_EL2_FIPA_def HPFAR_EL2_FIPA_BITS_OFFSET_def PAGE_SHIFT_def)
qed (simp_all add: sample_host_def sample_vm_def get_current_vm_def get_tpidr_el2_def)

lemma sample_store: "\<exists>regs' s'. synchronous_handler sample_transfer (replicate 32 0x41) sample_host = Some (regs', s') \<and> vm_ready (vm_list s' ! 0)"
proof -
  obtain s1 where acc: "handle_mmio_write sample_transfer 0 0x9000000 32 0x41 sample_host = Some (Inr (), s1)" "vm_ready (vm_list s1 ! 0)"
    using handle_mmio_write_returns [of 0 sample_host "0x9000000" 32 "0x41" sample_transfer] sample_host_facts(2)
    by (auto simp: sample_host_def access_allowed_def device_at_def)
  have "elr_el2 (cpu s1) = 0x40200000"
    using handle_mmio_write_only [OF acc(1) sample_host_facts(1)] sample_host_facts(4) by (simp add: host_regs_def)
  then have "\<exists>c. advance_elr_el2 (cpu s1) = Some c" by (simp add: advance_elr_el2_def get_elr_el2_def)
  then show ?thesis
    using acc sample_host_facts
    by (auto simp: synchronous_handler_def data_abort_handler_def get_esr_el2_def Let_def ESR_EL2_EC_def ESR_EL2_EC_BITS_OFFSET_def
        ESR_EL2_EC_DATA_ABORT_def ESR_EL2_ISS_ISV_def ESR_EL2_ISS_WNR_def ESR_EL2_ISS_SF_def ESR_EL2_ISS_SRT_def
        ESR_EL2_ISS_SRT_BITS_OFFSET_def access_width_of_def ESR_EL2_ISS_SAS_def ESR_EL2_ISS_SAS_BITS_OFFSET_def)
qed



end
