(* ===== verification/Text.thy ===== *)
theory Text
  imports Prelude
begin

text \<open>
  What the sources use of Rust's text functions, and \<open>str_to_usize\<close> of \<open>src/src/main.rs\<close>. Bytes
  that hold UTF-8 decode to a list of code points, which stands for a \<open>str\<close>. The properties
  are that decoding accepts plain ASCII as it is and that a printed number parses back.
\<close>

section \<open>UTF-8\<close>

definition between :: "nat \<Rightarrow> nat \<Rightarrow> u8 \<Rightarrow> bool" where
  "between lo hi b \<longleftrightarrow> lo \<le> unat b \<and> unat b \<le> hi"

text \<open>The continuation bits of a byte.\<close>

definition tail_bits :: "u8 \<Rightarrow> nat" where
  "tail_bits b = unat b - 0x80"

definition second_of_3 :: "u8 \<Rightarrow> u8 \<Rightarrow> bool" where
  "second_of_3 b c \<longleftrightarrow>
     (if unat b = 0xE0 then between 0xA0 0xBF c
      else if unat b = 0xED then between 0x80 0x9F c
      else between 0xE1 0xEF b \<and> between 0x80 0xBF c)"

definition second_of_4 :: "u8 \<Rightarrow> u8 \<Rightarrow> bool" where
  "second_of_4 b c \<longleftrightarrow>
     (if unat b = 0xF0 then between 0x90 0xBF c
      else if unat b = 0xF4 then between 0x80 0x8F c
      else between 0xF1 0xF3 b \<and> between 0x80 0xBF c)"

fun from_utf8 :: "u8 list \<Rightarrow> nat list option" where
  "from_utf8 [] = Some []"
| "from_utf8 (b # bs) =
     (if unat b < 0x80 then map_option (Cons (unat b)) (from_utf8 bs)
      else case bs of
        c # cs \<Rightarrow>
          (if between 0xC2 0xDF b \<and> between 0x80 0xBF c
           then map_option (Cons ((unat b - 0xC0) * 2 ^ 6 + tail_bits c)) (from_utf8 cs)
           else case cs of
             d # ds \<Rightarrow>
               (if second_of_3 b c \<and> between 0x80 0xBF d
                then map_option (Cons ((unat b - 0xE0) * 2 ^ 12 + tail_bits c * 2 ^ 6 + tail_bits d)) (from_utf8 ds)
                else case ds of
                  e # es \<Rightarrow>
                    (if second_of_4 b c \<and> between 0x80 0xBF d \<and> between 0x80 0xBF e
                     then map_option (Cons ((unat b - 0xF0) * 2 ^ 18 + tail_bits c * 2 ^ 12 + tail_bits d * 2 ^ 6 + tail_bits e))
                       (from_utf8 es)
                     else None)
                | [] \<Rightarrow> None)
           | [] \<Rightarrow> None)
      | [] \<Rightarrow> None)"

definition is_ascii :: "u8 \<Rightarrow> bool" where
  "is_ascii b \<longleftrightarrow> unat b < 0x80"

lemma from_utf8_ascii: "\<forall>b \<in> set bs. is_ascii b \<Longrightarrow> from_utf8 bs = Some (map unat bs)"
  by (induction bs) (simp_all add: is_ascii_def)

section \<open>Words of a line\<close>

text \<open>The code points with the Unicode property \<open>White_Space\<close>.\<close>

definition is_whitespace :: "nat \<Rightarrow> bool" where
  "is_whitespace n \<longleftrightarrow> n \<in> {9, 10, 11, 12, 13, 32, 0x85, 0xA0, 0x1680, 0x2028, 0x2029, 0x202F, 0x205F, 0x3000} \<or>
     0x2000 \<le> n \<and> n \<le> 0x200A"

function split_whitespace :: "nat list \<Rightarrow> nat list list" where
  "split_whitespace [] = []"
| "split_whitespace (c # cs) =
     (if is_whitespace c then split_whitespace cs
      else (c # takeWhile (\<lambda>x. \<not> is_whitespace x) cs) # split_whitespace (dropWhile (\<lambda>x. \<not> is_whitespace x) cs))"
  by pat_completeness auto

termination
  by (relation "measure length") (auto simp: le_imp_less_Suc length_dropWhile_le)

lemma split_word:
  assumes "w \<noteq> []" and "\<forall>c \<in> set w. \<not> is_whitespace c"
  shows "split_whitespace (w @ cs) =
    (case cs of [] \<Rightarrow> [w] | c # _ \<Rightarrow> if is_whitespace c then w # split_whitespace cs else split_whitespace (w @ cs))"
proof -
  obtain d ds where w: "w = d # ds" using assms(1) by (cases w) auto
  have "takeWhile (\<lambda>x. \<not> is_whitespace x) (ds @ c # cs') = ds \<and> dropWhile (\<lambda>x. \<not> is_whitespace x) (ds @ c # cs') = c # cs'"
    if "is_whitespace c" for c cs'
    using assms(2) w that by (induction ds) auto
  moreover have "takeWhile (\<lambda>x. \<not> is_whitespace x) ds = ds" "dropWhile (\<lambda>x. \<not> is_whitespace x) ds = []"
    using assms(2) w by (auto simp: takeWhile_eq_all_conv dropWhile_eq_Nil_conv)
  ultimately show ?thesis using assms(2) w by (auto split: list.split)
qed

section \<open>Numbers\<close>

definition to_digit :: "nat \<Rightarrow> nat \<Rightarrow> nat option" where
  "to_digit radix c =
     (let d = (if 48 \<le> c \<and> c \<le> 57 then c - 48 else if 97 \<le> c \<and> c \<le> 122 then c - 97 + 10
               else if 65 \<le> c \<and> c \<le> 90 then c - 65 + 10 else radix)
      in if d < radix then Some d else None)"

text \<open>The digits are accumulated with checked multiplication and addition.\<close>

fun parse_digits :: "nat \<Rightarrow> nat list \<Rightarrow> usize \<Rightarrow> usize option" where
  "parse_digits radix [] acc = Some acc"
| "parse_digits radix (c # cs) acc = do {
     d \<leftarrow> to_digit radix c;
     m \<leftarrow> usize_mul acc radix;
     a \<leftarrow> usize_add m d;
     parse_digits radix cs a }"

definition from_str_radix :: "nat list \<Rightarrow> nat \<Rightarrow> usize option" where
  "from_str_radix s radix = (case s of
     [] \<Rightarrow> None
   | c # cs \<Rightarrow> if cs = [] \<and> (c = 43 \<or> c = 45) then None
       else if c = 43 then parse_digits radix cs 0 else parse_digits radix s 0)"

text \<open>\<open>s.get(0..2)\<close> is one of the three prefixes only when the first two characters are.\<close>

definition str_to_usize :: "nat list \<Rightarrow> usize option" where
  "str_to_usize s =
     (if take 2 s = [48, 120] then from_str_radix (drop 2 s) 16
      else if take 2 s = [48, 111] then from_str_radix (drop 2 s) 8
      else if take 2 s = [48, 98] then from_str_radix (drop 2 s) 2
      else from_str_radix s 10)"

section \<open>Printing\<close>

definition digit_char :: "nat \<Rightarrow> nat" where
  "digit_char d = (if d < 10 then 48 + d else 87 + d)"

fun print_radix :: "nat \<Rightarrow> nat \<Rightarrow> nat list" where
  "print_radix radix n = (if radix < 2 \<or> n < radix then [digit_char n] else print_radix radix (n div radix) @ [digit_char (n mod radix)])"

declare print_radix.simps [simp del]

lemma to_digit_char: "d < radix \<Longrightarrow> radix \<le> 36 \<Longrightarrow> to_digit radix (digit_char d) = Some d"
  by (auto simp: to_digit_def digit_char_def Let_def)

lemma parse_digits_append:
  "parse_digits radix (xs @ ys) acc = do { a \<leftarrow> parse_digits radix xs acc; parse_digits radix ys a }"
proof (induction xs arbitrary: acc)
  case (Cons c xs)
  then show ?case by (cases "to_digit radix c") (simp_all add: usize_mul_def usize_add_def)
qed simp

lemma parse_print:
  assumes "2 \<le> radix" and "radix \<le> 36" and "n < 2 ^ 64"
  shows "parse_digits radix (print_radix radix n) 0 = Some n"
  using assms
proof (induction radix n rule: print_radix.induct)
  case (1 radix n)
  show ?case
  proof (cases "n < radix")
    case True
    then show ?thesis using "1.prems" by (simp add: print_radix.simps [of radix n] to_digit_char)
  next
    case False
    have le: "n div radix \<le> n" "n div radix * radix + n mod radix = n" by simp_all
    have "n div radix < 2 ^ 64" by (rule order.strict_trans1 [OF le(1) "1.prems"(3)])
    then have "parse_digits radix (print_radix radix (n div radix)) 0 = Some (n div radix)"
      using "1.IH" False "1.prems" by simp
    moreover have "n mod radix < radix" using "1.prems" by simp
    moreover have "n div radix * radix < 2 ^ 64" "n div radix * radix + n mod radix < 2 ^ 64" using le "1.prems"(3) by linarith+
    ultimately show ?thesis
      using False "1.prems" le(2)
      by (subst print_radix.simps) (auto simp: parse_digits_append to_digit_char usize_mul_def usize_add_def)
  qed
qed

lemma print_radix_chars:
  assumes "2 \<le> radix" and "radix \<le> 36" and "c \<in> set (print_radix radix n)"
  shows "\<exists>d < radix. c = digit_char d"
  using assms
proof (induction radix n rule: print_radix.induct)
  case (1 radix n)
  show ?case
  proof (cases "n < radix")
    case True
    then show ?thesis using "1.prems" by (auto simp: print_radix.simps [of radix n])
  next
    case False
    then have "c \<in> set (print_radix radix (n div radix)) \<or> c = digit_char (n mod radix)"
      using "1.prems" by (subst (asm) print_radix.simps) auto
    then show ?thesis using "1.IH" False "1.prems" by (auto intro: exI [of _ "n mod radix"])
  qed
qed

lemma print_radix_not_Nil [simp]: "print_radix radix n \<noteq> []"
  by (subst print_radix.simps) simp

lemma from_str_print:
  assumes "2 \<le> radix" and "radix \<le> 36" and "n < 2 ^ 64"
  shows "from_str_radix (print_radix radix n) radix = Some n"
proof -
  obtain c cs where p: "print_radix radix n = c # cs" by (cases "print_radix radix n") auto
  obtain d where "d < radix" "c = digit_char d" using print_radix_chars [OF assms(1,2), of c n] p by auto
  then have "c \<noteq> 43" "c \<noteq> 45" by (auto simp: digit_char_def)
  with p show ?thesis using parse_print [OF assms] by (simp add: from_str_radix_def)
qed

text \<open>Decimal numbers never look like one of the prefixes.\<close>

lemma decimal_no_prefix:
  assumes "x \<in> {120, 111, 98}"
  shows "take 2 (print_radix 10 n) \<noteq> [48, x]"
proof
  assume "take 2 (print_radix 10 n) = [48, x]"
  then have "x \<in> set (print_radix 10 n)" by (metis in_set_takeD list.set_intros(1,2))
  then obtain d where "d < 10" "x = digit_char d" using print_radix_chars [of 10 x n] by auto
  then show False using assms by (auto simp: digit_char_def)
qed

lemma str_to_usize_decimal: "n < 2 ^ 64 \<Longrightarrow> str_to_usize (print_radix 10 n) = Some n"
  using from_str_print [of 10 n] decimal_no_prefix [of _ n] by (simp add: str_to_usize_def)

text \<open>
  C38. A number that fits 64 bits and is written in decimal, or in hexadecimal, octal or binary
  behind its prefix, parses back to itself.
\<close>

theorem str_to_usize_roundtrip:
  assumes "n < 2 ^ 64"
  shows "str_to_usize (print_radix 10 n) = Some n \<and> str_to_usize ([48, 120] @ print_radix 16 n) = Some n \<and>
    str_to_usize ([48, 111] @ print_radix 8 n) = Some n \<and> str_to_usize ([48, 98] @ print_radix 2 n) = Some n"
  using assms str_to_usize_decimal [OF assms] from_str_print by (simp add: str_to_usize_def)

theorem str_to_usize_roundtrip_witness: "str_to_usize ([48, 120] @ print_radix 16 0x40000000) = Some 0x40000000"
  using str_to_usize_roundtrip [of "0x40000000"] by simp

end
