(* ===== verification/Dtb.thy ===== *)
theory Dtb
  imports Memory
begin

text \<open>
  The reader of the flattened device tree, \<open>src/src/dtb.rs\<close>: the header, the tokens of the
  structure block, the two searches for a node, and the properties of a node. The tree lies
  in memory and is never written, so the memory is an argument of every function.

  An error of the source, \<open>Err(())\<close>, is \<open>Inl ()\<close>, and a pointer argument that the source
  changes in place is returned. The two searches, \<open>_search_node\<close> and
  \<open>_search_node_by_compatible\<close>, share their loop and the way they descend; they
  differ in how they enter a node and in what they test at a property, the arguments \<open>start\<close> and
  \<open>check\<close> of the loop below.
\<close>

section \<open>Results\<close>

text \<open>The operator \<open>?\<close> on a call.\<close>

definition attempt :: "(unit + 'a) option \<Rightarrow> ('a \<Rightarrow> (unit + 'b) option) \<Rightarrow> (unit + 'b) option" where
  "attempt r f = Option.bind r (\<lambda>x. case x of Inl e \<Rightarrow> Some (Inl e) | Inr a \<Rightarrow> f a)"

lemma attempt_simps [simp]: "attempt (Some (Inr a)) f = f a" "attempt (Some (Inl e)) f = Some (Inl e)" "attempt None f = None"
  by (simp_all add: attempt_def)

lemma attempt_mono [partial_function_mono]:
  assumes "mono_option (\<lambda>f. B f)" and "\<And>y. mono_option (\<lambda>f. C y f)"
  shows "mono_option (\<lambda>f. attempt (B f) (\<lambda>y. C y f))"
proof -
  have "mono_option (\<lambda>f. case x of Inl e \<Rightarrow> Some (Inl e) | Inr a \<Rightarrow> C a f)" for x :: "unit + 'c"
    using assms(2) by (cases x) (auto simp: monotone_def flat_ord_def)
  then show ?thesis unfolding attempt_def by (intro bind_mono assms(1))
qed

lemma case_sum_mono [partial_function_mono]:
  assumes "\<And>a. mono_option (\<lambda>f. A a f)" and "\<And>b. mono_option (\<lambda>f. B b f)"
  shows "mono_option (\<lambda>f. case s of Inl a \<Rightarrow> A a f | Inr b \<Rightarrow> B b f)"
  using assms by (cases s) simp_all

section \<open>The header\<close>

record Dtb =
  header :: usize

record DtbNode =
  node_address :: usize
  node_address_cells :: u32
  node_size_cells :: u32

record DtbProperty =
  prop_address :: usize
  prop_address_cells :: u32
  prop_size_cells :: u32
  prop_len :: u32

definition MAGIC :: u32 where "MAGIC = 0xd00dfeed"
definition VERSION :: u32 where "VERSION = 17"
definition FDT_TOKEN_BYTE :: usize where "FDT_TOKEN_BYTE = 4"
definition FDT_BEGIN_NODE :: "u8 list" where "FDT_BEGIN_NODE = [0, 0, 0, 1]"
definition FDT_END_NODE :: "u8 list" where "FDT_END_NODE = [0, 0, 0, 2]"
definition FDT_PROP :: "u8 list" where "FDT_PROP = [0, 0, 0, 3]"
definition FDT_NOP :: "u8 list" where "FDT_NOP = [0, 0, 0, 4]"
definition FDT_END :: "u8 list" where "FDT_END = [0, 0, 0, 9]"

definition ascii :: "string \<Rightarrow> u8 list" where
  "ascii s = map (\<lambda>c. word_of_nat (of_char c)) s"

definition PROP_ADDRESS_CELLS :: "u8 list" where "PROP_ADDRESS_CELLS = ascii ''#address-cells''"
definition PROP_SIZE_CELLS :: "u8 list" where "PROP_SIZE_CELLS = ascii ''#size-cells''"
definition PROP_REG :: "u8 list" where "PROP_REG = ascii ''reg''"
definition PROP_STATUS :: "u8 list" where "PROP_STATUS = ascii ''status''"
definition PROP_STATUS_OKAY :: "u8 list" where "PROP_STATUS_OKAY = ascii ''okay'' @ [0]"
definition PROP_COMPATIBLE :: "u8 list" where "PROP_COMPATIBLE = ascii ''compatible''"
definition DEFAULT_ADDRESS_CELLS :: u32 where "DEFAULT_ADDRESS_CELLS = 2"
definition DEFAULT_SIZE_CELLS :: u32 where "DEFAULT_SIZE_CELLS = 1"

text \<open>The fields of \<open>FdtHeader\<close>, by their offset.\<close>

definition total_size_field :: "memory \<Rightarrow> Dtb \<Rightarrow> u32" where "total_size_field m dtb = read_be32 m (header dtb + 4)"
definition off_dt_struct :: "memory \<Rightarrow> Dtb \<Rightarrow> u32" where "off_dt_struct m dtb = read_be32 m (header dtb + 8)"
definition off_dt_strings :: "memory \<Rightarrow> Dtb \<Rightarrow> u32" where "off_dt_strings m dtb = read_be32 m (header dtb + 12)"
definition size_dt_strings :: "memory \<Rightarrow> Dtb \<Rightarrow> u32" where "size_dt_strings m dtb = read_be32 m (header dtb + 32)"
definition size_dt_struct :: "memory \<Rightarrow> Dtb \<Rightarrow> u32" where "size_dt_struct m dtb = read_be32 m (header dtb + 36)"

definition Dtb_new :: "memory \<Rightarrow> usize \<Rightarrow> unit + Dtb" where
  "Dtb_new m dtb_address =
     (if read_be32 m dtb_address \<noteq> MAGIC then Inl ()
      else if read_be32 m (dtb_address + 20) > VERSION then Inl ()
      else Inr \<lparr>header = dtb_address\<rparr>)"

definition get_total_size :: "memory \<Rightarrow> Dtb \<Rightarrow> usize" where
  "get_total_size m dtb = unat (total_size_field m dtb)"

definition get_struct_offset :: "memory \<Rightarrow> Dtb \<Rightarrow> usize option" where
  "get_struct_offset m dtb = usize_add (header dtb) (unat (off_dt_struct m dtb))"

definition get_struct_size :: "memory \<Rightarrow> Dtb \<Rightarrow> usize" where
  "get_struct_size m dtb = unat (size_dt_struct m dtb)"

definition get_string_offset :: "memory \<Rightarrow> Dtb \<Rightarrow> usize option" where
  "get_string_offset m dtb = usize_add (header dtb) (unat (off_dt_strings m dtb))"

definition get_string_size :: "memory \<Rightarrow> Dtb \<Rightarrow> usize" where
  "get_string_size m dtb = unat (size_dt_strings m dtb)"

section \<open>Tokens and strings\<close>

definition read_node :: "memory \<Rightarrow> Dtb \<Rightarrow> usize \<Rightarrow> (unit + u8 list) option" where
  "read_node m dtb address = do {
     s \<leftarrow> get_struct_offset m dtb;
     e \<leftarrow> usize_add s (get_struct_size m dtb);
     Some (if address \<ge> e then Inl () else Inr (bytes_from m address FDT_TOKEN_BYTE)) }"

definition struct_end :: "memory \<Rightarrow> Dtb \<Rightarrow> nat" where
  "struct_end m dtb = header dtb + unat (off_dt_struct m dtb) + unat (size_dt_struct m dtb)"

lemma read_node_before_end: "read_node m dtb p = Some (Inr n) \<Longrightarrow> p < struct_end m dtb"
  by (auto simp: read_node_def get_struct_offset_def get_struct_size_def struct_end_def split: if_splits)

function skip_nop :: "memory \<Rightarrow> Dtb \<Rightarrow> usize \<Rightarrow> (unit + usize) option" where
  "skip_nop m dtb pointer = do {
     r \<leftarrow> read_node m dtb pointer;
     (case r of Inl e \<Rightarrow> Some (Inl e)
      | Inr n \<Rightarrow> if n = FDT_NOP then do { p \<leftarrow> usize_add pointer FDT_TOKEN_BYTE; skip_nop m dtb p } else Some (Inr pointer)) }"
  by pat_completeness auto

termination
  by (relation "measure (\<lambda>(m, dtb, p). struct_end m dtb - p)")
    (auto simp: FDT_TOKEN_BYTE_def dest!: read_node_before_end)

declare skip_nop.simps [simp del]

definition skip_padding :: "usize \<Rightarrow> usize option" where
  "skip_padding pointer = do {
     p \<leftarrow> usize_sub pointer 1;
     usize_add (p AND usize_not (FDT_TOKEN_BYTE - 1)) FDT_TOKEN_BYTE }"

text \<open>The loop that looks for the end of a string; it ends at the latest at the end of the address space.\<close>

function find_nul :: "memory \<Rightarrow> usize \<Rightarrow> usize option" where
  "find_nul m p = (if m p = 0 then Some p else do { q \<leftarrow> usize_add p 1; find_nul m q })"
  by pat_completeness auto

termination
  by (relation "measure (\<lambda>(m, p). 2 ^ 64 - p)") auto

declare find_nul.simps [simp del]

definition skip_string :: "memory \<Rightarrow> usize \<Rightarrow> usize option" where
  "skip_string m pointer = do { p \<leftarrow> find_nul m pointer; q \<leftarrow> usize_add p 1; skip_padding q }"

text \<open>Compare byte by byte: whether all agree, and the place of the first difference or behind the last byte.\<close>

fun match_bytes :: "memory \<Rightarrow> u8 list \<Rightarrow> usize \<Rightarrow> (bool \<times> usize) option" where
  "match_bytes m [] p = Some (True, p)"
| "match_bytes m (c # cs) p = (if c \<noteq> m p then Some (False, p) else do { q \<leftarrow> usize_add p 1; match_bytes m cs q })"

definition compare_name_segment :: "memory \<Rightarrow> Dtb \<Rightarrow> u32 \<Rightarrow> u8 list \<Rightarrow> u8 list \<Rightarrow> (unit + bool) option" where
  "compare_name_segment m dtb name_offset name delimiter =
     (if unat name_offset \<ge> get_string_size m dtb then Some (Inl ())
      else do {
        s \<leftarrow> get_string_offset m dtb;
        p \<leftarrow> usize_add s (unat name_offset);
        (b, q) \<leftarrow> match_bytes m name p;
        Some (Inr (b \<and> m q \<in> set (delimiter @ [0]))) })"

definition compare_string :: "memory \<Rightarrow> usize \<Rightarrow> u8 list \<Rightarrow> u8 list \<Rightarrow> (bool \<times> usize) option" where
  "compare_string m pointer name delimiter = do {
     (b, p) \<leftarrow> match_bytes m name pointer;
     q \<leftarrow> skip_string m p;
     Some (b \<and> m p \<in> set (delimiter @ [0]), q) }"

section \<open>Searching\<close>

partial_function (option) skip_to_next_node :: "memory \<Rightarrow> Dtb \<Rightarrow> usize \<Rightarrow> (unit + usize) option" where
  "skip_to_next_node m dtb pointer =
     Option.bind (skip_padding pointer) (\<lambda>p0. attempt (skip_nop m dtb p0) (\<lambda>p. attempt (read_node m dtb p) (\<lambda>n.
       if n = FDT_BEGIN_NODE then
         attempt (Option.bind (usize_add p FDT_TOKEN_BYTE) (\<lambda>q. skip_to_next_node m dtb q)) (\<lambda>q. skip_to_next_node m dtb q)
       else if n = FDT_END then Some (Inl ())
       else if n = FDT_END_NODE then map_option Inr (usize_add p FDT_TOKEN_BYTE)
       else if n = FDT_PROP then
         Option.bind (usize_add p FDT_TOKEN_BYTE) (\<lambda>q. attempt (read_node m dtb q) (\<lambda>l.
           Option.bind (usize_add q (4 + 4)) (\<lambda>q. Option.bind (usize_add q (unat (from_be_bytes l)))
             (\<lambda>q. skip_to_next_node m dtb q))))
       else Some (Inl ()))))"

definition check_address_and_size_cells ::
  "memory \<Rightarrow> Dtb \<Rightarrow> u32 \<Rightarrow> usize \<Rightarrow> u32 \<Rightarrow> u32 \<Rightarrow> (unit + u32 \<times> u32) option" where
  "check_address_and_size_cells m dtb name_segment pointer address_cells size_cells =
     attempt (compare_name_segment m dtb name_segment PROP_ADDRESS_CELLS []) (\<lambda>b.
       if b then attempt (read_node m dtb pointer) (\<lambda>n. Some (Inr (from_be_bytes n, size_cells)))
       else attempt (compare_name_segment m dtb name_segment PROP_SIZE_CELLS []) (\<lambda>b.
         if b then attempt (read_node m dtb pointer) (\<lambda>n. Some (Inr (address_cells, from_be_bytes n)))
         else Some (Inr (address_cells, size_cells))))"

text \<open>Entering a node ends the search with a result and a pointer, or gives the place of its first token.\<close>

type_synonym entered = "(DtbNode option \<times> usize) + usize"
type_synonym entry = "usize \<Rightarrow> u32 \<Rightarrow> u32 \<Rightarrow> (unit + entered) option"

text \<open>A test at a property: of the place of the node, the name and the length of the property, its place and the cells.\<close>

type_synonym prop_check = "usize \<Rightarrow> u32 \<Rightarrow> u32 \<Rightarrow> usize \<Rightarrow> u32 \<Rightarrow> u32 \<Rightarrow> (unit + DtbNode option) option"

text \<open>The head of a property: its length, its name and the place of its value.\<close>

definition read_prop :: "memory \<Rightarrow> Dtb \<Rightarrow> usize \<Rightarrow> (unit + u32 \<times> u32 \<times> usize) option" where
  "read_prop m dtb p =
     Option.bind (usize_add p FDT_TOKEN_BYTE) (\<lambda>q. attempt (read_node m dtb q) (\<lambda>l.
     Option.bind (usize_add q 4) (\<lambda>q. attempt (read_node m dtb q) (\<lambda>s.
     Option.bind (usize_add q 4) (\<lambda>q. Some (Inr (from_be_bytes l, from_be_bytes s, q)))))))"

definition entered_node :: "usize \<Rightarrow> u32 \<Rightarrow> u32 \<Rightarrow> DtbNode" where
  "entered_node body address_cells size_cells =
     \<lparr>node_address = body, node_address_cells = address_cells, node_size_cells = size_cells\<rparr>"

text \<open>
  One round of the loop over the tokens of a node \<open>n\<close>, which has the place of the node and the
  cells that hold so far: the loop returns, or goes on behind the token with the cells that
  hold from there on, or goes first through the subnode whose first token is at \<open>q\<close>.
\<close>

datatype round = Return "DtbNode option \<times> usize" | Next DtbNode usize | Descend usize

definition prop_step :: "prop_check \<Rightarrow> memory \<Rightarrow> Dtb \<Rightarrow> DtbNode \<Rightarrow> usize \<Rightarrow> (unit + round) option" where
  "prop_step check m dtb n p =
     attempt (read_prop m dtb p) (\<lambda>(len, name_segment, q).
     attempt (check_address_and_size_cells m dtb name_segment q (node_address_cells n) (node_size_cells n))
       (\<lambda>(address_cells, size_cells).
     attempt (check (node_address n) len name_segment q address_cells size_cells) (\<lambda>i. case i of
       Some x \<Rightarrow> Some (Inr (Return (Some x, q)))
     | None \<Rightarrow> Option.bind (usize_add q (unat len)) (\<lambda>q.
         Some (Inr (Next (n\<lparr>node_address_cells := address_cells, node_size_cells := size_cells\<rparr>) q))))))"

definition search_step :: "entry \<Rightarrow> prop_check \<Rightarrow> memory \<Rightarrow> Dtb \<Rightarrow> DtbNode \<Rightarrow> usize \<Rightarrow> (unit + round) option" where
  "search_step start check m dtb n pointer =
     Option.bind (skip_padding pointer) (\<lambda>p0. attempt (skip_nop m dtb p0) (\<lambda>p. attempt (read_node m dtb p) (\<lambda>t.
       if t = FDT_BEGIN_NODE then
         attempt (start p (node_address_cells n) (node_size_cells n)) (\<lambda>st. Some (Inr (case st of
             Inl iq \<Rightarrow> (case fst iq of Some _ \<Rightarrow> Return iq | None \<Rightarrow> Next n (snd iq))
           | Inr q \<Rightarrow> Descend q)))
       else if t = FDT_END then Some (Inl ())
       else if t = FDT_END_NODE then Option.bind (usize_add p FDT_TOKEN_BYTE) (\<lambda>q. Some (Inr (Return (None, q))))
       else if t = FDT_PROP then prop_step check m dtb n p
       else Some (Inl ()))))"

partial_function (option) search_loop ::
  "entry \<Rightarrow> prop_check \<Rightarrow> memory \<Rightarrow> Dtb \<Rightarrow> DtbNode \<Rightarrow> usize \<Rightarrow> (unit + DtbNode option \<times> usize) option" where
  "search_loop start check m dtb n pointer =
     attempt (search_step start check m dtb n pointer) (\<lambda>r. case r of
       Return iq \<Rightarrow> Some (Inr iq)
     | Next n' q \<Rightarrow> search_loop start check m dtb n' q
     | Descend q \<Rightarrow>
         attempt (search_loop start check m dtb (entered_node q (node_address_cells n) (node_size_cells n)) q) (\<lambda>iq.
           case fst iq of Some i \<Rightarrow> Some (Inr iq) | None \<Rightarrow> search_loop start check m dtb n (snd iq)))"

definition search_from ::
  "entry \<Rightarrow> prop_check \<Rightarrow> memory \<Rightarrow> Dtb \<Rightarrow> u32 \<Rightarrow> u32 \<Rightarrow> usize \<Rightarrow> (unit + DtbNode option \<times> usize) option" where
  "search_from start check m dtb address_cells size_cells pointer =
     attempt (start pointer address_cells size_cells) (\<lambda>st. case st of
       Inl r \<Rightarrow> Some (Inr r) | Inr q \<Rightarrow> search_loop start check m dtb (entered_node q address_cells size_cells) q)"

text \<open>The first token of a node, common to both searches: the place of its name, or the end of the search.\<close>

definition begin_node :: "memory \<Rightarrow> Dtb \<Rightarrow> usize \<Rightarrow> (unit + entered) option" where
  "begin_node m dtb pointer =
     attempt (skip_nop m dtb pointer) (\<lambda>p. attempt (read_node m dtb p) (\<lambda>n.
       if n \<noteq> FDT_BEGIN_NODE then
         (if n = FDT_END_NODE \<or> n = FDT_END then Some (Inr (Inl (None, p))) else Some (Inl ()))
       else Option.bind (usize_add p FDT_TOKEN_BYTE) (\<lambda>q. Some (Inr (Inr q)))))"

definition enter_by_name :: "memory \<Rightarrow> Dtb \<Rightarrow> u8 list \<Rightarrow> entry" where
  "enter_by_name m dtb node_name pointer address_cells size_cells =
     attempt (begin_node m dtb pointer) (\<lambda>st. case st of Inl r \<Rightarrow> Some (Inr (Inl r))
       | Inr q \<Rightarrow> Option.bind (compare_string m q node_name (ascii ''@'')) (\<lambda>bq.
           if fst bq then Some (Inr (Inl (Some (entered_node (snd bq) address_cells size_cells), snd bq)))
           else Some (Inr (Inr (snd bq)))))"

definition enter_any :: "memory \<Rightarrow> Dtb \<Rightarrow> entry" where
  "enter_any m dtb pointer address_cells size_cells =
     attempt (begin_node m dtb pointer) (\<lambda>st. case st of Inl r \<Rightarrow> Some (Inr (Inl r))
       | Inr q \<Rightarrow> Option.bind (skip_string m q) (\<lambda>q. Some (Inr (Inr q))))"

definition no_check :: prop_check where
  "no_check body len name_segment pointer address_cells size_cells = Some (Inr None)"

text \<open>
  \<open>_is_device_compatible\<close>: the property holds strings that end with a zero byte, and the loop
  compares the wanted one with each of them. The counter \<open>p\<close> is a \<open>u32\<close> of the source.
\<close>

definition u32_inc :: "nat \<Rightarrow> nat option" where
  "u32_inc p = (if p + 1 < 2 ^ 32 then Some (p + 1) else None)"

fun compatible_here :: "memory \<Rightarrow> usize \<Rightarrow> u8 list \<Rightarrow> nat \<Rightarrow> (bool \<times> nat) option" where
  "compatible_here m a [] p = Some (True, p)"
| "compatible_here m a (c # cs) p = do {
     q \<leftarrow> usize_add a p;
     (if m q \<noteq> c then Some (False, p) else do { p' \<leftarrow> u32_inc p; compatible_here m a cs p' }) }"

lemma compatible_here_le: "compatible_here m a cs p = Some (b, p') \<Longrightarrow> p \<le> p'"
  by (induction cs arbitrary: p) (fastforce simp: u32_inc_def split: if_splits)+

function compatible_loop :: "memory \<Rightarrow> usize \<Rightarrow> nat \<Rightarrow> u8 list \<Rightarrow> nat \<Rightarrow> bool \<Rightarrow> bool option" where
  "compatible_loop m a len compatible p skip =
     (if p < len then
        if skip then do {
          q \<leftarrow> usize_add a p;
          p' \<leftarrow> u32_inc p;
          compatible_loop m a len compatible p' (m q \<noteq> 0) }
        else do {
          r \<leftarrow> compatible_here m a (compatible @ [0]) p;
          (if fst r then Some True else compatible_loop m a len compatible (snd r) True) }
      else Some False)"
  by pat_completeness auto

termination
  by (relation "measure (\<lambda>(m, a, len, compatible, p, skip). 2 * (len - p) + (if skip then 0 else 1))")
    (auto simp: u32_inc_def split: if_splits dest!: compatible_here_le intro: diff_le_mono2 le_imp_less_Suc)

declare compatible_loop.simps [simp del]

definition is_device_compatible_prop :: "memory \<Rightarrow> DtbProperty \<Rightarrow> u8 list \<Rightarrow> bool option" where
  "is_device_compatible_prop m info compatible =
     compatible_loop m (prop_address info) (unat (prop_len info)) compatible 0 False"

definition check_compatible :: "memory \<Rightarrow> Dtb \<Rightarrow> u8 list \<Rightarrow> prop_check" where
  "check_compatible m dtb compatible body len name_segment pointer address_cells size_cells =
     attempt (compare_name_segment m dtb name_segment PROP_COMPATIBLE []) (\<lambda>b.
       if b then Option.bind (is_device_compatible_prop m
           \<lparr>prop_address = pointer, prop_address_cells = address_cells, prop_size_cells = size_cells, prop_len = len\<rparr> compatible)
         (\<lambda>c. Some (Inr (if c then Some (entered_node body address_cells size_cells) else None)))
       else Some (Inr None))"

text \<open>The outer loop of both searches, and the place where it starts.\<close>

partial_function (option) search_all ::
  "entry \<Rightarrow> prop_check \<Rightarrow> memory \<Rightarrow> Dtb \<Rightarrow> u32 \<Rightarrow> u32 \<Rightarrow> usize \<Rightarrow> DtbNode option option" where
  "search_all start check m dtb address_cells size_cells pointer =
     Option.bind (read_node m dtb pointer) (\<lambda>r. case r of Inl _ \<Rightarrow> Some None
       | Inr _ \<Rightarrow> Option.bind (search_from start check m dtb address_cells size_cells pointer) (\<lambda>r. case r of
           Inl _ \<Rightarrow> Some None
         | Inr np \<Rightarrow> (case fst np of Some n \<Rightarrow> Some (Some n)
           | None \<Rightarrow> Option.bind (read_node m dtb (snd np)) (\<lambda>r. case r of Inl _ \<Rightarrow> Some None
             | Inr n \<Rightarrow>
                 if n = FDT_END then Some None
                 else if n = FDT_BEGIN_NODE then search_all start check m dtb address_cells size_cells (snd np)
                 else if n = FDT_END_NODE \<or> n = FDT_NOP then
                   Option.bind (usize_add (snd np) FDT_TOKEN_BYTE) (\<lambda>q. search_all start check m dtb address_cells size_cells q)
                 else Some None))))"

definition search_after ::
  "entry \<Rightarrow> prop_check \<Rightarrow> memory \<Rightarrow> Dtb \<Rightarrow> DtbNode option \<Rightarrow> DtbNode option option" where
  "search_after start check m dtb current_node = (case current_node of
     Some c \<Rightarrow> do {
       r \<leftarrow> skip_to_next_node m dtb (node_address c);
       (case r of Inl _ \<Rightarrow> Some None
        | Inr pointer \<Rightarrow> search_all start check m dtb (node_address_cells c) (node_size_cells c) pointer) }
   | None \<Rightarrow> do {
       pointer \<leftarrow> get_struct_offset m dtb;
       search_all start check m dtb DEFAULT_ADDRESS_CELLS DEFAULT_SIZE_CELLS pointer })"

definition search_node :: "memory \<Rightarrow> Dtb \<Rightarrow> u8 list \<Rightarrow> DtbNode option \<Rightarrow> DtbNode option option" where
  "search_node m dtb node_name current_node = search_after (enter_by_name m dtb node_name) no_check m dtb current_node"

definition search_node_by_compatible :: "memory \<Rightarrow> Dtb \<Rightarrow> u8 list \<Rightarrow> DtbNode option \<Rightarrow> DtbNode option option" where
  "search_node_by_compatible m dtb compatible current_node =
     search_after (enter_any m dtb) (check_compatible m dtb compatible) m dtb current_node"

section \<open>Properties of a node\<close>

partial_function (option) property_loop ::
  "memory \<Rightarrow> Dtb \<Rightarrow> u8 list \<Rightarrow> u32 \<Rightarrow> u32 \<Rightarrow> usize \<Rightarrow> (unit + DtbProperty) option" where
  "property_loop m dtb property_name address_cells size_cells pointer =
     Option.bind (skip_padding pointer) (\<lambda>p0. attempt (skip_nop m dtb p0) (\<lambda>p. attempt (read_node m dtb p) (\<lambda>n.
       if n = FDT_PROP then
         attempt (read_prop m dtb p) (\<lambda>ln.
           attempt (check_address_and_size_cells m dtb (fst (snd ln)) (snd (snd ln)) address_cells size_cells) (\<lambda>c.
           attempt (compare_name_segment m dtb (fst (snd ln)) property_name []) (\<lambda>b.
             if b then Some (Inr \<lparr>prop_address = snd (snd ln), prop_address_cells = fst c, prop_size_cells = snd c,
               prop_len = fst ln\<rparr>)
             else Option.bind (usize_add (snd (snd ln)) (unat (fst ln)))
               (\<lambda>q. property_loop m dtb property_name (fst c) (snd c) q))))
       else Some (Inl ()))))"

definition get_property :: "memory \<Rightarrow> Dtb \<Rightarrow> DtbNode \<Rightarrow> u8 list \<Rightarrow> DtbProperty option option" where
  "get_property m dtb node property_name = do {
     r \<leftarrow> property_loop m dtb property_name (node_address_cells node) (node_size_cells node) (node_address node);
     Some (case r of Inl _ \<Rightarrow> None | Inr p \<Rightarrow> Some p) }"

definition is_node_operational :: "memory \<Rightarrow> Dtb \<Rightarrow> DtbNode \<Rightarrow> bool option" where
  "is_node_operational m dtb node = do {
     r \<leftarrow> get_property m dtb node PROP_STATUS;
     Some (case r of None \<Rightarrow> True | Some p \<Rightarrow> bytes_from m (prop_address p) 5 = PROP_STATUS_OKAY) }"

definition is_device_compatible :: "memory \<Rightarrow> Dtb \<Rightarrow> DtbNode \<Rightarrow> u8 list \<Rightarrow> bool option" where
  "is_device_compatible m dtb node compatible = do {
     r \<leftarrow> get_property m dtb node PROP_COMPATIBLE;
     (case r of None \<Rightarrow> Some False | Some info \<Rightarrow> is_device_compatible_prop m info compatible) }"

text \<open>The loops that gather the bytes of a number, the most significant first; the shift drops what leaves 64 bits.\<close>

definition gather :: "memory \<Rightarrow> usize \<Rightarrow> nat \<Rightarrow> usize" where
  "gather m a n = foldl (\<lambda>v b. (v * 2 ^ 8 mod 2 ^ 64) OR unat b) 0 (bytes_from m a n)"

definition u32_sum :: "u32 \<Rightarrow> u32 \<Rightarrow> nat option" where
  "u32_sum a b = (if unat a + unat b < 2 ^ 32 then Some (unat a + unat b) else None)"

definition u32_times4 :: "u32 \<Rightarrow> nat option" where
  "u32_times4 a = (if unat a * 4 < 2 ^ 32 then Some (unat a * 4) else None)"

text \<open>
  The sums of an address and an offset that the two loops compute are at most the last one of the
  second loop, which is computed here before both.
\<close>

definition read_reg_property :: "memory \<Rightarrow> Dtb \<Rightarrow> DtbNode \<Rightarrow> usize \<Rightarrow> (usize \<times> usize) option option" where
  "read_reg_property m dtb node index = do {
     r \<leftarrow> get_property m dtb node PROP_REG;
     (case r of None \<Rightarrow> Some None
      | Some info \<Rightarrow> do {
          cells \<leftarrow> u32_sum (prop_address_cells info) (prop_size_cells info);
          entry_size \<leftarrow> usize_mul cells 4;
          offset \<leftarrow> usize_mul entry_size index;
          e \<leftarrow> usize_add offset entry_size;
          (if e > unat (prop_len info) then Some None
           else do {
             a4 \<leftarrow> u32_times4 (prop_address_cells info);
             s4 \<leftarrow> u32_times4 (prop_size_cells info);
             base \<leftarrow> usize_add (prop_address info) offset;
             _ \<leftarrow> usize_add base (a4 + s4 - 1);
             Some (Some (gather m base a4, gather m (base + a4) s4)) }) }) }"

definition read_property_as_u8_array :: "memory \<Rightarrow> DtbProperty \<Rightarrow> u8 list" where
  "read_property_as_u8_array m info = bytes_from m (prop_address info) (unat (prop_len info))"

definition read_property_as_u32_array :: "memory \<Rightarrow> DtbProperty \<Rightarrow> u32 list" where
  "read_property_as_u32_array m info = map (\<lambda>i. read_u32 m (prop_address info + 4 * i)) [0..<unat (prop_len info) div 4]"

definition read_property_as_u32 :: "memory \<Rightarrow> DtbProperty \<Rightarrow> u32 option" where
  "read_property_as_u32 m info = (if unat (prop_len info) < 4 then None else Some (read_u32 m (prop_address info)))"

end
