(* ===== verification/Psci.thy ===== *)
theory Psci
  imports Prelude
begin

text \<open>
  The interface to the firmware, \<open>src/src/psci.rs\<close>. The firmware behind the \<open>smc\<close> instruction is
  an argument: a function of the four registers and its own state, of type \<open>'f\<close>.
\<close>

type_synonym 'f firmware = "u64 \<Rightarrow> u64 \<Rightarrow> u64 \<Rightarrow> u64 \<Rightarrow> 'f \<Rightarrow> u64 \<times> 'f"

definition PSCI_VERSION :: u64 where "PSCI_VERSION = 0x84000000"
definition PSCI_SYSTEM_OFF :: u64 where "PSCI_SYSTEM_OFF = 0x84000008"
definition PSCI_CPU_ON :: u64 where "PSCI_CPU_ON = 0xC4000003"

datatype PsciErrorCodes = Success | NotSupported | InvalidParameters | Denied | AlreadyOn | OnPending | InternalFailure
  | NotPresent | Disabled | InvalidAddress | Unknown

text \<open>\<open>value as i32\<close>.\<close>

definition as_i32 :: "u64 \<Rightarrow> int" where
  "as_i32 v = sint (ucast v :: u32)"

definition PsciErrorCodes_from :: "u64 \<Rightarrow> PsciErrorCodes" where
  "PsciErrorCodes_from v =
     (let i = as_i32 v
      in if i = 0 then Success else if i = -1 then NotSupported else if i = -2 then InvalidParameters
         else if i = -3 then Denied else if i = -4 then AlreadyOn else if i = -5 then OnPending
         else if i = -6 then InternalFailure else if i = -7 then NotPresent else if i = -8 then Disabled
         else if i = -9 then InvalidAddress else Unknown)"

definition check_psci_version :: "'f firmware \<Rightarrow> 'f \<Rightarrow> (PsciErrorCodes + u16 \<times> u16) \<times> 'f" where
  "check_psci_version smc f =
     (let (version, f1) = smc PSCI_VERSION 0 0 0 f
      in if as_i32 version = -1 then (Inl NotSupported, f1)
         else (Inr (ucast (drop_bit 16 version), ucast (version AND 0xffff)), f1))"

definition cpu_on :: "'f firmware \<Rightarrow> u64 \<Rightarrow> u64 \<Rightarrow> u64 \<Rightarrow> 'f \<Rightarrow> (PsciErrorCodes + unit) \<times> 'f" where
  "cpu_on smc target_cpu entry_point argument f =
     (let (r, f1) = smc PSCI_CPU_ON target_cpu entry_point argument f; error_code = PsciErrorCodes_from r
      in if error_code = Success then (Inr (), f1) else (Inl error_code, f1))"

text \<open>\<open>system_off\<close> does not return: either the machine is off, or \<open>unreachable!\<close> panics.\<close>

definition system_off :: "'f firmware \<Rightarrow> 'f \<Rightarrow> 'a option" where
  "system_off smc f = (let (_, f1) = smc PSCI_SYSTEM_OFF 0 0 0 f in None)"

lemma PsciErrorCodes_from_Success: "PsciErrorCodes_from v = Success \<longleftrightarrow> ucast v = (0 :: u32)"
proof -
  have "as_i32 v = 0 \<longleftrightarrow> ucast v = (0 :: u32)" by (auto simp: as_i32_def intro: signed_word_eqI)
  then show ?thesis by (simp add: PsciErrorCodes_from_def Let_def)
qed

end
