(* ===== verification/Console.thy ===== *)
theory Console
  imports VmTrap Text Dtb Psci
begin

text \<open>
  The console of the hypervisor, \<open>src/src/console.rs\<close>, what \<open>src/src/main.rs\<close> does with input from
  the serial port and to start another processor, and the interrupt handler,
  \<open>src/src/exception.rs\<close> with \<open>src/src/drivers/generic_timer.rs\<close>. The state adds to the host of \<open>Vm\<close>
  the console, the statics of \<open>main.rs\<close>, the text the hypervisor prints (as code
  points, the latest last), and the bytes that wait in the serial port.
\<close>

section \<open>State\<close>

record Console =
  buffer :: "u8 list"
  buffer_pointer :: usize
  ignore_lf :: bool

definition BUFFER_SIZE :: usize where "BUFFER_SIZE = 64"
definition CONSOLE_SWITCH_KEY :: u8 where "CONSOLE_SWITCH_KEY = 0x13"
definition STACK_SIZE :: usize where "STACK_SIZE = 0x10000"

definition Console_new :: Console where
  "Console_new = \<lparr>buffer = replicate BUFFER_SIZE 0, buffer_pointer = 0, ignore_lf = False\<rparr>"

text \<open>\<open>paging_registers\<close> are \<open>TCR_EL2\<close>, \<open>TTBR0_EL2\<close>, \<open>MAIR_EL2\<close> and \<open>SCTLR_EL2\<close>, which a new processor gets.\<close>

record ('d, 'f) Hypervisor =
  host :: "'d Host"
  MEMORY_ALLOCATOR :: MemoryAllocator
  DTB :: Dtb
  firmware_state :: 'f
  paging_registers :: "u64 list"
  CONSOLE :: Console
  IS_CONSOLE_ACTIVE :: bool
  PL011_DEVICE_INT_ID :: u32
  GENERIC_TIMER_PHYSICAL_INT_ID :: u32
  printed :: "nat list"
  rx :: "u8 list"

definition chars :: "string \<Rightarrow> nat list" where
  "chars s = map of_char s"

definition print :: "nat list \<Rightarrow> ('d, 'f) Hypervisor \<Rightarrow> ('d, 'f) Hypervisor" where
  "print s h = h\<lparr>printed := printed h @ s\<rparr>"

definition println :: "nat list \<Rightarrow> ('d, 'f) Hypervisor \<Rightarrow> ('d, 'f) Hypervisor" where
  "println s = print (s @ [10])"

section \<open>Starting a processor\<close>

definition psci_name :: "PsciErrorCodes \<Rightarrow> string" where
  "psci_name e = (case e of Success \<Rightarrow> ''Success'' | NotSupported \<Rightarrow> ''NotSupported'' | InvalidParameters \<Rightarrow> ''InvalidParameters''
     | Denied \<Rightarrow> ''Denied'' | AlreadyOn \<Rightarrow> ''AlreadyOn'' | OnPending \<Rightarrow> ''OnPending'' | InternalFailure \<Rightarrow> ''InternalFailure''
     | NotPresent \<Rightarrow> ''NotPresent'' | Disabled \<Rightarrow> ''Disabled'' | InvalidAddress \<Rightarrow> ''InvalidAddress'' | Unknown \<Rightarrow> ''Unknown'')"

definition upper_hex :: "nat \<Rightarrow> nat list" where
  "upper_hex n = chars ''0x'' @ map (\<lambda>c. if 97 \<le> c then c - 32 else c) (print_radix 16 n)"

text \<open>One node of the loop over the processors of the device tree: whether it was started.\<close>

definition try_cpu ::
  "'f firmware \<Rightarrow> u64 \<Rightarrow> u64 \<Rightarrow> usize \<Rightarrow> (usize \<times> usize) option \<Rightarrow> ('d, 'f) Hypervisor \<Rightarrow> bool \<times> ('d, 'f) Hypervisor" where
  "try_cpu smc core_entry current_affinity stack_address reg h = (case reg of
     None \<Rightarrow> (False, h)
   | Some (affinity, _) \<Rightarrow>
       if current_affinity \<noteq> word_of_nat affinity then
         (case cpu_on smc (word_of_nat affinity) core_entry (word_of_nat stack_address) (firmware_state h) of
            (Inr _, f) \<Rightarrow> (True, h\<lparr>firmware_state := f\<rparr>)
          | (Inl e, f) \<Rightarrow> (False, if e = AlreadyOn then h\<lparr>firmware_state := f\<rparr>
              else println (chars ''Failed to start CPU(Affinity: '' @ upper_hex affinity @ chars ''): '' @ chars (psci_name e))
                (h\<lparr>firmware_state := f\<rparr>)))
       else (False, h))"

partial_function (option) cpu_loop ::
  "'f firmware \<Rightarrow> u64 \<Rightarrow> u64 \<Rightarrow> usize \<Rightarrow> DtbNode option \<Rightarrow> ('d, 'f) Hypervisor \<Rightarrow> (bool \<times> ('d, 'f) Hypervisor) option" where
  "cpu_loop smc core_entry current_affinity stack_address cpu_node h =
     Option.bind (search_node (ram (host h)) (DTB h) (ascii ''cpu'') cpu_node) (\<lambda>r. case r of
       None \<Rightarrow> Some (False, h)
     | Some c \<Rightarrow> Option.bind (read_reg_property (ram (host h)) (DTB h) c 0) (\<lambda>reg.
         let t = try_cpu smc core_entry current_affinity stack_address reg h
         in if fst t then Some t else cpu_loop smc core_entry current_affinity stack_address (Some c) (snd t)))"

definition launch_cpu :: "'f firmware \<Rightarrow> u64 \<Rightarrow> ('d, 'f) Hypervisor \<Rightarrow> (bool \<times> ('d, 'f) Hypervisor) option" where
  "launch_cpu smc core_entry h = do {
     let current_affinity = mpidr_to_affinity (get_mpidr_el1 (cpu (host h)));
     (r, al) \<leftarrow> allocate_pages (MEMORY_ALLOCATOR h) (drop_bit PAGE_SHIFT STACK_SIZE) 0;
     a \<leftarrow> result_ok r;
     stack_address \<leftarrow> usize_add a STACK_SIZE;
     let m = fold (\<lambda>i. write_u64 (stack_address - 8 * (4 - i)) (paging_registers h ! i)) [0..<4] (ram (host h));
     (started, h1) \<leftarrow> cpu_loop smc core_entry current_affinity stack_address None
       (h\<lparr>MEMORY_ALLOCATOR := al, host := host h\<lparr>ram := m\<rparr>\<rparr>);
     (if started then Some (True, h1)
      else do {
        al' \<leftarrow> free_pages (MEMORY_ALLOCATOR h1) (stack_address - STACK_SIZE) (drop_bit PAGE_SHIFT STACK_SIZE);
        Some (False, h1\<lparr>MEMORY_ALLOCATOR := al'\<rparr>) }) }"

section \<open>Commands\<close>

definition reset_buffer :: "('d, 'f) Hypervisor \<Rightarrow> ('d, 'f) Hypervisor" where
  "reset_buffer h = print (chars ''Command>'') (h\<lparr>CONSOLE := CONSOLE h\<lparr>buffer_pointer := 0\<rparr>\<rparr>)"

definition echo :: "nat list list \<Rightarrow> ('d, 'f) Hypervisor \<Rightarrow> bool \<times> ('d, 'f) Hypervisor" where
  "echo args h = (True, println [] (fold (\<lambda>arg. print (arg @ [32])) args h))"

definition power_off :: "'f firmware \<Rightarrow> ('d, 'f) Hypervisor \<Rightarrow> (bool \<times> ('d, 'f) Hypervisor) option" where
  "power_off smc h = (let h1 = println (chars ''The host machine will shutdown!'') h in system_off smc (firmware_state h1))"

definition boot_vm_command :: "'f firmware \<Rightarrow> u64 \<Rightarrow> ('d, 'f) Hypervisor \<Rightarrow> (bool \<times> ('d, 'f) Hypervisor) option" where
  "boot_vm_command smc core_entry h = do {
     (b, h1) \<leftarrow> launch_cpu smc core_entry h;
     Some (if b then (False, println (chars ''Booted a new VM'') h1) else (True, println (chars ''Failed to boot a VM'') h1)) }"

definition switch_vm :: "nat list list \<Rightarrow> ('d, 'f) Hypervisor \<Rightarrow> bool \<times> ('d, 'f) Hypervisor" where
  "switch_vm args h = (case args of
     [] \<Rightarrow> (True, println (chars ''Missing vm_id'' @ [10] @ chars ''Usage: switch vm_id'') h)
   | arg # _ \<Rightarrow> (case str_to_usize arg of
       None \<Rightarrow> (True, println ([34] @ arg @ [34] @ chars '' is not a number'') h)
     | Some i \<Rightarrow>
         (case switch_active_vm i (host h) of
            (True, s) \<Rightarrow> (False, println (chars ''VM'' @ print_radix 10 i @ chars '' is actived'') (h\<lparr>host := s\<rparr>))
          | (False, s) \<Rightarrow> (True, println (chars ''VM'' @ print_radix 10 i @ chars '' is not available'') (h\<lparr>host := s\<rparr>)))))"

datatype Command = Boot | Switch | Echo | PowerOff

definition COMMAND_LIST :: "(nat list \<times> Command) list" where
  "COMMAND_LIST = [(chars ''boot'', Boot), (chars ''switch'', Switch), (chars ''echo'', Echo), (chars ''poweroff'', PowerOff)]"

definition run_command ::
  "'f firmware \<Rightarrow> u64 \<Rightarrow> Command \<Rightarrow> nat list list \<Rightarrow> ('d, 'f) Hypervisor \<Rightarrow> (bool \<times> ('d, 'f) Hypervisor) option" where
  "run_command smc core_entry command args h = (case command of
     Boot \<Rightarrow> boot_vm_command smc core_entry h
   | Switch \<Rightarrow> Some (switch_vm args h)
   | Echo \<Rightarrow> Some (echo args h)
   | PowerOff \<Rightarrow> power_off smc h)"

definition exec_command :: "'f firmware \<Rightarrow> u64 \<Rightarrow> ('d, 'f) Hypervisor \<Rightarrow> ('d, 'f) Hypervisor option" where
  "exec_command smc core_entry h =
     (let c = CONSOLE h in
      if buffer_pointer c = 0 then Some (reset_buffer h)
      else if buffer_pointer c > length (buffer c) then None
      else (case from_utf8 (take (buffer_pointer c) (buffer c)) of
        None \<Rightarrow> Some (reset_buffer (println (chars ''Failed to parse the input'') h))
      | Some input \<Rightarrow> (case split_whitespace input of
          [] \<Rightarrow> Some (reset_buffer h)
        | command # args \<Rightarrow> (case map_of COMMAND_LIST command of
            Some f \<Rightarrow> do {
              (b, h1) \<leftarrow> run_command smc core_entry f args h;
              Some (if b then reset_buffer h1 else h1\<lparr>IS_CONSOLE_ACTIVE := \<not> IS_CONSOLE_ACTIVE h1\<rparr>) }
          | None \<Rightarrow> Some (reset_buffer (println (command @ chars '' is not defined'') h))))))"

definition is_ascii_control :: "u8 \<Rightarrow> bool" where
  "is_ascii_control b \<longleftrightarrow> b \<le> 0x1f \<or> b = 0x7f"

definition Console_write :: "'f firmware \<Rightarrow> u64 \<Rightarrow> u8 \<Rightarrow> ('d, 'f) Hypervisor \<Rightarrow> ('d, 'f) Hypervisor option" where
  "Console_write smc core_entry data h =
     (let c = CONSOLE h in
      if data = 13 \<or> data = 10 \<and> \<not> ignore_lf c
      then exec_command smc core_entry (println [] (h\<lparr>CONSOLE := c\<lparr>ignore_lf := (data = 13)\<rparr>\<rparr>))
      else if is_ascii_control data \<or> buffer_pointer c = BUFFER_SIZE then Some h
      else do {
        b \<leftarrow> rust_update (buffer c) (buffer_pointer c) data;
        p \<leftarrow> usize_add (buffer_pointer c) 1;
        Some (print [unat data] (h\<lparr>CONSOLE := c\<lparr>buffer := b, buffer_pointer := p\<rparr>\<rparr>)) })"

section \<open>Input\<close>

text \<open>One byte of \<open>handle_input\<close>: it toggles the console, or goes to the console or to the active machine.\<close>

definition input_byte :: "'f firmware \<Rightarrow> u64 \<Rightarrow> u8 \<Rightarrow> ('d, 'f) Hypervisor \<Rightarrow> ('d, 'f) Hypervisor option" where
  "input_byte smc core_entry c h =
     (if c = CONSOLE_SWITCH_KEY then
        Some (if IS_CONSOLE_ACTIVE h then print [13] (h\<lparr>IS_CONSOLE_ACTIVE := False\<rparr>)
              else reset_buffer (h\<lparr>IS_CONSOLE_ACTIVE := True\<rparr>))
      else if IS_CONSOLE_ACTIVE h then Console_write smc core_entry c h
      else do { s \<leftarrow> input_uart c (host h); Some (h\<lparr>host := s\<rparr>) })"

text \<open>The loop takes bytes out of the serial port until there is none or a zero byte.\<close>

fun input_loop :: "'f firmware \<Rightarrow> u64 \<Rightarrow> u8 list \<Rightarrow> ('d, 'f) Hypervisor \<Rightarrow> ('d, 'f) Hypervisor option" where
  "input_loop smc core_entry [] h = Some (h\<lparr>rx := []\<rparr>)"
| "input_loop smc core_entry (c # cs) h =
     (if c = 0 then Some (h\<lparr>rx := cs\<rparr>)
      else do { h1 \<leftarrow> input_byte smc core_entry c h; input_loop smc core_entry cs h1 })"

definition handle_input :: "'f firmware \<Rightarrow> u64 \<Rightarrow> ('d, 'f) Hypervisor \<Rightarrow> ('d, 'f) Hypervisor option" where
  "handle_input smc core_entry h = input_loop smc core_entry (rx h) h"

section \<open>Interrupts\<close>

definition MAINTENANCE_INTERRUPT_INTID :: u32 where "MAINTENANCE_INTERRUPT_INTID = 25"
definition INJECT_INTERRUPT_INT_ID :: u32 where "INJECT_INTERRUPT_INT_ID = 11"
definition GENERIC_TIMER_VIRTUAL_INT_ID :: u32 where "GENERIC_TIMER_VIRTUAL_INT_ID = 27"

text \<open>The handlers of \<open>vgic.rs\<close> and \<open>mmio/gicv3.rs\<close> on the devices of the current machine.\<close>

definition vm_maintenance :: "'d Host \<Rightarrow> 'd Host option" where
  "vm_maintenance s =
     (if \<forall>i \<in> set [0..<supported_lrn (cpu s)]. \<not> bit (get_ich_eisr_el2 (cpu s)) i then Some s
      else do {
        k \<leftarrow> get_current_vm s;
        vm \<leftarrow> rust_nth (vm_list s) k;
        (d, r, c) \<leftarrow> maintenance_interrupt_handler (gic_distributor_mmio vm) (gic_redistributor_mmio vm) (cpu s);
        Some (update_vm k (\<lambda>vm. vm\<lparr>gic_distributor_mmio := d, gic_redistributor_mmio := r\<rparr>) s\<lparr>cpu := c\<rparr>) })"

definition vm_inject :: "'d Host \<Rightarrow> 'd Host option" where
  "vm_inject s = do {
     k \<leftarrow> get_current_vm s;
     vm \<leftarrow> rust_nth (vm_list s) k;
     let (d, r, c) = inject_interrupt_handler (gic_distributor_mmio vm) (gic_redistributor_mmio vm) (cpu s);
     Some (update_vm k (\<lambda>vm. vm\<lparr>gic_distributor_mmio := d, gic_redistributor_mmio := r\<rparr>) s\<lparr>cpu := c\<rparr>) }"

definition generic_timer_interrupt_handler :: "u32 \<Rightarrow> 'd Host \<Rightarrow> 'd Host option" where
  "generic_timer_interrupt_handler physical_int_id s = do {
     k \<leftarrow> get_current_vm s;
     vm \<leftarrow> rust_nth (vm_list s) k;
     (r, c) \<leftarrow> gicr_trigger_interrupt GENERIC_TIMER_VIRTUAL_INT_ID (Some physical_int_id) (gic_redistributor_mmio vm) (cpu s);
     Some (update_vm k (\<lambda>vm. vm\<lparr>gic_redistributor_mmio := r\<rparr>) s\<lparr>cpu := c\<rparr>) }"

definition get_acknowledge :: "Cpu \<Rightarrow> u32" where
  "get_acknowledge c = ucast (get_icc_iar1_el1 c)"

definition drop_priority :: "u32 \<Rightarrow> Cpu \<Rightarrow> Cpu" where
  "drop_priority int_id c = set_icc_eoir1_el1 (ucast int_id) c"

definition deactivate :: "u32 \<Rightarrow> Cpu \<Rightarrow> Cpu" where
  "deactivate int_id c = set_icc_dir_el1 (ucast int_id) c"

text \<open>What the handler does for an interrupt, and whether it deactivates the interrupt itself.\<close>

definition irq_dispatch ::
  "'f firmware \<Rightarrow> u64 \<Rightarrow> u32 \<Rightarrow> ('d, 'f) Hypervisor \<Rightarrow> (bool \<times> ('d, 'f) Hypervisor) option" where
  "irq_dispatch smc core_entry interrupt_number h =
     (if interrupt_number = PL011_DEVICE_INT_ID h then do { h1 \<leftarrow> handle_input smc core_entry h; Some (True, h1) }
      else if interrupt_number = MAINTENANCE_INTERRUPT_INTID then do { s \<leftarrow> vm_maintenance (host h); Some (True, h\<lparr>host := s\<rparr>) }
      else if interrupt_number = INJECT_INTERRUPT_INT_ID then do { s \<leftarrow> vm_inject (host h); Some (True, h\<lparr>host := s\<rparr>) }
      else if interrupt_number = GENERIC_TIMER_PHYSICAL_INT_ID h then
        do { s \<leftarrow> generic_timer_interrupt_handler (GENERIC_TIMER_PHYSICAL_INT_ID h) (host h); Some (False, h\<lparr>host := s\<rparr>) }
      else Some (True, h))"

definition irq_handler :: "'f firmware \<Rightarrow> u64 \<Rightarrow> ('d, 'f) Hypervisor \<Rightarrow> ('d, 'f) Hypervisor option" where
  "irq_handler smc core_entry h = do {
     let interrupt_number = get_acknowledge (cpu (host h));
     (b, h1) \<leftarrow> irq_dispatch smc core_entry interrupt_number h;
     let c = drop_priority interrupt_number (cpu (host h1));
     Some (h1\<lparr>host := host h1\<lparr>cpu := if b then deactivate interrupt_number c else c\<rparr>\<rparr>) }"

end
