(* ===== verification/ConsoleProps.thy ===== *)
theory ConsoleProps
  imports Console
begin

text \<open>
  Properties of the console and of the interrupt handler: a typed line is what a command gets, the
  command that switches machines does so, input goes to the active machine only, and every
  interrupt is acknowledged.
\<close>

section \<open>Typing a line\<close>

text \<open>The console is active and its buffer holds the bytes \<open>w\<close>.\<close>

definition typed :: "u8 list \<Rightarrow> ('d, 'f) Hypervisor \<Rightarrow> bool" where
  "typed w h \<longleftrightarrow> IS_CONSOLE_ACTIVE h \<and> length (buffer (CONSOLE h)) = BUFFER_SIZE \<and> buffer_pointer (CONSOLE h) = length w \<and>
     length w \<le> BUFFER_SIZE \<and> take (length w) (buffer (CONSOLE h)) = w"

text \<open>Only the console and the printed text differ.\<close>

definition console_only :: "('d, 'f) Hypervisor \<Rightarrow> ('d, 'f) Hypervisor \<Rightarrow> bool" where
  "console_only h h' \<longleftrightarrow> h' = h\<lparr>CONSOLE := CONSOLE h', printed := printed h'\<rparr>"

lemma console_only_trans: "console_only h h1 \<Longrightarrow> console_only h1 h2 \<Longrightarrow> console_only h h2"
  by (cases h; cases h1; cases h2) (simp add: console_only_def)

lemma console_only_host: "console_only h h1 \<Longrightarrow> host h1 = host h"
  by (cases h; cases h1) (simp add: console_only_def)

lemma type_byte:
  assumes "typed w h" and "\<not> is_ascii_control c" and "length w < BUFFER_SIZE"
  shows "\<exists>h1. input_byte smc core_entry c h = Some h1 \<and> typed (w @ [c]) h1 \<and> console_only h h1"
proof -
  have c: "c \<noteq> 13" "c \<noteq> 10" "c \<noteq> CONSOLE_SWITCH_KEY" using assms(2) by (auto simp: is_ascii_control_def CONSOLE_SWITCH_KEY_def)
  have "take (Suc (length w)) ((buffer (CONSOLE h))[length w := c]) = w @ [c]"
    using assms by (simp add: typed_def take_Suc_conv_app_nth)
  then show ?thesis
    using assms c
    by (simp add: input_byte_def Console_write_def typed_def Let_def rust_update_def usize_add_def BUFFER_SIZE_def print_def console_only_def)
qed

lemma type_line:
  assumes "typed w h" and "\<forall>c \<in> set bs. \<not> is_ascii_control c" and "length w + length bs \<le> BUFFER_SIZE"
  shows "\<exists>h1. input_loop smc core_entry (bs @ cs) h = input_loop smc core_entry cs h1 \<and> typed (w @ bs) h1 \<and> console_only h h1"
  using assms
proof (induction bs arbitrary: w h)
  case Nil
  then show ?case by (intro exI [of _ h]) (simp add: console_only_def)
next
  case (Cons c bs)
  obtain h1 where h1: "input_byte smc core_entry c h = Some h1" "typed (w @ [c]) h1" "console_only h h1"
    using type_byte [OF Cons.prems(1), of c smc core_entry] Cons.prems(2,3) by auto
  obtain h2 where h2: "input_loop smc core_entry (bs @ cs) h1 = input_loop smc core_entry cs h2" "typed (w @ c # bs) h2" "console_only h1 h2"
    using Cons.IH [OF h1(2)] Cons.prems(2,3) by auto
  have "c \<noteq> 0" using Cons.prems(2) by (auto simp: is_ascii_control_def)
  moreover have "console_only h h2" by (rule console_only_trans [OF h1(3) h2(3)])
  ultimately show ?case using h1(1) h2(1,2) by (intro exI [of _ h2]) simp
qed

section \<open>The command that switches machines\<close>

lemma print_radix_length: "0 < k \<Longrightarrow> n < 10 ^ k \<Longrightarrow> length (print_radix 10 n) \<le> k"
proof (induction k arbitrary: n)
  case (Suc k)
  show ?case
  proof (cases "n < 10")
    case False
    have "n div 10 < 10 ^ k" using Suc.prems by (simp add: less_mult_imp_div_less mult.commute)
    moreover have "0 < k" using False Suc.prems by (cases k) auto
    ultimately show ?thesis using Suc.IH [of "n div 10"] False by (subst print_radix.simps) simp
  qed (subst print_radix.simps, simp)
qed simp

definition switch_line :: "usize \<Rightarrow> nat list" where
  "switch_line n = chars ''switch'' @ 32 # print_radix 10 n"

lemma switch_line_plain:
  assumes "c \<in> set (switch_line n)"
  shows "32 \<le> c \<and> c < 127"
proof (cases "c \<in> set (print_radix 10 n)")
  case True
  then obtain d where "d < 10" "c = digit_char d" using print_radix_chars [of 10 c n] by auto
  then show ?thesis by (auto simp: digit_char_def)
qed (use assms in \<open>auto simp: switch_line_def chars_def\<close>)

lemma switch_line_split: "split_whitespace (switch_line n) = [chars ''switch'', print_radix 10 n]"
proof -
  have "\<forall>c \<in> set (print_radix 10 n). \<not> is_whitespace c"
    using print_radix_chars [of 10 _ n] by (fastforce simp: is_whitespace_def digit_char_def)
  then have "split_whitespace (print_radix 10 n) = [print_radix 10 n]" using split_word [of "print_radix 10 n" "[]"] by simp
  moreover have "\<forall>c \<in> set (chars ''switch''). \<not> is_whitespace c" "chars ''switch'' \<noteq> []" by (simp_all add: chars_def is_whitespace_def)
  ultimately show ?thesis
    using split_word [of "chars ''switch''" "32 # print_radix 10 n"] by (simp add: switch_line_def is_whitespace_def)
qed

lemma switch_enter:
  assumes "typed (map word_of_nat (switch_line n)) h" and "n < 2 ^ 64" and "find_vm (vm_list (host h)) n = Some k"
  shows "\<exists>h1. input_byte smc core_entry 13 h = Some h1 \<and> host h1 = host h\<lparr>active_vm := Some k\<rparr> \<and> \<not> IS_CONSOLE_ACTIVE h1"
proof -
  let ?w = "map word_of_nat (switch_line n) :: u8 list"
  have u: "unat (word_of_nat c :: u8) = c" if "c \<in> set (switch_line n)" for c
    using switch_line_plain [OF that] by (simp add: unat_of_nat take_bit_nat_eq_self)
  have "map unat ?w = switch_line n" using u by (simp add: map_idI)
  moreover have "\<forall>b \<in> set ?w. is_ascii b" using u switch_line_plain by (fastforce simp: is_ascii_def)
  ultimately have utf8: "from_utf8 ?w = Some (switch_line n)" using from_utf8_ascii by metis
  have list: "map_of COMMAND_LIST (chars ''switch'') = Some Switch" by (simp add: COMMAND_LIST_def chars_def)
  have ne: "switch_line n \<noteq> []" by (simp add: switch_line_def)
  define h0 where "h0 = println [] (h\<lparr>CONSOLE := CONSOLE h\<lparr>ignore_lf := True\<rparr>\<rparr>)"
  have h0: "CONSOLE h0 = CONSOLE h\<lparr>ignore_lf := True\<rparr>" "host h0 = host h" "IS_CONSOLE_ACTIVE h0 = IS_CONSOLE_ACTIVE h"
    by (simp_all add: h0_def println_def print_def)
  have "take (buffer_pointer (CONSOLE h)) (buffer (CONSOLE h)) = ?w" "0 < buffer_pointer (CONSOLE h)"
    "buffer_pointer (CONSOLE h) \<le> length (buffer (CONSOLE h))" "IS_CONSOLE_ACTIVE h"
    using assms(1) ne by (simp_all add: typed_def)
  moreover have "input_byte smc core_entry 13 h = (if IS_CONSOLE_ACTIVE h then exec_command smc core_entry h0 else input_byte smc core_entry 13 h)"
    by (simp add: input_byte_def CONSOLE_SWITCH_KEY_def Console_write_def Let_def h0_def)
  ultimately show ?thesis
    using utf8 list assms(3) str_to_usize_decimal [OF assms(2)]
    by (simp add: exec_command_def h0 Let_def switch_line_split run_command_def switch_vm_def switch_active_vm_def println_def print_def)
qed

text \<open>
  C39. Typing \<open>switch\<close>, a blank, the decimal number of an existing machine and return, while the
  console is active and its buffer empty, makes that machine the active one, closes the
  console and changes nothing else of the host; the rest of the input is handled after that.
\<close>

theorem console_switch_command:
  assumes "typed [] h" and "n < 2 ^ 64" and "find_vm (vm_list (host h)) n = Some k"
  shows "\<exists>h1. input_loop smc core_entry (map word_of_nat (switch_line n) @ 13 # cs) h = input_loop smc core_entry cs h1 \<and>
    host h1 = host h\<lparr>active_vm := Some k\<rparr> \<and> \<not> IS_CONSOLE_ACTIVE h1"
proof -
  have "(2::nat) ^ 64 < 10 ^ 20" by simp
  then have "length (print_radix 10 n) \<le> 20" using assms(2) by (intro print_radix_length) linarith+
  then have len: "length (switch_line n) \<le> BUFFER_SIZE" by (simp add: switch_line_def chars_def BUFFER_SIZE_def)
  have "\<not> is_ascii_control (word_of_nat c)" if "c \<in> set (switch_line n)" for c
  proof -
    have "unat (word_of_nat c :: u8) = c" using switch_line_plain [OF that] by (simp add: unat_of_nat take_bit_nat_eq_self)
    then show ?thesis using switch_line_plain [OF that] by (auto simp: is_ascii_control_def word_le_nat_alt)
  qed
  then have "\<forall>c \<in> set (map word_of_nat (switch_line n)). \<not> is_ascii_control c" by simp
  from type_line [OF assms(1) this, of smc core_entry "13 # cs"] len obtain h1 where
    h1: "input_loop smc core_entry (map word_of_nat (switch_line n) @ 13 # cs) h = input_loop smc core_entry (13 # cs) h1"
      "typed (map word_of_nat (switch_line n)) h1" "console_only h h1" by auto
  have "host h1 = host h" by (rule console_only_host [OF h1(3)])
  then obtain h2 where "input_byte smc core_entry 13 h1 = Some h2" "host h2 = host h\<lparr>active_vm := Some k\<rparr>" "\<not> IS_CONSOLE_ACTIVE h2"
    using switch_enter [OF h1(2) assms(2), of k smc core_entry] assms(3) by auto
  then show ?thesis using h1(1) by (intro exI [of _ h2]) simp
qed

section \<open>Input to a machine\<close>

lemma uart_trigger_ready:
  assumes "gicd_ready d"
  shows "\<exists>d' c'. gicd_trigger_interrupt PL011_INT_ID None d c = Some (d', c') \<and> gicd_ready d'"
proof (cases "gicd_on d")
  case True
  have wf: "gicd_wf d" "gicd_routable d" using assms by (simp_all add: gicd_ready_def)
  have i: "unat PL011_INT_ID = 33" by (simp add: PL011_INT_ID_def)
  have "aff0 (gicd_route d PL011_INT_ID) < 16" using wf by (simp add: gicd_routable_def gicd_route_def i gicd_wf_def)
  then show ?thesis
    using gicd_trigger_outcome [OF wf(1) _ True, of PL011_INT_ID None c] pended_props(1) [OF wf(1), of 33] wf
    by (auto simp: i gicd_ready_def gicd_wf_def gicd_routable_def)
next
  case False
  then show ?thesis using assms by (simp add: gicd_trigger_interrupt_def gicd_on_def)
qed

lemma push_buffer_length: "length (push_buffer c b) = length b"
  by (induction b) auto

lemma input_uart_ready:
  assumes "active_vm s = Some k" and "k < length (vm_list s)" and "vm_ready (vm_list s ! k)"
  shows "\<exists>s'. input_uart c s = Some s' \<and> only_machine k s s' \<and> vm_ready (vm_list s' ! k) \<and>
    read_buffer (pl011_mmio (vm_list s' ! k)) = push_buffer c (read_buffer (pl011_mmio (vm_list s ! k)))"
proof -
  let ?vm = "vm_list s ! k"
  have ready: "gicd_ready (gic_distributor_mmio ?vm)" "uart_wf (pl011_mmio ?vm)" using assms(3) by (simp_all add: vm_ready_def)
  obtain u d x where p: "Pl011Mmio_push c (pl011_mmio ?vm) (gic_distributor_mmio ?vm) (cpu s) = Some (u, d, x)"
      "gicd_ready d" "read_buffer u = push_buffer c (read_buffer (pl011_mmio ?vm))"
    using uart_trigger_ready [OF ready(1), of "cpu s"] ready(1)
    by (cases "interrupt_mask (pl011_mmio ?vm) AND UART_IMSC_RXIM \<noteq> 0") (auto simp: Pl011Mmio_push_def put_byte_def Let_def)
  let ?f = "\<lambda>vm. vm\<lparr>pl011_mmio := u, gic_distributor_mmio := d\<rparr>"
  have i: "input_uart c s = Some (update_vm k ?f s\<lparr>cpu := x\<rparr>)"
    using assms(1,2) p(1) by (simp add: input_uart_def get_active_vm_def)
  have "only_machine k s (update_vm k ?f s\<lparr>cpu := x\<rparr>)"
    unfolding only_machine_fields by (rule only_machine_update) (simp add: vm_frame_def)
  moreover have "vm_ready (?f ?vm)" using assms(3) p(2,3) ready(2) by (simp add: vm_ready_def uart_wf_def push_buffer_length)
  ultimately show ?thesis using i p(3) assms(2) by (intro exI [of _ "update_vm k ?f s\<lparr>cpu := x\<rparr>"]) (simp add: update_vm_def)
qed


section \<open>Acknowledging interrupts\<close>

lemma host_regs_set_lr: "i < 3 \<Longrightarrow> host_regs ((SET_ICH_LRN_EL2 ! i) v c) = host_regs c"
  by (auto simp: SET_ICH_LRN_EL2_def host_regs_def asm_defs less_Suc_eq numeral_3_eq_3)

lemma maintenance_keeps:
  "\<forall>i \<in> set js. i < 3 \<Longrightarrow> maintenance_loop js eoi d r c = Some (d', r', c') \<Longrightarrow> host_regs c' = host_regs c"
proof (induction js arbitrary: eoi d r c)
  case (Cons i js)
  have "host_regs c1 = host_regs c" if "complete_interrupt i d r c = Some (d1, r1, c1)" for d1 r1 c1
    using that Cons.prems(1) host_regs_set_lr [of i]
    by (auto simp: complete_interrupt_def Let_def split: if_splits)
  then show ?case using Cons by (fastforce split: if_splits)
qed simp

lemma inject_keeps: "host_regs (fold add_virtual_interrupt es c) = host_regs c"
  by (induction es arbitrary: c) (simp_all add: host_regs_add)

lemma input_uart_keeps: "input_uart c s = Some s' \<Longrightarrow> host_regs (cpu s') = host_regs (cpu s)"
  using gicd_trigger_keeps
  by (fastforce simp: input_uart_def Pl011Mmio_push_def Let_def keeps_def update_vm_def split: if_splits)

lemma cpu_loop_host:
  assumes "cpu_loop smc core_entry a st node h = Some r"
  shows "host (snd r) = host h"
proof (rule cpu_loop.raw_induct [OF _ assms, where P = "\<lambda>_ _ _ _ _ h r. host (snd r) = host h"], goal_cases)
  case (1 f smc core_entry a st node h r)
  have t: "host (snd (try_cpu smc core_entry a st reg h)) = host h" for reg
    by (auto simp: try_cpu_def println_def print_def split: option.splits prod.splits sum.splits)
  show ?case
  proof (cases "search_node (ram (host h)) (DTB h) (ascii ''cpu'') node")
    case (Some n)
    then show ?thesis
    proof (cases n)
      case (Some c)
      with \<open>_ = Some n\<close> 1(2) obtain reg where "(let t = try_cpu smc core_entry a st reg h
          in if fst t then Some t else f smc core_entry a st (Some c) (snd t)) = Some r" by auto
      then show ?thesis using 1(1) [of smc core_entry a st "Some c" "snd (try_cpu smc core_entry a st reg h)" r] t [of reg]
        by (auto simp: Let_def split: if_splits)
    qed (use 1(2) Some in auto)
  qed (use 1(2) in simp)
qed

lemma launch_cpu_cpu: "launch_cpu smc core_entry h = Some (b, h1) \<Longrightarrow> cpu (host h1) = cpu (host h)"
  by (auto simp: launch_cpu_def Let_def split: if_splits dest!: cpu_loop_host)

lemma print_host [simp]: "host (print s h) = host h" "host (println s h) = host h" "host (reset_buffer h) = host h"
  by (simp_all add: print_def println_def reset_buffer_def)

lemma echo_host: "host (fold (\<lambda>arg. print (f arg)) args h) = host h"
  by (induction args arbitrary: h) simp_all

lemma run_command_cpu: "run_command smc core_entry f args h = Some (b, h1) \<Longrightarrow> cpu (host h1) = cpu (host h)"
  by (cases f) (auto simp: run_command_def boot_vm_command_def switch_vm_def echo_def power_off_def system_off_def switch_active_vm_def
      echo_host split: option.splits list.splits prod.splits if_splits dest!: launch_cpu_cpu)

lemma exec_command_cpu: "exec_command smc core_entry h = Some h1 \<Longrightarrow> cpu (host h1) = cpu (host h)"
  by (auto simp: exec_command_def Let_def split: if_splits option.splits list.splits dest!: run_command_cpu)

lemma input_byte_keeps:
  assumes "input_byte smc core_entry c h = Some h1"
  shows "host_regs (cpu (host h1)) = host_regs (cpu (host h))"
proof -
  have "cpu (host h1) = cpu (host h)" if "Console_write smc core_entry c h = Some h1"
    using that by (auto simp: Console_write_def Let_def split: if_splits dest!: exec_command_cpu)
  then show ?thesis using assms input_uart_keeps by (auto simp: input_byte_def split: if_splits)
qed

lemma input_loop_keeps: "input_loop smc core_entry cs h = Some h1 \<Longrightarrow> host_regs (cpu (host h1)) = host_regs (cpu (host h))"
  by (induction cs arbitrary: h) (auto split: if_splits dest!: input_byte_keeps)

lemma irq_dispatch_keeps:
  assumes "irq_dispatch smc core_entry i h = Some (b, h1)"
  shows "host_regs (cpu (host h1)) = host_regs (cpu (host h))"
proof -
  have "host_regs (cpu s) = host_regs (cpu (host h))" if "vm_maintenance (host h) = Some s" for s
    using that maintenance_keeps [of "[0..<supported_lrn (cpu (host h))]"] supported_le(1) [of "cpu (host h)"]
    by (fastforce simp: vm_maintenance_def maintenance_interrupt_handler_def update_vm_def split: if_splits)
  moreover have "host_regs (cpu s) = host_regs (cpu (host h))" if "vm_inject (host h) = Some s" for s
    using that by (auto simp: vm_inject_def inject_interrupt_handler_def inject_keeps update_vm_def)
  moreover have "host_regs (cpu s) = host_regs (cpu (host h))" if "generic_timer_interrupt_handler p (host h) = Some s" for s p
    using that gicr_trigger_keeps by (fastforce simp: generic_timer_interrupt_handler_def keeps_def update_vm_def)
  ultimately show ?thesis
    using assms input_loop_keeps by (auto simp: irq_dispatch_def handle_input_def split: if_splits)
qed

text \<open>
  Whenever the interrupt handler returns, it has dropped the priority of exactly the interrupt it
  acknowledged, and deactivated exactly that interrupt unless it is the one of the timer, which
  the guest deactivates through its list register.
\<close>

theorem irq_acknowledged:
  assumes "irq_handler smc core_entry h = Some h1"
  defines "i \<equiv> get_acknowledge (cpu (host h))"
  shows "icc_eoir1_el1 (cpu (host h1)) = ucast i # icc_eoir1_el1 (cpu (host h)) \<and>
    icc_dir_el1 (cpu (host h1)) =
      (if i = GENERIC_TIMER_PHYSICAL_INT_ID h \<and> i \<notin> {PL011_DEVICE_INT_ID h, MAINTENANCE_INTERRUPT_INTID, INJECT_INTERRUPT_INT_ID}
       then icc_dir_el1 (cpu (host h)) else ucast i # icc_dir_el1 (cpu (host h)))"
proof -
  obtain b h2 where d: "irq_dispatch smc core_entry i h = Some (b, h2)"
      "cpu (host h1) = (if b then deactivate i (drop_priority i (cpu (host h2))) else drop_priority i (cpu (host h2)))"
    using assms by (auto simp: irq_handler_def Let_def)
  have "b = (\<not> (i = GENERIC_TIMER_PHYSICAL_INT_ID h \<and>
      i \<notin> {PL011_DEVICE_INT_ID h, MAINTENANCE_INTERRUPT_INTID, INJECT_INTERRUPT_INT_ID}))"
    using d(1) by (auto simp: irq_dispatch_def split: if_splits)
  then show ?thesis
    using irq_dispatch_keeps [OF d(1)] d(2) by (simp add: host_regs_def drop_priority_def deactivate_def asm_defs)
qed

section \<open>Witnesses\<close>

definition sample_hypervisor :: "(unit, unit) Hypervisor" where
  "sample_hypervisor = \<lparr>host = sample_host, MEMORY_ALLOCATOR = MemoryAllocator_new, DTB = \<lparr>header = 0x1000\<rparr>, firmware_state = (),
     paging_registers = [0, 0, 0, 0], CONSOLE = Console_new, IS_CONSOLE_ACTIVE = True, PL011_DEVICE_INT_ID = 33,
     GENERIC_TIMER_PHYSICAL_INT_ID = 30, printed = [], rx = []\<rparr>"

theorem console_switch_command_witness:
  "\<exists>h1. input_loop (\<lambda>_ _ _ _ f. (0, f)) 0 (map word_of_nat (switch_line 0) @ 13 # []) sample_hypervisor =
      input_loop (\<lambda>_ _ _ _ f. (0, f)) 0 [] h1 \<and> host h1 = host sample_hypervisor\<lparr>active_vm := Some 0\<rparr> \<and> \<not> IS_CONSOLE_ACTIVE h1"
proof -
  have "typed [] sample_hypervisor" by (simp add: typed_def sample_hypervisor_def Console_new_def)
  moreover have "find_vm (vm_list (host sample_hypervisor)) 0 = Some 0"
    by (simp add: sample_hypervisor_def sample_host_def sample_vm_def)
  ultimately show ?thesis by (intro console_switch_command) simp_all
qed


end
