(* ===== verification/VirtioBlk.thy ===== *)
theory VirtioBlk
  imports VirtioBlkMmio MemoryAllocator
begin

text \<open>
  The driver of the block device of the machine, \<open>src/src/drivers/virtio_blk.rs\<close> with the queue of
  \<open>src/src/drivers/virtio.rs\<close>. The device itself is an argument: how it answers a read of one of its
  registers, and what a write to one does to it and, by direct access, to memory. After
  the write that notifies it the model sees the memory that the device leaves when it is
  done; a device that never writes the status byte makes the driver wait for ever.
\<close>

section \<open>Constants and structures\<close>

definition VIRTIO_BLK_TYPE_IN :: u32 where "VIRTIO_BLK_TYPE_IN = 0"
definition VIRTIO_BLK_F_RO :: u32 where "VIRTIO_BLK_F_RO = push_bit 5 1"
definition VIRTIO_MMIO_DRIVER_FEATURES :: usize where "VIRTIO_MMIO_DRIVER_FEATURES = 0x020"
definition VIRTIO_MMIO_QUEUE_SEL :: usize where "VIRTIO_MMIO_QUEUE_SEL = 0x030"
definition VIRTIO_DEVICE_STATUS_ACKNOWLEDGE :: u32 where "VIRTIO_DEVICE_STATUS_ACKNOWLEDGE = 1"
definition VIRTIO_DEVICE_STATUS_DRIVER :: u32 where "VIRTIO_DEVICE_STATUS_DRIVER = 2"
definition VIRTIO_DEVICE_STATUS_DRIVER_OK :: u32 where "VIRTIO_DEVICE_STATUS_DRIVER_OK = 4"
definition VIRTIO_DEVICE_STATUS_FEATURES_OK :: u32 where "VIRTIO_DEVICE_STATUS_FEATURES_OK = 8"
definition VIRT_QUEUE_DESC_FLAGS_WRITE :: u16 where "VIRT_QUEUE_DESC_FLAGS_WRITE = push_bit 1 1"
definition NUMBER_OF_DESCRIPTORS :: usize where "NUMBER_OF_DESCRIPTORS = 64"
definition VIRTIO_PAGE_SHIFT :: nat where "VIRTIO_PAGE_SHIFT = 12"
definition VIRTIO_PAGE_SIZE :: usize where "VIRTIO_PAGE_SIZE = 2 ^ VIRTIO_PAGE_SHIFT"

text \<open>The sizes of \<open>VirtQueueDesc\<close>, \<open>VirtQueueAvail\<close> and \<open>VirtQueueUsed\<close>.\<close>

definition SIZE_DESC :: usize where "SIZE_DESC = 16"
definition SIZE_AVAIL :: usize where "SIZE_AVAIL = 2 + 2 + 2 * NUMBER_OF_DESCRIPTORS + 2"
definition SIZE_USED :: usize where "SIZE_USED = 2 + 2 + 8 * NUMBER_OF_DESCRIPTORS + 4"

definition NUMBER_OF_PAGES_QUEUE :: usize where
  "NUMBER_OF_PAGES_QUEUE =
     (drop_bit VIRTIO_PAGE_SHIFT (SIZE_DESC * NUMBER_OF_DESCRIPTORS + SIZE_AVAIL) + 1) + (drop_bit VIRTIO_PAGE_SHIFT SIZE_USED + 1)"

record VirtioBlk =
  descriptors :: usize
  avail :: usize
  used :: usize
  free_bitmap :: "u8 list"

record 'd VirtioDevice =
  read_register :: "usize \<Rightarrow> 'd \<Rightarrow> u32"
  write_register :: "usize \<Rightarrow> u32 \<Rightarrow> memory \<times> 'd \<Rightarrow> memory \<times> 'd"

section \<open>Initialisation\<close>

definition VirtioBlk_invalid :: VirtioBlk where
  "VirtioBlk_invalid = \<lparr>descriptors = 0, avail = 0, used = 0, free_bitmap = replicate 8 0\<rparr>"

definition add_status :: "'d VirtioDevice \<Rightarrow> u32 \<Rightarrow> memory \<times> 'd \<Rightarrow> memory \<times> 'd" where
  "add_status dev v s = write_register dev VIRTIO_MMIO_STATUS (read_register dev VIRTIO_MMIO_STATUS (snd s) OR v) s"

definition write_zeros :: "usize \<Rightarrow> usize \<Rightarrow> memory \<Rightarrow> memory" where
  "write_zeros a n m = (\<lambda>x. if a \<le> x \<and> x < a + n then 0 else m x)"

definition VirtioBlk_queue :: "usize \<Rightarrow> VirtioBlk option" where
  "VirtioBlk_queue queue = do {
     available_ring \<leftarrow> usize_add queue (SIZE_DESC * NUMBER_OF_DESCRIPTORS);
     e \<leftarrow> usize_add available_ring SIZE_AVAIL;
     used_ring \<leftarrow> usize_add ((e - 1) AND usize_not (VIRTIO_PAGE_SIZE - 1)) VIRTIO_PAGE_SIZE;
     Some \<lparr>descriptors = queue, avail = available_ring, used = used_ring, free_bitmap = replicate 8 0xff\<rparr> }"

definition VirtioBlk_new ::
  "'d VirtioDevice \<Rightarrow> MemoryAllocator \<times> memory \<times> 'd \<Rightarrow> ((unit + VirtioBlk) \<times> MemoryAllocator \<times> memory \<times> 'd) option" where
  "VirtioBlk_new dev = (\<lambda>(al, s).
     if read_register dev VIRTIO_MMIO_MAGIC (snd s) \<noteq> VIRTIO_MMIO_MAGIC_VALUE \<or> read_register dev VIRTIO_MMIO_VERSION (snd s) \<noteq> 1 \<or>
        read_register dev VIRTIO_MMIO_DEVICE_ID (snd s) \<noteq> 2 \<or> read_register dev VIRTIO_MMIO_VENDOR_ID (snd s) \<noteq> 0x554d4551
     then Some (Inl (), al, s)
     else (let s1 = write_register dev VIRTIO_MMIO_STATUS 0 s;
               s2 = add_status dev VIRTIO_DEVICE_STATUS_ACKNOWLEDGE s1;
               s3 = add_status dev VIRTIO_DEVICE_STATUS_DRIVER s2
           in if read_register dev VIRTIO_MMIO_DEVICE_FEATURES (snd s3) AND VIRTIO_BLK_F_RO \<noteq> 0 then Some (Inl (), al, s3)
              else (let s4 = write_register dev VIRTIO_MMIO_DRIVER_FEATURES 0 s3;
                        s5 = add_status dev VIRTIO_DEVICE_STATUS_FEATURES_OK s4;
                        s6 = write_register dev VIRTIO_MMIO_GUEST_PAGE_SIZE (word_of_nat VIRTIO_PAGE_SIZE) s5;
                        s7 = write_register dev VIRTIO_MMIO_QUEUE_SEL 0 s6
                    in if unat (read_register dev VIRTIO_MMIO_QUEUE_NUM_MAX (snd s7)) < NUMBER_OF_DESCRIPTORS
                       then Some (Inl (), al, s7)
                       else do {
                         let s8 = write_register dev VIRTIO_MMIO_QUEUE_NUM (word_of_nat NUMBER_OF_DESCRIPTORS) s7;
                         (r, al1) \<leftarrow> allocate_pages al NUMBER_OF_PAGES_QUEUE VIRTIO_PAGE_SHIFT;
                         queue \<leftarrow> result_ok r;
                         let m9 = write_zeros queue (NUMBER_OF_PAGES_QUEUE * VIRTIO_PAGE_SIZE) (fst s8);
                         let s10 = write_register dev VIRTIO_MMIO_QUEUE_PFN (word_of_nat (drop_bit VIRTIO_PAGE_SHIFT queue)) (m9, snd s8);
                         let s11 = add_status dev VIRTIO_DEVICE_STATUS_DRIVER_OK s10;
                         b \<leftarrow> VirtioBlk_queue queue;
                         Some (Inr b, al1, s11) })))"

section \<open>Descriptors\<close>

definition is_free :: "u8 list \<Rightarrow> nat \<Rightarrow> bool" where
  "is_free bm i = bit (bm ! (i div 8)) (i mod 8)"

text \<open>The first free descriptor, byte by byte and bit by bit.\<close>

definition allocate_descriptor :: "VirtioBlk \<Rightarrow> (nat \<times> VirtioBlk) option" where
  "allocate_descriptor b = (case List.find (is_free (free_bitmap b)) [0..<8 * length (free_bitmap b)] of
     None \<Rightarrow> None
   | Some i \<Rightarrow> Some (i, b\<lparr>free_bitmap := (free_bitmap b)[i div 8 := free_bitmap b ! (i div 8) AND NOT (push_bit (i mod 8) 1)]\<rparr>))"

definition free_descriptor :: "nat \<Rightarrow> VirtioBlk \<Rightarrow> VirtioBlk option" where
  "free_descriptor i b = do {
     _ \<leftarrow> rust_assert (i < NUMBER_OF_DESCRIPTORS);
     x \<leftarrow> rust_nth (free_bitmap b) (i div 8);
     Some (b\<lparr>free_bitmap := (free_bitmap b)[i div 8 := x OR push_bit (i mod 8) 1]\<rparr>) }"

definition desc_at :: "VirtioBlk \<Rightarrow> nat \<Rightarrow> usize" where
  "desc_at b i = descriptors b + SIZE_DESC * i"

text \<open>The fields of a descriptor but for the link to the next one.\<close>

definition fill_descriptor :: "VirtioBlk \<Rightarrow> nat \<Rightarrow> usize \<Rightarrow> u32 \<Rightarrow> u16 \<Rightarrow> memory \<Rightarrow> memory" where
  "fill_descriptor b i a n fl m = write_u16 (desc_at b i + 12) fl (write_u32 (desc_at b i + 8) n (write_u64 (desc_at b i) (word_of_nat a) m))"

definition link_descriptor :: "VirtioBlk \<Rightarrow> nat \<Rightarrow> nat \<Rightarrow> memory \<Rightarrow> memory" where
  "link_descriptor b i j m = write_u16 (desc_at b i + 14) (word_of_nat j) m"

section \<open>Requests\<close>

text \<open>The places of the two local variables of \<open>operation_sync\<close> whose addresses the device gets.\<close>

record Frame =
  virtio_blk_req :: usize
  status_place :: usize

definition write_request :: "usize \<Rightarrow> bool \<Rightarrow> u64 \<Rightarrow> memory \<Rightarrow> memory" where
  "write_request a is_write sector m =
     write_u64 (a + 8) sector (write_u32 (a + 4) 0 (write_u32 a (if is_write then VIRTIO_BLK_TYPE_OUT else VIRTIO_BLK_TYPE_IN) m))"

text \<open>The available ring gets a new entry; its counter overflows with a panic after 65535 requests.\<close>

definition push_avail :: "VirtioBlk \<Rightarrow> nat \<Rightarrow> memory \<Rightarrow> memory option" where
  "push_avail b i m =
     (let idx = read_u16 m (avail b + 2)
      in if unat idx + 1 < 2 ^ 16
         then Some (write_u16 (avail b + 2) (idx + 1) (write_u16 (avail b + 4 + 2 * (unat idx mod NUMBER_OF_DESCRIPTORS)) (word_of_nat i) m))
         else None)"

text \<open>The three descriptors of a request. A descriptor that is already taken stays taken when the next one is missing.\<close>

definition make_chain ::
  "Frame \<Rightarrow> usize \<Rightarrow> u64 \<Rightarrow> u64 \<Rightarrow> bool \<Rightarrow> VirtioBlk \<Rightarrow> memory \<Rightarrow> (unit + nat \<times> nat \<times> nat) \<times> VirtioBlk \<times> memory" where
  "make_chain fr buffer_address block_address len is_write b m =
     (let m0 = write_request (virtio_blk_req fr) is_write (drop_bit 9 block_address) m
      in case allocate_descriptor b of None \<Rightarrow> (Inl (), b, m0)
      | Some (i, b1) \<Rightarrow>
         (let m1 = fill_descriptor b i (virtio_blk_req fr) 16 VIRT_QUEUE_DESC_FLAGS_NEXT m0
          in case allocate_descriptor b1 of None \<Rightarrow> (Inl (), b1, m1)
          | Some (j, b2) \<Rightarrow>
             (let fl = (if is_write then VIRT_QUEUE_DESC_FLAGS_NEXT else VIRT_QUEUE_DESC_FLAGS_NEXT OR VIRT_QUEUE_DESC_FLAGS_WRITE);
                  m2 = link_descriptor b i j (fill_descriptor b j buffer_address (ucast len) fl m1);
                  m3 = m2(status_place fr := 0xff)
              in case allocate_descriptor b2 of None \<Rightarrow> (Inl (), b2, m3)
              | Some (k, b3) \<Rightarrow>
                  (Inr (i, j, k), b3, link_descriptor b j k (fill_descriptor b k (status_place fr) 1 VIRT_QUEUE_DESC_FLAGS_WRITE m3)))))"

definition operation_sync ::
  "'d VirtioDevice \<Rightarrow> Frame \<Rightarrow> usize \<Rightarrow> u64 \<Rightarrow> u64 \<Rightarrow> bool \<Rightarrow> memory \<times> VirtioBlk \<times> 'd \<Rightarrow>
     ((unit + unit) \<times> memory \<times> VirtioBlk \<times> 'd) option" where
  "operation_sync dev fr buffer_address block_address len is_write = (\<lambda>(m, b, d).
     if block_address AND (push_bit 9 1 - 1) \<noteq> 0 \<or> len AND (push_bit 9 1 - 1) \<noteq> 0 then Some (Inl (), m, b, d)
     else case make_chain fr buffer_address block_address len is_write b m of
       (Inl e, b1, m1) \<Rightarrow> Some (Inl e, m1, b1, d)
     | (Inr (i, j, k), b1, m1) \<Rightarrow> do {
         m2 \<leftarrow> push_avail b1 i m1;
         let (m3, d1) = write_register dev VIRTIO_MMIO_QUEUE_NOTIFY 0 (m2, d);
         let s = m3 (status_place fr);
         (if s = 0xff then None
          else do {
            b2 \<leftarrow> free_descriptor i b1;
            b3 \<leftarrow> free_descriptor j b2;
            b4 \<leftarrow> free_descriptor k b3;
            Some (if s = VIRTIO_BLK_S_OK then Inr () else Inl (), m3, b4, d1) }) })"

definition VirtioBlk_read ::
  "'d VirtioDevice \<Rightarrow> Frame \<Rightarrow> usize \<Rightarrow> u64 \<Rightarrow> u64 \<Rightarrow> memory \<times> VirtioBlk \<times> 'd \<Rightarrow> ((unit + unit) \<times> memory \<times> VirtioBlk \<times> 'd) option" where
  "VirtioBlk_read dev fr buffer_address block_address len = operation_sync dev fr buffer_address block_address len False"

definition VirtioBlk_write ::
  "'d VirtioDevice \<Rightarrow> Frame \<Rightarrow> usize \<Rightarrow> u64 \<Rightarrow> u64 \<Rightarrow> memory \<times> VirtioBlk \<times> 'd \<Rightarrow> ((unit + unit) \<times> memory \<times> VirtioBlk \<times> 'd) option" where
  "VirtioBlk_write dev fr buffer_address block_address len = operation_sync dev fr buffer_address block_address len True"

end
