(* ===== verification/Fat32.thy ===== *)
theory Fat32
  imports VirtioBlk Text
begin

text \<open>
  The FAT32 volume, \<open>src/src/fat32.rs\<close>: reading the parameters, the allocation table and the root
  directory; looking up a file; reading and writing a range of a file. The two operations of the
  block device are arguments, with the device in the second part of the state; bytes go to
  and from memory.
\<close>

section \<open>Constants and structures\<close>

definition FAT32_SIGNATURE :: "u8 list" where "FAT32_SIGNATURE = [0x46, 0x41, 0x54, 0x33, 0x32, 0x20, 0x20, 0x20]"
definition BYTES_PER_SECTOR_OFFSET :: usize where "BYTES_PER_SECTOR_OFFSET = 11"
definition SECTORS_PER_CLUSTER_OFFSET :: usize where "SECTORS_PER_CLUSTER_OFFSET = 13"
definition NUM_OF_RESERVED_CLUSTER_OFFSET :: usize where "NUM_OF_RESERVED_CLUSTER_OFFSET = 14"
definition NUM_OF_FATS_OFFSET :: usize where "NUM_OF_FATS_OFFSET = 16"
definition FAT_SIZE_OFFSET :: usize where "FAT_SIZE_OFFSET = 36"
definition ROOT_CLUSTER_OFFSET :: usize where "ROOT_CLUSTER_OFFSET = 44"
definition FAT32_SIGNATURE_OFFSET :: usize where "FAT32_SIGNATURE_OFFSET = 82"
definition FAT32_ATTRIBUTE_DIRECTORY :: u8 where "FAT32_ATTRIBUTE_DIRECTORY = 0x10"
definition FAT32_ATTRIBUTE_LONG_FILE_NAME :: u8 where "FAT32_ATTRIBUTE_LONG_FILE_NAME = 0x0F"

record Fat32 =
  base_lba :: usize
  lba_size :: usize
  bytes_per_sector :: u16
  sectors_per_cluster :: u8
  reserved_sectors :: u16
  fat_sectors :: u32
  number_of_fats :: u16
  fat :: usize
  root_directory_list :: usize

record DirectoryEntry =
  entry_name :: "u8 list"
  name_extension :: "u8 list"
  attribute :: u8
  starting_cluster_number_high :: u16
  starting_cluster_number :: u16
  file_length :: u32

definition read_entry :: "memory \<Rightarrow> usize \<Rightarrow> DirectoryEntry" where
  "read_entry m a = \<lparr>entry_name = bytes_from m a 8, name_extension = bytes_from m (a + 8) 3, attribute = m (a + 11),
     starting_cluster_number_high = read_u16 m (a + 20), starting_cluster_number = read_u16 m (a + 26), file_length = read_u32 m (a + 28)\<rparr>"

text \<open>An operation of the block device on a buffer, a block address and a length.\<close>

type_synonym 's block_op = "usize \<Rightarrow> u64 \<Rightarrow> u64 \<Rightarrow> memory \<times> 's \<Rightarrow> ((unit + unit) \<times> memory \<times> 's) option"

section \<open>Clusters and sectors\<close>

definition u32_sub :: "u32 \<Rightarrow> u32 \<Rightarrow> u32 option" where
  "u32_sub a b = (if unat b \<le> unat a then Some (a - b) else None)"

definition u32_mul :: "u32 \<Rightarrow> u32 \<Rightarrow> u32 option" where
  "u32_mul a b = (if unat a * unat b < 2 ^ 32 then Some (a * b) else None)"

definition cluster_to_sector :: "Fat32 \<Rightarrow> u32 \<Rightarrow> u32 option" where
  "cluster_to_sector fs cluster = do {
     fats \<leftarrow> u32_mul (ucast (number_of_fats fs)) (fat_sectors fs);
     data \<leftarrow> u32_add (ucast (reserved_sectors fs)) fats;
     c \<leftarrow> u32_sub cluster 2;
     skipped \<leftarrow> u32_mul c (ucast (sectors_per_cluster fs));
     u32_add data skipped }"

definition get_next_cluster :: "Fat32 \<Rightarrow> memory \<Rightarrow> u32 \<Rightarrow> u32 option" where
  "get_next_cluster fs m cluster =
     (if unat cluster < unat (fat_sectors fs) * unat (bytes_per_sector fs) div 4
      then let n = read_u32 m (fat fs + 4 * unat cluster) in if 2 \<le> n \<and> n < 0x0FFFFFF8 then Some n else None
      else None)"

definition sector_address :: "Fat32 \<Rightarrow> u32 \<Rightarrow> usize option" where
  "sector_address fs base_sector = do {
     b \<leftarrow> usize_mul (base_lba fs) (lba_size fs);
     usize_add b (unat base_sector * unat (bytes_per_sector fs)) }"

definition read_sectors :: "'s block_op \<Rightarrow> Fat32 \<Rightarrow> usize \<Rightarrow> u32 \<Rightarrow> u32 \<Rightarrow> memory \<times> 's \<Rightarrow> ((unit + unit) \<times> memory \<times> 's) option" where
  "read_sectors rd fs buffer base_sector sectors s = do {
     a \<leftarrow> sector_address fs base_sector;
     rd buffer (word_of_nat a) (ucast sectors * ucast (bytes_per_sector fs)) s }"

definition write_sectors :: "'s block_op \<Rightarrow> Fat32 \<Rightarrow> usize \<Rightarrow> u32 \<Rightarrow> u32 \<Rightarrow> memory \<times> 's \<Rightarrow> ((unit + unit) \<times> memory \<times> 's) option" where
  "write_sectors wr fs buffer base_sector sectors s = do {
     a \<leftarrow> sector_address fs base_sector;
     wr buffer (word_of_nat a) (ucast sectors * ucast (bytes_per_sector fs)) s }"

section \<open>Opening a volume\<close>

text \<open>\<open>ilog2\<close> of a positive number.\<close>

fun ilog2 :: "nat \<Rightarrow> nat" where
  "ilog2 n = (if n < 2 then 0 else Suc (ilog2 (n div 2)))"

declare ilog2.simps [simp del]

text \<open>The volume that the parameter block at \<open>bpb\<close> describes; the two addresses are filled in later.\<close>

definition read_bpb :: "memory \<Rightarrow> usize \<Rightarrow> usize \<Rightarrow> usize \<Rightarrow> Fat32 \<times> u32" where
  "read_bpb m bpb base lba =
     (\<lparr>base_lba = base, lba_size = lba, bytes_per_sector = read_u16 m (bpb + BYTES_PER_SECTOR_OFFSET),
       sectors_per_cluster = m (bpb + SECTORS_PER_CLUSTER_OFFSET),
       reserved_sectors = read_u16 m (bpb + NUM_OF_RESERVED_CLUSTER_OFFSET),
       fat_sectors = read_u32 m (bpb + FAT_SIZE_OFFSET), number_of_fats = read_u16 m (bpb + NUM_OF_FATS_OFFSET),
       fat = 0, root_directory_list = 0\<rparr>,
      read_u32 m (bpb + ROOT_CLUSTER_OFFSET))"

text \<open>\<open>((x - 1) & !(lba_size - 1)) + lba_size\<close>.\<close>

definition lba_align :: "usize \<Rightarrow> usize \<Rightarrow> usize option" where
  "lba_align lba x = do {
     y \<leftarrow> usize_sub x 1;
     k \<leftarrow> usize_sub lba 1;
     usize_add (y AND usize_not k) lba }"

definition Fat32_new ::
  "'s block_op \<Rightarrow> usize \<Rightarrow> usize \<Rightarrow> usize \<Rightarrow> memory \<times> MemoryAllocator \<times> 's \<Rightarrow>
     ((unit + Fat32) \<times> memory \<times> MemoryAllocator \<times> 's) option" where
  "Fat32_new rd bpb_address base lba = (\<lambda>(m, al, s). do {
     b \<leftarrow> usize_mul base lba;
     (r, m1, s1) \<leftarrow> rd bpb_address (word_of_nat b) 512 (write_zeros bpb_address 512 m, s);
     (case r of Inl _ \<Rightarrow> Some (Inl (), m1, al, s1)
      | Inr _ \<Rightarrow>
         (if bytes_from m1 (bpb_address + FAT32_SIGNATURE_OFFSET) 8 \<noteq> FAT32_SIGNATURE then Some (Inl (), m1, al, s1)
          else do {
            let (fs, root_cluster) = read_bpb m1 bpb_address base lba;
            lba_aligned_fat_size \<leftarrow> lba_align lba (unat (fat_sectors fs) * unat (bytes_per_sector fs));
            let fat_pages = drop_bit PAGE_SHIFT lba_aligned_fat_size + 1;
            (ra, al1) \<leftarrow> allocate_pages al fat_pages (ilog2 lba);
            fat_at \<leftarrow> result_ok ra;
            fat_address \<leftarrow> usize_add b (unat (reserved_sectors fs) * unat (bytes_per_sector fs));
            (r2, m2, s2) \<leftarrow> rd fat_at (word_of_nat fat_address) (word_of_nat lba_aligned_fat_size) (m1, s1);
            (case r2 of Inl _ \<Rightarrow> do { al2 \<leftarrow> free_pages al1 fat_at fat_pages; Some (Inl (), m2, al2, s2) }
             | Inr _ \<Rightarrow> do {
                 let root_directory_pages = drop_bit PAGE_SHIFT (unat (sectors_per_cluster fs) * unat (bytes_per_sector fs)) + 1;
                 (rb, al2) \<leftarrow> allocate_pages al1 root_directory_pages (ilog2 lba);
                 root_at \<leftarrow> result_ok rb;
                 let fat32 = fs\<lparr>fat := fat_at, root_directory_list := root_at\<rparr>;
                 root_sector \<leftarrow> cluster_to_sector fat32 root_cluster;
                 (r3, m3, s3) \<leftarrow> read_sectors rd fat32 root_at root_sector (ucast (sectors_per_cluster fs)) (m2, s2);
                 (case r3 of Inl _ \<Rightarrow> do {
                      al3 \<leftarrow> free_pages al2 root_at root_directory_pages;
                      al4 \<leftarrow> free_pages al3 fat_at fat_pages;
                      Some (Inl (), m3, al4, s3) }
                  | Inr _ \<Rightarrow> Some (Inr fat32, m3, al2, s3)) }) })) })"

section \<open>The root directory\<close>

text \<open>The bytes other than blanks go to the places behind \<open>p\<close>.\<close>

fun put_name :: "u8 list \<Rightarrow> nat \<Rightarrow> u8 list \<Rightarrow> (nat \<times> u8 list) option" where
  "put_name [] p buffer = Some (p, buffer)"
| "put_name (n # ns) p buffer =
     (if n = 0x20 then put_name ns p buffer
      else do { buffer' \<leftarrow> rust_update buffer (p + 1) n; put_name ns (p + 1) buffer' })"

definition get_file_name :: "DirectoryEntry \<Rightarrow> u8 list \<Rightarrow> nat list option option" where
  "get_file_name e buffer = do {
     n0 \<leftarrow> rust_nth (entry_name e) 0;
     b0 \<leftarrow> rust_update buffer 0 (if n0 = 0x05 then 0xE5 else n0);
     (p1, b1) \<leftarrow> put_name (drop 1 (entry_name e)) 0 b0;
     b2 \<leftarrow> rust_update b1 (p1 + 1) 0x2E;
     (p3, b3) \<leftarrow> put_name (name_extension e) (p1 + 1) b2;
     x \<leftarrow> rust_nth b3 p3;
     (b4, p4) \<leftarrow> (if x = 0x2E then do { b \<leftarrow> rust_update b3 p3 0; Some (b, p3) } else Some (b3, p3 + 1));
     (if p4 \<le> length b4 then Some (from_utf8 (take p4 b4)) else None) }"

definition directory_entries :: "Fat32 \<Rightarrow> memory \<Rightarrow> DirectoryEntry list" where
  "directory_entries fs m =
     map (\<lambda>i. read_entry m (root_directory_list fs + 32 * i)) [0..<unat (bytes_per_sector fs) * unat (sectors_per_cluster fs) div 32]"

text \<open>The entries that the two loops look at: no long names, no directories, no deleted files, and none behind the end mark.\<close>

fun plain_files :: "DirectoryEntry list \<Rightarrow> DirectoryEntry list" where
  "plain_files [] = []"
| "plain_files (e # es) =
     (if attribute e AND 0x3F = FAT32_ATTRIBUTE_LONG_FILE_NAME then plain_files es
      else if attribute e AND FAT32_ATTRIBUTE_DIRECTORY \<noteq> 0 then plain_files es
      else if entry_name e ! 0 = 0 then []
      else if entry_name e ! 0 = 0xE5 then plain_files es
      else e # plain_files es)"

text \<open>The lines that \<open>list_files\<close> prints: name and size.\<close>

fun list_entries :: "DirectoryEntry list \<Rightarrow> (nat list \<times> u32) list option" where
  "list_entries [] = Some []"
| "list_entries (e # es) = do {
     n \<leftarrow> get_file_name e (replicate 12 0);
     rest \<leftarrow> list_entries es;
     Some (case n of None \<Rightarrow> rest | Some name \<Rightarrow> (name, file_length e) # rest) }"

definition list_files :: "Fat32 \<Rightarrow> memory \<Rightarrow> (nat list \<times> u32) list option" where
  "list_files fs m = list_entries (plain_files (directory_entries fs m))"

definition make_ascii_lowercase :: "nat list \<Rightarrow> nat list" where
  "make_ascii_lowercase = map (\<lambda>c. if 65 \<le> c \<and> c \<le> 90 then c + 32 else c)"

definition entry_info :: "DirectoryEntry \<Rightarrow> FileInfo" where
  "entry_info e = \<lparr>entry_cluster = push_bit 16 (ucast (starting_cluster_number_high e)) OR ucast (starting_cluster_number e),
     file_size = file_length e\<rparr>"

fun search_entries :: "nat list \<Rightarrow> DirectoryEntry list \<Rightarrow> FileInfo option option" where
  "search_entries target_name [] = Some None"
| "search_entries target_name (e # es) = do {
     n \<leftarrow> get_file_name e (replicate 12 0);
     (case n of None \<Rightarrow> search_entries target_name es
      | Some name \<Rightarrow>
          (if name = target_name \<or> make_ascii_lowercase name = target_name then Some (Some (entry_info e))
           else search_entries target_name es)) }"

definition search_file :: "Fat32 \<Rightarrow> memory \<Rightarrow> nat list \<Rightarrow> FileInfo option option" where
  "search_file fs m target_name = search_entries target_name (plain_files (directory_entries fs m))"

section \<open>Runs of clusters\<close>

definition bytes_per_cluster :: "Fat32 \<Rightarrow> usize" where
  "bytes_per_cluster fs = unat (sectors_per_cluster fs) * unat (bytes_per_sector fs)"

text \<open>The variables of the inner loop, which collects a run of adjacent clusters.\<close>

record Scan =
  scan_sectors :: u32
  scan_bytes :: usize
  sector_offset :: u32
  data_offset :: usize
  data_offset_backup :: usize
  scan_cluster :: u32

definition skip_sectors :: "Fat32 \<Rightarrow> Scan \<Rightarrow> Scan option" where
  "skip_sectors fs sc =
     (let bps = unat (bytes_per_sector fs)
      in if bps < data_offset sc
         then if bps = 0 then None
              else do {
                let so = (word_of_nat (data_offset sc div bps) :: u32);
                d \<leftarrow> usize_sub (data_offset sc) (unat so * bps);
                Some (sc\<lparr>sector_offset := so, data_offset := d, data_offset_backup := d\<rparr>) }
         else Some sc)"

text \<open>
  One round: \<open>Inl ()\<close> is the early return, the flag says whether the loop goes on. The
  loop for writing first asks for a whole sector.
\<close>

definition scan_step :: "bool \<Rightarrow> Fat32 \<Rightarrow> memory \<Rightarrow> usize \<Rightarrow> Scan \<Rightarrow> (unit + bool \<times> Scan) option" where
  "scan_step whole fs m len sc = do {
     left \<leftarrow> usize_sub len (scan_bytes sc);
     (if whole \<and> left < unat (bytes_per_sector fs) then Some (Inl ())
      else do {
        sc1 \<leftarrow> skip_sectors fs sc;
        rest \<leftarrow> usize_add left (data_offset sc1);
        (if rest \<le> bytes_per_cluster fs
         then if bytes_per_sector fs = 0 then None
              else do {
                n \<leftarrow> u32_add (scan_sectors sc1) (word_of_nat (1 + (max rest 1 - 1) div unat (bytes_per_sector fs)));
                Some (Inr (False, sc1\<lparr>scan_sectors := n, scan_bytes := scan_bytes sc1 + left\<rparr>)) }
         else do {
           n \<leftarrow> u32_add (scan_sectors sc1) (ucast (sectors_per_cluster fs));
           part \<leftarrow> usize_sub (bytes_per_cluster fs) (data_offset sc1);
           b \<leftarrow> usize_add (scan_bytes sc1) part;
           let sc2 = sc1\<lparr>scan_sectors := n, scan_bytes := b\<rparr>;
           (case get_next_cluster fs m (scan_cluster sc2) of
              None \<Rightarrow> Some (Inl ())
            | Some next \<Rightarrow> do {
                c \<leftarrow> u32_add (scan_cluster sc2) 1;
                Some (Inr (if next \<noteq> c then (False, sc2) else (True, sc2\<lparr>data_offset := 0, scan_cluster := next\<rparr>))) }) }) }) }"

text \<open>The loop ends because it goes on with the next cluster number only.\<close>

lemma scan_step_next: "scan_step w fs m len sc = Some (Inr (True, sc')) \<Longrightarrow> unat (scan_cluster sc') = unat (scan_cluster sc) + 1"
  by (auto simp: scan_step_def skip_sectors_def u32_add_def Let_def unat_word_ariths split: if_splits option.splits)

lemma scan_cluster_bound: "4294967295 - unat (c :: u32) < 4294967296 - unat c"
  using unsigned_less [where 'a = nat, of c] by simp

function scan_loop :: "bool \<Rightarrow> Fat32 \<Rightarrow> memory \<Rightarrow> usize \<Rightarrow> Scan \<Rightarrow> (unit + Scan) option" where
  "scan_loop w fs m len sc = (case scan_step w fs m len sc of
     Some (Inr (True, sc')) \<Rightarrow> scan_loop w fs m len sc'
   | Some (Inr (False, sc')) \<Rightarrow> Some (Inr sc')
   | Some (Inl e) \<Rightarrow> Some (Inl e)
   | None \<Rightarrow> None)"
  by pat_completeness auto
termination
  by (relation "measure (\<lambda>(w, fs, m, len, sc). 2 ^ 32 - unat (scan_cluster sc))")
    (auto dest!: scan_step_next simp: scan_cluster_bound)

declare scan_loop.simps [simp del]

definition scan_run :: "bool \<Rightarrow> Fat32 \<Rightarrow> memory \<Rightarrow> usize \<Rightarrow> u32 \<Rightarrow> usize \<Rightarrow> (unit + Scan) option" where
  "scan_run w fs m len cluster off = scan_loop w fs m len
     \<lparr>scan_sectors = 0, scan_bytes = 0, sector_offset = 0, data_offset = off, data_offset_backup = off, scan_cluster = cluster\<rparr>"

fun skip_clusters :: "Fat32 \<Rightarrow> memory \<Rightarrow> nat \<Rightarrow> u32 \<Rightarrow> u32 option" where
  "skip_clusters fs m 0 cluster = Some cluster"
| "skip_clusters fs m (Suc n) cluster = Option.bind (get_next_cluster fs m cluster) (skip_clusters fs m n)"

text \<open>The range that is transferred, cut at the end of the file; \<open>None\<close> inside when it is behind the end.\<close>

definition clip_length :: "FileInfo \<Rightarrow> usize \<Rightarrow> usize \<Rightarrow> usize option option" where
  "clip_length f offset len = do {
     e \<leftarrow> usize_add offset len;
     Some (if unat (file_size f) < e
           then if unat (file_size f) \<le> offset then None else Some (unat (file_size f) - offset)
           else Some len) }"

section \<open>Reading a file\<close>

definition copy_bytes :: "usize \<Rightarrow> usize \<Rightarrow> usize \<Rightarrow> memory \<Rightarrow> memory" where
  "copy_bytes src dst n m = (\<lambda>x. if dst \<le> x \<and> x < dst + n then m (src + (x - dst)) else m x)"

definition bounce_pages :: "Fat32 \<Rightarrow> u32 \<Rightarrow> usize option" where
  "bounce_pages fs sectors = do {
     k \<leftarrow> usize_sub (lba_size fs) 1;
     n \<leftarrow> usize_add ((unat sectors * unat (bytes_per_sector fs)) AND usize_not k) (lba_size fs);
     Some (drop_bit PAGE_SHIFT n + 1) }"

text \<open>
  What follows the inner loop: the run is read, through a buffer of its own when it does not start
  at a sector boundary.
\<close>

definition read_run ::
  "'s block_op \<Rightarrow> Fat32 \<Rightarrow> usize \<Rightarrow> usize \<Rightarrow> u32 \<Rightarrow> Scan \<Rightarrow> memory \<times> MemoryAllocator \<times> 's \<Rightarrow>
     ((unit + unit) \<times> memory \<times> MemoryAllocator \<times> 's) option" where
  "read_run rd fs buffer_address buffer_pointer first_cluster sc = (\<lambda>(m, al, s). do {
     let off = data_offset_backup sc;
     pages \<leftarrow> bounce_pages fs (scan_sectors sc);
     (rb, al1) \<leftarrow> (if off \<noteq> 0
        then do { (r, al') \<leftarrow> allocate_pages al pages 0; Some (case r of Inl _ \<Rightarrow> Inl () | Inr a \<Rightarrow> Inr a, al') }
        else do { a \<leftarrow> usize_add buffer_address buffer_pointer; Some (Inr a, al) });
     (case rb of Inl _ \<Rightarrow> Some (Inl (), m, al1, s)
      | Inr buffer \<Rightarrow> do {
          base \<leftarrow> cluster_to_sector fs first_cluster;
          sector \<leftarrow> u32_add base (sector_offset sc);
          (r, m1, s1) \<leftarrow> read_sectors rd fs buffer sector (scan_sectors sc) (m, s);
          (case r of
             Inl _ \<Rightarrow> do {
               al2 \<leftarrow> (if off \<noteq> 0 then free_pages al1 buffer pages else Some al1);
               Some (Inl (), m1, al2, s1) }
           | Inr _ \<Rightarrow>
               (if off \<noteq> 0
                then do {
                  _ \<leftarrow> rust_assert (buffer_pointer = 0);
                  src \<leftarrow> usize_add buffer off;
                  al2 \<leftarrow> free_pages al1 buffer pages;
                  Some (Inr (), copy_bytes src buffer_address (scan_bytes sc) m1, al2, s1) }
                else Some (Inr (), m1, al1, s1))) }) })"

text \<open>One round of the outer loop: \<open>Inl r\<close> ends it with the result \<open>r\<close>, \<open>Inr\<close> goes on with a cluster and a place in the buffer.\<close>

definition read_round ::
  "'s block_op \<Rightarrow> Fat32 \<Rightarrow> usize \<Rightarrow> usize \<Rightarrow> u32 \<Rightarrow> usize \<Rightarrow> usize \<Rightarrow> memory \<times> MemoryAllocator \<times> 's \<Rightarrow>
     (((unit + usize) + u32 \<times> usize) \<times> memory \<times> MemoryAllocator \<times> 's) option" where
  "read_round rd fs buffer_address len reading_cluster off buffer_pointer st = do {
     r \<leftarrow> scan_run False fs (fst st) len reading_cluster off;
     (case r of Inl _ \<Rightarrow> Some (Inl (Inl ()), st)
      | Inr sc \<Rightarrow> do {
          (t, st1) \<leftarrow> read_run rd fs buffer_address buffer_pointer reading_cluster sc st;
          (case t of Inl _ \<Rightarrow> Some (Inl (Inl ()), st1)
           | Inr _ \<Rightarrow> do {
               p \<leftarrow> usize_add buffer_pointer (scan_bytes sc);
               Some (if len = p then (Inl (Inr p), st1)
                     else case get_next_cluster fs (fst st1) (scan_cluster sc) of
                       None \<Rightarrow> (Inl (Inl ()), st1)
                     | Some c \<Rightarrow> (Inr (c, p), st1)) }) }) }"

partial_function (option) read_loop ::
  "'s block_op \<Rightarrow> Fat32 \<Rightarrow> usize \<Rightarrow> usize \<Rightarrow> u32 \<Rightarrow> usize \<Rightarrow> usize \<Rightarrow> memory \<times> MemoryAllocator \<times> 's \<Rightarrow>
     ((unit + usize) \<times> memory \<times> MemoryAllocator \<times> 's) option" where
  "read_loop rd fs buffer_address len reading_cluster off buffer_pointer st =
     Option.bind (read_round rd fs buffer_address len reading_cluster off buffer_pointer st) (\<lambda>r. case fst r of
       Inl res \<Rightarrow> Some (res, snd r)
     | Inr cp \<Rightarrow> read_loop rd fs buffer_address len (fst cp) 0 (snd cp) (snd r))"

definition Fat32_read ::
  "'s block_op \<Rightarrow> Fat32 \<Rightarrow> FileInfo \<Rightarrow> usize \<Rightarrow> usize \<Rightarrow> usize \<Rightarrow> memory \<times> MemoryAllocator \<times> 's \<Rightarrow>
     ((unit + usize) \<times> memory \<times> MemoryAllocator \<times> 's) option" where
  "Fat32_read rd fs file_info buffer_address offset len st = do {
     cl \<leftarrow> clip_length file_info offset len;
     (case cl of None \<Rightarrow> Some (Inr 0, st)
      | Some n \<Rightarrow>
         (if bytes_per_cluster fs = 0 then None
          else case skip_clusters fs (fst st) (offset div bytes_per_cluster fs) (entry_cluster file_info) of
            None \<Rightarrow> Some (Inl (), st)
          | Some c \<Rightarrow> read_loop rd fs buffer_address n c (offset mod bytes_per_cluster fs) 0 st)) }"

section \<open>Writing a file\<close>

text \<open>The same, without a buffer for parts of a sector; after the first round the offset is zero in any case.\<close>

definition write_round ::
  "'s block_op \<Rightarrow> Fat32 \<Rightarrow> usize \<Rightarrow> usize \<Rightarrow> u32 \<Rightarrow> usize \<Rightarrow> usize \<Rightarrow> memory \<times> 's \<Rightarrow>
     (((unit + usize) + u32 \<times> usize) \<times> memory \<times> 's) option" where
  "write_round wr fs buffer_address len writing_cluster off buffer_pointer st = do {
     r \<leftarrow> scan_run True fs (fst st) len writing_cluster off;
     (case r of Inl _ \<Rightarrow> Some (Inl (Inl ()), st)
      | Inr sc \<Rightarrow>
         (if data_offset_backup sc \<noteq> 0 then Some (Inl (Inl ()), st)
          else do {
            base \<leftarrow> cluster_to_sector fs writing_cluster;
            sector \<leftarrow> u32_add base (sector_offset sc);
            buffer \<leftarrow> usize_add buffer_address buffer_pointer;
            (t, st1) \<leftarrow> write_sectors wr fs buffer sector (scan_sectors sc) st;
            (case t of Inl _ \<Rightarrow> Some (Inl (Inl ()), st1)
             | Inr _ \<Rightarrow> do {
                 p \<leftarrow> usize_add buffer_pointer (scan_bytes sc);
                 Some (if len = p then (Inl (Inr p), st1)
                       else case get_next_cluster fs (fst st1) (scan_cluster sc) of
                         None \<Rightarrow> (Inl (Inl ()), st1)
                       | Some c \<Rightarrow> (Inr (c, p), st1)) }) })) }"

partial_function (option) write_loop ::
  "'s block_op \<Rightarrow> Fat32 \<Rightarrow> usize \<Rightarrow> usize \<Rightarrow> u32 \<Rightarrow> usize \<Rightarrow> usize \<Rightarrow> memory \<times> 's \<Rightarrow> ((unit + usize) \<times> memory \<times> 's) option" where
  "write_loop wr fs buffer_address len writing_cluster off buffer_pointer st =
     Option.bind (write_round wr fs buffer_address len writing_cluster off buffer_pointer st) (\<lambda>r. case fst r of
       Inl res \<Rightarrow> Some (res, snd r)
     | Inr cp \<Rightarrow> write_loop wr fs buffer_address len (fst cp) 0 (snd cp) (snd r))"

definition Fat32_write ::
  "'s block_op \<Rightarrow> Fat32 \<Rightarrow> FileInfo \<Rightarrow> usize \<Rightarrow> usize \<Rightarrow> usize \<Rightarrow> memory \<times> 's \<Rightarrow> ((unit + usize) \<times> memory \<times> 's) option" where
  "Fat32_write wr fs file_info buffer_address offset len st = do {
     cl \<leftarrow> clip_length file_info offset len;
     (case cl of None \<Rightarrow> Some (Inr 0, st)
      | Some n \<Rightarrow>
         (if bytes_per_cluster fs = 0 then None
          else case skip_clusters fs (fst st) (offset div bytes_per_cluster fs) (entry_cluster file_info) of
            None \<Rightarrow> Some (Inl (), st)
          | Some c \<Rightarrow> write_loop wr fs buffer_address n c (offset mod bytes_per_cluster fs) 0 st)) }"

text \<open>What the emulated block device calls: its file is read from or written to the volume.\<close>

definition fat32_transfer :: "'s block_op \<Rightarrow> 's block_op \<Rightarrow> Fat32 \<Rightarrow> (MemoryAllocator \<times> 's) transfer" where
  "fat32_transfer rd wr fs is_write file_info buffer_address offset len = (\<lambda>(m, al, s).
     if is_write
     then do { (r, m1, s1) \<leftarrow> Fat32_write wr fs file_info buffer_address offset len (m, s); Some (r, m1, al, s1) }
     else Fat32_read rd fs file_info buffer_address offset len (m, al, s))"

end
