(* ===== verification/VirtioBlkProps.thy ===== *)
theory VirtioBlkProps
  imports VirtioBlk VirtioProps
begin

text \<open>
  Correctness of the driver of the block device: with a device that serves its queue as the virtio
  standard says, a read puts the bytes of the disk into the buffer and a write puts the bytes of
  the buffer onto the disk, and all descriptors are free again. What the users of the driver rely
  on is the locale \<open>block_device\<close>.
\<close>

section \<open>The interface\<close>

text \<open>
  \<open>ready n s\<close>: at least \<open>n\<close> more requests can be made in the state \<open>s\<close>, whose first part is the
  memory. The places in \<open>scratch s\<close> belong to the driver. \<open>content s\<close> is what is on the disk.
\<close>

locale block_device =
  fixes rd wr :: "usize \<Rightarrow> u64 \<Rightarrow> u64 \<Rightarrow> memory \<times> 's \<Rightarrow> ((unit + unit) \<times> memory \<times> 's) option"
    and ready :: "nat \<Rightarrow> memory \<times> 's \<Rightarrow> bool"
    and scratch :: "'s \<Rightarrow> usize set"
    and content :: "'s \<Rightarrow> nat \<Rightarrow> u8"
  assumes rd_ok: "ready (Suc n) (m, s) \<Longrightarrow> 512 dvd unat a \<Longrightarrow> 512 dvd unat l \<Longrightarrow> unat l < 2 ^ 32 \<Longrightarrow> p + unat l < 2 ^ 64 \<Longrightarrow>
      {p..<p + unat l} \<inter> scratch s = {} \<Longrightarrow>
      \<exists>m' s'. rd p a l (m, s) = Some (Inr (), m', s') \<and> ready n (m', s') \<and> scratch s' = scratch s \<and> content s' = content s \<and>
        (\<forall>x. x \<notin> scratch s \<longrightarrow> m' x = (if x \<in> {p..<p + unat l} then content s (unat a + (x - p)) else m x))"
    and wr_ok: "ready (Suc n) (m, s) \<Longrightarrow> 512 dvd unat a \<Longrightarrow> 512 dvd unat l \<Longrightarrow> unat l < 2 ^ 32 \<Longrightarrow> p + unat l < 2 ^ 64 \<Longrightarrow>
      {p..<p + unat l} \<inter> scratch s = {} \<Longrightarrow>
      \<exists>m' s'. wr p a l (m, s) = Some (Inr (), m', s') \<and> ready n (m', s') \<and> scratch s' = scratch s \<and>
        content s' = (\<lambda>x. if x \<in> {unat a..<unat a + unat l} then m (p + (x - unat a)) else content s x) \<and>
        (\<forall>x. x \<notin> scratch s \<longrightarrow> m' x = m x)"
    and ready_frame: "ready n (m, s) \<Longrightarrow> same_on (scratch s) m m' \<Longrightarrow> ready n (m', s)"
    and unaligned: "\<not> 512 dvd unat a \<or> \<not> 512 dvd unat l \<Longrightarrow> rd p a l (m, s) = Some (Inl (), m, s) \<and> wr p a l (m, s) = Some (Inl (), m, s)"

section \<open>Descriptors in memory\<close>

lemma same_onI: "same_on (- F) m m' \<Longrightarrow> X \<inter> F = {} \<Longrightarrow> same_on X m m'"
  by (auto simp: same_on_def)

lemma read_desc_same: "same_on {a..<a + 16} m m' \<Longrightarrow> read_desc m' a = read_desc m a"
  by (simp add: read_desc_def) (intro conjI read_same, auto elim!: same_on_mono)

lemma fill_same: "same_on (- {desc_at b i..<desc_at b i + 16}) m (fill_descriptor b i a n fl m)"
  by (auto simp: fill_descriptor_def same_on_def write_u16_def write_u32_def write_u64_def)

lemma link_same: "same_on (- {desc_at b i..<desc_at b i + 16}) m (link_descriptor b i j m)"
  by (auto simp: link_descriptor_def same_on_def write_u16_def)

lemma request_same: "same_on (- {a..<a + 16}) m (write_request a w sec m)"
  by (auto simp: write_request_def same_on_def write_u16_def write_u32_def write_u64_def)

lemma read_desc_link: "read_desc (link_descriptor b i j m) (desc_at b i) = read_desc m (desc_at b i)\<lparr>desc_next := word_of_nat j\<rparr>"
proof -
  have "same_on {desc_at b i..<desc_at b i + 14} m (link_descriptor b i j m)"
    unfolding link_descriptor_def by (rule same_onI [OF write_same(1)]) auto
  then have "read_u64 (link_descriptor b i j m) (desc_at b i) = read_u64 m (desc_at b i)"
      "read_u32 (link_descriptor b i j m) (desc_at b i + 8) = read_u32 m (desc_at b i + 8)"
      "read_u16 (link_descriptor b i j m) (desc_at b i + 12) = read_u16 m (desc_at b i + 12)"
    by (auto intro!: read_same elim!: same_on_mono)
  then show ?thesis by (simp add: read_desc_def link_descriptor_def read_write_u16)
qed

lemma read_desc_fill:
  "read_desc (fill_descriptor b i a n fl m) (desc_at b i)\<lparr>desc_next := x\<rparr> =
     \<lparr>desc_address = word_of_nat a, desc_length = n, desc_flags = fl, desc_next = x\<rparr>"
proof -
  let ?a = "desc_at b i"
  let ?m1 = "write_u64 ?a (word_of_nat a) m"
  let ?m2 = "write_u32 (?a + 8) n ?m1"
  have "same_on {?a..<?a + 8} ?m1 ?m2" "same_on {?a..<?a + 12} ?m2 (write_u16 (?a + 12) fl ?m2)"
    by (rule same_onI [OF write_same(2)], auto) (rule same_onI [OF write_same(1)], auto)
  then have "read_u64 (write_u16 (?a + 12) fl ?m2) ?a = read_u64 ?m2 ?a" "read_u64 ?m2 ?a = read_u64 ?m1 ?a"
      "read_u32 (write_u16 (?a + 12) fl ?m2) (?a + 8) = read_u32 ?m2 (?a + 8)"
    by (auto intro!: read_same elim!: same_on_mono)
  then show ?thesis by (simp add: read_desc_def fill_descriptor_def read_write_u16 read_write_u32 read_write_u64)
qed

lemma read_request:
  "read_u32 (write_request a w sec m) a = (if w then VIRTIO_BLK_TYPE_OUT else VIRTIO_BLK_TYPE_IN)"
  "read_u64 (write_request a w sec m) (a + 8) = sec"
proof -
  let ?t = "if w then VIRTIO_BLK_TYPE_OUT else VIRTIO_BLK_TYPE_IN"
  have "same_on {a..<a + 4} (write_u32 a ?t m) (write_u32 (a + 4) 0 (write_u32 a ?t m))"
    by (rule same_onI [OF write_same(2)]) auto
  moreover have "same_on {a..<a + 4} (write_u32 (a + 4) 0 (write_u32 a ?t m)) (write_request a w sec m)"
    unfolding write_request_def by (rule same_onI [OF write_same(3)]) auto
  ultimately have "read_u32 (write_request a w sec m) a = read_u32 (write_u32 a ?t m) a"
    by (metis read_same(2) same_on_trans)
  then show "read_u32 (write_request a w sec m) a = ?t" by (simp add: read_write_u32)
  show "read_u64 (write_request a w sec m) (a + 8) = sec" by (simp add: write_request_def read_write_u64)
qed

section \<open>A disk\<close>

text \<open>
  A device that serves the request at the head of its queue when it is notified: the first descriptor
  of the chain leads to the request, the second to the buffer, the third to the status byte.
\<close>

record Disk =
  sectors :: "nat \<Rightarrow> u8"
  table_at :: usize
  ring_at :: usize

definition fill_buffer :: "usize \<Rightarrow> nat \<Rightarrow> (nat \<Rightarrow> u8) \<Rightarrow> memory \<Rightarrow> memory" where
  "fill_buffer p n f m = (\<lambda>x. if x \<in> {p..<p + n} then f (x - p) else m x)"

definition serve :: "memory \<times> 'a Disk_scheme \<Rightarrow> memory \<times> 'a Disk_scheme" where
  "serve = (\<lambda>(m, d).
     let idx = read_u16 m (ring_at d + 2);
         h = read_u16 m (ring_at d + 4 + 2 * (unat (idx - 1) mod 64));
         d0 = read_desc m (table_at d + 16 * unat h);
         d1 = read_desc m (table_at d + 16 * unat (desc_next d0));
         d2 = read_desc m (table_at d + 16 * unat (desc_next d1));
         a = unat (read_u64 m (unat (desc_address d0) + 8)) * 512;
         p = unat (desc_address d1);
         n = unat (desc_length d1);
         st = unat (desc_address d2)
     in if read_u32 m (unat (desc_address d0)) = VIRTIO_BLK_TYPE_OUT
        then (m(st := 0), d\<lparr>sectors := (\<lambda>x. if x \<in> {a..<a + n} then m (p + (x - a)) else sectors d x)\<rparr>)
        else ((fill_buffer p n (\<lambda>i. sectors d (a + i)) m)(st := 0), d))"

text \<open>The devices that do so, whatever else they keep, and one of them.\<close>

locale serving_device =
  fixes dev :: "'a Disk_scheme VirtioDevice"
  assumes notified: "write_register dev VIRTIO_MMIO_QUEUE_NOTIFY 0 s = serve s"

definition ideal :: "Disk VirtioDevice" where
  "ideal = \<lparr>read_register = (\<lambda>r d. 0), write_register = (\<lambda>r v s. if r = VIRTIO_MMIO_QUEUE_NOTIFY then serve s else s)\<rparr>"

interpretation ideal_device: serving_device ideal
  by unfold_locales (simp add: ideal_def)

section \<open>A request\<close>

definition driver_memory :: "Frame \<Rightarrow> VirtioBlk \<Rightarrow> usize set" where
  "driver_memory fr b = {descriptors b..<descriptors b + 48} \<union> {avail b..<avail b + 134} \<union>
     {virtio_blk_req fr..<virtio_blk_req fr + 16} \<union> {status_place fr}"

definition driver_layout :: "Frame \<Rightarrow> VirtioBlk \<Rightarrow> bool" where
  "driver_layout fr b \<longleftrightarrow> {descriptors b..<descriptors b + 48} \<inter> {avail b..<avail b + 134} = {} \<and>
     {descriptors b..<descriptors b + 48} \<inter> {virtio_blk_req fr..<virtio_blk_req fr + 16} = {} \<and>
     {avail b..<avail b + 134} \<inter> {virtio_blk_req fr..<virtio_blk_req fr + 16} = {} \<and>
     status_place fr \<notin> {descriptors b..<descriptors b + 48} \<union> {avail b..<avail b + 134} \<union> {virtio_blk_req fr..<virtio_blk_req fr + 16} \<and>
     virtio_blk_req fr + 16 < 2 ^ 64 \<and> status_place fr < 2 ^ 64"

definition driver_ready :: "Frame \<Rightarrow> nat \<Rightarrow> memory \<times> VirtioBlk \<times> 'a Disk_scheme \<Rightarrow> bool" where
  "driver_ready fr n = (\<lambda>(m, b, d). free_bitmap b = replicate 8 0xff \<and> table_at d = descriptors b \<and> ring_at d = avail b \<and>
     driver_layout fr b \<and> unat (read_u16 m (avail b + 2)) + n < 2 ^ 16)"

text \<open>With all descriptors free a request takes the first three of them and gives them back.\<close>

lemma first_descriptors: "[0..<64] = [0, 1, 2] @ [3..<64 :: nat]"
proof -
  have "[0..<64] = [0..<3] @ [3..<64 :: nat]" using upt_add_eq_append [of 0 3 61] by simp
  then show ?thesis by (simp add: upt_rec numeral_3_eq_3)
qed

lemma chain_descriptors:
  assumes "free_bitmap b = replicate 8 0xff"
  shows "allocate_descriptor b = Some (0, b\<lparr>free_bitmap := 0xfe # replicate 7 0xff\<rparr>)"
    and "allocate_descriptor (b\<lparr>free_bitmap := 0xfe # replicate 7 0xff\<rparr>) = Some (1, b\<lparr>free_bitmap := 0xfc # replicate 7 0xff\<rparr>)"
    and "allocate_descriptor (b\<lparr>free_bitmap := 0xfc # replicate 7 0xff\<rparr>) = Some (2, b\<lparr>free_bitmap := 0xf8 # replicate 7 0xff\<rparr>)"
proof -
  have r: "free_bitmap b = 0xff # replicate 7 0xff" using assms replicate_Suc [of 7 "0xff :: u8"] by simp
  have len: "8 * length (x # replicate 7 (0xff :: u8)) = 64" for x by simp
  show "allocate_descriptor b = Some (0, b\<lparr>free_bitmap := 0xfe # replicate 7 0xff\<rparr>)"
    unfolding allocate_descriptor_def r len first_descriptors by (simp add: is_free_def)
  show "allocate_descriptor (b\<lparr>free_bitmap := 0xfe # replicate 7 0xff\<rparr>) = Some (1, b\<lparr>free_bitmap := 0xfc # replicate 7 0xff\<rparr>)"
    by (simp add: allocate_descriptor_def first_descriptors is_free_def)
  show "allocate_descriptor (b\<lparr>free_bitmap := 0xfc # replicate 7 0xff\<rparr>) = Some (2, b\<lparr>free_bitmap := 0xf8 # replicate 7 0xff\<rparr>)"
    by (simp add: allocate_descriptor_def first_descriptors is_free_def)
qed

lemma freed_descriptors:
  assumes "free_bitmap b = replicate 8 0xff"
  shows "do { b2 \<leftarrow> free_descriptor 0 (b\<lparr>free_bitmap := 0xf8 # replicate 7 0xff\<rparr>); b3 \<leftarrow> free_descriptor 1 b2; free_descriptor 2 b3 } = Some b"
proof -
  have r: "free_bitmap b = 0xff # replicate 7 0xff" using assms replicate_Suc [of 7 "0xff :: u8"] by simp
  have "b\<lparr>free_bitmap := 0xff # replicate 7 0xff\<rparr> = b" using r by simp
  then show ?thesis by (simp add: free_descriptor_def NUMBER_OF_DESCRIPTORS_def rust_nth_def del: rust_nth_Some)
qed

definition chain_memory :: "Frame \<Rightarrow> VirtioBlk \<Rightarrow> usize \<Rightarrow> u64 \<Rightarrow> u64 \<Rightarrow> bool \<Rightarrow> memory \<Rightarrow> memory" where
  "chain_memory fr b p a l w m =
     link_descriptor b 1 2 (fill_descriptor b 2 (status_place fr) 1 VIRT_QUEUE_DESC_FLAGS_WRITE
       ((link_descriptor b 0 1 (fill_descriptor b 1 p (ucast l)
           (if w then VIRT_QUEUE_DESC_FLAGS_NEXT else VIRT_QUEUE_DESC_FLAGS_NEXT OR VIRT_QUEUE_DESC_FLAGS_WRITE)
           (fill_descriptor b 0 (virtio_blk_req fr) 16 VIRT_QUEUE_DESC_FLAGS_NEXT
             (write_request (virtio_blk_req fr) w (drop_bit 9 a) m))))(status_place fr := 0xff)))"

lemma make_chain_eq:
  assumes "free_bitmap b = replicate 8 0xff"
  shows "make_chain fr p a l w b m = (Inr (0, 1, 2), b\<lparr>free_bitmap := 0xf8 # replicate 7 0xff\<rparr>, chain_memory fr b p a l w m)"
  by (simp add: make_chain_def chain_descriptors [OF assms] chain_memory_def Let_def)

lemma desc_at_region: "i < 3 \<Longrightarrow> {desc_at b i..<desc_at b i + 16} \<subseteq> {descriptors b..<descriptors b + 48}"
  by (auto simp: desc_at_def SIZE_DESC_def)

lemma desc_at_apart: "i \<noteq> j \<Longrightarrow> {desc_at b i..<desc_at b i + 16} \<inter> {desc_at b j..<desc_at b j + 16} = {}"
proof -
  assume "i \<noteq> j"
  then have "i + 1 \<le> j \<or> j + 1 \<le> i" by arith
  then have "16 * (i + 1) \<le> 16 * j \<or> 16 * (j + 1) \<le> 16 * i" using mult_le_mono2 by blast
  then show ?thesis by (auto simp: desc_at_def SIZE_DESC_def)
qed

text \<open>Writing the chain changes only the first three descriptors, the request and the status byte.\<close>

lemma chain_same:
  "same_on (- ({descriptors b..<descriptors b + 48} \<union> {virtio_blk_req fr..<virtio_blk_req fr + 16} \<union> {status_place fr})) m
     (chain_memory fr b p a l w m)"
proof -
  let ?X = "- ({descriptors b..<descriptors b + 48} \<union> {virtio_blk_req fr..<virtio_blk_req fr + 16} \<union> {status_place fr})"
  have sub: "?X \<subseteq> - {desc_at b i..<desc_at b i + 16}" if "i < 3" for i using desc_at_region [OF that, of b] by blast
  have f: "same_on ?X m0 (fill_descriptor b i v n fl m)" "same_on ?X m0 (link_descriptor b i j m)" if "same_on ?X m0 m" "i < 3" for i j v n fl m0 m
    by (rule same_on_trans [OF that(1) same_on_mono [OF fill_same sub [OF that(2)]]],
        rule same_on_trans [OF that(1) same_on_mono [OF link_same sub [OF that(2)]]])
  have r: "same_on ?X m (write_request (virtio_blk_req fr) w sec m)" for m sec by (rule same_on_mono [OF request_same]) blast
  have st: "same_on ?X m0 (m(status_place fr := y))" if "same_on ?X m0 m" for m0 m y
    by (rule same_on_trans [OF that same_on_mono [OF write_same(4)]]) blast
  show ?thesis unfolding chain_memory_def by (intro f st r) simp_all
qed

lemma chain_descs:
  assumes "driver_layout fr b"
  shows "read_desc (chain_memory fr b p a l w m) (desc_at b 0) =
      \<lparr>desc_address = word_of_nat (virtio_blk_req fr), desc_length = 16, desc_flags = VIRT_QUEUE_DESC_FLAGS_NEXT, desc_next = 1\<rparr>"
    and "read_desc (chain_memory fr b p a l w m) (desc_at b 1) =
      \<lparr>desc_address = word_of_nat p, desc_length = ucast l, desc_flags =
        (if w then VIRT_QUEUE_DESC_FLAGS_NEXT else VIRT_QUEUE_DESC_FLAGS_NEXT OR VIRT_QUEUE_DESC_FLAGS_WRITE), desc_next = 2\<rparr>"
    and "\<exists>x. read_desc (chain_memory fr b p a l w m) (desc_at b 2) =
      \<lparr>desc_address = word_of_nat (status_place fr), desc_length = 1, desc_flags = VIRT_QUEUE_DESC_FLAGS_WRITE, desc_next = x\<rparr>"
proof -
  have fill: "read_desc (fill_descriptor b j v n fl m) (desc_at b i) = read_desc m (desc_at b i)"
    and link: "read_desc (link_descriptor b j k m) (desc_at b i) = read_desc m (desc_at b i)" if "i \<noteq> j" for i j k v n fl m
    using same_onI [OF fill_same desc_at_apart [OF that]] same_onI [OF link_same desc_at_apart [OF that]]
    by (auto intro: read_desc_same)
  have status: "read_desc (m(status_place fr := y)) (desc_at b i) = read_desc m (desc_at b i)" if "i < 3" for i m y
    using assms desc_at_region [OF that, of b] by (intro read_desc_same same_onI [OF write_same(4)]) (auto simp: driver_layout_def)
  show "read_desc (chain_memory fr b p a l w m) (desc_at b 0) =
      \<lparr>desc_address = word_of_nat (virtio_blk_req fr), desc_length = 16, desc_flags = VIRT_QUEUE_DESC_FLAGS_NEXT, desc_next = 1\<rparr>"
    unfolding chain_memory_def by (simp add: fill link status read_desc_link read_desc_fill del: One_nat_def)
  show "read_desc (chain_memory fr b p a l w m) (desc_at b 1) =
      \<lparr>desc_address = word_of_nat p, desc_length = ucast l, desc_flags =
        (if w then VIRT_QUEUE_DESC_FLAGS_NEXT else VIRT_QUEUE_DESC_FLAGS_NEXT OR VIRT_QUEUE_DESC_FLAGS_WRITE), desc_next = 2\<rparr>"
    unfolding chain_memory_def by (simp add: fill link status read_desc_link read_desc_fill del: One_nat_def)
  have "read_desc (chain_memory fr b p a l w m) (desc_at b 2) =
      read_desc (fill_descriptor b 2 (status_place fr) 1 VIRT_QUEUE_DESC_FLAGS_WRITE m') (desc_at b 2)"
    if "chain_memory fr b p a l w m = link_descriptor b 1 2 (fill_descriptor b 2 (status_place fr) 1 VIRT_QUEUE_DESC_FLAGS_WRITE m')" for m'
    unfolding that by (simp add: link)
  then obtain m' where "read_desc (chain_memory fr b p a l w m) (desc_at b 2) =
      read_desc (fill_descriptor b 2 (status_place fr) 1 VIRT_QUEUE_DESC_FLAGS_WRITE m') (desc_at b 2)"
    unfolding chain_memory_def by blast
  then show "\<exists>x. read_desc (chain_memory fr b p a l w m) (desc_at b 2) =
      \<lparr>desc_address = word_of_nat (status_place fr), desc_length = 1, desc_flags = VIRT_QUEUE_DESC_FLAGS_WRITE, desc_next = x\<rparr>"
    using read_desc_fill [where b = b and i = 2 and a = "status_place fr" and n = 1 and fl = VIRT_QUEUE_DESC_FLAGS_WRITE and m = m']
    by (cases "read_desc (fill_descriptor b 2 (status_place fr) 1 VIRT_QUEUE_DESC_FLAGS_WRITE m') (desc_at b 2)") simp
qed

lemma chain_request:
  assumes "driver_layout fr b"
  shows "read_u32 (chain_memory fr b p a l w m) (virtio_blk_req fr) = (if w then VIRTIO_BLK_TYPE_OUT else VIRTIO_BLK_TYPE_IN)"
    and "read_u64 (chain_memory fr b p a l w m) (virtio_blk_req fr + 8) = drop_bit 9 a"
proof -
  let ?R = "{virtio_blk_req fr..<virtio_blk_req fr + 16}"
  have apart: "?R \<inter> {desc_at b i..<desc_at b i + 16} = {}" if "i < 3" for i
    using desc_at_region [OF that, of b] assms unfolding driver_layout_def by blast
  have f: "same_on ?R m0 (fill_descriptor b i v n fl m)" "same_on ?R m0 (link_descriptor b i j m)" if "same_on ?R m0 m" "i < 3" for i j v n fl m0 m
    by (rule same_on_trans [OF that(1) same_onI [OF fill_same apart [OF that(2)]]],
        rule same_on_trans [OF that(1) same_onI [OF link_same apart [OF that(2)]]])
  have "?R \<inter> {status_place fr} = {}" using assms by (auto simp: driver_layout_def)
  then have st: "same_on ?R m0 (m(status_place fr := y))" if "same_on ?R m0 m" for m0 m y
    by (rule same_on_trans [OF that same_onI [OF write_same(4)]])
  have "same_on ?R (write_request (virtio_blk_req fr) w (drop_bit 9 a) m) (chain_memory fr b p a l w m)"
    unfolding chain_memory_def by (intro f st) (simp_all add: same_on_def)
  then have "read_u32 (chain_memory fr b p a l w m) (virtio_blk_req fr) = read_u32 (write_request (virtio_blk_req fr) w (drop_bit 9 a) m) (virtio_blk_req fr)"
      "read_u64 (chain_memory fr b p a l w m) (virtio_blk_req fr + 8) = read_u64 (write_request (virtio_blk_req fr) w (drop_bit 9 a) m) (virtio_blk_req fr + 8)"
    by (auto intro!: read_same elim!: same_on_mono)
  then show "read_u32 (chain_memory fr b p a l w m) (virtio_blk_req fr) = (if w then VIRTIO_BLK_TYPE_OUT else VIRTIO_BLK_TYPE_IN)"
      "read_u64 (chain_memory fr b p a l w m) (virtio_blk_req fr + 8) = drop_bit 9 a"
    by (simp_all add: read_request)
qed

text \<open>The memory that the device sees: the chain and the new entry of the ring.\<close>

lemma push_avail_eq:
  assumes "unat (read_u16 m (avail b + 2)) + 1 < 2 ^ 16"
  obtains m' where "push_avail b i m = Some m'" "same_on (- {avail b..<avail b + 134}) m m'"
    "read_u16 m' (avail b + 2) = read_u16 m (avail b + 2) + 1"
    "read_u16 m' (avail b + 4 + 2 * (unat (read_u16 m' (avail b + 2) - 1) mod 64)) = word_of_nat i"
proof -
  let ?idx = "read_u16 m (avail b + 2)"
  let ?slot = "avail b + 4 + 2 * (unat ?idx mod 64)"
  let ?m1 = "write_u16 ?slot (word_of_nat i) m"
  let ?m2 = "write_u16 (avail b + 2) (?idx + 1) ?m1"
  have slot: "avail b + 4 \<le> ?slot" "?slot + 2 \<le> avail b + 134" using mod_less_divisor [of 64 "unat ?idx"] by auto
  have "same_on {?slot..<?slot + 2} ?m1 ?m2" using slot by (intro same_onI [OF write_same(1)]) auto
  then have "read_u16 ?m2 ?slot = word_of_nat i" using read_same(1) [of ?slot ?m1 ?m2] by (simp add: read_write_u16)
  moreover have "same_on (- {avail b..<avail b + 134}) m ?m2"
  proof (rule same_on_trans)
    show "same_on (- {avail b..<avail b + 134}) m ?m1" using slot by (intro same_on_mono [OF write_same(1)]) auto
    show "same_on (- {avail b..<avail b + 134}) ?m1 ?m2" by (rule same_on_mono [OF write_same(1)]) auto
  qed
  ultimately show thesis
    using assms by (intro that [of ?m2]) (simp_all add: push_avail_def Let_def NUMBER_OF_DESCRIPTORS_def read_write_u16)
qed

lemma unat_sector: "512 dvd unat (a :: u64) \<Longrightarrow> unat (drop_bit 9 a) * 512 = unat a"
proof -
  assume "512 dvd unat a"
  moreover have "unat (drop_bit 9 a) = unat a div 512"
    by (simp add: unsigned_drop_bit_eq drop_bit_eq_div del: drop_bit_eq_div [where 'a = "64 word"]) (simp add: unat_div)
  ultimately show ?thesis by simp
qed

lemma low_nine: "(a :: u64) AND 511 = 0 \<longleftrightarrow> 512 dvd unat a"
proof -
  have "(511 :: u64) = mask 9" by (simp add: mask_eq_exp_minus_1)
  then have "a AND 511 = take_bit 9 a" by (simp add: take_bit_eq_mask)
  moreover have "take_bit 9 a = 0 \<longleftrightarrow> unat (take_bit 9 a) = 0" by (rule unat_eq_0 [symmetric])
  ultimately show ?thesis by (simp add: unsigned_take_bit_eq take_bit_eq_mod dvd_eq_mod_eq_0 unat_mod)
qed

text \<open>How the device reads the chain.\<close>

lemma serve_chain:
  assumes "table_at d = descriptors b" "ring_at d = avail b"
    and "read_u16 m (avail b + 4 + 2 * (unat (read_u16 m (avail b + 2) - 1) mod 64)) = 0"
    and "read_desc m (desc_at b 0) = \<lparr>desc_address = word_of_nat rq, desc_length = n0, desc_flags = f0, desc_next = 1\<rparr>"
    and "read_desc m (desc_at b 1) = \<lparr>desc_address = word_of_nat p, desc_length = l, desc_flags = f1, desc_next = 2\<rparr>"
    and "read_desc m (desc_at b 2) = \<lparr>desc_address = word_of_nat st, desc_length = n2, desc_flags = f2, desc_next = x\<rparr>"
    and "read_u32 m rq = (if w then VIRTIO_BLK_TYPE_OUT else VIRTIO_BLK_TYPE_IN)" "read_u64 m (rq + 8) = sec"
    and "unat (word_of_nat rq :: u64) = rq" "unat (word_of_nat st :: u64) = st" "unat (word_of_nat p :: u64) = p"
    and "unat sec * 512 = a"
  shows "serve (m, d) = (if w then (m(st := 0), d\<lparr>sectors := (\<lambda>x. if x \<in> {a..<a + unat l} then m (p + (x - a)) else sectors d x)\<rparr>)
       else ((fill_buffer p (unat l) (\<lambda>i. sectors d (a + i)) m)(st := 0), d))"
proof -
  note at = assms(4-6) [unfolded desc_at_def SIZE_DESC_def, simplified]
  show ?thesis
    unfolding serve_def prod.case Let_def assms(1,2,3)
    by (simp add: at assms(7-12) VIRTIO_BLK_TYPE_OUT_def VIRTIO_BLK_TYPE_IN_def cong: if_cong)
qed

lemma ready_after:
  assumes "driver_ready fr (Suc n) (m, b, d)" and "unat (read_u16 m2 (avail b + 2)) + n < 2 ^ 16"
    and "same_on {avail b..<avail b + 134} m2 m3" and "table_at d1 = table_at d" "ring_at d1 = ring_at d"
  shows "driver_ready fr n (m3, b, d1)"
proof -
  have "read_u16 m3 (avail b + 2) = read_u16 m2 (avail b + 2)" by (rule read_same(1) [OF same_on_mono [OF assms(3)]]) auto
  then show ?thesis using assms by (simp add: driver_ready_def)
qed

lemma transfer_length: "unat (l :: u64) < 2 ^ 32 \<Longrightarrow> unat (ucast l :: u32) = unat l"
  by (simp add: unsigned_ucast_eq take_bit_nat_eq_self)

text \<open>What the device does with a request, and the state of the driver afterwards.\<close>

context serving_device
begin

lemma operation_outcome:
  assumes "driver_ready fr (Suc n) (m, b, d)" and "512 dvd unat a" and "512 dvd unat l" and "p < 2 ^ 64"
  obtains m2 where "same_on (- driver_memory fr b) m m2"
    "serve (m2, d) = (if w then (m2(status_place fr := 0),
         d\<lparr>sectors := (\<lambda>x. if x \<in> {unat a..<unat a + unat (ucast l :: u32)} then m2 (p + (x - unat a)) else sectors d x)\<rparr>)
       else ((fill_buffer p (unat (ucast l :: u32)) (\<lambda>i. sectors d (unat a + i)) m2)(status_place fr := 0), d))"
    "operation_sync dev fr p a l w (m, b, d) = (let (m3, d1) = serve (m2, d) in
       if m3 (status_place fr) = 0xff then None else Some (if m3 (status_place fr) = 0 then Inr () else Inl (), m3, b, d1))"
    "unat (read_u16 m2 (avail b + 2)) + n < 2 ^ 16"
proof -
  have r: "free_bitmap b = replicate 8 0xff" "table_at d = descriptors b" "ring_at d = avail b" "driver_layout fr b"
      "unat (read_u16 m (avail b + 2)) + Suc n < 2 ^ 16" using assms(1) by (simp_all add: driver_ready_def)
  let ?c = "chain_memory fr b p a l w m"
  let ?b = "b\<lparr>free_bitmap := 0xf8 # replicate 7 0xff\<rparr>"
  have "{avail b..<avail b + 134} \<inter> ({descriptors b..<descriptors b + 48} \<union> {virtio_blk_req fr..<virtio_blk_req fr + 16} \<union> {status_place fr}) = {}"
    using r(4) unfolding driver_layout_def by blast
  then have "same_on {avail b..<avail b + 134} m ?c" by (rule same_onI [OF chain_same])
  then have idx: "read_u16 ?c (avail b + 2) = read_u16 m (avail b + 2)" by (rule read_same(1) [OF same_on_mono]) auto
  have "unat (read_u16 ?c (avail ?b + 2)) + 1 < 2 ^ 16" using r(5) idx by simp
  then obtain m2 where "push_avail ?b 0 ?c = Some m2" "same_on (- {avail ?b..<avail ?b + 134}) ?c m2"
      "read_u16 m2 (avail ?b + 2) = read_u16 ?c (avail ?b + 2) + 1"
      "read_u16 m2 (avail ?b + 4 + 2 * (unat (read_u16 m2 (avail ?b + 2) - 1) mod 64)) = word_of_nat 0"
    by (rule push_avail_eq)
  then have m2: "push_avail ?b 0 ?c = Some m2" "same_on (- {avail b..<avail b + 134}) ?c m2"
      "read_u16 m2 (avail b + 2) = read_u16 m (avail b + 2) + 1"
      "read_u16 m2 (avail b + 4 + 2 * (unat (read_u16 m2 (avail b + 2) - 1) mod 64)) = 0"
    using idx by simp_all
  have keep: "same_on {desc_at b i..<desc_at b i + 16} ?c m2" if "i < 3" for i
    using desc_at_region [OF that, of b] r(4) by (intro same_on_mono [OF m2(2)]) (auto simp: driver_layout_def)
  have descs: "read_desc m2 (desc_at b i) = read_desc ?c (desc_at b i)" if "i < 3" for i by (rule read_desc_same [OF keep [OF that]])
  have "same_on {virtio_blk_req fr..<virtio_blk_req fr + 16} ?c m2"
    using r(4) by (intro same_on_mono [OF m2(2)]) (auto simp: driver_layout_def)
  then have "read_u32 m2 (virtio_blk_req fr) = read_u32 ?c (virtio_blk_req fr)" "read_u64 m2 (virtio_blk_req fr + 8) = read_u64 ?c (virtio_blk_req fr + 8)"
    by (auto intro!: read_same elim!: same_on_mono)
  note req = this [unfolded chain_request [OF r(4)]]
  have d01: "read_desc m2 (desc_at b 0) =
      \<lparr>desc_address = word_of_nat (virtio_blk_req fr), desc_length = 16, desc_flags = VIRT_QUEUE_DESC_FLAGS_NEXT, desc_next = 1\<rparr>"
    "read_desc m2 (desc_at b 1) = \<lparr>desc_address = word_of_nat p, desc_length = ucast l, desc_flags =
        (if w then VIRT_QUEUE_DESC_FLAGS_NEXT else VIRT_QUEUE_DESC_FLAGS_NEXT OR VIRT_QUEUE_DESC_FLAGS_WRITE), desc_next = 2\<rparr>"
    using descs [of 0] descs [of 1] by (simp_all add: chain_descs(1,2) [OF r(4)] del: One_nat_def)
  obtain x where d2: "read_desc m2 (desc_at b 2) =
      \<lparr>desc_address = word_of_nat (status_place fr), desc_length = 1, desc_flags = VIRT_QUEUE_DESC_FLAGS_WRITE, desc_next = x\<rparr>"
    using chain_descs(3) [OF r(4), of p a l w m] descs [of 2] by auto
  have u: "unat (word_of_nat (virtio_blk_req fr) :: u64) = virtio_blk_req fr" "unat (word_of_nat (status_place fr) :: u64) = status_place fr"
      "unat (word_of_nat p :: u64) = p" using r(4) assms(4) by (simp_all add: driver_layout_def unat_of_nat)
  show thesis
  proof (rule that)
    show "same_on (- driver_memory fr b) m m2"
      by (rule same_on_trans [OF same_on_mono [OF chain_same] same_on_mono [OF m2(2)]]) (auto simp: driver_memory_def)
    show "unat (read_u16 m2 (avail b + 2)) + n < 2 ^ 16" using r(5) unfolding m2(3) by (simp add: unat_word_ariths)
    show "operation_sync dev fr p a l w (m, b, d) = (let (m3, d1) = serve (m2, d) in
       if m3 (status_place fr) = 0xff then None else Some (if m3 (status_place fr) = 0 then Inr () else Inl (), m3, b, d1))"
      using freed_descriptors [OF r(1)] m2(1) assms(2,3)
      by (simp add: operation_sync_def low_nine make_chain_eq [OF r(1)] notified VIRTIO_BLK_S_OK_def Let_def case_prod_beta)
    show "serve (m2, d) = (if w then (m2(status_place fr := 0),
         d\<lparr>sectors := (\<lambda>x. if x \<in> {unat a..<unat a + unat (ucast l :: u32)} then m2 (p + (x - unat a)) else sectors d x)\<rparr>)
       else ((fill_buffer p (unat (ucast l :: u32)) (\<lambda>i. sectors d (unat a + i)) m2)(status_place fr := 0), d))"
      by (rule serve_chain [OF r(2,3) m2(4) d01 d2 req u]) (rule unat_sector [OF assms(2)])
  qed
qed

lemma driver_read:
  assumes "driver_ready fr (Suc n) (m, b, d)" and "512 dvd unat a" and "512 dvd unat l" and "unat l < 2 ^ 32" and "p + unat l < 2 ^ 64"
    and "{p..<p + unat l} \<inter> driver_memory fr b = {}"
  obtains m' where "VirtioBlk_read dev fr p a l (m, b, d) = Some (Inr (), m', b, d)" "driver_ready fr n (m', b, d)"
    "\<forall>x. x \<notin> driver_memory fr b \<longrightarrow> m' x = (if x \<in> {p..<p + unat l} then sectors d (unat a + (x - p)) else m x)"
proof -
  have "p < 2 ^ 64" using assms(5) by simp
  then obtain m2 where m2: "same_on (- driver_memory fr b) m m2"
    "serve (m2, d) = ((fill_buffer p (unat l) (\<lambda>i. sectors d (unat a + i)) m2)(status_place fr := 0), d)"
    "operation_sync dev fr p a l False (m, b, d) = (let (m3, d1) = serve (m2, d) in
       if m3 (status_place fr) = 0xff then None else Some (if m3 (status_place fr) = 0 then Inr () else Inl (), m3, b, d1))"
    "unat (read_u16 m2 (avail b + 2)) + n < 2 ^ 16"
    using operation_outcome [OF assms(1,2,3), of p False] by (auto simp: transfer_length [OF assms(4)])
  let ?m3 = "(fill_buffer p (unat l) (\<lambda>i. sectors d (unat a + i)) m2)(status_place fr := 0)"
  have lay: "driver_layout fr b" using assms(1) by (simp add: driver_ready_def)
  have "same_on {avail b..<avail b + 134} m2 ?m3"
    using assms(6) lay by (auto simp: same_on_def fill_buffer_def driver_memory_def driver_layout_def)
  then have "driver_ready fr n (?m3, b, d)" by (rule ready_after [OF assms(1) m2(4)]) simp_all
  moreover have "VirtioBlk_read dev fr p a l (m, b, d) = Some (Inr (), ?m3, b, d)"
    by (simp add: VirtioBlk_read_def m2(2,3))
  moreover have "\<forall>x. x \<notin> driver_memory fr b \<longrightarrow> ?m3 x = (if x \<in> {p..<p + unat l} then sectors d (unat a + (x - p)) else m x)"
    using m2(1) by (auto simp: same_on_def fill_buffer_def driver_memory_def)
  ultimately show thesis using that by blast
qed

lemma driver_write:
  assumes "driver_ready fr (Suc n) (m, b, d)" and "512 dvd unat a" and "512 dvd unat l" and "unat l < 2 ^ 32" and "p + unat l < 2 ^ 64"
    and "{p..<p + unat l} \<inter> driver_memory fr b = {}"
  obtains m' d' where "VirtioBlk_write dev fr p a l (m, b, d) = Some (Inr (), m', b, d')" "driver_ready fr n (m', b, d')"
    "sectors d' = (\<lambda>x. if x \<in> {unat a..<unat a + unat l} then m (p + (x - unat a)) else sectors d x)"
    "\<forall>x. x \<notin> driver_memory fr b \<longrightarrow> m' x = m x"
proof -
  have "p < 2 ^ 64" using assms(5) by simp
  then obtain m2 where m2: "same_on (- driver_memory fr b) m m2"
    "serve (m2, d) = (m2(status_place fr := 0),
         d\<lparr>sectors := (\<lambda>x. if x \<in> {unat a..<unat a + unat l} then m2 (p + (x - unat a)) else sectors d x)\<rparr>)"
    "operation_sync dev fr p a l True (m, b, d) = (let (m3, d1) = serve (m2, d) in
       if m3 (status_place fr) = 0xff then None else Some (if m3 (status_place fr) = 0 then Inr () else Inl (), m3, b, d1))"
    "unat (read_u16 m2 (avail b + 2)) + n < 2 ^ 16"
    using operation_outcome [OF assms(1,2,3), of p True] by (auto simp: transfer_length [OF assms(4)])
  let ?d = "d\<lparr>sectors := (\<lambda>x. if x \<in> {unat a..<unat a + unat l} then m2 (p + (x - unat a)) else sectors d x)\<rparr>"
  have lay: "driver_layout fr b" using assms(1) by (simp add: driver_ready_def)
  have "same_on {avail b..<avail b + 134} m2 (m2(status_place fr := 0))" using lay by (auto simp: same_on_def driver_layout_def)
  then have "driver_ready fr n (m2(status_place fr := 0), b, ?d)" by (rule ready_after [OF assms(1) m2(4)]) simp_all
  moreover have "VirtioBlk_write dev fr p a l (m, b, d) = Some (Inr (), m2(status_place fr := 0), b, ?d)"
    by (simp add: VirtioBlk_write_def m2(2,3))
  moreover have "m2 (p + (x - unat a)) = m (p + (x - unat a))" if "x \<in> {unat a..<unat a + unat l}" for x
  proof -
    have "p + (x - unat a) \<in> {p..<p + unat l}" using that by auto
    then have "p + (x - unat a) \<in> - driver_memory fr b" using assms(6) by blast
    then show ?thesis using m2(1) unfolding same_on_def by blast
  qed
  then have "sectors ?d = (\<lambda>x. if x \<in> {unat a..<unat a + unat l} then m (p + (x - unat a)) else sectors d x)" by auto
  moreover have "\<forall>x. x \<notin> driver_memory fr b \<longrightarrow> (m2(status_place fr := 0)) x = m x"
    using m2(1) by (auto simp: same_on_def driver_memory_def)
  ultimately show thesis using that by blast
qed

end

sublocale serving_device \<subseteq> disk_driver: block_device "VirtioBlk_read dev fr" "VirtioBlk_write dev fr" "driver_ready fr"
  "\<lambda>(b, d). driver_memory fr b" "\<lambda>(b, d). sectors d" for fr
proof (unfold_locales, goal_cases)
  case (1 n m s a l p)
  obtain b d where s: "s = (b, d)" by (cases s)
  show ?case using 1 unfolding s prod.case by (elim driver_read) auto
next
  case (2 n m s a l p)
  obtain b d where s: "s = (b, d)" by (cases s)
  show ?case using 2 unfolding s prod.case by (elim driver_write) auto
next
  case (3 n m s m')
  obtain b d where s: "s = (b, d)" by (cases s)
  have "read_u16 m' (avail b + 2) = read_u16 m (avail b + 2)"
    using 3(2) by (intro read_same(1) same_on_mono [OF 3(2)]) (auto simp: s driver_memory_def)
  then show ?case using 3(1) by (simp add: s driver_ready_def)
next
  case (4 a l p m s)
  then show ?case by (cases s) (auto simp: VirtioBlk_read_def VirtioBlk_write_def operation_sync_def low_nine)
qed

end
