(* ===== verification/Fat32Props.thy ===== *)
theory Fat32Props
  imports Fat32 VirtioBlkProps
begin

text \<open>
  Correctness of the FAT32 volume over the interface \<open>block_device\<close>: a file whose clusters
  follow each other is read and written byte by byte as it lies on the disk, and a file in several pieces
  cannot be read as a whole.
\<close>

section \<open>Runs of clusters\<close>

lemma u32_add_eq: "unat a + unat b < 2 ^ 32 \<Longrightarrow> u32_add a b = Some (a + b)"
  by (simp add: u32_add_def)

lemma unat_u32_add: "unat (a :: u32) + n < 2 ^ 32 \<Longrightarrow> unat (a + word_of_nat n) = unat a + n"
  by (simp add: unat_word_ariths unat_of_nat)

lemma unat_u32: "n < 2 ^ 32 \<Longrightarrow> unat (word_of_nat n :: u32) = n"
  by (simp add: unat_of_nat)

lemma unat_widen: "unat (ucast (x :: u8) :: u32) = unat x" "unat (ucast (y :: u16) :: u32) = unat y"
  "unat (ucast (y :: u16) :: u64) = unat y" "unat (ucast (z :: u32) :: u64) = unat z"
  using unsigned_less [where 'a = nat, of x] unsigned_less [where 'a = nat, of y] unsigned_less [where 'a = nat, of z]
  by (simp_all add: unsigned_ucast_eq take_bit_nat_eq_self)

lemma skip_none: "data_offset sc \<le> unat (bytes_per_sector fs) \<Longrightarrow> skip_sectors fs sc = Some sc"
  by (simp add: skip_sectors_def)

text \<open>The last round of the inner loop: what is left fits into the cluster.\<close>

lemma scan_step_last:
  fixes sc :: Scan and len :: usize
  defines "rest \<equiv> len - scan_bytes sc + data_offset sc"
  assumes "data_offset sc \<le> unat (bytes_per_sector fs)" and "0 < unat (bytes_per_sector fs)" and "scan_bytes sc \<le> len"
    and "rest \<le> bytes_per_cluster fs" and "rest < 2 ^ 64" and "w \<Longrightarrow> unat (bytes_per_sector fs) \<le> len - scan_bytes sc"
    and "unat (scan_sectors sc) + (1 + (max rest 1 - 1) div unat (bytes_per_sector fs)) < 2 ^ 32"
  shows "scan_step w fs m len sc = Some (Inr (False,
    sc\<lparr>scan_sectors := scan_sectors sc + word_of_nat (1 + (max rest 1 - 1) div unat (bytes_per_sector fs)), scan_bytes := len\<rparr>))"
proof -
  let ?n = "1 + (max rest 1 - 1) div unat (bytes_per_sector fs)"
  have n: "unat (word_of_nat ?n :: u32) = ?n" using assms(8) by (intro unat_u32) simp
  have add: "u32_add (scan_sectors sc) (word_of_nat ?n) = Some (scan_sectors sc + word_of_nat ?n)" using assms(8) by (intro u32_add_eq) (simp only: n)
  have sub: "usize_sub len (scan_bytes sc) = Some (len - scan_bytes sc)" using assms(4) by simp
  have rst: "usize_add (len - scan_bytes sc) (data_offset sc) = Some rest" using assms(6) by (simp add: rest_def)
  have whole: "\<not> (w \<and> len - scan_bytes sc < unat (bytes_per_sector fs))" using assms(7) by auto
  have "bytes_per_sector fs \<noteq> 0" using assms(3) by (simp add: unat_gt_0)
  then show ?thesis
    unfolding scan_step_def sub Option.bind.bind_lunit if_not_P [OF whole] skip_none [OF assms(2)] rst if_P [OF assms(5)] add if_not_P
    using assms(4) by simp
qed

text \<open>Another round: the cluster is taken as a whole.\<close>

lemma scan_step_more:
  fixes sc :: Scan and len :: usize
  defines "rest \<equiv> len - scan_bytes sc + data_offset sc"
  assumes "data_offset sc \<le> unat (bytes_per_sector fs)" and "data_offset sc \<le> bytes_per_cluster fs" and "scan_bytes sc \<le> len"
    and "bytes_per_cluster fs < rest" and "rest < 2 ^ 64" and "len < 2 ^ 64" and "w \<Longrightarrow> unat (bytes_per_sector fs) \<le> len - scan_bytes sc"
    and "unat (scan_sectors sc) + unat (sectors_per_cluster fs) < 2 ^ 32" and "unat (scan_cluster sc) + 1 < 2 ^ 32"
  shows "scan_step w fs m len sc = (let sc2 = sc\<lparr>scan_sectors := scan_sectors sc + ucast (sectors_per_cluster fs),
      scan_bytes := scan_bytes sc + bytes_per_cluster fs - data_offset sc\<rparr>
    in case get_next_cluster fs m (scan_cluster sc) of None \<Rightarrow> Some (Inl ())
       | Some n \<Rightarrow> Some (Inr (if n \<noteq> scan_cluster sc + 1 then (False, sc2) else (True, sc2\<lparr>data_offset := 0, scan_cluster := n\<rparr>))))"
proof -
  have add: "u32_add (scan_sectors sc) (ucast (sectors_per_cluster fs)) = Some (scan_sectors sc + ucast (sectors_per_cluster fs))"
    using assms(9) by (intro u32_add_eq) (simp add: unat_widen)
  have sub: "usize_sub len (scan_bytes sc) = Some (len - scan_bytes sc)" using assms(4) by simp
  have rst: "usize_add (len - scan_bytes sc) (data_offset sc) = Some rest" using assms(6) by (simp add: rest_def)
  have whole: "\<not> (w \<and> len - scan_bytes sc < unat (bytes_per_sector fs))" using assms(8) by auto
  have big: "\<not> rest \<le> bytes_per_cluster fs" using assms(5) by simp
  have part: "usize_sub (bytes_per_cluster fs) (data_offset sc) = Some (bytes_per_cluster fs - data_offset sc)" using assms(3) by simp
  have b: "usize_add (scan_bytes sc) (bytes_per_cluster fs - data_offset sc) = Some (scan_bytes sc + bytes_per_cluster fs - data_offset sc)"
    using assms(3,4,5,7) by (auto simp: rest_def)
  have one: "u32_add (scan_cluster sc) 1 = Some (scan_cluster sc + 1)" using assms(10) by (simp add: u32_add_eq)
  show ?thesis
    unfolding scan_step_def sub Option.bind.bind_lunit if_not_P [OF whole] skip_none [OF assms(2)] rst if_not_P [OF big] add part b Let_def
    by (simp add: one split: option.split)
qed

text \<open>Several such rounds, over clusters that follow each other.\<close>

definition adjacent :: "Fat32 \<Rightarrow> memory \<Rightarrow> u32 \<Rightarrow> nat \<Rightarrow> bool" where
  "adjacent fs m c k \<longleftrightarrow> (\<forall>i < k. get_next_cluster fs m (c + word_of_nat i) = Some (c + word_of_nat i + 1))"

definition scan_after :: "Fat32 \<Rightarrow> Scan \<Rightarrow> nat \<Rightarrow> Scan" where
  "scan_after fs sc j = (if j = 0 then sc else
     sc\<lparr>scan_sectors := scan_sectors sc + word_of_nat (j * unat (sectors_per_cluster fs)),
       scan_bytes := scan_bytes sc + j * bytes_per_cluster fs - data_offset sc, data_offset := 0,
       scan_cluster := scan_cluster sc + word_of_nat j\<rparr>)"

text \<open>The state from which the inner loop starts a run, and what it needs for \<open>j\<close> rounds.\<close>

definition can_advance :: "bool \<Rightarrow> Fat32 \<Rightarrow> usize \<Rightarrow> Scan \<Rightarrow> nat \<Rightarrow> bool" where
  "can_advance w fs len sc j \<longleftrightarrow> 0 < unat (bytes_per_sector fs) \<and> data_offset sc \<le> unat (bytes_per_sector fs) \<and>
     data_offset sc < bytes_per_cluster fs \<and>
     scan_bytes sc \<le> len \<and> len + data_offset sc < 2 ^ 64 \<and> (w \<longrightarrow> unat (bytes_per_sector fs) dvd len - scan_bytes sc \<and> data_offset sc = 0) \<and>
     scan_bytes sc + j * bytes_per_cluster fs < len + data_offset sc \<and>
     unat (scan_sectors sc) + j * unat (sectors_per_cluster fs) < 2 ^ 32 \<and> unat (scan_cluster sc) + j < 2 ^ 32"

lemma can_advance_less: "can_advance w fs len sc (Suc j) \<Longrightarrow> can_advance w fs len sc j"
  by (auto simp: can_advance_def)

text \<open>The state after some rounds allows another one.\<close>

lemma can_advance_state:
  assumes "can_advance w fs len sc j"
  defines "a \<equiv> scan_after fs sc j"
  shows "data_offset a \<le> unat (bytes_per_sector fs)" "data_offset a \<le> bytes_per_cluster fs" "scan_bytes a \<le> len"
    "len - scan_bytes a + data_offset a = len + data_offset sc - (scan_bytes sc + j * bytes_per_cluster fs)"
    "unat (scan_sectors a) = unat (scan_sectors sc) + j * unat (sectors_per_cluster fs)"
    "unat (scan_cluster a) = unat (scan_cluster sc) + j"
    "w \<Longrightarrow> 0 < len - scan_bytes a \<Longrightarrow> unat (bytes_per_sector fs) \<le> len - scan_bytes a"
proof -
  note c = assms(1) [unfolded can_advance_def]
  have pos: "j \<noteq> 0 \<Longrightarrow> data_offset sc \<le> j * bytes_per_cluster fs" using c by (cases j) auto
  show "data_offset a \<le> unat (bytes_per_sector fs)" "data_offset a \<le> bytes_per_cluster fs" "scan_bytes a \<le> len"
    using c pos by (auto simp: a_def scan_after_def)
  show "len - scan_bytes a + data_offset a = len + data_offset sc - (scan_bytes sc + j * bytes_per_cluster fs)"
    using c pos by (auto simp: a_def scan_after_def)
  show "unat (scan_sectors a) = unat (scan_sectors sc) + j * unat (sectors_per_cluster fs)" "unat (scan_cluster a) = unat (scan_cluster sc) + j"
    using c by (auto simp: a_def scan_after_def unat_u32_add [simplified] simp del: of_nat_mult)
  show "unat (bytes_per_sector fs) \<le> len - scan_bytes a" if "w" "0 < len - scan_bytes a"
  proof (rule dvd_imp_le [OF _ that(2)])
    have "unat (bytes_per_sector fs) dvd len - scan_bytes sc" "data_offset sc = 0" using c that(1) by auto
    moreover have "unat (bytes_per_sector fs) dvd j * bytes_per_cluster fs" by (simp add: bytes_per_cluster_def)
    ultimately have "unat (bytes_per_sector fs) dvd (len - scan_bytes sc) - j * bytes_per_cluster fs" by (metis dvd_diff_nat)
    then show "unat (bytes_per_sector fs) dvd len - scan_bytes a"
      using \<open>data_offset sc = 0\<close> by (auto simp: a_def scan_after_def)
  qed
qed

lemma scan_step_advance:
  assumes "can_advance w fs len sc (Suc j)"
  defines "a \<equiv> scan_after fs sc j"
  shows "scan_step w fs m len a = (let sc2 = a\<lparr>scan_sectors := scan_sectors a + ucast (sectors_per_cluster fs),
      scan_bytes := scan_bytes a + bytes_per_cluster fs - data_offset a\<rparr>
    in case get_next_cluster fs m (scan_cluster a) of None \<Rightarrow> Some (Inl ())
       | Some n \<Rightarrow> Some (Inr (if n \<noteq> scan_cluster a + 1 then (False, sc2) else (True, sc2\<lparr>data_offset := 0, scan_cluster := n\<rparr>))))"
proof -
  note c = assms(1) [unfolded can_advance_def]
  note st = can_advance_state [OF can_advance_less [OF assms(1)], folded a_def]
  have "bytes_per_cluster fs < len - scan_bytes a + data_offset a" "len - scan_bytes a + data_offset a < 2 ^ 64" using c by (auto simp: st(4))
  moreover from this(1) st(2) have "0 < len - scan_bytes a" by linarith
  ultimately show ?thesis using c st by (intro scan_step_more) auto
qed

lemma scan_after_Suc:
  assumes "can_advance w fs len sc (Suc j)"
  defines "a \<equiv> scan_after fs sc j"
  shows "a\<lparr>scan_sectors := scan_sectors a + ucast (sectors_per_cluster fs), scan_bytes := scan_bytes a + bytes_per_cluster fs - data_offset a,
    data_offset := 0, scan_cluster := scan_cluster a + 1\<rparr> = scan_after fs sc (Suc j)"
proof -
  have "word_of_nat (unat (sectors_per_cluster fs)) = (ucast (sectors_per_cluster fs) :: u32)" by simp
  moreover have "data_offset sc \<le> j * bytes_per_cluster fs" if "j \<noteq> 0" using assms(1) that by (cases j) (auto simp: can_advance_def)
  ultimately show ?thesis by (auto simp: a_def scan_after_def algebra_simps)
qed

lemma scan_loop_advance:
  assumes "can_advance w fs len sc j" and "adjacent fs m (scan_cluster sc) j"
  shows "scan_loop w fs m len sc = scan_loop w fs m len (scan_after fs sc j)"
  using assms
proof (induction j)
  case (Suc j)
  let ?a = "scan_after fs sc j"
  have "scan_cluster ?a = scan_cluster sc + word_of_nat j" by (simp add: scan_after_def)
  then have "get_next_cluster fs m (scan_cluster ?a) = Some (scan_cluster ?a + 1)" using Suc.prems(2) by (simp add: adjacent_def)
  then have "scan_step w fs m len ?a = Some (Inr (True, scan_after fs sc (Suc j)))"
    unfolding scan_step_advance [OF Suc.prems(1)] scan_after_Suc [OF Suc.prems(1), symmetric] by (simp add: Let_def)
  then have "scan_loop w fs m len ?a = scan_loop w fs m len (scan_after fs sc (Suc j))" by (subst scan_loop.simps) simp
  moreover have "scan_loop w fs m len sc = scan_loop w fs m len ?a"
    using Suc.prems(2) by (intro Suc.IH [OF can_advance_less [OF Suc.prems(1)]]) (simp add: adjacent_def)
  ultimately show ?case by simp
qed (simp add: scan_after_def)

text \<open>
  The whole inner loop. When the clusters go on as far as the range does, it ends with the
  range covered; when they stop earlier, it ends at the last of them, or with an error.
\<close>

lemma scan_contiguous:
  fixes sc :: Scan and len :: usize and fs :: Fat32
  defines "rest \<equiv> len - scan_bytes sc + data_offset sc"
  defines "j \<equiv> (rest - 1) div bytes_per_cluster fs" and "n \<equiv> 1 + (rest - 1) div unat (bytes_per_sector fs)"
  assumes c: "can_advance w fs len sc j" and "adjacent fs m (scan_cluster sc) j" and "scan_bytes sc < len"
    and "unat (scan_sectors sc) + n < 2 ^ 32"
  shows "\<exists>d' c'. scan_loop w fs m len sc = Some (Inr (sc\<lparr>scan_sectors := scan_sectors sc + word_of_nat n, scan_bytes := len,
    data_offset := d', scan_cluster := c'\<rparr>))"
proof -
  let ?bps = "unat (bytes_per_sector fs)" and ?spc = "unat (sectors_per_cluster fs)" and ?bpc = "bytes_per_cluster fs" and ?a = "scan_after fs sc j"
  note st = can_advance_state [OF c]
  let ?r = "len - scan_bytes ?a + data_offset ?a"
  have pos: "0 < ?bps" "0 < ?bpc" "data_offset sc < ?bpc" using c by (auto simp: can_advance_def)
  have "len + data_offset sc - scan_bytes sc = rest" "0 < rest" using assms(6) by (auto simp: rest_def)
  then have r: "?r = rest - j * ?bpc" using st(4) by simp
  have mod: "(rest - 1) mod ?bpc = rest - 1 - j * ?bpc" by (simp add: j_def minus_div_mult_eq_mod [symmetric])
  have le: "j * ?bpc \<le> rest - 1" by (simp add: j_def)
  have small: "?r \<le> ?bpc" "0 < ?r" using mod_less_divisor [OF pos(2), of "rest - 1"] \<open>0 < rest\<close> le unfolding r mod by auto
  have "(rest - 1) div ?bps = j * ?spc + (?r - 1) div ?bps"
  proof -
    have "rest - 1 = ?r - 1 + (j * ?spc) * ?bps" using r le small \<open>0 < rest\<close> by (simp add: bytes_per_cluster_def)
    then show ?thesis using pos(1) by (metis add.commute div_mult_self1 not_gr_zero)
  qed
  then have n: "n = j * ?spc + (1 + (max ?r 1 - 1) div ?bps)" using small(2) by (simp add: n_def max_def)
  have left: "0 < len - scan_bytes ?a"
  proof (cases "j = 0")
    case False
    then have "data_offset ?a = 0" by (simp add: scan_after_def)
    then show ?thesis using small(2) by simp
  qed (use assms(6) in \<open>simp add: scan_after_def\<close>)
  have "scan_step w fs m len ?a = Some (Inr (False,
    ?a\<lparr>scan_sectors := scan_sectors ?a + word_of_nat (1 + (max ?r 1 - 1) div ?bps), scan_bytes := len\<rparr>))"
    using st left pos(1) small(1) c assms(7) by (intro scan_step_last) (auto simp: n can_advance_def rest_def)
  then have "scan_loop w fs m len ?a = Some (Inr (?a\<lparr>scan_sectors := scan_sectors ?a + word_of_nat (1 + (max ?r 1 - 1) div ?bps), scan_bytes := len\<rparr>))"
    by (subst scan_loop.simps) simp
  moreover have "?a\<lparr>scan_sectors := scan_sectors ?a + word_of_nat (1 + (max ?r 1 - 1) div ?bps), scan_bytes := len\<rparr> =
    sc\<lparr>scan_sectors := scan_sectors sc + word_of_nat n, scan_bytes := len, data_offset := data_offset ?a, scan_cluster := scan_cluster ?a\<rparr>"
    unfolding n by (cases "j = 0") (simp_all add: scan_after_def add.assoc)
  ultimately show ?thesis using scan_loop_advance [OF c assms(5)] by auto
qed

lemma scan_broken:
  assumes c: "can_advance w fs len sc (Suc j)" and "adjacent fs m (scan_cluster sc) j"
    and "get_next_cluster fs m (scan_cluster sc + word_of_nat j) = nx" and "nx \<noteq> Some (scan_cluster sc + word_of_nat j + 1)"
  shows "scan_loop w fs m len sc = Some (case nx of None \<Rightarrow> Inl ()
    | Some n \<Rightarrow> Inr ((scan_after fs sc (Suc j))\<lparr>scan_cluster := scan_cluster sc + word_of_nat j, data_offset := data_offset (scan_after fs sc j)\<rparr>))"
proof -
  let ?a = "scan_after fs sc j"
  have cl: "scan_cluster ?a = scan_cluster sc + word_of_nat j" by (simp add: scan_after_def)
  show ?thesis
    using assms(3,4) unfolding scan_loop_advance [OF can_advance_less [OF c] assms(2)] scan_after_Suc [OF c, symmetric]
    by (subst scan_loop.simps) (auto simp: scan_step_advance [OF c] cl Let_def split: option.split)
qed

text \<open>The sectors before the range are left out, if there is more than one of them.\<close>

definition skipped :: "Fat32 \<Rightarrow> usize \<Rightarrow> nat" where
  "skipped fs off = (if unat (bytes_per_sector fs) < off then off div unat (bytes_per_sector fs) else 0)"

definition start_scan :: "Fat32 \<Rightarrow> u32 \<Rightarrow> usize \<Rightarrow> Scan" where
  "start_scan fs c off = (let d = off - skipped fs off * unat (bytes_per_sector fs)
     in \<lparr>scan_sectors = 0, scan_bytes = 0, sector_offset = word_of_nat (skipped fs off), data_offset = d, data_offset_backup = d, scan_cluster = c\<rparr>)"

lemma scan_step_skip:
  assumes "skip_sectors fs sc = Some sc1" and "skip_sectors fs sc1 = Some sc1" and "scan_bytes sc1 = scan_bytes sc"
  shows "scan_step w fs m len sc = scan_step w fs m len sc1"
  unfolding scan_step_def assms ..

lemma start_scan_offset:
  assumes "off < bytes_per_cluster fs" and "0 < unat (bytes_per_sector fs)"
  shows "data_offset (start_scan fs c off) \<le> unat (bytes_per_sector fs)" "skipped fs off < 2 ^ 32" "skipped fs off * unat (bytes_per_sector fs) \<le> off"
    "data_offset (start_scan fs c off) < bytes_per_cluster fs"
proof -
  have "off < 2 ^ 8 * 2 ^ 16"
    using assms(1) mult_le_mono [of "unat (sectors_per_cluster fs)" "2 ^ 8" "unat (bytes_per_sector fs)" "2 ^ 16"]
      unsigned_less [where 'a = nat, of "sectors_per_cluster fs"] unsigned_less [where 'a = nat, of "bytes_per_sector fs"]
    by (simp add: bytes_per_cluster_def)
  then show "skipped fs off < 2 ^ 32"
    using le_less_trans [OF div_le_dividend [of off "unat (bytes_per_sector fs)"], of "2 ^ 32"] by (auto simp: skipped_def)
  show le: "skipped fs off * unat (bytes_per_sector fs) \<le> off" by (auto simp: skipped_def)
  show "data_offset (start_scan fs c off) \<le> unat (bytes_per_sector fs)"
    using mod_less_divisor [OF assms(2), of off] by (auto simp: start_scan_def skipped_def Let_def minus_div_mult_eq_mod)
  show "data_offset (start_scan fs c off) < bytes_per_cluster fs" using assms(1) by (simp add: start_scan_def Let_def)
qed

lemma scan_run_eq:
  assumes "off < bytes_per_cluster fs" and "0 < unat (bytes_per_sector fs)"
  shows "scan_run w fs m len c off = scan_loop w fs m len (start_scan fs c off)"
proof -
  let ?sc = "\<lparr>scan_sectors = 0, scan_bytes = 0, sector_offset = 0, data_offset = off, data_offset_backup = off, scan_cluster = c\<rparr>"
  note off = start_scan_offset [OF assms]
  have u: "unat (word_of_nat (skipped fs off) :: u32) = skipped fs off" using off(2) by (rule unat_u32)
  have "skip_sectors fs ?sc = Some (start_scan fs c off)"
    using off(3) u assms(2) by (auto simp: skip_sectors_def start_scan_def skipped_def Let_def)
  then have "scan_step w fs m len ?sc = scan_step w fs m len (start_scan fs c off)"
    by (rule scan_step_skip [OF _ skip_none [OF off(1)]]) (simp add: start_scan_def Let_def)
  then show ?thesis unfolding scan_run_def by (subst (1 2) scan_loop.simps) simp
qed

section \<open>Places on the disk\<close>

definition volume_ok :: "Fat32 \<Rightarrow> bool" where
  "volume_ok fs \<longleftrightarrow> 0 < unat (sectors_per_cluster fs) \<and> 0 < unat (bytes_per_sector fs) \<and> 512 dvd unat (bytes_per_sector fs) \<and>
     512 dvd base_lba fs * lba_size fs \<and> 0 < lba_size fs \<and> lba_size fs < 2 ^ 32"

definition data_start :: "Fat32 \<Rightarrow> nat" where
  "data_start fs = unat (reserved_sectors fs) + unat (number_of_fats fs) * unat (fat_sectors fs)"

text \<open>Where a cluster starts, as a sector of the volume and as a byte of the disk.\<close>

definition cluster_sector :: "Fat32 \<Rightarrow> u32 \<Rightarrow> nat" where
  "cluster_sector fs c = data_start fs + (unat c - 2) * unat (sectors_per_cluster fs)"

definition cluster_address :: "Fat32 \<Rightarrow> u32 \<Rightarrow> nat" where
  "cluster_address fs c = base_lba fs * lba_size fs + cluster_sector fs c * unat (bytes_per_sector fs)"

text \<open>The clusters from \<open>c\<close> to \<open>c + k - 1\<close> are on the volume and their bytes can be addressed.\<close>

definition on_volume :: "Fat32 \<Rightarrow> u32 \<Rightarrow> nat \<Rightarrow> bool" where
  "on_volume fs c k \<longleftrightarrow> 2 \<le> unat c \<and> unat c + k < 2 ^ 32 \<and> cluster_sector fs c + k * unat (sectors_per_cluster fs) < 2 ^ 32 \<and>
     cluster_address fs c + k * bytes_per_cluster fs < 2 ^ 64 \<and> k * bytes_per_cluster fs < 2 ^ 32"

lemma and_le_nat: "(a :: nat) AND b \<le> a"
  using AND_upper1 [of "int a" "int b"] by (simp add: and_nat_def nat_le_iff)

lemma u32_ops:
  "a < 2 ^ 32 \<Longrightarrow> b < 2 ^ 32 \<Longrightarrow> a * b < 2 ^ 32 \<Longrightarrow> u32_mul (word_of_nat a) (word_of_nat b) = Some (word_of_nat (a * b))"
  "a + b < 2 ^ 32 \<Longrightarrow> u32_add (word_of_nat a) (word_of_nat b) = Some (word_of_nat (a + b))"
  "a < 2 ^ 32 \<Longrightarrow> b \<le> a \<Longrightarrow> u32_sub (word_of_nat a) (word_of_nat b) = Some (word_of_nat (a - b))"
  by (simp_all add: u32_mul_def u32_add_def u32_sub_def unat_of_nat of_nat_diff)

lemma word_of_nat_widen: "(ucast (x :: u8) :: u32) = word_of_nat (unat x)" "(ucast (y :: u16) :: u32) = word_of_nat (unat y)"
  "(z :: u32) = word_of_nat (unat z)"
  by simp_all

lemma cluster_to_sector_eq:
  assumes "on_volume fs c k" and "0 < unat (sectors_per_cluster fs)"
  shows "cluster_to_sector fs c = Some (word_of_nat (cluster_sector fs c))"
proof -
  let ?a = "unat (reserved_sectors fs)" and ?b = "unat (number_of_fats fs)" and ?f = "unat (fat_sectors fs)" and ?s = "unat (sectors_per_cluster fs)"
  have b: "?a + ?b * ?f + (unat c - 2) * ?s < 2 ^ 32" "2 \<le> unat c" "?b < 2 ^ 32" "?f < 2 ^ 32" "unat c - 2 < 2 ^ 32" "?s < 2 ^ 32"
    using assms unsigned_less [where 'a = nat, of "number_of_fats fs"] unsigned_less [where 'a = nat, of "fat_sectors fs"]
      unsigned_less [where 'a = nat, of c] unsigned_less [where 'a = nat, of "sectors_per_cluster fs"]
    by (auto simp: on_volume_def cluster_sector_def data_start_def)
  have "u32_mul (ucast (number_of_fats fs)) (fat_sectors fs) = Some (word_of_nat (?b * ?f))"
    using u32_ops(1) [of ?b ?f] b by simp
  moreover have "u32_add (ucast (reserved_sectors fs)) (word_of_nat (?b * ?f)) = Some (word_of_nat (?a + ?b * ?f))"
    using u32_ops(2) [of ?a "?b * ?f"] b(1) by simp
  moreover have "u32_sub c 2 = Some (word_of_nat (unat c - 2))"
    using u32_ops(3) [of "unat c" 2] b(2) unsigned_less [where 'a = nat, of c] by simp
  moreover have "u32_mul (word_of_nat (unat c - 2)) (ucast (sectors_per_cluster fs)) = Some (word_of_nat ((unat c - 2) * ?s))"
    using u32_ops(1) [of "unat c - 2" ?s] b by simp
  moreover have "u32_add (word_of_nat (?a + ?b * ?f)) (word_of_nat ((unat c - 2) * ?s)) = Some (word_of_nat (cluster_sector fs c))"
    using u32_ops(2) [of "?a + ?b * ?f" "(unat c - 2) * ?s"] b(1) by (simp add: cluster_sector_def data_start_def)
  ultimately show ?thesis unfolding cluster_to_sector_def by (simp only: Option.bind.bind_lunit)
qed

text \<open>The allocation table in memory.\<close>

definition fat_region :: "Fat32 \<Rightarrow> usize set" where
  "fat_region fs = {fat fs..<fat fs + unat (fat_sectors fs) * unat (bytes_per_sector fs)}"

lemma next_same:
  assumes "same_on (fat_region fs) m m'"
  shows "get_next_cluster fs m' c = get_next_cluster fs m c"
proof (cases "unat c < unat (fat_sectors fs) * unat (bytes_per_sector fs) div 4")
  case True
  then have "4 * unat c + 4 \<le> unat (fat_sectors fs) * unat (bytes_per_sector fs)" by linarith
  then have "{fat fs + 4 * unat c..<fat fs + 4 * unat c + 4} \<subseteq> fat_region fs" by (auto simp: fat_region_def)
  then have "read_u32 m' (fat fs + 4 * unat c) = read_u32 m (fat fs + 4 * unat c)" using assms by (intro read_same(2) same_on_mono [OF assms])
  then show ?thesis by (simp add: get_next_cluster_def)
qed (simp add: get_next_cluster_def)

section \<open>A range of a contiguous file\<close>

lemma adjacent_shift:
  assumes "adjacent fs m c (k + j)"
  shows "adjacent fs m (c + word_of_nat k) j"
  unfolding adjacent_def
proof (intro allI impI)
  fix i assume "i < j"
  then have "get_next_cluster fs m (c + word_of_nat (k + i)) = Some (c + word_of_nat (k + i) + 1)"
    using assms by (simp add: adjacent_def del: of_nat_add)
  then show "get_next_cluster fs m (c + word_of_nat k + word_of_nat i) = Some (c + word_of_nat k + word_of_nat i + 1)"
    by (simp add: add.assoc)
qed

lemma skip_linked: "adjacent fs m c k \<Longrightarrow> skip_clusters fs m k c = Some (c + word_of_nat k)"
proof (induction k arbitrary: c)
  case (Suc k)
  have "get_next_cluster fs m c = Some (c + 1)" using Suc.prems by (auto simp: adjacent_def dest: spec [of _ 0])
  moreover have "adjacent fs m (c + 1) k" using adjacent_shift [of fs m c 1 k] Suc.prems by simp
  ultimately show ?case using Suc.IH [of "c + 1"] by (simp add: algebra_simps)
qed simp

lemma on_volume_shift:
  assumes "on_volume fs c N" and "k \<le> N"
  shows "unat (c + word_of_nat k) = unat c + k" "cluster_sector fs (c + word_of_nat k) = cluster_sector fs c + k * unat (sectors_per_cluster fs)"
    "cluster_address fs (c + word_of_nat k) = cluster_address fs c + k * bytes_per_cluster fs" "on_volume fs (c + word_of_nat k) (N - k)"
proof -
  have b: "unat c + k < 2 ^ 32" "2 \<le> unat c" using assms by (auto simp: on_volume_def)
  then show u: "unat (c + word_of_nat k) = unat c + k" by (intro unat_u32_add)
  have "unat c + k - 2 = (unat c - 2) + k" using b(2) by simp
  then show s: "cluster_sector fs (c + word_of_nat k) = cluster_sector fs c + k * unat (sectors_per_cluster fs)"
    by (simp add: cluster_sector_def u algebra_simps)
  show a: "cluster_address fs (c + word_of_nat k) = cluster_address fs c + k * bytes_per_cluster fs"
    by (simp add: cluster_address_def s bytes_per_cluster_def algebra_simps)
  obtain d where N: "N = k + d" using assms(2) le_Suc_ex by blast
  show "on_volume fs (c + word_of_nat k) (N - k)"
    using assms(1) unfolding on_volume_def u s a N by (simp add: algebra_simps)
qed

text \<open>A file of \<open>N\<close> adjacent clusters, and a range inside it.\<close>

definition contiguous :: "Fat32 \<Rightarrow> memory \<Rightarrow> FileInfo \<Rightarrow> nat \<Rightarrow> bool" where
  "contiguous fs m f N \<longleftrightarrow> volume_ok fs \<and> on_volume fs (entry_cluster f) N \<and> adjacent fs m (entry_cluster f) (N - 1) \<and>
     unat (file_size f) \<le> N * bytes_per_cluster fs"

lemma contiguous_same: "same_on (fat_region fs) m m' \<Longrightarrow> contiguous fs m f N \<Longrightarrow> contiguous fs m' f N"
  by (simp add: contiguous_def adjacent_def next_same)

text \<open>The place of a range in terms of clusters, sectors and bytes, and how much of it is transferred.\<close>

definition range_start :: "Fat32 \<Rightarrow> usize \<Rightarrow> nat" where
  "range_start fs offset = offset - (offset mod bytes_per_cluster fs - skipped fs (offset mod bytes_per_cluster fs) * unat (bytes_per_sector fs))"

definition range_sectors :: "Fat32 \<Rightarrow> usize \<Rightarrow> usize \<Rightarrow> nat" where
  "range_sectors fs offset len = 1 + (len + (offset - range_start fs offset) - 1) div unat (bytes_per_sector fs)"

lemma whole_sectors:
  assumes "range_start fs offset = offset" and "0 < len" and "0 < unat (bytes_per_sector fs)" and "unat (bytes_per_sector fs) dvd len"
  shows "range_sectors fs offset len * unat (bytes_per_sector fs) = len"
  using assms(1) round_up(4) [OF assms(2-4)] by (simp add: range_sectors_def add_mult_distrib minus_mod_eq_div_mult)

lemma range_geometry:
  fixes fs :: Fat32 and offset len :: usize
  defines "off \<equiv> offset mod bytes_per_cluster fs" and "d \<equiv> offset - range_start fs offset" and "bps \<equiv> unat (bytes_per_sector fs)"
  assumes "volume_ok fs" and "0 < len" and "offset + len \<le> N * bytes_per_cluster fs"
  shows "offset div bytes_per_cluster fs * bytes_per_cluster fs + skipped fs off * bps = range_start fs offset"
    and "range_start fs offset + d = offset" and "d = off - skipped fs off * bps" and "skipped fs off * bps + d = off"
    and "offset div bytes_per_cluster fs + (len + d - 1) div bytes_per_cluster fs < N"
    and "range_start fs offset + range_sectors fs offset len * bps \<le> N * bytes_per_cluster fs"
    and "len + d \<le> range_sectors fs offset len * bps"
proof -
  let ?bpc = "bytes_per_cluster fs"
  have pos: "0 < bps" "0 < ?bpc" using assms(4) by (auto simp: volume_ok_def bps_def bytes_per_cluster_def)
  have off: "off < ?bpc" "off \<le> offset" "offset div ?bpc * ?bpc + off = offset" using pos(2) by (auto simp: off_def)
  have le: "skipped fs off * bps \<le> off" using start_scan_offset(3) [OF off(1)] pos(1) by (simp add: bps_def)
  have start: "range_start fs offset = offset - (off - skipped fs off * bps)" by (simp add: range_start_def off_def bps_def)
  then show d: "d = off - skipped fs off * bps" using off(2) unfolding d_def by simp
  show sd: "skipped fs off * bps + d = off" using le d by simp
  show rs: "offset div ?bpc * ?bpc + skipped fs off * bps = range_start fs offset"
    using off(2,3) le start by linarith
  show rd: "range_start fs offset + d = offset" using rs sd off(3) by linarith
  have "(offset div ?bpc + (len + d - 1) div ?bpc) * ?bpc \<le> offset div ?bpc * ?bpc + (len + d - 1)"
    by (simp add: add_mult_distrib)
  also have "\<dots> < N * ?bpc" using off(3) sd assms(5,6) by linarith
  finally show "offset div ?bpc + (len + d - 1) div ?bpc < N" by simp
  have n: "range_sectors fs offset len = 1 + (len + d - 1) div bps" by (simp add: range_sectors_def d_def bps_def)
  have "bps dvd range_start fs offset" "bps dvd N * ?bpc" unfolding rs [symmetric] by (simp_all add: bytes_per_cluster_def bps_def)
  then obtain a b where ab: "range_start fs offset = bps * a" "N * ?bpc = bps * b" unfolding dvd_def by blast
  have "(b - a) * bps = N * ?bpc - range_start fs offset" by (simp add: ab diff_mult_distrib mult.commute [of bps])
  then have "len + d - 1 < (b - a) * bps" using rd assms(5,6) by linarith
  then have "(len + d - 1) div bps < b - a" by (rule less_mult_imp_div_less)
  then have "(a + range_sectors fs offset len) * bps \<le> b * bps" unfolding n by (intro mult_le_mono1) simp
  then show "range_start fs offset + range_sectors fs offset len * bps \<le> N * ?bpc" by (simp add: ab algebra_simps)
  show "len + d \<le> range_sectors fs offset len * bps"
    unfolding n add_mult_distrib mult_1 using div_mult_mod_eq [of "len + d - 1" bps] mod_less_divisor [OF pos(1), of "len + d - 1"]
    by linarith
qed

text \<open>How the clusters of the range are found.\<close>

lemma range_scan:
  fixes fs :: Fat32 and offset len :: usize and f :: FileInfo
  defines "off \<equiv> offset mod bytes_per_cluster fs" and "c \<equiv> entry_cluster f + word_of_nat (offset div bytes_per_cluster fs)"
  assumes "contiguous fs m f N" and "0 < len" and "offset + len \<le> unat (file_size f)"
    and "w \<longrightarrow> unat (bytes_per_sector fs) dvd len \<and> range_start fs offset = offset"
  obtains sc where "skip_clusters fs m (offset div bytes_per_cluster fs) (entry_cluster f) = Some c"
    "scan_run w fs m len c off = Some (Inr sc)" "scan_bytes sc = len" "unat (scan_sectors sc) = range_sectors fs offset len"
    "unat (sector_offset sc) = skipped fs off" "data_offset_backup sc = offset - range_start fs offset"
proof -
  let ?bpc = "bytes_per_cluster fs" and ?bps = "unat (bytes_per_sector fs)" and ?d = "offset - range_start fs offset"
  have v: "volume_ok fs" and on: "on_volume fs (entry_cluster f) N" and li: "adjacent fs m (entry_cluster f) (N - 1)"
    and le: "offset + len \<le> N * ?bpc" using assms(3,5) by (auto simp: contiguous_def)
  have pos: "0 < ?bps" "0 < ?bpc" using v by (auto simp: volume_ok_def bytes_per_cluster_def)
  have off: "off < ?bpc" using pos(2) by (simp add: off_def)
  note g = range_geometry [OF v assms(4) le, folded off_def]
  note st = start_scan_offset [OF off pos(1)]
  define j where "j = (len + ?d - 1) div ?bpc"
  let ?sc = "start_scan fs c off" and ?k = "offset div ?bpc"
  have sc: "data_offset ?sc = ?d" "data_offset_backup ?sc = ?d" "scan_bytes ?sc = 0" "scan_sectors ?sc = 0" "scan_cluster ?sc = c"
      "unat (sector_offset ?sc) = skipped fs off"
    unfolding g(3) using st(2) by (simp_all add: start_scan_def Let_def unat_u32 [simplified])
  have kj: "?k + j < N" using g(5) by (simp add: j_def)
  then have "adjacent fs m (entry_cluster f) ?k" "adjacent fs m c j"
    using li adjacent_shift [of fs m "entry_cluster f" ?k j] by (auto simp: adjacent_def c_def)
  have small: "N * ?bpc < 2 ^ 32" "unat (entry_cluster f) + N < 2 ^ 32" using on by (auto simp: on_volume_def)
  have "range_sectors fs offset len * 1 \<le> range_sectors fs offset len * ?bps" using pos(1) by (intro mult_le_mono2) simp
  then have n: "range_sectors fs offset len < 2 ^ 32" using g(6) small(1) unfolding mult_1_right by linarith
  have "j * unat (sectors_per_cluster fs) \<le> N * ?bpc"
    using kj pos(1) mult_le_mono [of j N "unat (sectors_per_cluster fs)" ?bpc] by (auto simp: bytes_per_cluster_def)
  moreover have "j * ?bpc < len + ?d" using assms(4) div_times_less_eq_dividend [of "len + ?d - 1" ?bpc] unfolding j_def by linarith
  moreover have "unat c + j < 2 ^ 32" using on_volume_shift(1) [OF on, of ?k] kj small(2) by (simp add: c_def)
  ultimately have "can_advance w fs len ?sc j"
    using pos(1) st(1) [of c] st(4) [of c] sc small(1) g(2) le assms(6) by (auto simp: can_advance_def)
  moreover have "(len - scan_bytes ?sc + data_offset ?sc - 1) div ?bpc = j" "1 + (len - scan_bytes ?sc + data_offset ?sc - 1) div ?bps = range_sectors fs offset len"
    by (simp_all add: sc j_def range_sectors_def)
  ultimately obtain d' c' where "scan_loop w fs m len ?sc = Some (Inr (?sc\<lparr>scan_sectors := word_of_nat (range_sectors fs offset len), scan_bytes := len,
      data_offset := d', scan_cluster := c'\<rparr>))"
    using scan_contiguous [of w fs len ?sc m] \<open>adjacent fs m c j\<close> assms(4) n by (auto simp: sc)
  then show thesis
    using that [OF _ scan_run_eq [OF off pos(1), THEN trans]] skip_linked [OF \<open>adjacent fs m (entry_cluster f) ?k\<close>] sc(2,6) n
    by (simp add: c_def unat_u32 [simplified])
qed

lemma sec_bound:
  assumes "volume_ok fs" and "on_volume fs c N" and "offset + len \<le> N * bytes_per_cluster fs" and "0 < len"
  shows "cluster_sector fs c + offset div bytes_per_cluster fs * unat (sectors_per_cluster fs) + skipped fs (offset mod bytes_per_cluster fs) < 2 ^ 32"
proof -
  let ?bps = "unat (bytes_per_sector fs)" and ?spc = "unat (sectors_per_cluster fs)" and ?bpc = "bytes_per_cluster fs"
  note g = range_geometry [OF assms(1,4,3)]
  have pos: "0 < ?bps" using assms(1) by (simp add: volume_ok_def)
  have "(offset div ?bpc * ?spc + skipped fs (offset mod ?bpc)) * ?bps = range_start fs offset"
    using g(1) by (simp add: bytes_per_cluster_def algebra_simps)
  also have "\<dots> \<le> (N * ?spc) * ?bps" using g(6) by (simp add: bytes_per_cluster_def algebra_simps)
  finally have "offset div ?bpc * ?spc + skipped fs (offset mod ?bpc) \<le> N * ?spc" using pos by simp
  then show ?thesis using assms(2) by (simp add: on_volume_def)
qed

text \<open>A read of a range is the read of one run, which starts at the sector of \<open>range_start\<close>.\<close>

definition range_cluster :: "Fat32 \<Rightarrow> FileInfo \<Rightarrow> usize \<Rightarrow> u32" where
  "range_cluster fs f offset = entry_cluster f + word_of_nat (offset div bytes_per_cluster fs)"

definition range_run :: "Fat32 \<Rightarrow> FileInfo \<Rightarrow> nat \<Rightarrow> usize \<Rightarrow> usize \<Rightarrow> Scan \<Rightarrow> bool" where
  "range_run fs f N offset len sc \<longleftrightarrow> on_volume fs (range_cluster fs f offset) N \<and> scan_bytes sc = len \<and>
     unat (scan_sectors sc) = range_sectors fs offset len \<and> data_offset_backup sc = offset - range_start fs offset \<and>
     cluster_sector fs (range_cluster fs f offset) + unat (sector_offset sc) < 2 ^ 32 \<and>
     range_sectors fs offset len * unat (bytes_per_sector fs) < 2 ^ 32 \<and>
     base_lba fs * lba_size fs + (cluster_sector fs (range_cluster fs f offset) + unat (sector_offset sc)) * unat (bytes_per_sector fs) =
       cluster_address fs (entry_cluster f) + range_start fs offset \<and>
     cluster_address fs (entry_cluster f) + range_start fs offset + range_sectors fs offset len * unat (bytes_per_sector fs) < 2 ^ 64"

lemma read_setup:
  fixes fs :: Fat32 and offset len :: usize and f :: FileInfo
  assumes "contiguous fs m f N" and "0 < len" and "offset + len \<le> unat (file_size f)"
  obtains N' sc where "range_run fs f N' offset len sc"
    "\<And>m' al' s'. read_run rd fs buf 0 (range_cluster fs f offset) sc (m, al, s) = Some (Inr (), m', al', s') \<Longrightarrow>
       Fat32_read rd fs f buf offset len (m, al, s) = Some (Inr len, m', al', s')"
proof -
  define c where "c = range_cluster fs f offset"
  let ?bpc = "bytes_per_cluster fs" and ?bps = "unat (bytes_per_sector fs)" and ?k = "offset div bytes_per_cluster fs" and ?off = "offset mod bytes_per_cluster fs"
  have v: "volume_ok fs" and on: "on_volume fs (entry_cluster f) N" and le: "offset + len \<le> N * ?bpc"
    using assms(1,3) by (auto simp: contiguous_def)
  note g = range_geometry [OF v assms(2) le]
  obtain sc where sc: "skip_clusters fs m ?k (entry_cluster f) = Some c" "scan_run False fs m len c ?off = Some (Inr sc)" "scan_bytes sc = len"
      "unat (scan_sectors sc) = range_sectors fs offset len" "unat (sector_offset sc) = skipped fs ?off" "data_offset_backup sc = offset - range_start fs offset"
    using range_scan [OF assms, of False] by (auto simp: c_def range_cluster_def)
  have k: "?k < N" using g(5) by simp
  note sh = on_volume_shift [OF on less_imp_le [OF k], folded range_cluster_def, folded c_def]
  have len: "len < 2 ^ 64" "?bpc \<noteq> 0" using le on v by (auto simp: on_volume_def volume_ok_def bytes_per_cluster_def)
  have n: "range_sectors fs offset len * ?bps < 2 ^ 32"
      "cluster_address fs (entry_cluster f) + range_start fs offset + range_sectors fs offset len * ?bps < 2 ^ 64"
    using g(6) on by (auto simp: on_volume_def)
  have "base_lba fs * lba_size fs + (cluster_sector fs c + unat (sector_offset sc)) * ?bps = cluster_address fs (entry_cluster f) + range_start fs offset"
    unfolding sh(2) sc(5) g(1) [symmetric] by (simp add: cluster_address_def algebra_simps bytes_per_cluster_def)
  then have "range_run fs f (N - ?k) offset len sc"
    using sec_bound [OF v on le assms(2)] n sh(4) sc(3,4,6) unfolding range_run_def c_def [symmetric] by (simp add: sh(2) sc(5))
  then show thesis
  proof (rule that)
    fix m' al' s' assume "read_run rd fs buf 0 (range_cluster fs f offset) sc (m, al, s) = Some (Inr (), m', al', s')"
    then have "read_round rd fs buf len c ?off 0 (m, al, s) = Some (Inl (Inr len), m', al', s')"
      using len(1) by (simp add: read_round_def sc(2,3) c_def [symmetric])
    moreover have "clip_length f offset len = Some (Some len)"
      using assms(3) unsigned_less [where 'a = nat, of "file_size f"] by (simp add: clip_length_def usize_add_def)
    ultimately show "Fat32_read rd fs f buf offset len (m, al, s) = Some (Inr len, m', al', s')"
      using len(2) by (simp add: Fat32_read_def sc(1) read_loop.simps)
  qed
qed

context block_device
begin

lemma read_sectors_ok:
  assumes "volume_ok fs" and "base_lba fs * lba_size fs + (sec + unat n) * unat (bytes_per_sector fs) < 2 ^ 64" and "sec < 2 ^ 32"
    and "unat n * unat (bytes_per_sector fs) < 2 ^ 32" and "ready (Suc k) (m, s)"
    and "p + unat n * unat (bytes_per_sector fs) < 2 ^ 64" and "{p..<p + unat n * unat (bytes_per_sector fs)} \<inter> scratch s = {}"
  shows "\<exists>m' s'. read_sectors rd fs p (word_of_nat sec) n (m, s) = Some (Inr (), m', s') \<and> ready k (m', s') \<and> scratch s' = scratch s \<and> content s' = content s \<and>
    (\<forall>x. x \<notin> scratch s \<longrightarrow> m' x = (if x \<in> {p..<p + unat n * unat (bytes_per_sector fs)}
       then content s (base_lba fs * lba_size fs + sec * unat (bytes_per_sector fs) + (x - p)) else m x))"
proof -
  let ?bps = "unat (bytes_per_sector fs)" and ?l = "ucast n * ucast (bytes_per_sector fs) :: u64"
  let ?a = "base_lba fs * lba_size fs + sec * ?bps"
  have bound: "?a + unat n * ?bps < 2 ^ 64" using assms(2) by (simp add: algebra_simps)
  then have addr: "sector_address fs (word_of_nat sec) = Some ?a"
    using assms(3) by (simp add: sector_address_def unat_of_nat usize_mul_def usize_add_def)
  have a: "unat (word_of_nat ?a :: u64) = ?a" using bound by (subst unat_of_nat) simp
  have l: "unat ?l = unat n * ?bps" using assms(4) by (simp add: unat_word_ariths unat_widen)
  have "512 dvd ?a" "512 dvd unat n * ?bps" using assms(1) by (auto simp: volume_ok_def)
  then show ?thesis
    using rd_ok [OF assms(5), of "word_of_nat ?a" ?l p] assms(4,6,7) unfolding a l read_sectors_def addr by simp
qed

text \<open>A run that starts at a sector boundary goes straight to its place.\<close>

lemma read_run_direct:
  fixes sc :: Scan and fs :: Fat32 and c :: u32
  defines "sec \<equiv> cluster_sector fs c + unat (sector_offset sc)"
  defines "n \<equiv> unat (scan_sectors sc) * unat (bytes_per_sector fs)"
  assumes "volume_ok fs" and "on_volume fs c k" and "data_offset_backup sc = 0" and "sec < 2 ^ 32"
    and "base_lba fs * lba_size fs + sec * unat (bytes_per_sector fs) + n < 2 ^ 64"
    and "n < 2 ^ 32" and "ready (Suc r) (m, s)" and "buf + bp + n < 2 ^ 64" and "{buf + bp..<buf + bp + n} \<inter> scratch s = {}"
  shows "\<exists>m' s'. read_run rd fs buf bp c sc (m, al, s) = Some (Inr (), m', al, s') \<and> ready r (m', s') \<and> scratch s' = scratch s \<and> content s' = content s \<and>
    (\<forall>x. x \<notin> scratch s \<longrightarrow> m' x = (if x \<in> {buf + bp..<buf + bp + n}
       then content s (base_lba fs * lba_size fs + sec * unat (bytes_per_sector fs) + (x - (buf + bp))) else m x))"
proof -
  have v: "0 < unat (sectors_per_cluster fs)" "0 < lba_size fs" "lba_size fs < 2 ^ 32" using assms(3) by (auto simp: volume_ok_def)
  have "n AND usize_not (lba_size fs - 1) \<le> n" by (rule and_le_nat)
  then have "n AND usize_not (lba_size fs - 1) < 2 ^ 32" using assms(8) by linarith
  then have pg: "bounce_pages fs (scan_sectors sc) = Some (drop_bit PAGE_SHIFT ((n AND usize_not (lba_size fs - 1)) + lba_size fs) + 1)"
    using v(2,3) by (simp add: bounce_pages_def n_def [symmetric] usize_add_def)
  have at: "usize_add buf bp = Some (buf + bp)" using assms(10) by simp
  have "u32_add (word_of_nat (cluster_sector fs c)) (sector_offset sc) = Some (word_of_nat sec)"
    using u32_ops(2) [of "cluster_sector fs c" "unat (sector_offset sc)"] assms(6) by (simp add: sec_def)
  moreover obtain m' s' where "read_sectors rd fs (buf + bp) (word_of_nat sec) (scan_sectors sc) (m, s) = Some (Inr (), m', s')"
      "ready r (m', s')" "scratch s' = scratch s" "content s' = content s"
      "\<forall>x. x \<notin> scratch s \<longrightarrow> m' x = (if x \<in> {buf + bp..<buf + bp + n}
         then content s (base_lba fs * lba_size fs + sec * unat (bytes_per_sector fs) + (x - (buf + bp))) else m x)"
    using read_sectors_ok [OF assms(3) _ assms(6) _ assms(9), of "scan_sectors sc" "buf + bp"] assms(7,8,10,11)
    by (auto simp: n_def algebra_simps)
  ultimately show ?thesis
    using assms(5) by (auto simp: read_run_def pg at cluster_to_sector_eq [OF assms(4) v(1)])
qed

text \<open>Reading a range that starts at a sector boundary, and that is not the second sector of a cluster.\<close>

lemma read_contiguous:
  fixes fs :: Fat32 and offset len :: usize and f :: FileInfo
  defines "n \<equiv> range_sectors fs offset len * unat (bytes_per_sector fs)"
  assumes "contiguous fs m f N" and "0 < len" and "offset + len \<le> unat (file_size f)" and "range_start fs offset = offset"
    and "ready (Suc r) (m, s)" and "buf + n < 2 ^ 64" and "{buf..<buf + n} \<inter> scratch s = {}"
  shows "\<exists>m' s'. Fat32_read rd fs f buf offset len (m, al, s) = Some (Inr len, m', al, s') \<and> ready r (m', s') \<and>
    scratch s' = scratch s \<and> content s' = content s \<and>
    (\<forall>x. x \<notin> scratch s \<longrightarrow> m' x = (if x \<in> {buf..<buf + n} then content s (cluster_address fs (entry_cluster f) + offset + (x - buf)) else m x))"
proof -
  have v: "volume_ok fs" using assms(2) by (simp add: contiguous_def)
  obtain N' sc where "range_run fs f N' offset len sc" and run: "\<And>m' al' s'. read_run rd fs buf 0 (range_cluster fs f offset) sc (m, al, s) = Some (Inr (), m', al', s') \<Longrightarrow>
       Fat32_read rd fs f buf offset len (m, al, s) = Some (Inr len, m', al', s')"
    by (rule read_setup [OF assms(2-4), of rd buf al s]) blast
  then have R: "on_volume fs (range_cluster fs f offset) N'" "data_offset_backup sc = 0" "cluster_sector fs (range_cluster fs f offset) + unat (sector_offset sc) < 2 ^ 32"
      "unat (scan_sectors sc) * unat (bytes_per_sector fs) = n" "n < 2 ^ 32" "cluster_address fs (entry_cluster f) + offset + n < 2 ^ 64"
      "base_lba fs * lba_size fs + (cluster_sector fs (range_cluster fs f offset) + unat (sector_offset sc)) * unat (bytes_per_sector fs) =
        cluster_address fs (entry_cluster f) + offset"
    unfolding range_run_def n_def using assms(5) by simp_all
  obtain m' s' where o: "read_run rd fs buf 0 (range_cluster fs f offset) sc (m, al, s) = Some (Inr (), m', al, s')" "ready r (m', s')"
      "scratch s' = scratch s" "content s' = content s"
      "\<forall>x. x \<notin> scratch s \<longrightarrow> m' x = (if x \<in> {buf..<buf + n} then content s (cluster_address fs (entry_cluster f) + offset + (x - buf)) else m x)"
    using read_run_direct [OF v R(1-3) _ _ assms(6), where buf = buf and bp = 0 and al = al, unfolded R(4,7) add_0_right, OF R(6,5) assms(7,8)] by blast
  show ?thesis using run [OF o(1)] o(2-5) by blast
qed

text \<open>Otherwise the run goes through a buffer of whole pages, which is given back.\<close>

lemma read_run_bounce:
  fixes sc :: Scan and fs :: Fat32 and c :: u32
  defines "sec \<equiv> cluster_sector fs c + unat (sector_offset sc)" and "n \<equiv> unat (scan_sectors sc) * unat (bytes_per_sector fs)"
    and "d \<equiv> data_offset_backup sc"
  assumes "volume_ok fs" and "on_volume fs c k" and "d \<noteq> 0" and "sec < 2 ^ 32"
    and "base_lba fs * lba_size fs + sec * unat (bytes_per_sector fs) + n < 2 ^ 64" and "n < 2 ^ 32" and "ready (Suc r) (m, s)"
    and "bounce_pages fs (scan_sectors sc) = Some pages" and "allocate_pages al pages 0 = Some (Inr b, al1)" and "free_pages al1 b pages = Some al2"
    and "b + n < 2 ^ 64" and "{b..<b + n} \<inter> scratch s = {}" and "scan_bytes sc + d \<le> n"
    and "{buf..<buf + scan_bytes sc} \<inter> scratch s = {}"
  shows "\<exists>m' s'. read_run rd fs buf 0 c sc (m, al, s) = Some (Inr (), m', al2, s') \<and> ready r (m', s') \<and> scratch s' = scratch s \<and>
    content s' = content s \<and> (\<forall>x. x \<notin> scratch s \<union> {b..<b + n} \<union> {buf..<buf + scan_bytes sc} \<longrightarrow> m' x = m x) \<and>
    (\<forall>i < scan_bytes sc. m' (buf + i) = content s (base_lba fs * lba_size fs + sec * unat (bytes_per_sector fs) + d + i))"
proof -
  have v: "0 < unat (sectors_per_cluster fs)" using assms(4) by (simp add: volume_ok_def)
  have "u32_add (word_of_nat (cluster_sector fs c)) (sector_offset sc) = Some (word_of_nat sec)"
    using u32_ops(2) [of "cluster_sector fs c" "unat (sector_offset sc)"] assms(7) by (simp add: sec_def)
  moreover obtain m1 s' where io: "read_sectors rd fs b (word_of_nat sec) (scan_sectors sc) (m, s) = Some (Inr (), m1, s')"
      "ready r (m1, s')" "scratch s' = scratch s" "content s' = content s"
      "\<forall>x. x \<notin> scratch s \<longrightarrow> m1 x = (if x \<in> {b..<b + n}
         then content s (base_lba fs * lba_size fs + sec * unat (bytes_per_sector fs) + (x - b)) else m x)"
    using read_sectors_ok [OF assms(4) _ assms(7) _ assms(10), of "scan_sectors sc" b] assms(8,9,14,15)
    by (auto simp: n_def algebra_simps)
  moreover have "usize_add b d = Some (b + d)" using assms(14,16) by simp
  ultimately have "read_run rd fs buf 0 c sc (m, al, s) = Some (Inr (), copy_bytes (b + d) buf (scan_bytes sc) m1, al2, s')"
    using assms(6) by (simp add: read_run_def assms(11-13) cluster_to_sector_eq [OF assms(5) v] d_def)
  moreover have "copy_bytes (b + d) buf (scan_bytes sc) m1 (buf + i) = content s (base_lba fs * lba_size fs + sec * unat (bytes_per_sector fs) + d + i)"
    if "i < scan_bytes sc" for i
  proof -
    have "b + d + i \<in> {b..<b + n}" using that assms(16) by simp
    moreover from this assms(15) have "b + d + i \<notin> scratch s" by blast
    ultimately show ?thesis using io(5) that by (simp add: copy_bytes_def add.assoc)
  qed
  moreover have "same_on (scratch s') m1 (copy_bytes (b + d) buf (scan_bytes sc) m1)"
    using assms(17) unfolding io(3) by (auto simp: same_on_def copy_bytes_def)
  then have "ready r (copy_bytes (b + d) buf (scan_bytes sc) m1, s')" by (rule ready_frame [OF io(2)])
  moreover have "\<forall>x. x \<notin> scratch s \<union> {b..<b + n} \<union> {buf..<buf + scan_bytes sc} \<longrightarrow> copy_bytes (b + d) buf (scan_bytes sc) m1 x = m x"
    using io(5) by (simp add: copy_bytes_def)
  ultimately show ?thesis using io(3,4) by blast
qed

lemma read_bounced:
  fixes fs :: Fat32 and offset len :: usize and f :: FileInfo
  defines "n \<equiv> range_sectors fs offset len * unat (bytes_per_sector fs)"
  assumes "contiguous fs m f N" and "0 < len" and "offset + len \<le> unat (file_size f)" and "range_start fs offset \<noteq> offset"
    and "ready (Suc r) (m, s)" and "{buf..<buf + len} \<inter> scratch s = {}"
    and "bounce_pages fs (word_of_nat (range_sectors fs offset len)) = Some pages" and "allocate_pages al pages 0 = Some (Inr b, al1)"
    and "free_pages al1 b pages = Some al2" and "b + n < 2 ^ 64" and "{b..<b + n} \<inter> scratch s = {}"
  shows "\<exists>m' s'. Fat32_read rd fs f buf offset len (m, al, s) = Some (Inr len, m', al2, s') \<and> ready r (m', s') \<and>
    scratch s' = scratch s \<and> content s' = content s \<and> (\<forall>x. x \<notin> scratch s \<union> {b..<b + n} \<union> {buf..<buf + len} \<longrightarrow> m' x = m x) \<and>
    (\<forall>i < len. m' (buf + i) = content s (cluster_address fs (entry_cluster f) + offset + i))"
proof -
  have v: "volume_ok fs" and le: "offset + len \<le> N * bytes_per_cluster fs" using assms(2,4) by (auto simp: contiguous_def)
  note g = range_geometry [OF v assms(3) le]
  obtain N' sc where "range_run fs f N' offset len sc" and run: "\<And>m' al' s'. read_run rd fs buf 0 (range_cluster fs f offset) sc (m, al, s) = Some (Inr (), m', al', s') \<Longrightarrow>
       Fat32_read rd fs f buf offset len (m, al, s) = Some (Inr len, m', al', s')"
    by (rule read_setup [OF assms(2-4), of rd buf al s]) blast
  then have R: "on_volume fs (range_cluster fs f offset) N'" "data_offset_backup sc = offset - range_start fs offset"
      "cluster_sector fs (range_cluster fs f offset) + unat (sector_offset sc) < 2 ^ 32"
      "unat (scan_sectors sc) * unat (bytes_per_sector fs) = n" "n < 2 ^ 32" "cluster_address fs (entry_cluster f) + range_start fs offset + n < 2 ^ 64"
      "base_lba fs * lba_size fs + (cluster_sector fs (range_cluster fs f offset) + unat (sector_offset sc)) * unat (bytes_per_sector fs) =
        cluster_address fs (entry_cluster f) + range_start fs offset" "scan_bytes sc = len" "unat (scan_sectors sc) = range_sectors fs offset len"
    unfolding range_run_def n_def by simp_all
  have d0: "offset - range_start fs offset \<noteq> 0" using g(2) assms(5) by linarith
  have pg: "bounce_pages fs (scan_sectors sc) = Some pages" using assms(8) by (simp flip: R(9))
  have sum: "cluster_address fs (entry_cluster f) + range_start fs offset + (offset - range_start fs offset) = cluster_address fs (entry_cluster f) + offset"
    using g(2) by linarith
  have fits: "len + (offset - range_start fs offset) \<le> n" using g(7) by (simp add: n_def)
  note o = read_run_bounce [OF v R(1) _ R(3) _ _ assms(6) pg assms(9,10), of buf, unfolded R(2,4,7,8) sum, OF d0 R(6,5) assms(11,12) fits assms(7)]
  then show ?thesis using run by blast
qed

lemma write_sectors_ok:
  assumes "volume_ok fs" and "base_lba fs * lba_size fs + (sec + unat n) * unat (bytes_per_sector fs) < 2 ^ 64" and "sec < 2 ^ 32"
    and "unat n * unat (bytes_per_sector fs) < 2 ^ 32" and "ready (Suc k) (m, s)"
    and "p + unat n * unat (bytes_per_sector fs) < 2 ^ 64" and "{p..<p + unat n * unat (bytes_per_sector fs)} \<inter> scratch s = {}"
  defines "a \<equiv> base_lba fs * lba_size fs + sec * unat (bytes_per_sector fs)"
  shows "\<exists>m' s'. write_sectors wr fs p (word_of_nat sec) n (m, s) = Some (Inr (), m', s') \<and> ready k (m', s') \<and> scratch s' = scratch s \<and>
    content s' = (\<lambda>x. if x \<in> {a..<a + unat n * unat (bytes_per_sector fs)} then m (p + (x - a)) else content s x) \<and>
    (\<forall>x. x \<notin> scratch s \<longrightarrow> m' x = m x)"
proof -
  let ?bps = "unat (bytes_per_sector fs)" and ?l = "ucast n * ucast (bytes_per_sector fs) :: u64"
  have bound: "a + unat n * ?bps < 2 ^ 64" using assms(2) by (simp add: a_def algebra_simps)
  then have addr: "sector_address fs (word_of_nat sec) = Some a"
    using assms(3) by (simp add: a_def sector_address_def unat_of_nat usize_mul_def usize_add_def)
  have a: "unat (word_of_nat a :: u64) = a" using bound by (subst unat_of_nat) simp
  have l: "unat ?l = unat n * ?bps" using assms(4) by (simp add: unat_word_ariths unat_widen)
  have "512 dvd a" "512 dvd unat n * ?bps" using assms(1) by (auto simp: volume_ok_def a_def)
  then show ?thesis
    using wr_ok [OF assms(5), of "word_of_nat a" ?l p] assms(4,6,7) unfolding a l write_sectors_def addr by simp
qed

lemma write_contiguous:
  assumes "contiguous fs m f N" and "0 < len" and "offset + len \<le> unat (file_size f)" and "range_start fs offset = offset"
    and "unat (bytes_per_sector fs) dvd len" and "ready (Suc r) (m, s)" and "buf + len < 2 ^ 64" and "{buf..<buf + len} \<inter> scratch s = {}"
  defines "a \<equiv> cluster_address fs (entry_cluster f) + offset"
  shows "\<exists>m' s'. Fat32_write wr fs f buf offset len (m, s) = Some (Inr len, m', s') \<and> ready r (m', s') \<and> scratch s' = scratch s \<and>
    content s' = (\<lambda>x. if x \<in> {a..<a + len} then m (buf + (x - a)) else content s x) \<and> (\<forall>x. x \<notin> scratch s \<longrightarrow> m' x = m x)"
proof -
  let ?bpc = "bytes_per_cluster fs" and ?bps = "unat (bytes_per_sector fs)" and ?k = "offset div bytes_per_cluster fs"
  let ?c = "entry_cluster f + word_of_nat ?k" and ?off = "offset mod ?bpc"
  have v: "volume_ok fs" and on: "on_volume fs (entry_cluster f) N" and le: "offset + len \<le> N * ?bpc"
    using assms(1,3) by (auto simp: contiguous_def)
  note g = range_geometry [OF v assms(2) le]
  obtain sc where sc: "skip_clusters fs m ?k (entry_cluster f) = Some ?c" "scan_run True fs m len ?c ?off = Some (Inr sc)" "scan_bytes sc = len"
      "unat (scan_sectors sc) = range_sectors fs offset len" "unat (sector_offset sc) = skipped fs ?off" "data_offset_backup sc = 0"
    using range_scan [OF assms(1,2,3), of True] assms(4,5) by auto
  have pos: "0 < ?bps" using v by (simp add: volume_ok_def)
  have n: "range_sectors fs offset len * ?bps = len" using assms(2,4,5) pos by (intro whole_sectors)
  have k: "?k < N" using g(5) by simp
  note sh = on_volume_shift [OF on less_imp_le [OF k]]
  let ?sec = "cluster_sector fs ?c + unat (sector_offset sc)"
  have "?sec * ?bps = cluster_sector fs (entry_cluster f) * ?bps + range_start fs offset"
    unfolding sh(2) sc(5) g(1) [symmetric] by (simp add: algebra_simps bytes_per_cluster_def)
  then have addr: "base_lba fs * lba_size fs + ?sec * ?bps = a" by (simp add: cluster_address_def assms(4) a_def)
  have b: "a + len < 2 ^ 64" "len < 2 ^ 32" "?sec < 2 ^ 32" using on le sec_bound [OF v on le assms(2)] by (auto simp: on_volume_def a_def sh(2) sc(5))
  then have sec: "base_lba fs * lba_size fs + (?sec + unat (scan_sectors sc)) * ?bps < 2 ^ 64" using addr n unfolding add_mult_distrib [of ?sec] sc(4) by linarith
  obtain m' s' where run: "write_sectors wr fs buf (word_of_nat ?sec) (scan_sectors sc) (m, s) = Some (Inr (), m', s')"
      "ready r (m', s') \<and> scratch s' = scratch s \<and> content s' = (\<lambda>x. if x \<in> {a..<a + len} then m (buf + (x - a)) else content s x) \<and> (\<forall>x. x \<notin> scratch s \<longrightarrow> m' x = m x)"
    using write_sectors_ok [OF v sec b(3) _ assms(6), of buf] b(2) assms(7,8) unfolding addr sc(4) n by blast
  have "u32_add (word_of_nat (cluster_sector fs ?c)) (sector_offset sc) = Some (word_of_nat ?sec)"
    using u32_ops(2) [of "cluster_sector fs ?c" "unat (sector_offset sc)"] b(3) by simp
  moreover have c: "?bpc \<noteq> 0" "0 < unat (sectors_per_cluster fs)" using v by (auto simp: volume_ok_def bytes_per_cluster_def)
  ultimately have "write_round wr fs buf len ?c ?off 0 (m, s) = Some (Inl (Inr len), m', s')"
    using b(2) assms(7) by (simp add: write_round_def sc(2,3,6) run(1) [simplified] cluster_to_sector_eq [OF sh(4)])
  moreover have "clip_length f offset len = Some (Some len)" using assms(3) unsigned_less [where 'a = nat, of "file_size f"] by (simp add: clip_length_def usize_add_def)
  ultimately have "Fat32_write wr fs f buf offset len (m, s) = Some (Inr len, m', s')"
    using c(1) by (simp add: Fat32_write_def sc(1) write_loop.simps)
  then show ?thesis using run(2) by blast
qed

text \<open>What was written to a file is read back from it.\<close>

lemma write_read:
  assumes "contiguous fs m f N" and "0 < len" and "offset + len \<le> unat (file_size f)" and "range_start fs offset = offset"
    and "unat (bytes_per_sector fs) dvd len" and "ready (Suc (Suc r)) (m, s)"
    and "p + len < 2 ^ 64" and "{p..<p + len} \<inter> scratch s = {}" and "q + len < 2 ^ 64" and "{q..<q + len} \<inter> scratch s = {}"
    and "fat_region fs \<inter> scratch s = {}"
  shows "\<exists>m1 s1 m2 s2. Fat32_write wr fs f p offset len (m, s) = Some (Inr len, m1, s1) \<and>
    Fat32_read rd fs f q offset len (m1, al, s1) = Some (Inr len, m2, al, s2) \<and> (\<forall>i < len. m2 (q + i) = m (p + i))"
proof -
  obtain m1 s1 where w: "Fat32_write wr fs f p offset len (m, s) = Some (Inr len, m1, s1)" "ready (Suc r) (m1, s1)" "scratch s1 = scratch s"
      "content s1 = (\<lambda>x. if x \<in> {cluster_address fs (entry_cluster f) + offset..<cluster_address fs (entry_cluster f) + offset + len}
         then m (p + (x - (cluster_address fs (entry_cluster f) + offset))) else content s x)" "\<forall>x. x \<notin> scratch s \<longrightarrow> m1 x = m x"
    using write_contiguous [OF assms(1-8)] by blast
  have "same_on (fat_region fs) m m1" using w(5) assms(11) by (auto simp: same_on_def)
  then have c: "contiguous fs m1 f N" using contiguous_same assms(1) by blast
  have pos: "0 < unat (bytes_per_sector fs)" using assms(1) by (simp add: contiguous_def volume_ok_def)
  have n: "range_sectors fs offset len * unat (bytes_per_sector fs) = len" using assms(2,4,5) pos by (intro whole_sectors)
  obtain m2 s2 where r: "Fat32_read rd fs f q offset len (m1, al, s1) = Some (Inr len, m2, al, s2)"
      "\<forall>x. x \<notin> scratch s1 \<longrightarrow> m2 x = (if x \<in> {q..<q + len} then content s1 (cluster_address fs (entry_cluster f) + offset + (x - q)) else m1 x)"
    using read_contiguous [OF c assms(2-4) w(2), of q al] assms(9,10) unfolding n w(3) by auto
  have "m2 (q + i) = m (p + i)" if "i < len" for i
  proof -
    have "q + i \<in> {q..<q + len}" using that by simp
    moreover from this assms(10) have "q + i \<notin> scratch s1" unfolding w(3) by blast
    ultimately show ?thesis using r(2) that by (simp add: w(4))
  qed
  then show ?thesis using w(1) r(1) by blast
qed

end

section \<open>A file in several pieces\<close>

text \<open>The pieces of a file in the allocation table: first cluster and number of clusters.\<close>

fun extents :: "Fat32 \<Rightarrow> memory \<Rightarrow> (u32 \<times> nat) list \<Rightarrow> bool" where
  "extents fs m [] \<longleftrightarrow> False"
| "extents fs m [(c, k)] \<longleftrightarrow> 0 < k \<and> on_volume fs c k \<and> adjacent fs m c (k - 1) \<and> get_next_cluster fs m (c + word_of_nat (k - 1)) = None"
| "extents fs m ((c, k) # (c', k') # es) \<longleftrightarrow> 0 < k \<and> on_volume fs c k \<and> adjacent fs m c (k - 1) \<and>
     get_next_cluster fs m (c + word_of_nat (k - 1)) = Some c' \<and> c' \<noteq> c + word_of_nat k \<and> extents fs m ((c', k') # es)"

definition clusters_of :: "(u32 \<times> nat) list \<Rightarrow> nat" where
  "clusters_of es = sum_list (map snd es)"

lemma extents_same: "same_on (fat_region fs) m m' \<Longrightarrow> extents fs m' es \<longleftrightarrow> extents fs m es"
  by (induction es rule: induct_list012) (auto simp: adjacent_def next_same)

lemma extents_pos: "extents fs m es \<Longrightarrow> (c, k) \<in> set es \<Longrightarrow> 0 < k"
  by (induction es rule: induct_list012) auto

lemma butlast_smaller:
  assumes "extents fs m es"
  shows "clusters_of (butlast es) < clusters_of es"
proof -
  have "es \<noteq> []" using assms by auto
  then have "clusters_of es = clusters_of (butlast es) + snd (last es)"
    using append_butlast_last_id [of es] by (metis clusters_of_def list.map(2) map_append sum_list_append sum_list_simps list.map(1) add_0_right sum_list.Cons sum_list.Nil)
  moreover have "0 < snd (last es)" using extents_pos [OF assms] last_in_set [OF \<open>es \<noteq> []\<close>] by (metis prod.collapse)
  ultimately show ?thesis by simp
qed

lemma piece_smaller:
  assumes "extents fs m es" and "2 \<le> length es" and "(c, k) \<in> set es"
  shows "k < clusters_of es"
proof -
  obtain i where i: "i < length es" "es ! i = (c, k)" using assms(3) by (auto simp: in_set_conv_nth)
  obtain j where j: "j < length es" "j \<noteq> i" using assms(2) i(1) by (cases "i = 0") (auto intro: that [of 0] that [of 1])
  have "0 < map snd es ! j" using extents_pos [OF assms(1), of "fst (es ! j)" "snd (es ! j)"] j(1) by simp
  moreover have "clusters_of es = (\<Sum>x < length es. map snd es ! x)" by (simp add: clusters_of_def sum_list_sum_nth atLeast0LessThan)
  moreover have "(\<Sum>x \<in> {i, j}. map snd es ! x) \<le> (\<Sum>x < length es. map snd es ! x)" by (rule sum_mono2) (use i j in auto)
  ultimately show ?thesis using i j by simp
qed

text \<open>The inner loop on a piece that is smaller than the whole range.\<close>

lemma scan_piece:
  assumes "volume_ok fs" and "0 < k" and "on_volume fs c k" and "adjacent fs m c (k - 1)"
    and "get_next_cluster fs m (c + word_of_nat (k - 1)) = nx" and "nx \<noteq> Some (c + word_of_nat k)"
    and "k * bytes_per_cluster fs < len" and "len < 2 ^ 64"
  shows "\<exists>sc. scan_run False fs m len c 0 = Some (case nx of None \<Rightarrow> Inl () | Some n \<Rightarrow> Inr sc) \<and> unat (scan_sectors sc) = k * unat (sectors_per_cluster fs) \<and>
    scan_bytes sc = k * bytes_per_cluster fs \<and> sector_offset sc = 0 \<and> data_offset_backup sc = 0 \<and> scan_cluster sc = c + word_of_nat (k - 1)"
proof -
  let ?sc = "start_scan fs c 0" and ?spc = "unat (sectors_per_cluster fs)"
  obtain j where k: "k = Suc j" using assms(2) by (cases k) auto
  have pos: "0 < unat (bytes_per_sector fs)" "0 < bytes_per_cluster fs" using assms(1) by (auto simp: volume_ok_def bytes_per_cluster_def)
  have "k * ?spc * 1 \<le> k * ?spc * unat (bytes_per_sector fs)" using pos(1) by (intro mult_le_mono2) simp
  then have spc: "k * ?spc < 2 ^ 32" using assms(3) by (simp only: on_volume_def bytes_per_cluster_def mult.assoc mult_1_right) linarith
  have sc: "?sc = \<lparr>scan_sectors = 0, scan_bytes = 0, sector_offset = 0, data_offset = 0, data_offset_backup = 0, scan_cluster = c\<rparr>"
    by (simp add: start_scan_def skipped_def)
  have adv: "can_advance False fs len ?sc (Suc j)"
    using pos assms(3,7,8) spc unfolding k by (simp add: can_advance_def sc on_volume_def)
  have cl: "scan_cluster ?sc = c" by (simp add: sc)
  have lk: "adjacent fs m c j" "get_next_cluster fs m (c + word_of_nat j) = nx" using assms(4,5) by (simp_all add: k)
  have "c + word_of_nat k = c + word_of_nat j + 1" by (simp add: k)
  then have ne: "nx \<noteq> Some (c + word_of_nat j + 1)" using assms(6) by metis
  have "scan_loop False fs m len ?sc = Some (case nx of None \<Rightarrow> Inl ()
      | Some n \<Rightarrow> Inr ((scan_after fs ?sc (Suc j))\<lparr>scan_cluster := c + word_of_nat j, data_offset := data_offset (scan_after fs ?sc j)\<rparr>))"
    by (rule scan_broken [OF adv, unfolded cl, OF lk ne])
  moreover have "unat (word_of_nat (k * ?spc) :: u32) = k * ?spc" using spc by (rule unat_u32)
  ultimately show ?thesis
    unfolding scan_run_eq [OF pos(2,1)] by (intro exI [of _ "(scan_after fs ?sc (Suc j))\<lparr>scan_cluster := c + word_of_nat j, data_offset := data_offset (scan_after fs ?sc j)\<rparr>"])
      (simp add: scan_after_def sc k)
qed

context block_device
begin

lemma read_pieces:
  assumes "volume_ok fs" and "extents fs m es" and "\<forall>(c, k) \<in> set es. k * bytes_per_cluster fs < len"
    and "bp + clusters_of (butlast es) * bytes_per_cluster fs < len" and "ready (length es) (m, s)"
    and "buf + len < 2 ^ 64" and "{buf..<buf + len} \<inter> (scratch s \<union> fat_region fs) = {}" and "scratch s \<inter> fat_region fs = {}"
  shows "\<exists>st. read_loop rd fs buf len (fst (hd es)) 0 bp (m, al, s) = Some (Inl (), st)"
  using assms
proof (induction es arbitrary: m s bp rule: induct_list012)
  case (2 e)
  obtain c k where e: "e = (c, k)" by (cases e)
  have "scan_run False fs m len c 0 = Some (Inl ())"
    using scan_piece [OF assms(1), of k c m None len] 2 by (auto simp: e)
  then show ?case by (simp add: e read_loop.simps read_round_def)
next
  case (3 e e' es)
  obtain c k c' k' where e: "e = (c, k)" "e' = (c', k')" by (cases e, cases e')
  let ?n = "k * bytes_per_cluster fs"
  have ex: "0 < k" "on_volume fs c k" "adjacent fs m c (k - 1)" "get_next_cluster fs m (c + word_of_nat (k - 1)) = Some c'" "c' \<noteq> c + word_of_nat k"
      and rest: "extents fs m ((c', k') # es)" using "3.prems"(2) unfolding e extents.simps by blast+
  have n: "?n < len" "bp + ?n + clusters_of (butlast (e' # es)) * bytes_per_cluster fs < len"
    using "3.prems"(3,4) by (auto simp: e clusters_of_def algebra_simps)
  have "len < 2 ^ 64" using "3.prems"(6) by simp
  then obtain sc where sc: "scan_run False fs m len c 0 = Some (Inr sc)" "unat (scan_sectors sc) = k * unat (sectors_per_cluster fs)"
      "scan_bytes sc = ?n" "sector_offset sc = 0" "data_offset_backup sc = 0" "scan_cluster sc = c + word_of_nat (k - 1)"
    using scan_piece [OF assms(1) ex(1-4) _ n(1)] ex(5) by auto
  have amount: "unat (scan_sectors sc) * unat (bytes_per_sector fs) = ?n" by (simp add: sc(2) bytes_per_cluster_def)
  have pl: "cluster_sector fs c + unat (sector_offset sc) < 2 ^ 32" "?n < 2 ^ 32"
      "base_lba fs * lba_size fs + (cluster_sector fs c + unat (sector_offset sc)) * unat (bytes_per_sector fs) + ?n < 2 ^ 64"
    using ex(2) by (auto simp: sc(4) on_volume_def cluster_address_def)
  have buf: "buf + bp + ?n < 2 ^ 64" "{buf + bp..<buf + bp + ?n} \<subseteq> {buf..<buf + len}" using "3.prems"(6) n(2) by auto
  have "{buf + bp..<buf + bp + ?n} \<inter> scratch s = {}" using buf(2) "3.prems"(7) by blast
  moreover have "ready (Suc (length (e' # es))) (m, s)" using "3.prems"(5) by simp
  ultimately obtain m' s' where r: "read_run rd fs buf bp c sc (m, al, s) = Some (Inr (), m', al, s')" "ready (length (e' # es)) (m', s')" "scratch s' = scratch s"
      and fr: "\<forall>x. x \<notin> scratch s \<longrightarrow> m' x = (if x \<in> {buf + bp..<buf + bp + ?n}
       then content s (base_lba fs * lba_size fs + (cluster_sector fs c + unat (sector_offset sc)) * unat (bytes_per_sector fs) + (x - (buf + bp))) else m x)"
    using read_run_direct [OF assms(1) ex(2) sc(5) pl(1), unfolded amount, OF pl(3,2) _ buf(1)] by blast
  have keep: "x \<in> fat_region fs \<Longrightarrow> x \<notin> scratch s \<and> x \<notin> {buf + bp..<buf + bp + ?n}" for x using buf(2) "3.prems"(7,8) by blast
  have fat: "same_on (fat_region fs) m m'"
    unfolding same_on_def
  proof
    fix x assume "x \<in> fat_region fs"
    from keep [OF this] show "m' x = m x" using fr by auto
  qed
  have "read_round rd fs buf len c 0 bp (m, al, s) = Some (Inr (c', bp + ?n), m', al, s')"
    using n(2) \<open>len < 2 ^ 64\<close> ex(4) by (simp add: read_round_def sc(1,3,6) r(1) next_same [OF fat])
  moreover have "\<exists>st. read_loop rd fs buf len (fst (hd (e' # es))) 0 (bp + ?n) (m', al, s') = Some (Inl (), st)"
    using "3.prems" r(2) rest n(2) by (intro "3.IH"(2)) (simp_all add: r(3) extents_same [OF fat] e del: extents.simps)
  ultimately show ?case by (subst read_loop.simps) (simp add: e)
qed simp

lemma read_fragmented:
  assumes "volume_ok fs" and "extents fs m es" and "2 \<le> length es" and "fst (hd es) = entry_cluster f"
    and "(clusters_of es - 1) * bytes_per_cluster fs < unat (file_size f)" and "ready (length es) (m, s)"
    and "buf + unat (file_size f) < 2 ^ 64" and "{buf..<buf + unat (file_size f)} \<inter> (scratch s \<union> fat_region fs) = {}" and "scratch s \<inter> fat_region fs = {}"
  shows "\<exists>st. Fat32_read rd fs f buf 0 (unat (file_size f)) (m, al, s) = Some (Inl (), st)"
proof -
  have below: "k * bytes_per_cluster fs < unat (file_size f)" if "k < clusters_of es" for k
    using le_less_trans [OF mult_le_mono1 assms(5), of k] that by simp
  have "\<forall>(c, k) \<in> set es. k * bytes_per_cluster fs < unat (file_size f)" using below piece_smaller [OF assms(2,3)] by blast
  moreover have "0 + clusters_of (butlast es) * bytes_per_cluster fs < unat (file_size f)" using below butlast_smaller [OF assms(2)] by simp
  ultimately obtain st where "read_loop rd fs buf (unat (file_size f)) (fst (hd es)) 0 0 (m, al, s) = Some (Inl (), st)"
    using read_pieces [OF assms(1,2) _ _ assms(6-9)] by blast
  moreover have "clip_length f 0 (unat (file_size f)) = Some (Some (unat (file_size f)))" using assms(7) by (simp add: clip_length_def usize_add_def)
  moreover have "bytes_per_cluster fs \<noteq> 0" using assms(1) by (simp add: volume_ok_def bytes_per_cluster_def)
  ultimately show ?thesis by (cases st) (simp add: Fat32_read_def assms(4))
qed

end

text \<open>The places a read of a range needs besides its destination, and the allocator it leaves.\<close>

definition buffers_ok :: "Fat32 \<Rightarrow> MemoryAllocator \<Rightarrow> usize \<Rightarrow> usize \<Rightarrow> usize \<Rightarrow> usize set \<Rightarrow> MemoryAllocator \<Rightarrow> bool" where
  "buffers_ok fs al offset len buf D al' \<longleftrightarrow> (let n = range_sectors fs offset len * unat (bytes_per_sector fs)
     in if range_start fs offset = offset then buf + n < 2 ^ 64 \<and> {buf..<buf + n} \<inter> D = {} \<and> al' = al
        else {buf..<buf + len} \<inter> D = {} \<and> (\<exists>pages place al1. bounce_pages fs (word_of_nat (range_sectors fs offset len)) = Some pages \<and>
          allocate_pages al pages 0 = Some (Inr place, al1) \<and> free_pages al1 place pages = Some al' \<and>
          place + n < 2 ^ 64 \<and> {place..<place + n} \<inter> D = {}))"

context block_device
begin

lemma read_file:
  assumes "contiguous fs m f N" and "0 < len" and "offset + len \<le> unat (file_size f)"
    and "ready (Suc r) (m, s)" and "buffers_ok fs al offset len buf (scratch s) al'"
  shows "\<exists>m' s'. Fat32_read rd fs f buf offset len (m, al, s) = Some (Inr len, m', al', s') \<and> ready r (m', s') \<and> content s' = content s \<and>
    (\<forall>i < len. m' (buf + i) = content s (cluster_address fs (entry_cluster f) + offset + i))"
proof (cases "range_start fs offset = offset")
  case True
  let ?n = "range_sectors fs offset len * unat (bytes_per_sector fs)"
  have b: "buf + ?n < 2 ^ 64" "{buf..<buf + ?n} \<inter> scratch s = {}" "al' = al" using assms(5) True by (simp_all add: buffers_ok_def Let_def)
  obtain m' s' where r: "Fat32_read rd fs f buf offset len (m, al, s) = Some (Inr len, m', al, s')" "ready r (m', s')" "content s' = content s"
      "\<forall>x. x \<notin> scratch s \<longrightarrow> m' x = (if x \<in> {buf..<buf + ?n} then content s (cluster_address fs (entry_cluster f) + offset + (x - buf)) else m x)"
    using read_contiguous [OF assms(1-3) True assms(4) b(1,2), of al] by blast
  have "m' (buf + i) = content s (cluster_address fs (entry_cluster f) + offset + i)" if "i < len" for i
  proof -
    have "len \<le> ?n" using range_geometry(7) [of fs len offset N] assms(1-3) by (auto simp: contiguous_def True)
    then have "buf + i \<in> {buf..<buf + ?n}" using that by simp
    moreover from this b(2) have "buf + i \<notin> scratch s" by blast
    ultimately show ?thesis using r(4) by simp
  qed
  then show ?thesis using r(1-3) b(3) by blast
next
  case False
  then obtain pages place al1 where b: "{buf..<buf + len} \<inter> scratch s = {}" "bounce_pages fs (word_of_nat (range_sectors fs offset len)) = Some pages"
      "allocate_pages al pages 0 = Some (Inr place, al1)" "free_pages al1 place pages = Some al'"
      "place + range_sectors fs offset len * unat (bytes_per_sector fs) < 2 ^ 64"
      "{place..<place + range_sectors fs offset len * unat (bytes_per_sector fs)} \<inter> scratch s = {}"
    using assms(5) by (auto simp: buffers_ok_def Let_def)
  show ?thesis using read_bounced [OF assms(1-3) False assms(4) b] by blast
qed

end

end
