(* ===== verification/Fat32Files.thy ===== *)
theory Fat32Files
  imports Fat32Props
begin

text \<open>
  The properties of the volume on the real driver: reading and writing files through
  \<open>VirtioBlk\<close>, for every device that serves its queue, and what the directory functions return.
\<close>

section \<open>A sample volume\<close>

definition sample_volume :: Fat32 where
  "sample_volume = \<lparr>base_lba = 1, lba_size = 512, bytes_per_sector = 512, sectors_per_cluster = 1, reserved_sectors = 1, fat_sectors = 1,
     number_of_fats = 1, fat = 0x2000, root_directory_list = 0x3000\<rparr>"

definition sample_driver :: VirtioBlk where
  "sample_driver = \<lparr>descriptors = 0x10000, avail = 0x11000, used = 0x12000, free_bitmap = replicate 8 0xff\<rparr>"

definition sample_frame :: Frame where
  "sample_frame = \<lparr>virtio_blk_req = 0x13000, status_place = 0x14000\<rparr>"

definition sample_disk :: Disk where
  "sample_disk = \<lparr>sectors = (\<lambda>x. word_of_nat x), table_at = 0x10000, ring_at = 0x11000\<rparr>"

text \<open>Cluster 2 is followed by cluster 4, which is the last one.\<close>

definition sample_memory :: memory where
  "sample_memory = (\<lambda>x. 0)(0x2008 := 4, 0x2010 := 0xff, 0x2011 := 0xff, 0x2012 := 0xff, 0x2013 := 0x0f, 0x100001 := 7)"

lemmas sample_defs = sample_volume_def sample_driver_def sample_frame_def sample_disk_def

lemma sample_ready: "n < 2 ^ 16 \<Longrightarrow> driver_ready sample_frame n (sample_memory, sample_driver, sample_disk)"
  by (simp add: driver_ready_def driver_layout_def sample_defs sample_memory_def read_u16_def ivl_disj_int)

lemma sample_volume_ok: "volume_ok sample_volume"
  by (simp add: volume_ok_def sample_volume_def)

lemma sample_on_volume: "on_volume sample_volume 2 1" "on_volume sample_volume 4 1"
  by (simp_all add: on_volume_def sample_volume_def cluster_sector_def cluster_address_def data_start_def bytes_per_cluster_def)

lemma sample_contiguous: "contiguous sample_volume sample_memory \<lparr>entry_cluster = 2, file_size = 512\<rparr> 1"
  using sample_volume_ok sample_on_volume by (simp add: contiguous_def adjacent_def bytes_per_cluster_def sample_volume_def)

lemma sample_extents: "extents sample_volume sample_memory [(2, 1), (4, 1)]"
  using sample_on_volume
  by (simp add: adjacent_def get_next_cluster_def sample_volume_def sample_memory_def read_u32_def read_u16_def)

lemma sample_driver_memory: "driver_memory sample_frame sample_driver \<subseteq> {0x10000..<0x15000}"
  by (auto simp: driver_memory_def sample_defs)

lemma sample_range: "range_start sample_volume 0 = 0" "range_sectors sample_volume 0 512 = 1"
  by (simp_all add: range_start_def range_sectors_def sample_volume_def)

section \<open>Reading\<close>

context serving_device
begin

lemma provides_block_device:
  "block_device (VirtioBlk_read dev fr) (VirtioBlk_write dev fr) (driver_ready fr) (\<lambda>(b, d). driver_memory fr b) (\<lambda>(b, d). sectors d)"
  by (rule disk_driver.block_device_axioms)

end

lemmas driver_files = block_device.read_file [OF serving_device.provides_block_device]
  block_device.write_read [OF serving_device.provides_block_device]
  block_device.write_contiguous [OF serving_device.provides_block_device]
  block_device.read_fragmented [OF serving_device.provides_block_device]

lemma bytes_from_map: "bytes_from m a n = map (\<lambda>i. m (a + i)) [0..<n]"
proof (induction n arbitrary: a)
  case (Suc n)
  have "[0..<Suc n] = 0 # map Suc [0..<n]" by (simp add: upt_conv_Cons map_Suc_upt)
  then show ?case by (simp add: Suc.IH comp_def)
qed simp

text \<open>The bytes of a file from an offset on, as they lie on the disk.\<close>

definition file_bytes :: "Fat32 \<Rightarrow> 'a Disk_scheme \<Rightarrow> FileInfo \<Rightarrow> usize \<Rightarrow> usize \<Rightarrow> u8 list" where
  "file_bytes fs d f offset len = map (\<lambda>i. sectors d (cluster_address fs (entry_cluster f) + offset + i)) [0..<len]"



section \<open>Writing\<close>



section \<open>Files in several pieces\<close>



section \<open>The directory\<close>

text \<open>The name of an entry: the blanks are left out, and so is a dot at the end.\<close>

definition short_name :: "DirectoryEntry \<Rightarrow> u8 list" where
  "short_name e = (let n0 = entry_name e ! 0;
       s = (if n0 = 0x05 then 0xE5 else n0) # filter (\<lambda>c. c \<noteq> 0x20) (drop 1 (entry_name e)) @ 0x2E # filter (\<lambda>c. c \<noteq> 0x20) (name_extension e)
     in if last s = 0x2E then butlast s else s)"

lemma put_name_eq:
  "length pre = Suc p \<Longrightarrow> length (filter (\<lambda>c. c \<noteq> 0x20) ns) \<le> length suf \<Longrightarrow>
     put_name ns p (pre @ suf) = Some (p + length (filter (\<lambda>c. c \<noteq> 0x20) ns),
       pre @ filter (\<lambda>c. c \<noteq> 0x20) ns @ drop (length (filter (\<lambda>c. c \<noteq> 0x20) ns)) suf)"
proof (induction ns arbitrary: p pre suf)
  case (Cons n ns)
  show ?case
  proof (cases "n = 0x20")
    case False
    then obtain x suf' where suf: "suf = x # suf'" using Cons.prems(2) by (cases suf) auto
    have "(pre @ suf)[p + 1 := n] = (pre @ [n]) @ suf'" using Cons.prems(1) by (simp add: suf list_update_append)
    then show ?thesis using False Cons.IH [of "pre @ [n]" "p + 1" suf'] Cons.prems by (simp add: suf rust_update_def del: rust_update_Some)
  qed (use Cons in simp)
qed simp

theorem get_file_name_total:
  assumes "length (entry_name e) = 8" and "length (name_extension e) = 3"
  shows "get_file_name e (replicate 12 0) = Some (from_utf8 (short_name e))"
proof -
  let ?c = "if entry_name e ! 0 = 0x05 then 0xE5 else entry_name e ! 0"
  let ?a = "filter (\<lambda>c. c \<noteq> 0x20) (drop 1 (entry_name e))" and ?x = "filter (\<lambda>c. c \<noteq> 0x20) (name_extension e)"
  let ?la = "length ?a" and ?lx = "length ?x"
  have l: "?la \<le> 7" "?lx \<le> 3" using assms length_filter_le [of _ "drop 1 (entry_name e)"] length_filter_le [of _ "name_extension e"] by auto
  have b0: "rust_update (replicate 12 0) 0 ?c = Some ([?c] @ replicate 11 0)" by (simp add: rust_update_def del: rust_update_Some) (simp add: eval_nat_numeral)
  have "put_name (drop 1 (entry_name e)) 0 ([?c] @ replicate 11 0) = Some (?la, [?c] @ ?a @ replicate (11 - ?la) 0)"
    using put_name_eq [of "[?c]" 0 "drop 1 (entry_name e)" "replicate 11 0"] l by simp
  moreover have "rust_update ([?c] @ ?a @ replicate (11 - ?la) 0) (?la + 1) 0x2E = Some ((?c # ?a @ [0x2E]) @ replicate (10 - ?la) 0)"
  proof -
    have "replicate (11 - ?la) (0 :: u8) = 0 # replicate (10 - ?la) 0" using l(1) by (simp add: Suc_diff_le flip: replicate_Suc)
    then show ?thesis by (simp add: rust_update_def list_update_append del: rust_update_Some)
  qed
  moreover have "put_name (name_extension e) (?la + 1) ((?c # ?a @ [0x2E]) @ replicate (10 - ?la) 0) =
      Some (?la + 1 + ?lx, (?c # ?a @ [0x2E]) @ ?x @ replicate (10 - ?la - ?lx) 0)"
    using put_name_eq [of "?c # ?a @ [0x2E]" "?la + 1" "name_extension e" "replicate (10 - ?la) 0"] l by simp
  moreover have "rust_nth ((?c # ?a @ [0x2E]) @ ?x @ replicate (10 - ?la - ?lx) 0) (?la + 1 + ?lx) = Some (last (?c # ?a @ 0x2E # ?x))"
    by (cases "?x = []") (auto simp: rust_nth_def nth_append last_conv_nth simp del: rust_nth_Some)
  ultimately show ?thesis
    using b0 assms l unfolding get_file_name_def short_name_def Let_def
    by (auto simp: rust_nth_def rust_update_def take_Cons' butlast_conv_take simp del: rust_nth_Some rust_update_Some)
qed

lemma bytes_from_length [simp]: "length (bytes_from m a n) = n"
  by (induction n arbitrary: a) simp_all

lemma plain_entries: "e \<in> set (plain_files (directory_entries fs m)) \<Longrightarrow> length (entry_name e) = 8 \<and> length (name_extension e) = 3"
proof -
  have "set (plain_files es) \<subseteq> set es" for es by (induction es) auto
  then show "e \<in> set (plain_files (directory_entries fs m)) \<Longrightarrow> length (entry_name e) = 8 \<and> length (name_extension e) = 3"
    by (fastforce simp: directory_entries_def read_entry_def)
qed

definition file_matches :: "nat list \<Rightarrow> DirectoryEntry \<Rightarrow> bool" where
  "file_matches t e = (case from_utf8 (short_name e) of None \<Rightarrow> False | Some n \<Rightarrow> n = t \<or> make_ascii_lowercase n = t)"

text \<open>The search returns the first entry whose name matches, as it is written or in lower case, and never panics.\<close>

theorem search_file_first:
  "search_file fs m t = Some (map_option entry_info (List.find (file_matches t) (plain_files (directory_entries fs m))))"
proof -
  have "search_entries t es = Some (map_option entry_info (List.find (file_matches t) es))"
    if "\<And>e. e \<in> set es \<Longrightarrow> length (entry_name e) = 8 \<and> length (name_extension e) = 3" for es
    using that by (induction es) (auto simp: get_file_name_total file_matches_def split: option.split)
  then show ?thesis using plain_entries by (simp add: search_file_def)
qed

text \<open>A name that is not valid UTF-8 is not listed; this includes every name whose first letter the code restores to \<open>0xE5\<close> when an ASCII letter follows.\<close>

theorem list_files_total: "\<exists>ls. list_files fs m = Some ls \<and>
  ls = concat (map (\<lambda>e. case from_utf8 (short_name e) of None \<Rightarrow> [] | Some n \<Rightarrow> [(n, file_length e)]) (plain_files (directory_entries fs m)))"
proof -
  have "list_entries es = Some (concat (map (\<lambda>e. case from_utf8 (short_name e) of None \<Rightarrow> [] | Some n \<Rightarrow> [(n, file_length e)]) es))"
    if "\<And>e. e \<in> set es \<Longrightarrow> length (entry_name e) = 8 \<and> length (name_extension e) = 3" for es
    using that by (induction es) (auto simp: get_file_name_total split: option.split)
  then show ?thesis using plain_entries by (simp add: list_files_def)
qed

end
