(* ===== verification/GuestDisk.thy ===== *)
theory GuestDisk
  imports Fat32Files
begin

text \<open>
  The disk of a guest from end to end: a request in the guest's queue goes through the emulated device
  (\<open>mmio/virtio_blk.rs\<close>), the volume (\<open>fat32.rs\<close>) and the driver (\<open>drivers/virtio_blk.rs\<close>) to the real disk.
\<close>

section \<open>Requests\<close>

text \<open>A request of three descriptors, with the places of its parts in the memory of the machine.\<close>

record DiskRequest =
  rq_header :: VirtQueueDesc
  rq_data :: VirtQueueDesc
  rq_status :: VirtQueueDesc
  header_place :: usize
  data_place :: usize
  result_place :: usize

definition request_at :: "(usize \<Rightarrow> usize option option) \<Rightarrow> VirtioBlkMmio \<Rightarrow> memory \<Rightarrow> u16 \<Rightarrow> DiskRequest \<Rightarrow> bool" where
  "request_at phys s m i q \<longleftrightarrow>
     (\<exists>j. get_descriptor_id s m i = Some (Some j) \<and> get_descriptor s m j = Some (Some (rq_header q))) \<and>
     desc_length (rq_header q) = 16 \<and> desc_flags (rq_header q) AND VIRT_QUEUE_DESC_FLAGS_NEXT \<noteq> 0 \<and>
     get_descriptor s m (desc_next (rq_header q)) = Some (Some (rq_data q)) \<and> desc_flags (rq_data q) AND VIRT_QUEUE_DESC_FLAGS_NEXT \<noteq> 0 \<and>
     get_descriptor s m (desc_next (rq_data q)) = Some (Some (rq_status q)) \<and> desc_flags (rq_status q) AND VIRT_QUEUE_DESC_FLAGS_NEXT = 0 \<and>
     phys (unat (desc_address (rq_header q))) = Some (Some (header_place q)) \<and> phys (unat (desc_address (rq_data q))) = Some (Some (data_place q)) \<and>
     phys (unat (desc_address (rq_status q))) = Some (Some (result_place q)) \<and>
     unat (desc_length (rq_data q)) + unat (desc_length (rq_status q)) < 2 ^ 32"

text \<open>What the request asks for: its direction, where in the file, and how much.\<close>

definition asks_write :: "memory \<Rightarrow> DiskRequest \<Rightarrow> bool" where
  "asks_write m q \<longleftrightarrow> req_type (read_req m (header_place q)) = VIRTIO_BLK_TYPE_OUT"

definition asked_offset :: "memory \<Rightarrow> DiskRequest \<Rightarrow> usize" where
  "asked_offset m q = unat (push_bit 9 (req_sector (read_req m (header_place q))))"

definition asked_length :: "DiskRequest \<Rightarrow> usize" where
  "asked_length q = unat (desc_length (rq_data q))"

text \<open>The part of the used ring that the device writes for the next request.\<close>

definition used_slot :: "VirtioBlkMmio \<Rightarrow> usize" where
  "used_slot s = used_ring s + (2 * 2 + 8 * unat (used_id s mod word_of_nat (queue_size s)))"

definition used_bytes :: "VirtioBlkMmio \<Rightarrow> usize set" where
  "used_bytes s = {used_ring s + 2..<used_ring s + 4} \<union> {used_slot s..<used_slot s + 8}"

definition used_ok :: "VirtioBlkMmio \<Rightarrow> bool" where
  "used_ok s \<longleftrightarrow> (word_of_nat (queue_size s) :: u16) \<noteq> 0 \<and> unat (used_id s) + 1 < 2 ^ 16 \<and> used_ring s \<noteq> 0 \<and> used_slot s < 2 ^ 64"

lemma write_used_ok:
  assumes "used_ok s"
  obtains m' where "write_used i n s m = Some (s\<lparr>used_id := used_id s + 1\<rparr>, m')" "same_on (- used_bytes s) m m'"
proof -
  let ?a = "used_slot s"
  define m1 where "m1 = write_u32 ?a (ucast i) m"
  define m2 where "m2 = write_u32 (?a + 4) n m1"
  have "same_on (- used_bytes s) m m1" "same_on (- used_bytes s) m1 m2" "same_on (- used_bytes s) m2 (write_u16 (used_ring s + 2) (used_id s + 1) m2)"
    unfolding m1_def m2_def by (rule same_on_mono [OF write_same(2)] same_on_mono [OF write_same(1)], force simp: used_bytes_def)+
  then have "same_on (- used_bytes s) m (write_u16 (used_ring s + 2) (used_id s + 1) m2)" by (meson same_on_trans)
  then show thesis
    using that assms by (simp add: write_used_def used_ok_def used_slot_def ring_index_def u16_inc_def usize_add_def Let_def m1_def m2_def)
qed

section \<open>One request\<close>

text \<open>The device answers a request whose transfer succeeds: the data descriptor is transferred and the status is set.\<close>

lemma operation_request_run:
  assumes rq: "request_at phys s (env_memory env) i q" and used: "used_ok s" and off: "asked_offset (env_memory env) q + asked_length q < 2 ^ 64"
    and tr: "transfer (asks_write (env_memory env) q) (blk_file s) (data_place q) (asked_offset (env_memory env) q) (asked_length q) (env_memory env, env_disk env) =
      Some (Inr n, m1, dk)"
    and st: "get_descriptor s m1 (desc_next (rq_data q)) = Some (Some (rq_status q))"
  obtains m' where "operation_request phys transfer i s env = Some (Inr (), s\<lparr>used_id := used_id s + 1\<rparr>, env\<lparr>env_memory := m', env_disk := dk\<rparr>)"
    "same_on (- used_bytes s) (m1(result_place q := VIRTIO_BLK_S_OK)) m'"
proof -
  let ?m = "env_memory env" and ?env = "env\<lparr>env_memory := m1, env_disk := dk\<rparr>" and ?x = "rq_data q" and ?y = "rq_status q"
  obtain j where r: "get_descriptor_id s ?m i = Some (Some j)" "get_descriptor s ?m j = Some (Some (rq_header q))" "desc_length (rq_header q) = 16"
      "desc_flags (rq_header q) AND VIRT_QUEUE_DESC_FLAGS_NEXT \<noteq> 0" "get_descriptor s ?m (desc_next (rq_header q)) = Some (Some ?x)"
      "desc_flags ?x AND VIRT_QUEUE_DESC_FLAGS_NEXT \<noteq> 0" "desc_flags ?y AND VIRT_QUEUE_DESC_FLAGS_NEXT = 0"
      "phys (unat (desc_address (rq_header q))) = Some (Some (header_place q))" "phys (unat (desc_address ?x)) = Some (Some (data_place q))"
      "phys (unat (desc_address ?y)) = Some (Some (result_place q))" "unat (desc_length ?x) + unat (desc_length ?y) < 2 ^ 32"
    using rq by (auto simp: request_at_def)
  have "io_loop phys transfer w s ?x (desc_length ?x) VIRTIO_BLK_S_OK o' ?env = Some (Inr (?y, desc_length ?x, VIRTIO_BLK_S_OK), ?env)" for w o'
    using st r(7) by (subst io_loop.simps) simp
  moreover have "u32_add 0 (desc_length ?x) = Some (desc_length ?x)" using unsigned_less [of "desc_length ?x"] by (simp add: u32_add_def)
  ultimately have io: "io_loop phys transfer (asks_write ?m q) s (rq_header q) 0 VIRTIO_BLK_S_OK (asked_offset ?m q) env = Some (Inr (?y, desc_length ?x, VIRTIO_BLK_S_OK), ?env)"
    using r(5,6,9) tr off by (subst io_loop.simps) (simp add: asked_length_def usize_add_def)
  obtain m' where w: "write_used j (desc_length ?x + desc_length ?y) s (m1(result_place q := VIRTIO_BLK_S_OK)) = Some (s\<lparr>used_id := used_id s + 1\<rparr>, m')"
      "same_on (- used_bytes s) (m1(result_place q := VIRTIO_BLK_S_OK)) m'"
    by (rule write_used_ok [OF used])
  have "u32_add (desc_length ?x) (desc_length ?y) = Some (desc_length ?x + desc_length ?y)" using r(11) by (simp add: u32_add_def)
  then have "operation_request phys transfer i s env = Some (Inr (), s\<lparr>used_id := used_id s + 1\<rparr>, env\<lparr>env_memory := m', env_disk := dk\<rparr>)"
    using r(1-4,8,10) io w(1) unfolding operation_request_def asks_write_def asked_offset_def by (simp add: Let_def)
  then show thesis using that w(2) by blast
qed

text \<open>
  The parts of a request do not overlap: the data lies apart from the status descriptor, the status byte, the used ring and the
  working memory \<open>D\<close> of the driver, and the latter from the status descriptor.
\<close>

definition descriptor_bytes :: "VirtioBlkMmio \<Rightarrow> u16 \<Rightarrow> usize set" where
  "descriptor_bytes s j = {descriptor s + 16 * unat j..<descriptor s + 16 * unat j + 16}"

definition request_apart :: "VirtioBlkMmio \<Rightarrow> DiskRequest \<Rightarrow> usize set \<Rightarrow> bool" where
  "request_apart s q D \<longleftrightarrow>
     {data_place q..<data_place q + asked_length q} \<inter> (insert (result_place q) (D \<union> used_bytes s \<union> descriptor_bytes s (desc_next (rq_data q)))) = {} \<and>
     descriptor_bytes s (desc_next (rq_data q)) \<inter> D = {} \<and> result_place q \<notin> used_bytes s \<and> data_place q + asked_length q < 2 ^ 64"

lemma get_descriptor_same: "same_on (descriptor_bytes s j) m m' \<Longrightarrow> get_descriptor s m' j = get_descriptor s m j"
  by (auto simp: get_descriptor_def descriptor_bytes_def usize_add_def read_desc_same)

text \<open>The range of the file that is asked for: whole sectors, at an offset at which the code can start.\<close>

definition request_range :: "Fat32 \<Rightarrow> VirtioBlkMmio \<Rightarrow> memory \<Rightarrow> DiskRequest \<Rightarrow> bool" where
  "request_range fs s m q \<longleftrightarrow> (\<exists>N. contiguous fs m (blk_file s) N) \<and> 0 < asked_length q \<and> asked_offset m q + asked_length q \<le> unat (file_size (blk_file s)) \<and>
     range_start fs (asked_offset m q) = asked_offset m q \<and> unat (bytes_per_sector fs) dvd asked_length q"

lemma file_size_bound: "unat (file_size f) < 2 ^ 32"
proof -
  have "unat (file_size f) < 2 ^ LENGTH(32)" by (rule unsigned_less)
  then show ?thesis by simp
qed

text \<open>Where on the disk the range lies.\<close>

definition request_sectors :: "Fat32 \<Rightarrow> VirtioBlkMmio \<Rightarrow> memory \<Rightarrow> DiskRequest \<Rightarrow> nat set" where
  "request_sectors fs s m q = (let a = cluster_address fs (entry_cluster (blk_file s)) + asked_offset m q in {a..<a + asked_length q})"

context block_device
begin

lemma request_read:
  assumes "request_at phys s (env_memory env) i q" and "used_ok s" and "request_apart s q (scratch dk)" and "request_range fs s (env_memory env) q"
    and "\<not> asks_write (env_memory env) q" and "env_disk env = (al, dk)" and "ready (Suc r) (env_memory env, dk)"
  obtains m' dk' where "operation_request phys (fat32_transfer rd wr fs) i s env =
      Some (Inr (), s\<lparr>used_id := used_id s + 1\<rparr>, env\<lparr>env_memory := m', env_disk := (al, dk')\<rparr>)" "content dk' = content dk" "m' (result_place q) = VIRTIO_BLK_S_OK"
    "\<And>k. k < asked_length q \<Longrightarrow> m' (data_place q + k) = content dk (cluster_address fs (entry_cluster (blk_file s)) + asked_offset (env_memory env) q + k)"
proof -
  let ?m = "env_memory env" and ?a = "data_place q" and ?n = "asked_length q" and ?o = "asked_offset (env_memory env) q"
  obtain N where g: "contiguous fs ?m (blk_file s) N" "0 < ?n" "?o + ?n \<le> unat (file_size (blk_file s))" "range_start fs ?o = ?o" "unat (bytes_per_sector fs) dvd ?n"
    using assms(4) by (auto simp: request_range_def)
  have n: "range_sectors fs ?o ?n * unat (bytes_per_sector fs) = ?n"
    using g whole_sectors [of fs ?o ?n] by (simp add: contiguous_def volume_ok_def)
  have ap: "{?a..<?a + ?n} \<inter> scratch dk = {}" "{?a..<?a + ?n} \<inter> descriptor_bytes s (desc_next (rq_data q)) = {}"
      "descriptor_bytes s (desc_next (rq_data q)) \<inter> scratch dk = {}" "{?a..<?a + ?n} \<inter> insert (result_place q) (used_bytes s) = {}"
      "result_place q \<notin> used_bytes s" "?a + ?n < 2 ^ 64"
    using assms(3) by (auto simp: request_apart_def)
  obtain m1 dk' where o: "Fat32_read rd fs (blk_file s) ?a ?o ?n (?m, al, dk) = Some (Inr ?n, m1, al, dk')" "content dk' = content dk"
      "\<forall>x. x \<notin> scratch dk \<longrightarrow> m1 x = (if x \<in> {?a..<?a + ?n} then content dk (cluster_address fs (entry_cluster (blk_file s)) + ?o + (x - ?a)) else ?m x)"
    using read_contiguous [OF g(1-4) assms(7), of ?a al] ap(1,6) unfolding n by blast
  have "same_on (descriptor_bytes s (desc_next (rq_data q))) ?m m1" unfolding same_on_def
  proof
    fix x assume "x \<in> descriptor_bytes s (desc_next (rq_data q))"
    then have "x \<notin> scratch dk" "x \<notin> {?a..<?a + ?n}" using ap(2,3) by blast+
    then show "m1 x = ?m x" using o(3) by auto
  qed
  then have st: "get_descriptor s m1 (desc_next (rq_data q)) = Some (Some (rq_status q))"
    using assms(1) get_descriptor_same by (auto simp: request_at_def)
  have b: "?o + ?n < 2 ^ 64" using g(3) file_size_bound [of "blk_file s"] by simp
  have tr: "fat32_transfer rd wr fs (asks_write ?m q) (blk_file s) ?a ?o ?n (?m, env_disk env) = Some (Inr ?n, m1, al, dk')"
    using assms(5,6) o(1) by (simp add: fat32_transfer_def)
  obtain m' where m': "operation_request phys (fat32_transfer rd wr fs) i s env =
      Some (Inr (), s\<lparr>used_id := used_id s + 1\<rparr>, env\<lparr>env_memory := m', env_disk := (al, dk')\<rparr>)" "same_on (- used_bytes s) (m1(result_place q := VIRTIO_BLK_S_OK)) m'"
    by (rule operation_request_run [where transfer = "fat32_transfer rd wr fs", OF assms(1,2) b tr st])
  have "m' (?a + k) = content dk (cluster_address fs (entry_cluster (blk_file s)) + ?o + k)" if "k < ?n" for k
  proof -
    have k: "?a + k \<in> {?a..<?a + ?n}" using that by simp
    then have "?a + k \<notin> used_bytes s" "?a + k \<noteq> result_place q" "?a + k \<notin> scratch dk" using ap(1,4) by blast+
    then show ?thesis using m'(2) o(3) k by (simp add: same_on_def)
  qed
  moreover have "m' (result_place q) = VIRTIO_BLK_S_OK" using m'(2) ap(5) by (simp add: same_on_def)
  ultimately show thesis using that m'(1) o(2) by blast
qed

lemma request_write:
  assumes "request_at phys s (env_memory env) i q" and "used_ok s" and "request_apart s q (scratch dk)" and "request_range fs s (env_memory env) q"
    and "asks_write (env_memory env) q" and "env_disk env = (al, dk)" and "ready (Suc r) (env_memory env, dk)"
  obtains m' dk' where "operation_request phys (fat32_transfer rd wr fs) i s env =
      Some (Inr (), s\<lparr>used_id := used_id s + 1\<rparr>, env\<lparr>env_memory := m', env_disk := (al, dk')\<rparr>)" "m' (result_place q) = VIRTIO_BLK_S_OK"
    "content dk' = (let a = cluster_address fs (entry_cluster (blk_file s)) + asked_offset (env_memory env) q
       in (\<lambda>x. if x \<in> {a..<a + asked_length q} then env_memory env (data_place q + (x - a)) else content dk x))"
proof -
  let ?m = "env_memory env" and ?a = "data_place q" and ?n = "asked_length q" and ?o = "asked_offset (env_memory env) q"
  obtain N where g: "contiguous fs ?m (blk_file s) N" "0 < ?n" "?o + ?n \<le> unat (file_size (blk_file s))" "range_start fs ?o = ?o" "unat (bytes_per_sector fs) dvd ?n"
    using assms(4) by (auto simp: request_range_def)
  have ap: "{?a..<?a + ?n} \<inter> scratch dk = {}" "descriptor_bytes s (desc_next (rq_data q)) \<inter> scratch dk = {}" "result_place q \<notin> used_bytes s" "?a + ?n < 2 ^ 64"
    using assms(3) by (auto simp: request_apart_def)
  obtain m1 dk' where o: "Fat32_write wr fs (blk_file s) ?a ?o ?n (?m, dk) = Some (Inr ?n, m1, dk')" "\<forall>x. x \<notin> scratch dk \<longrightarrow> m1 x = ?m x"
      "content dk' = (let a = cluster_address fs (entry_cluster (blk_file s)) + ?o in (\<lambda>x. if x \<in> {a..<a + ?n} then ?m (?a + (x - a)) else content dk x))"
    using write_contiguous [OF g assms(7) ap(4,1)] unfolding Let_def by blast
  have "same_on (descriptor_bytes s (desc_next (rq_data q))) ?m m1" using o(2) ap(2) by (auto simp: same_on_def)
  then have st: "get_descriptor s m1 (desc_next (rq_data q)) = Some (Some (rq_status q))"
    using assms(1) get_descriptor_same by (auto simp: request_at_def)
  have b: "?o + ?n < 2 ^ 64" using g(3) file_size_bound [of "blk_file s"] by simp
  have tr: "fat32_transfer rd wr fs (asks_write ?m q) (blk_file s) ?a ?o ?n (?m, env_disk env) = Some (Inr ?n, m1, al, dk')"
    using assms(5,6) o(1) by (simp add: fat32_transfer_def)
  obtain m' where m': "operation_request phys (fat32_transfer rd wr fs) i s env =
      Some (Inr (), s\<lparr>used_id := used_id s + 1\<rparr>, env\<lparr>env_memory := m', env_disk := (al, dk')\<rparr>)" "same_on (- used_bytes s) (m1(result_place q := VIRTIO_BLK_S_OK)) m'"
    by (rule operation_request_run [where transfer = "fat32_transfer rd wr fs", OF assms(1,2) b tr st])
  have "m' (result_place q) = VIRTIO_BLK_S_OK" using m'(2) ap(3) by (simp add: same_on_def)
  then show thesis using that m'(1) o(3) by blast
qed

end

section \<open>The disk of a guest\<close>


text \<open>The queue of a guest at \<open>0x1000\<close> with a request to read the first sector of its file to \<open>0x100000\<close>.\<close>

definition guest_memory :: memory where
  "guest_memory = (\<lambda>_. 0)(0x1001 := 0x18, 0x1008 := 16, 0x100c := 1, 0x100e := 1, 0x1012 := 0x10, 0x1019 := 2, 0x101c := 1, 0x101e := 2,
     0x1021 := 0x19, 0x1028 := 1)"

definition guest_blk :: VirtioBlkMmio where
  "guest_blk = sample_blk\<lparr>blk_file := \<lparr>entry_cluster = 2, file_size = 512\<rparr>\<rparr>"

definition guest_request :: DiskRequest where
  "guest_request = \<lparr>rq_header = read_desc guest_memory 0x1000, rq_data = read_desc guest_memory 0x1010, rq_status = read_desc guest_memory 0x1020,
     header_place = 0x1800, data_place = 0x100000, result_place = 0x1900\<rparr>"

definition guest_env :: "(MemoryAllocator \<times> VirtioBlk \<times> Disk) BlkEnv" where
  "guest_env = \<lparr>env_memory = guest_memory, env_disk = (MemoryAllocator_new, sample_driver, sample_disk), env_distributor = sample_gicd, env_cpu = sample_cpu\<rparr>"

lemma guest_descriptors:
  "read_desc guest_memory 0x1000 = \<lparr>desc_address = 0x1800, desc_length = 16, desc_flags = 1, desc_next = 1\<rparr>"
  "read_desc guest_memory 0x1010 = \<lparr>desc_address = 0x100000, desc_length = 512, desc_flags = 1, desc_next = 2\<rparr>"
  "read_desc guest_memory 0x1020 = \<lparr>desc_address = 0x1900, desc_length = 1, desc_flags = 0, desc_next = 0\<rparr>"
  by (simp_all add: read_desc_def read_u64_def read_u32_def read_u16_def guest_memory_def)

lemma guest_asks: "\<not> asks_write guest_memory guest_request" "asked_offset guest_memory guest_request = 0" "asked_length guest_request = 512"
proof -
  have "read_req guest_memory 0x1800 = \<lparr>req_type = 0, req_reserved = 0, req_sector = 0\<rparr>"
    by (simp add: read_req_def read_u64_def read_u32_def read_u16_def guest_memory_def)
  then show "\<not> asks_write guest_memory guest_request" "asked_offset guest_memory guest_request = 0"
    by (simp_all add: asks_write_def asked_offset_def guest_request_def VIRTIO_BLK_TYPE_OUT_def)
  show "asked_length guest_request = 512" by (simp add: asked_length_def guest_request_def guest_descriptors)
qed

lemma guest_request_at: "request_at sample_phys guest_blk guest_memory 0 guest_request"
proof -
  have "read_u16 guest_memory 0x1084 = 0" by (simp add: read_u16_def guest_memory_def)
  then show ?thesis
    by (simp add: request_at_def get_descriptor_id_def get_descriptor_def guest_blk_def sample_blk_def usize_add_def guest_request_def guest_descriptors
      sample_phys_def VIRT_QUEUE_DESC_FLAGS_NEXT_def)
qed

lemma guest_apart: "request_apart guest_blk guest_request (driver_memory sample_frame sample_driver)" "used_ok guest_blk"
proof -
  have u: "used_slot guest_blk = 0x2004" "used_ring guest_blk = 0x2000" "descriptor guest_blk = 0x1000" by (simp_all add: used_slot_def guest_blk_def sample_blk_def)
  then show "used_ok guest_blk" by (simp add: used_ok_def) (simp add: guest_blk_def sample_blk_def)
  show "request_apart guest_blk guest_request (driver_memory sample_frame sample_driver)"
    unfolding request_apart_def used_bytes_def descriptor_bytes_def u guest_asks
    using sample_driver_memory by (force simp: guest_request_def guest_descriptors)
qed


end
