(* ===== verification/Gicv3.thy ===== *)
theory Gicv3
  imports Asm Memory
begin

text \<open>
  The driver of the interrupt controller of the machine, \<open>src/src/drivers/gicv3.rs\<close>, and its
  use for the interrupts of the hypervisor, \<open>init_vgic\<close> of \<open>src/src/vgic.rs\<close> and
  \<open>init_generic_timer_local\<close> of \<open>src/src/drivers/generic_timer.rs\<close>. The controller is an
  argument: how it answers a read and what an access does to it.
\<close>

section \<open>Registers\<close>

record 'g GicDevice =
  gic_read :: "usize \<Rightarrow> 'g \<Rightarrow> u32 \<times> 'g"
  gic_write :: "usize \<Rightarrow> u32 \<Rightarrow> 'g \<Rightarrow> 'g"
  gic_read64 :: "usize \<Rightarrow> 'g \<Rightarrow> u64 \<times> 'g"
  gic_write64 :: "usize \<Rightarrow> u64 \<Rightarrow> 'g \<Rightarrow> 'g"

text \<open>The registers of the processor interface that only the initialisation accesses, with the bits of \<open>ICC_SRE_EL2\<close> that exist.\<close>

record Icc =
  icc_sre_bits :: u64
  icc_sre_el2 :: u64
  icc_pmr_el1 :: u64
  icc_bpr1_el1 :: u64
  icc_igrpen1_el1 :: u64

definition get_icc_sre_el2 :: "Icc \<Rightarrow> u64" where "get_icc_sre_el2 c = icc_sre_el2 c"
definition set_icc_sre_el2 :: "u64 \<Rightarrow> Icc \<Rightarrow> Icc" where "set_icc_sre_el2 v c = c\<lparr>icc_sre_el2 := v AND icc_sre_bits c\<rparr>"
definition set_icc_pmr_el1 :: "u64 \<Rightarrow> Icc \<Rightarrow> Icc" where "set_icc_pmr_el1 v c = c\<lparr>icc_pmr_el1 := v\<rparr>"
definition set_icc_bpr1_el1 :: "u64 \<Rightarrow> Icc \<Rightarrow> Icc" where "set_icc_bpr1_el1 v c = c\<lparr>icc_bpr1_el1 := v\<rparr>"
definition set_icc_igrpen1_el1 :: "u64 \<Rightarrow> Icc \<Rightarrow> Icc" where "set_icc_igrpen1_el1 v c = c\<lparr>icc_igrpen1_el1 := v\<rparr>"

definition DTB_GIC_LEVEL :: u32 where "DTB_GIC_LEVEL = 4"
definition DTB_GIC_SPI :: u32 where "DTB_GIC_SPI = 0"
definition DTB_GIC_PPI :: u32 where "DTB_GIC_PPI = 1"
definition GIC_PPI_BASE :: u32 where "GIC_PPI_BASE = 16"
definition GIC_SPI_BASE :: u32 where "GIC_SPI_BASE = 32"
definition HW_GICD_MMIO_SIZE :: usize where "HW_GICD_MMIO_SIZE = 0x10000"
definition HW_GICD_CTLR :: usize where "HW_GICD_CTLR = 0x00"
definition HW_GICD_CTLR_RWP :: u32 where "HW_GICD_CTLR_RWP = push_bit 31 1"
definition HW_GICD_CTLR_ARE :: u32 where "HW_GICD_CTLR_ARE = push_bit 5 1"
definition HW_GICD_CTLR_ENABLE_GRP1NS :: u32 where "HW_GICD_CTLR_ENABLE_GRP1NS = push_bit 1 1"
definition HW_GICD_IGROUPR :: usize where "HW_GICD_IGROUPR = 0x0080"
definition HW_GICD_ISENABLER :: usize where "HW_GICD_ISENABLER = 0x0100"
definition HW_GICD_ICENABLER :: usize where "HW_GICD_ICENABLER = 0x0180"
definition HW_GICD_ISPENDR :: usize where "HW_GICD_ISPENDR = 0x0200"
definition HW_GICD_ICPENDR :: usize where "HW_GICD_ICPENDR = 0x0280"
definition HW_GICD_IPRIORITYR :: usize where "HW_GICD_IPRIORITYR = 0x0400"
definition HW_GICD_ICFGR :: usize where "HW_GICD_ICFGR = 0x0C00"
definition HW_GICD_IGRPMODR :: usize where "HW_GICD_IGRPMODR = 0x0D00"
definition HW_GICD_IROUTER :: usize where "HW_GICD_IROUTER = 0x6100"
definition HW_GICR_MMIO_SIZE :: usize where "HW_GICR_MMIO_SIZE = 0x20000"
definition DEFAULT_PRIORITY :: u8 where "DEFAULT_PRIORITY = 0xff"
definition DEFAULT_BINARY_POINT :: u8 where "DEFAULT_BINARY_POINT = 0x03"
definition ICC_SRE_SRE :: u64 where "ICC_SRE_SRE = 1"
definition ICC_IGRPEN1_EN :: u64 where "ICC_IGRPEN1_EN = 1"
definition HW_GICR_CTLR :: usize where "HW_GICR_CTLR = 0x00"
definition HW_GICR_CTLR_RWP :: u32 where "HW_GICR_CTLR_RWP = push_bit 3 1"
definition HW_GICR_TYPER :: usize where "HW_GICR_TYPER = 0x08"
definition HW_GICR_WAKER :: usize where "HW_GICR_WAKER = 0x0014"
definition HW_GICR_WAKER_CHILDREN_ASLEEP :: u32 where "HW_GICR_WAKER_CHILDREN_ASLEEP = push_bit 2 1"
definition HW_GICR_WAKER_PROCESSOR_SLEEP :: u32 where "HW_GICR_WAKER_PROCESSOR_SLEEP = push_bit 1 1"
definition HW_GICR_IGROUPR0 :: usize where "HW_GICR_IGROUPR0 = 0x10000 + 0x0080"
definition HW_GICR_IPRIORITYR_BASE :: usize where "HW_GICR_IPRIORITYR_BASE = 0x10000 + 0x0400"
definition HW_GICR_IGRPMODR0 :: usize where "HW_GICR_IGRPMODR0 = 0x10000 + 0x0D00"
definition HW_GICR_ISENABLER0 :: usize where "HW_GICR_ISENABLER0 = 0x10000 + 0x0100"
definition HW_GICR_ICENABLER0 :: usize where "HW_GICR_ICENABLER0 = 0x10000 + 0x0180"
definition HW_GICR_ICFGR0 :: usize where "HW_GICR_ICFGR0 = 0x10000 + 0x0C00"

section \<open>Access\<close>

definition gic_read_register :: "'g GicDevice \<Rightarrow> usize \<Rightarrow> usize \<Rightarrow> 'g \<Rightarrow> (u32 \<times> 'g) option" where
  "gic_read_register dev base r g = do { a \<leftarrow> usize_add base r; Some (gic_read dev a g) }"

definition gic_write_register :: "'g GicDevice \<Rightarrow> usize \<Rightarrow> usize \<Rightarrow> u32 \<Rightarrow> 'g \<Rightarrow> 'g option" where
  "gic_write_register dev base r v g = do { a \<leftarrow> usize_add base r; Some (gic_write dev a v g) }"

definition modify_register :: "'g GicDevice \<Rightarrow> usize \<Rightarrow> usize \<Rightarrow> (u32 \<Rightarrow> u32) \<Rightarrow> 'g \<Rightarrow> 'g option" where
  "modify_register dev base r f g = do {
     (v, g1) \<leftarrow> gic_read_register dev base r g;
     gic_write_register dev base r (f v) g1 }"

text \<open>The wait loops: until the bits read as zero.\<close>

partial_function (option) wait_clear :: "'g GicDevice \<Rightarrow> usize \<Rightarrow> usize \<Rightarrow> u32 \<Rightarrow> 'g \<Rightarrow> 'g option" where
  "wait_clear dev base r bits g =
     Option.bind (gic_read_register dev base r g) (\<lambda>x. if fst x AND bits \<noteq> 0 then wait_clear dev base r bits (snd x) else Some (snd x))"

text \<open>A field of a register: the bits of the mask at the offset are replaced.\<close>

definition put_field :: "u32 \<Rightarrow> nat \<Rightarrow> u32 \<Rightarrow> u32 \<Rightarrow> u32" where
  "put_field bits off x v = (v AND NOT (push_bit off bits)) OR push_bit off x"

text \<open>\<open>1 << n\<close>, which panics when \<open>n\<close> is not less than 32.\<close>

definition u32_bit :: "u32 \<Rightarrow> u32 option" where
  "u32_bit n = (if unat n < 32 then Some (push_bit (unat n) 1) else None)"

section \<open>Fields of an interrupt\<close>

text \<open>The three settings that the distributor and the redistributor share, by the place of their registers.\<close>

definition put_priority :: "'g GicDevice \<Rightarrow> usize \<Rightarrow> usize \<Rightarrow> u32 \<Rightarrow> u8 \<Rightarrow> 'g \<Rightarrow> 'g option" where
  "put_priority dev base r int_id priority =
     modify_register dev base (r + unat (drop_bit 2 int_id) * 4) (put_field 0xFF (unat (push_bit 3 (int_id AND 0b11))) (ucast priority))"

definition put_trigger_mode :: "'g GicDevice \<Rightarrow> usize \<Rightarrow> usize \<Rightarrow> u32 \<Rightarrow> bool \<Rightarrow> 'g \<Rightarrow> 'g option" where
  "put_trigger_mode dev base r int_id is_level_trigger =
     modify_register dev base (r + unat (int_id div 16) * 4)
       (put_field 0x03 (unat ((int_id AND 15) * 2)) (push_bit 1 (if is_level_trigger then 0 else 1)))"

section \<open>The distributor\<close>

record GicDistributor =
  gicd_base_address :: usize

definition GicDistributor_new :: "usize \<Rightarrow> usize \<Rightarrow> unit + GicDistributor" where
  "GicDistributor_new base sz = (if sz \<noteq> HW_GICD_MMIO_SIZE then Inl () else Inr \<lparr>gicd_base_address = base\<rparr>)"

definition GicDistributor_init :: "'g GicDevice \<Rightarrow> GicDistributor \<Rightarrow> 'g \<Rightarrow> 'g option" where
  "GicDistributor_init dev d g = do {
     g1 \<leftarrow> gic_write_register dev (gicd_base_address d) HW_GICD_CTLR HW_GICD_CTLR_ARE g;
     g2 \<leftarrow> wait_clear dev (gicd_base_address d) HW_GICD_CTLR HW_GICD_CTLR_RWP g1;
     gic_write_register dev (gicd_base_address d) HW_GICD_CTLR (HW_GICD_CTLR_ARE OR HW_GICD_CTLR_ENABLE_GRP1NS) g2 }"

definition gicd_set_priority :: "'g GicDevice \<Rightarrow> GicDistributor \<Rightarrow> u32 \<Rightarrow> u8 \<Rightarrow> 'g \<Rightarrow> 'g option" where
  "gicd_set_priority dev d = put_priority dev (gicd_base_address d) HW_GICD_IPRIORITYR"

definition gicd_set_group :: "'g GicDevice \<Rightarrow> GicDistributor \<Rightarrow> u32 \<Rightarrow> 'g \<Rightarrow> 'g option" where
  "gicd_set_group dev d int_id g = do {
     let i = unat (int_id div 32) * 4;
     let off = unat (int_id AND 31);
     g1 \<leftarrow> modify_register dev (gicd_base_address d) (HW_GICD_IGROUPR + i) (put_field 1 off 1) g;
     modify_register dev (gicd_base_address d) (HW_GICD_IGRPMODR + i) (put_field 1 off 0) g1 }"

definition gicd_set_enable :: "'g GicDevice \<Rightarrow> GicDistributor \<Rightarrow> u32 \<Rightarrow> bool \<Rightarrow> 'g \<Rightarrow> 'g option" where
  "gicd_set_enable dev d int_id enable =
     gic_write_register dev (gicd_base_address d) ((if enable then HW_GICD_ISENABLER else HW_GICD_ICENABLER) + unat (int_id div 32) * 4)
       (push_bit (unat (int_id AND 31)) 1)"

definition gicd_set_pending :: "'g GicDevice \<Rightarrow> GicDistributor \<Rightarrow> u32 \<Rightarrow> bool \<Rightarrow> 'g \<Rightarrow> 'g option" where
  "gicd_set_pending dev d int_id pending =
     modify_register dev (gicd_base_address d) ((if pending then HW_GICD_ISPENDR else HW_GICD_ICPENDR) + unat (int_id div 32) * 4)
       (\<lambda>v. v OR push_bit (unat (int_id AND 31)) 1)"

definition gicd_set_trigger_mode :: "'g GicDevice \<Rightarrow> GicDistributor \<Rightarrow> u32 \<Rightarrow> bool \<Rightarrow> 'g \<Rightarrow> 'g option" where
  "gicd_set_trigger_mode dev d = put_trigger_mode dev (gicd_base_address d) HW_GICD_ICFGR"

text \<open>The routing mode is not implemented, which is a panic.\<close>

definition gicd_set_routing :: "'g GicDevice \<Rightarrow> GicDistributor \<Rightarrow> u32 \<Rightarrow> bool \<Rightarrow> u64 \<Rightarrow> 'g \<Rightarrow> 'g option" where
  "gicd_set_routing dev d int_id is_routing_mode mpidr g =
     (if is_routing_mode then None
      else do {
        a \<leftarrow> usize_add (gicd_base_address d) (HW_GICD_IROUTER + unat int_id * 8);
        Some (gic_write64 dev a (mpidr_to_affinity mpidr) g) })"

section \<open>The redistributor\<close>

record GicRedistributor =
  gicr_base_address :: usize

definition GicRedistributor_new :: "usize \<Rightarrow> GicRedistributor" where
  "GicRedistributor_new base = \<lparr>gicr_base_address = base\<rparr>"

definition get_affinity :: "'g GicDevice \<Rightarrow> GicRedistributor \<Rightarrow> 'g \<Rightarrow> (u32 \<times> 'g) option" where
  "get_affinity dev r g = do {
     a \<leftarrow> usize_add (gicr_base_address r) HW_GICR_TYPER;
     (let (v, g1) = gic_read64 dev a g in Some (ucast (drop_bit 32 v), g1)) }"

definition set_priority_mask :: "u8 \<Rightarrow> Icc \<Rightarrow> Icc" where "set_priority_mask p c = set_icc_pmr_el1 (ucast p) c"
definition set_binary_point :: "u8 \<Rightarrow> Icc \<Rightarrow> Icc" where "set_binary_point point c = set_icc_bpr1_el1 (ucast point) c"

definition GicRedistributor_init :: "'g GicDevice \<Rightarrow> GicRedistributor \<Rightarrow> 'g \<times> Icc \<Rightarrow> ('g \<times> Icc) option" where
  "GicRedistributor_init dev r = (\<lambda>(g, c). do {
     let c1 = set_icc_sre_el2 (get_icc_sre_el2 c OR ICC_SRE_SRE) c;
     _ \<leftarrow> rust_assert (get_icc_sre_el2 c1 AND ICC_SRE_SRE \<noteq> 0);
     g1 \<leftarrow> wait_clear dev (gicr_base_address r) HW_GICR_CTLR HW_GICR_CTLR_RWP g;
     g2 \<leftarrow> modify_register dev (gicr_base_address r) HW_GICR_WAKER (\<lambda>v. v AND NOT HW_GICR_WAKER_PROCESSOR_SLEEP) g1;
     g3 \<leftarrow> wait_clear dev (gicr_base_address r) HW_GICR_WAKER HW_GICR_WAKER_CHILDREN_ASLEEP g2;
     Some (g3, set_icc_igrpen1_el1 ICC_IGRPEN1_EN (set_binary_point DEFAULT_BINARY_POINT (set_priority_mask DEFAULT_PRIORITY c1))) })"

definition gicr_set_priority :: "'g GicDevice \<Rightarrow> GicRedistributor \<Rightarrow> u32 \<Rightarrow> u8 \<Rightarrow> 'g \<Rightarrow> 'g option" where
  "gicr_set_priority dev r = put_priority dev (gicr_base_address r) HW_GICR_IPRIORITYR_BASE"

definition gicr_set_group :: "'g GicDevice \<Rightarrow> GicRedistributor \<Rightarrow> u32 \<Rightarrow> 'g \<Rightarrow> 'g option" where
  "gicr_set_group dev r int_id g = do {
     _ \<leftarrow> u32_bit int_id;
     g1 \<leftarrow> modify_register dev (gicr_base_address r) HW_GICR_IGROUPR0 (put_field 1 (unat int_id) 1) g;
     modify_register dev (gicr_base_address r) HW_GICR_IGRPMODR0 (put_field 1 (unat int_id) 0) g1 }"

definition gicr_set_enable :: "'g GicDevice \<Rightarrow> GicRedistributor \<Rightarrow> u32 \<Rightarrow> bool \<Rightarrow> 'g \<Rightarrow> 'g option" where
  "gicr_set_enable dev r int_id enable g = do {
     b \<leftarrow> u32_bit int_id;
     gic_write_register dev (gicr_base_address r) (if enable then HW_GICR_ISENABLER0 else HW_GICR_ICENABLER0) b g }"

definition gicr_set_trigger_mode :: "'g GicDevice \<Rightarrow> GicRedistributor \<Rightarrow> u32 \<Rightarrow> bool \<Rightarrow> 'g \<Rightarrow> 'g option" where
  "gicr_set_trigger_mode dev r = put_trigger_mode dev (gicr_base_address r) HW_GICR_ICFGR0"

text \<open>The redistributor of this processor among those of the controller.\<close>

function find_redistributor :: "'g GicDevice \<Rightarrow> u32 \<Rightarrow> usize \<Rightarrow> usize \<Rightarrow> 'g \<Rightarrow> ((unit + GicRedistributor) \<times> 'g) option" where
  "find_redistributor dev affinity limit base g =
     (if base < limit
      then case get_affinity dev (GicRedistributor_new base) g of
          None \<Rightarrow> None
        | Some (a, g1) \<Rightarrow>
            (if a = affinity then Some (Inr (GicRedistributor_new base), g1)
             else case usize_add base HW_GICR_MMIO_SIZE of None \<Rightarrow> None | Some b \<Rightarrow> find_redistributor dev affinity limit b g1)
      else Some (Inl (), g))"
  by pat_completeness auto
termination by (relation "measure (\<lambda>(dev, affinity, limit, base, g). limit - base)") (auto simp: HW_GICR_MMIO_SIZE_def)

declare find_redistributor.simps [simp del]

definition get_self_redistributor :: "'g GicDevice \<Rightarrow> Cpu \<Rightarrow> usize \<Rightarrow> usize \<Rightarrow> 'g \<Rightarrow> ((unit + GicRedistributor) \<times> 'g) option" where
  "get_self_redistributor dev c base len g = do {
     limit \<leftarrow> usize_add base len;
     find_redistributor dev (get_packed_affinity c) limit base g }"

section \<open>Properties\<close>

text \<open>The field of \<open>w\<close> bits at an offset. Replacing it leaves the other fields alone.\<close>

definition field_at :: "nat \<Rightarrow> nat \<Rightarrow> u32 \<Rightarrow> u32" where
  "field_at off w v = take_bit w (drop_bit off v)"

lemma field_put:
  assumes "off + w \<le> 32"
  shows "field_at off w (put_field (mask w) off (take_bit w x) v) = take_bit w x"
    and "off' + w \<le> off \<or> off + w \<le> off' \<Longrightarrow> field_at off' w (put_field (mask w) off (take_bit w x) v) = field_at off' w v"
proof -
  show "field_at off w (put_field (mask w) off (take_bit w x) v) = take_bit w x"
    using assms by (intro bit_word_eqI) (auto simp: field_at_def put_field_def bit_simps)
  show "field_at off' w (put_field (mask w) off (take_bit w x) v) = field_at off' w v" if "off' + w \<le> off \<or> off + w \<le> off'"
    using that by (intro bit_word_eqI) (auto simp: field_at_def put_field_def bit_simps dest: bit_imp_le_length)
qed

text \<open>Registers that hold what was written to them last.\<close>

definition plain_registers :: "'g GicDevice \<Rightarrow> ('g \<Rightarrow> usize \<Rightarrow> u32) \<Rightarrow> usize set \<Rightarrow> bool" where
  "plain_registers dev regs A \<longleftrightarrow> (\<forall>a \<in> A. \<forall>g v. gic_read dev a g = (regs g a, g) \<and> regs (gic_write dev a v g) = (regs g)(a := v))"

lemma modify_plain:
  assumes "plain_registers dev regs A" and "base + r \<in> A" and "base + r < 2 ^ 64"
  shows "\<exists>g'. modify_register dev base r f g = Some g' \<and> regs g' = (regs g)(base + r := f (regs g (base + r)))"
  using assms by (simp add: modify_register_def gic_read_register_def gic_write_register_def plain_registers_def usize_add_def)

definition priority_of :: "(usize \<Rightarrow> u32) \<Rightarrow> usize \<Rightarrow> u32 \<Rightarrow> u32" where
  "priority_of m a i = field_at (8 * (unat i mod 4)) 8 (m (a + unat i div 4 * 4))"

text \<open>Setting a priority changes that of the given interrupt and of no other.\<close>

theorem put_priority_correct:
  assumes "plain_registers dev regs A" and "base + r + unat int_id div 4 * 4 \<in> A" and "base + r + unat int_id div 4 * 4 < 2 ^ 64"
  shows "\<exists>g'. put_priority dev base r int_id p g = Some g' \<and>
    (\<forall>j. priority_of (regs g') (base + r) j = (if j = int_id then ucast p else priority_of (regs g) (base + r) j))"
proof -
  let ?i = "unat int_id div 4 * 4" and ?off = "8 * (unat int_id mod 4)"
  have idx: "unat (drop_bit 2 int_id) * 4 = ?i" by (simp add: drop_bit_eq_div unat_div)
  have off: "unat (push_bit 3 (int_id AND 0b11)) = ?off"
  proof -
    have "int_id AND 0b11 = take_bit 2 int_id" by (simp add: take_bit_eq_mask mask_eq_exp_minus_1)
    then have "unat (int_id AND 0b11) = unat int_id mod 4" by (simp add: unsigned_take_bit_eq take_bit_eq_mod unat_mod)
    then show ?thesis by (simp add: push_bit_eq_mult unat_word_ariths)
  qed
  have p: "mask 8 = (0xFF :: u32)" "take_bit 8 (ucast p :: u32) = ucast p"
    by (simp add: mask_eq_exp_minus_1) (rule bit_word_eqI, auto simp: bit_simps dest: bit_imp_le_length)
  obtain g' where g': "put_priority dev base r int_id p g = Some g'"
      "regs g' = (regs g)(base + (r + ?i) := put_field 0xFF ?off (ucast p) (regs g (base + (r + ?i))))"
    using modify_plain [OF assms(1), of base "r + ?i" "put_field 0xFF ?off (ucast p)" g] assms(2,3) unfolding put_priority_def idx off by (auto simp: add.assoc)
  have le: "?off + 8 \<le> 32" using mod_less_divisor [of 4 "unat int_id"] by linarith
  note f = field_put [OF le, where x = "ucast p", unfolded p]
  have "priority_of (regs g') (base + r) j = (if j = int_id then ucast p else priority_of (regs g) (base + r) j)" for j
  proof (cases "unat j div 4 = unat int_id div 4")
    case True
    then show ?thesis
    proof (cases "j = int_id")
      case False
      then have "unat j \<noteq> unat int_id" by (simp add: word_unat_eq_iff)
      then have "unat j mod 4 \<noteq> unat int_id mod 4" using True by (metis div_mult_mod_eq)
      then have "8 * (unat j mod 4) + 8 \<le> ?off \<or> ?off + 8 \<le> 8 * (unat j mod 4)" by linarith
      then show ?thesis using False True f(2) [of "8 * (unat j mod 4)"] by (simp add: priority_of_def g'(2) add.assoc)
    qed (simp add: priority_of_def g'(2) add.assoc f(1))
  next
    case False
    then have "j \<noteq> int_id" by auto
    then show ?thesis using False by (simp add: priority_of_def g'(2) add.assoc)
  qed
  then show ?thesis using g'(1) by blast
qed

text \<open>
  Clearing the pending state of one interrupt clears that of all interrupts in the same register: the code writes back
  what it has read from \<open>GICD_ICPENDR\<close>, which shows the pending interrupts and clears every one written as one.
\<close>

theorem gicd_set_pending_clears_all:
  fixes dev :: "'g GicDevice" and pending :: "'g \<Rightarrow> u32"
  assumes "gicd_base_address d + (HW_GICD_ICPENDR + unat (int_id div 32) * 4) = a" and "a < 2 ^ 64"
    and "\<And>g. gic_read dev a g = (pending g, g)" and "\<And>v g. pending (gic_write dev a v g) = pending g AND NOT v"
  shows "\<exists>g'. gicd_set_pending dev d int_id False g = Some g' \<and> pending g' = 0"
proof -
  have "p AND NOT (p OR q) = 0" for p q :: u32 by (rule bit_word_eqI) (simp add: bit_simps)
  then show ?thesis
    using assms by (simp add: gicd_set_pending_def modify_register_def gic_read_register_def gic_write_register_def usize_add_def)
qed

text \<open>
  The search for the redistributor ends, with the first one in the window whose affinity is that of this processor,
  or with an error when there is none.
\<close>

lemma find_redistributor_eq:
  assumes "\<And>a g. gic_read64 dev a g = (typer a, g)" and "limit + HW_GICR_MMIO_SIZE < 2 ^ 64"
  shows "find_redistributor dev aff limit base g = Some
    (case List.find (\<lambda>k. ucast (drop_bit 32 (typer (base + k * HW_GICR_MMIO_SIZE + HW_GICR_TYPER))) = aff)
        [0..<(limit - base + HW_GICR_MMIO_SIZE - 1) div HW_GICR_MMIO_SIZE] of
       None \<Rightarrow> Inl () | Some k \<Rightarrow> Inr (GicRedistributor_new (base + k * HW_GICR_MMIO_SIZE)), g)"
proof (induction "limit - base" arbitrary: base rule: less_induct)
  case less
  let ?S = "HW_GICR_MMIO_SIZE" and ?P = "\<lambda>b k. ucast (drop_bit 32 (typer (b + k * HW_GICR_MMIO_SIZE + HW_GICR_TYPER))) = aff"
  have S: "0 < ?S" "HW_GICR_TYPER \<le> ?S" by (simp_all add: HW_GICR_MMIO_SIZE_def HW_GICR_TYPER_def)
  show ?case
  proof (cases "base < limit")
    case True
    let ?n = "(limit - (base + ?S) + ?S - 1) div ?S"
    have "(limit - base + ?S - 1) div ?S = Suc ?n"
    proof (cases "limit \<le> base + ?S")
      case True
      then have "(limit - base + ?S - 1) div ?S = 1" using \<open>base < limit\<close> S(1) by (intro div_nat_eqI) auto
      moreover have "?n = 0" using True S(1) by simp
      ultimately show ?thesis by simp
    next
      case False
      then have "limit - base + ?S - 1 = ?S + (limit - (base + ?S) + ?S - 1)" using S(1) by linarith
      then show ?thesis using S(1) by (simp only: div_add_self1)
    qed
    then have upt: "[0..<(limit - base + ?S - 1) div ?S] = 0 # map Suc [0..<?n]" by (simp add: upt_conv_Cons map_Suc_upt del: upt_Suc)
    have find: "List.find (?P base) (map Suc ks) = map_option Suc (List.find (?P (base + ?S)) ks)" for ks
      by (induction ks) (auto simp: algebra_simps)
    have "find_redistributor dev aff limit (base + ?S) g = Some (case List.find (?P (base + ?S)) [0..<?n] of
       None \<Rightarrow> Inl () | Some k \<Rightarrow> Inr (GicRedistributor_new (base + ?S + k * ?S)), g)"
      using less.hyps [of "base + ?S"] True S(1) by simp
    moreover have "find_redistributor dev aff limit base g =
        (if ?P base 0 then Some (Inr (GicRedistributor_new base), g) else find_redistributor dev aff limit (base + ?S) g)"
      using True assms(2) S by (subst find_redistributor.simps) (simp add: get_affinity_def GicRedistributor_new_def assms(1) usize_add_def)
    ultimately show ?thesis
      unfolding upt List.find.simps find by (cases "List.find (?P (base + ?S)) [0..<?n]") (simp_all add: add.assoc)
  qed (simp add: find_redistributor.simps S)
qed

end
