(* ===== verification/Elf.thy ===== *)
theory Elf
  imports Memory
begin

text \<open>
  The headers of the hypervisor's own image in memory, \<open>src/src/elf.rs\<close>. A reference to a
  header is its address; its fields are read where the code reads them.
\<close>

definition ELF_MAGIC :: "u8 list" where "ELF_MAGIC = [0x7f, 0x45, 0x4c, 0x46]"
definition ELF_CLASS :: u8 where "ELF_CLASS = 0x02"
definition ELF_HEADER_VERSION :: u8 where "ELF_HEADER_VERSION = 0x01"
definition ELF_SUPPORTED_VERSION :: u32 where "ELF_SUPPORTED_VERSION = 1"
definition ELF_PROGRAM_HEADER_SEGMENT_LOAD :: u32 where "ELF_PROGRAM_HEADER_SEGMENT_LOAD = 0x01"

record Elf64Header =
  e_ident :: "u8 list"
  e_version :: u32
  e_phoff :: u64
  e_phentsize :: u16
  e_phnum :: u16

definition read_elf_header :: "memory \<Rightarrow> usize \<Rightarrow> Elf64Header" where
  "read_elf_header m a = \<lparr>e_ident = bytes_from m a 16, e_version = read_u32 m (a + 20), e_phoff = read_u64 m (a + 32),
     e_phentsize = read_u16 m (a + 54), e_phnum = read_u16 m (a + 56)\<rparr>"

record Elf64ProgramHeader =
  p_type :: u32
  p_paddr :: u64
  p_memsz :: u64

definition read_program_header :: "memory \<Rightarrow> usize \<Rightarrow> Elf64ProgramHeader" where
  "read_program_header m a = \<lparr>p_type = read_u32 m a, p_paddr = read_u64 m (a + 24), p_memsz = read_u64 m (a + 40)\<rparr>"

record Elf64ProgramHeaderIter =
  pointer :: usize
  iter_size :: u16
  remaining :: u16

definition Elf64Header_new :: "memory \<Rightarrow> usize \<Rightarrow> unit + Elf64Header" where
  "Elf64Header_new m address =
     (let s = read_elf_header m address
      in if take 4 (e_ident s) \<noteq> ELF_MAGIC \<or> e_ident s ! 4 \<noteq> ELF_CLASS \<or> e_ident s ! 6 \<noteq> ELF_HEADER_VERSION \<or>
           e_version s \<noteq> ELF_SUPPORTED_VERSION
         then Inl () else Inr s)"

definition get_program_headers :: "usize \<Rightarrow> Elf64Header \<Rightarrow> Elf64ProgramHeaderIter option" where
  "get_program_headers address s = do {
     p \<leftarrow> usize_add address (unat (e_phoff s));
     Some \<lparr>pointer = p, iter_size = e_phentsize s, remaining = e_phnum s\<rparr> }"

definition next_header :: "memory \<Rightarrow> Elf64ProgramHeaderIter \<Rightarrow> (Elf64ProgramHeader option \<times> Elf64ProgramHeaderIter) option" where
  "next_header m it =
     (if remaining it = 0 then Some (None, it)
      else do {
        p \<leftarrow> usize_add (pointer it) (unat (iter_size it));
        Some (Some (read_program_header m (pointer it)), it\<lparr>pointer := p, remaining := remaining it - 1\<rparr>) })"

text \<open>A loop over the headers, \<open>for p in elf_header.get_program_headers()\<close>, with a body that may panic.\<close>

function for_headers :: "memory \<Rightarrow> (Elf64ProgramHeader \<Rightarrow> 's \<Rightarrow> 's option) \<Rightarrow> Elf64ProgramHeaderIter \<Rightarrow> 's \<Rightarrow> 's option" where
  "for_headers m body it s = (case next_header m it of
     None \<Rightarrow> None
   | Some (None, it') \<Rightarrow> Some s
   | Some (Some p, it') \<Rightarrow> (case body p s of None \<Rightarrow> None | Some s' \<Rightarrow> for_headers m body it' s'))"
  by pat_completeness auto
termination
proof (relation "measure (\<lambda>(m, body, it, s). unat (remaining it))")
  fix m :: memory and body :: "Elf64ProgramHeader \<Rightarrow> 's \<Rightarrow> 's option" and it it' x2 and s s' :: 's and a b :: "Elf64ProgramHeader option" and p :: Elf64ProgramHeader
  fix y :: "Elf64ProgramHeader option \<times> Elf64ProgramHeaderIter"
  assume "next_header m it = Some y" "(a, it') = y" "a = Some p" "body p s = Some s'"
  then have "remaining it \<noteq> 0" "remaining it' = remaining it - 1" by (auto simp: next_header_def split: if_splits)
  then show "((m, body, it', s'), m, body, it, s) \<in> measure (\<lambda>(m, body, it, s). unat (remaining it))"
    by (simp add: unat_minus_one unat_gt_0)
qed simp

declare for_headers.simps [simp del]

text \<open>The loop runs over the headers of the table, in order.\<close>

definition header_table :: "memory \<Rightarrow> Elf64ProgramHeaderIter \<Rightarrow> Elf64ProgramHeader list" where
  "header_table m it = map (\<lambda>i. read_program_header m (pointer it + i * unat (iter_size it))) [0..<unat (remaining it)]"

fun run_all :: "('a \<Rightarrow> 's \<Rightarrow> 's option) \<Rightarrow> 'a list \<Rightarrow> 's \<Rightarrow> 's option" where
  "run_all body [] s = Some s"
| "run_all body (x # xs) s = Option.bind (body x s) (run_all body xs)"

lemma for_headers_table:
  assumes "pointer it + unat (remaining it) * unat (iter_size it) < 2 ^ 64"
  shows "for_headers m body it s = run_all body (header_table m it) s"
  using assms
proof (induction "unat (remaining it)" arbitrary: it s)
  case 0
  then have "remaining it = 0" by (simp add: unat_eq_0)
  then show ?case by (simp add: for_headers.simps next_header_def header_table_def)
next
  case (Suc n)
  let ?it = "it\<lparr>pointer := pointer it + unat (iter_size it), remaining := remaining it - 1\<rparr>"
  have "remaining it \<noteq> 0" using Suc.hyps(2) by auto
  then have r: "remaining it \<noteq> 0" "unat (remaining it - 1) = n" using Suc.hyps(2) [symmetric] by (simp_all add: unat_minus_one)
  have le: "pointer it + unat (iter_size it) + n * unat (iter_size it) < 2 ^ 64" using Suc.prems Suc.hyps(2) [symmetric] by (simp add: algebra_simps)
  then have nx: "next_header m it = Some (Some (read_program_header m (pointer it)), ?it)"
    using r(1) by (simp add: next_header_def usize_add_def)
  have "[0..<Suc n] = 0 # map Suc [0..<n]" by (simp add: upt_conv_Cons map_Suc_upt del: upt_Suc)
  then have "header_table m it = read_program_header m (pointer it) # header_table m ?it"
    using r(2) Suc.hyps(2) [symmetric] by (simp add: header_table_def algebra_simps del: upt_Suc)
  moreover have "for_headers m body ?it s' = run_all body (header_table m ?it) s'" for s' using Suc.hyps(1) [of ?it] r(2) le by simp
  ultimately show ?case by (simp add: for_headers.simps [of m body it] nx split: option.split)
qed

end
