(* ===== verification/Serial.thy ===== *)
theory Serial
  imports Memory
begin

text \<open>
  The driver of the serial port, \<open>src/src/drivers/pl011.rs\<close>, and the text output over it,
  \<open>src/src/serial.rs\<close>. The port is an argument: what it answers and what an access does to it.
\<close>

section \<open>The port\<close>

record 'u UartDevice =
  uart_read16 :: "usize \<Rightarrow> 'u \<Rightarrow> u16 \<times> 'u"
  uart_write16 :: "usize \<Rightarrow> u16 \<Rightarrow> 'u \<Rightarrow> 'u"
  uart_read8 :: "usize \<Rightarrow> 'u \<Rightarrow> u8 \<times> 'u"
  uart_write8 :: "usize \<Rightarrow> u8 \<Rightarrow> 'u \<Rightarrow> 'u"

record Pl011 =
  pl011_base_address :: usize

definition UART_SIZE :: usize where "UART_SIZE = 0x1000"
definition HW_UART_DR :: usize where "HW_UART_DR = 0x000"
definition HW_UART_FR :: usize where "HW_UART_FR = 0x018"
definition HW_UART_CR :: usize where "HW_UART_CR = 0x030"
definition HW_UART_IMSC :: usize where "HW_UART_IMSC = 0x038"
definition HW_UART_FR_TXFF :: u16 where "HW_UART_FR_TXFF = push_bit 5 1"
definition HW_UART_FR_RXFE :: u16 where "HW_UART_FR_RXFE = push_bit 4 1"
definition UART_CR_RXE :: u16 where "UART_CR_RXE = push_bit 9 1"
definition UART_CR_TXE :: u16 where "UART_CR_TXE = push_bit 8 1"
definition UART_CR_UARTEN :: u16 where "UART_CR_UARTEN = 1"
definition HW_UART_IMSC_RXIM :: u16 where "HW_UART_IMSC_RXIM = push_bit 4 1"

definition Pl011_invalid :: Pl011 where "Pl011_invalid = \<lparr>pl011_base_address = 0\<rparr>"

definition Pl011_new :: "usize \<Rightarrow> usize \<Rightarrow> unit + Pl011" where
  "Pl011_new base rng = (if rng < UART_SIZE then Inl () else Inr \<lparr>pl011_base_address = base\<rparr>)"

definition uart_flag :: "'u UartDevice \<Rightarrow> Pl011 \<Rightarrow> u16 \<Rightarrow> 'u \<Rightarrow> (bool \<times> 'u) option" where
  "uart_flag dev p bits u = do {
     a \<leftarrow> usize_add (pl011_base_address p) HW_UART_FR;
     (let (v, u1) = uart_read16 dev a u in Some (v AND bits \<noteq> 0, u1)) }"

definition is_tx_fifo_full :: "'u UartDevice \<Rightarrow> Pl011 \<Rightarrow> 'u \<Rightarrow> (bool \<times> 'u) option" where
  "is_tx_fifo_full dev p = uart_flag dev p HW_UART_FR_TXFF"

definition is_rx_fifo_empty :: "'u UartDevice \<Rightarrow> Pl011 \<Rightarrow> 'u \<Rightarrow> (bool \<times> 'u) option" where
  "is_rx_fifo_empty dev p = uart_flag dev p HW_UART_FR_RXFE"

definition enable_interrupt :: "'u UartDevice \<Rightarrow> Pl011 \<Rightarrow> 'u \<Rightarrow> 'u option" where
  "enable_interrupt dev p u = do {
     a \<leftarrow> usize_add (pl011_base_address p) HW_UART_CR;
     let u1 = uart_write16 dev a (UART_CR_RXE OR UART_CR_TXE OR UART_CR_UARTEN) u;
     b \<leftarrow> usize_add (pl011_base_address p) HW_UART_IMSC;
     (let (v, u2) = uart_read16 dev b u1 in Some (uart_write16 dev b (v OR HW_UART_IMSC_RXIM) u2)) }"

text \<open>The loop in \<open>putc\<close> ends when the transmit buffer has room; both operations always return \<open>Ok\<close>.\<close>

partial_function (option) wait_tx :: "'u UartDevice \<Rightarrow> Pl011 \<Rightarrow> 'u \<Rightarrow> 'u option" where
  "wait_tx dev p u = Option.bind (is_tx_fifo_full dev p u) (\<lambda>x. if fst x then wait_tx dev p (snd x) else Some (snd x))"

definition putc :: "'u UartDevice \<Rightarrow> Pl011 \<Rightarrow> u8 \<Rightarrow> 'u \<Rightarrow> 'u option" where
  "putc dev p c u = do {
     u1 \<leftarrow> wait_tx dev p u;
     a \<leftarrow> usize_add (pl011_base_address p) HW_UART_DR;
     Some (uart_write8 dev a c u1) }"

definition getc :: "'u UartDevice \<Rightarrow> Pl011 \<Rightarrow> 'u \<Rightarrow> (u8 option \<times> 'u) option" where
  "getc dev p u = do {
     (e, u1) \<leftarrow> is_rx_fifo_empty dev p u;
     (if e then Some (None, u1)
      else do {
        a \<leftarrow> usize_add (pl011_base_address p) HW_UART_DR;
        (let (c, u2) = uart_read8 dev a u1 in Some (Some c, u2)) }) }"

section \<open>Text\<close>

text \<open>\<open>SERIAL_DEVICE\<close>: nothing is printed before a device is set.\<close>

type_synonym Serial = "Pl011 option"

fun put_bytes :: "'u UartDevice \<Rightarrow> Pl011 \<Rightarrow> u8 list \<Rightarrow> 'u \<Rightarrow> 'u option" where
  "put_bytes dev p [] u = Some u"
| "put_bytes dev p (c # cs) u = do {
     u1 \<leftarrow> (if c = 10 then putc dev p 13 u else Some u);
     u2 \<leftarrow> putc dev p c u1;
     put_bytes dev p cs u2 }"

definition write_str :: "'u UartDevice \<Rightarrow> Serial \<Rightarrow> u8 list \<Rightarrow> 'u \<Rightarrow> ((unit + unit) \<times> 'u) option" where
  "write_str dev inner s u = (case inner of
     None \<Rightarrow> Some (Inl (), u)
   | Some p \<Rightarrow> do { u1 \<leftarrow> put_bytes dev p s u; Some (Inr (), u1) })"

definition init_default_serial_port :: "Pl011 \<Rightarrow> Serial" where
  "init_default_serial_port device = Some device"

section \<open>Properties\<close>

text \<open>
  A port whose transmit buffer gets room again: \<open>n u\<close> reads of the flag register show it full before one
  does not, and reading it does not change what was sent.
\<close>

definition draining :: "'u UartDevice \<Rightarrow> Pl011 \<Rightarrow> ('u \<Rightarrow> nat) \<Rightarrow> ('u \<Rightarrow> u8 list) \<Rightarrow> bool" where
  "draining dev p n sent \<longleftrightarrow> pl011_base_address p + UART_SIZE < 2 ^ 64 \<and>
     (\<forall>u v u1. uart_read16 dev (pl011_base_address p + HW_UART_FR) u = (v, u1) \<longrightarrow> sent u1 = sent u \<and>
        (if n u = 0 then v AND HW_UART_FR_TXFF = 0 else n u1 < n u)) \<and>
     (\<forall>u c. sent (uart_write8 dev (pl011_base_address p + HW_UART_DR) c u) = sent u @ [c])"

lemma wait_tx_returns:
  assumes "draining dev p n sent"
  shows "\<exists>u'. wait_tx dev p u = Some u' \<and> sent u' = sent u"
proof (induction "n u" arbitrary: u rule: less_induct)
  case less
  obtain v u1 where rd: "uart_read16 dev (pl011_base_address p + HW_UART_FR) u = (v, u1)" by fastforce
  have a: "usize_add (pl011_base_address p) HW_UART_FR = Some (pl011_base_address p + HW_UART_FR)"
    using assms by (simp add: draining_def UART_SIZE_def HW_UART_FR_def)
  have d: "sent u1 = sent u" "if n u = 0 then v AND HW_UART_FR_TXFF = 0 else n u1 < n u" using assms rd unfolding draining_def by blast+
  have run: "wait_tx dev p u = (if v AND HW_UART_FR_TXFF \<noteq> 0 then wait_tx dev p u1 else Some u1)"
    by (subst wait_tx.simps) (simp add: is_tx_fifo_full_def uart_flag_def a rd)
  show ?case
  proof (cases "v AND HW_UART_FR_TXFF = 0")
    case False
    then have "n u1 < n u" using d(2) by (auto split: if_splits)
    then show ?thesis using less.hyps [of u1] run d(1) False by auto
  qed (use run d(1) in simp)
qed

text \<open>Text goes out byte by byte, with a carriage return before every line feed, and the call returns.\<close>

theorem write_str_sends:
  assumes "draining dev p n sent"
  shows "\<exists>u'. write_str dev (init_default_serial_port p) s u = Some (Inr (), u') \<and>
    sent u' = sent u @ concat (map (\<lambda>c. if c = 10 then [13, 10] else [c]) s)"
proof -
  have a: "usize_add (pl011_base_address p) HW_UART_DR = Some (pl011_base_address p + HW_UART_DR)"
    using assms by (simp add: draining_def UART_SIZE_def HW_UART_DR_def)
  have one: "\<exists>u'. putc dev p c u = Some u' \<and> sent u' = sent u @ [c]" for c u
  proof -
    obtain u1 where "wait_tx dev p u = Some u1" "sent u1 = sent u" using wait_tx_returns [OF assms] by blast
    then show ?thesis using assms by (simp add: putc_def a draining_def)
  qed
  have "\<exists>u'. put_bytes dev p s u = Some u' \<and> sent u' = sent u @ concat (map (\<lambda>c. if c = 10 then [13, 10] else [c]) s)" for s u
  proof (induction s arbitrary: u)
    case (Cons c cs)
    obtain u1 where u1: "(if c = 10 then putc dev p 13 u else Some u) = Some u1" "sent u1 = sent u @ (if c = 10 then [13] else [])"
      using one [of 13 u] by (cases "c = 10") auto
    obtain u2 where u2: "putc dev p c u1 = Some u2" "sent u2 = sent u1 @ [c]" using one by blast
    show ?case using Cons.IH [of u2] u1 u2 by auto
  qed simp
  then show ?thesis by (simp add: write_str_def init_default_serial_port_def)
qed

end
