(* ===== verification/Boot.thy ===== *)
theory Boot
  imports Console Gicv3 Elf Serial Fat32Files
begin

text \<open>
  From the device tree to the first instruction of a guest: the set-up
  functions of \<open>src/src/main.rs\<close>, \<open>create_vm\<close> of \<open>src/src/vm.rs\<close>, \<open>init_vgic\<close> of \<open>src/src/vgic.rs\<close> and the
  initialisation in \<open>src/src/drivers/generic_timer.rs\<close>. What the code prints is left out, but
  not the arithmetic in the arguments of a print, which can panic.
\<close>

section \<open>Memory\<close>

text \<open>An \<open>expect\<close> on the result of an operation of the allocator.\<close>

definition expect_ok :: "((MemoryError + 'a) \<times> MemoryAllocator) option \<Rightarrow> MemoryAllocator option" where
  "expect_ok r = do { (x, al) \<leftarrow> r; _ \<leftarrow> result_ok x; Some al }"

definition reserve_segment :: "Elf64ProgramHeader \<Rightarrow> MemoryAllocator \<Rightarrow> MemoryAllocator option" where
  "reserve_segment p al =
     (if p_type p = ELF_PROGRAM_HEADER_SEGMENT_LOAD
      then do {
        _ \<leftarrow> usize_add (unat (p_paddr p)) (unat (p_memsz p));
        expect_ok (reserve_memory al (unat (p_paddr p)) (unat (p_memsz p)) 0) }
      else Some al)"

definition stack_range :: "usize \<Rightarrow> (usize \<times> usize) option" where
  "stack_range stack_pointer = do {
     x \<leftarrow> usize_sub stack_pointer 1;
     stack_end \<leftarrow> usize_add (x AND usize_not (PAGE_SIZE - 1)) PAGE_SIZE;
     stack_start \<leftarrow> usize_sub stack_end STACK_SIZE;
     Some (stack_start, stack_end) }"

definition ram_range :: "memory \<Rightarrow> Dtb \<Rightarrow> (usize \<times> usize) option" where
  "ram_range m dtb = do {
     n \<leftarrow> search_node m dtb (ascii ''memory'') None;
     node \<leftarrow> n;
     reg \<leftarrow> read_reg_property m dtb node 0;
     reg }"

definition setup_memory :: "memory \<Rightarrow> Dtb \<Rightarrow> usize \<Rightarrow> usize \<Rightarrow> usize \<Rightarrow> MemoryAllocator \<Rightarrow> MemoryAllocator option" where
  "setup_memory m dtb dtb_address elf_address stack_pointer al = do {
     (start, sz) \<leftarrow> ram_range m dtb;
     _ \<leftarrow> usize_add start sz;
     al1 \<leftarrow> expect_ok (free_memory al start sz);
     _ \<leftarrow> usize_add dtb_address (get_total_size m dtb);
     al2 \<leftarrow> expect_ok (reserve_memory al1 dtb_address (get_total_size m dtb) 0);
     elf_header \<leftarrow> result_ok (Elf64Header_new m elf_address);
     it \<leftarrow> get_program_headers elf_address elf_header;
     al3 \<leftarrow> for_headers m reserve_segment it al2;
     (stack_start, stack_end) \<leftarrow> stack_range stack_pointer;
     expect_ok (reserve_memory al3 stack_start STACK_SIZE 0) }"

section \<open>The serial port\<close>

text \<open>\<open>u32::from_be\<close> of a cell that was read in the native byte order.\<close>

definition u32_from_be :: "u32 \<Rightarrow> u32" where
  "u32_from_be v = from_be_bytes [ucast v, ucast (drop_bit 8 v), ucast (drop_bit 16 v), ucast (drop_bit 24 v)]"

text \<open>The first operational node with the given compatible string, behind a given one.\<close>

partial_function (option) operational_node :: "memory \<Rightarrow> Dtb \<Rightarrow> u8 list \<Rightarrow> DtbNode option \<Rightarrow> DtbNode option option" where
  "operational_node m dtb compatible prev =
     Option.bind (search_node_by_compatible m dtb compatible prev) (\<lambda>n. case n of
       None \<Rightarrow> Some None
     | Some d \<Rightarrow> Option.bind (is_node_operational m dtb d) (\<lambda>b.
         if b then Some (Some d) else operational_node m dtb compatible (Some d)))"

definition pl011_interrupt :: "u32 list \<Rightarrow> u32 option" where
  "pl011_interrupt interrupts = do {
     kind \<leftarrow> rust_nth interrupts 0;
     (if u32_from_be kind = DTB_GIC_SPI
      then do {
        flags \<leftarrow> rust_nth interrupts 2;
        (if u32_from_be flags = DTB_GIC_LEVEL
         then do { i \<leftarrow> rust_nth interrupts 1; u32_add GIC_SPI_BASE (u32_from_be i) }
         else Some 0) }
      else Some 0) }"

text \<open>The error is the value that \<open>main\<close> returns.\<close>

definition init_serial_port :: "memory \<Rightarrow> Dtb \<Rightarrow> (usize + Pl011 \<times> u32) option" where
  "init_serial_port m dtb = do {
     n \<leftarrow> operational_node m dtb (ascii ''arm,pl011'') None;
     (case n of None \<Rightarrow> Some (Inl 5)
      | Some node \<Rightarrow> do {
          reg \<leftarrow> read_reg_property m dtb node 0;
          (case reg of None \<Rightarrow> Some (Inl 6)
           | Some (base, rng) \<Rightarrow> do {
               p \<leftarrow> get_property m dtb node (ascii ''interrupts'');
               info \<leftarrow> p;
               int_id \<leftarrow> pl011_interrupt (read_property_as_u32_array m info);
               Some (case Pl011_new base rng of Inl _ \<Rightarrow> Inl 7 | Inr d \<Rightarrow> Inr (d, int_id)) }) }) }"

section \<open>Interrupts\<close>

definition init_gic_distributor :: "'g GicDevice \<Rightarrow> memory \<Rightarrow> Dtb \<Rightarrow> 'g \<Rightarrow> (GicDistributor \<times> 'g) option" where
  "init_gic_distributor dev m dtb g = do {
     n \<leftarrow> search_node_by_compatible m dtb (ascii ''arm,gic-v3'') None;
     node \<leftarrow> n;
     reg \<leftarrow> read_reg_property m dtb node 0;
     (base, sz) \<leftarrow> reg;
     d \<leftarrow> result_ok (GicDistributor_new base sz);
     g1 \<leftarrow> GicDistributor_init dev d g;
     Some (d, g1) }"

definition init_gic_redistributor ::
  "'g GicDevice \<Rightarrow> memory \<Rightarrow> Dtb \<Rightarrow> Cpu \<Rightarrow> 'g \<times> Icc \<Rightarrow> (GicRedistributor \<times> 'g \<times> Icc) option" where
  "init_gic_redistributor dev m dtb c = (\<lambda>(g, icc). do {
     n \<leftarrow> search_node_by_compatible m dtb (ascii ''arm,gic-v3'') None;
     node \<leftarrow> n;
     reg \<leftarrow> read_reg_property m dtb node 1;
     (base, sz) \<leftarrow> reg;
     (x, g1) \<leftarrow> get_self_redistributor dev c base sz g;
     r \<leftarrow> result_ok x;
     s \<leftarrow> GicRedistributor_init dev r (g1, icc);
     Some (r, s) })"

definition enable_serial_port_interrupt ::
  "'g GicDevice \<Rightarrow> 'u UartDevice \<Rightarrow> u32 \<Rightarrow> Cpu \<Rightarrow> Pl011 \<Rightarrow> GicDistributor \<Rightarrow> 'g \<times> 'u \<Rightarrow> ('g \<times> 'u) option" where
  "enable_serial_port_interrupt dev udev int_id c pl011 d = (\<lambda>(g, u).
     if int_id = 0 then Some (g, u)
     else do {
       g1 \<leftarrow> gicd_set_group dev d int_id g;
       g2 \<leftarrow> gicd_set_priority dev d int_id 0x00 g1;
       g3 \<leftarrow> gicd_set_routing dev d int_id False (get_mpidr_el1 c) g2;
       g4 \<leftarrow> gicd_set_trigger_mode dev d int_id True g3;
       g5 \<leftarrow> gicd_set_pending dev d int_id False g4;
       g6 \<leftarrow> gicd_set_enable dev d int_id True g5;
       u1 \<leftarrow> enable_interrupt udev pl011 u;
       Some (g6, u1) })"

text \<open>A private interrupt of the processor, as three functions set it up.\<close>

definition enable_private :: "'g GicDevice \<Rightarrow> GicRedistributor \<Rightarrow> u32 \<Rightarrow> bool \<Rightarrow> 'g \<Rightarrow> 'g option" where
  "enable_private dev r int_id is_level_trigger g = do {
     g1 \<leftarrow> gicr_set_group dev r int_id g;
     g2 \<leftarrow> gicr_set_priority dev r int_id 0x00 g1;
     g3 \<leftarrow> gicr_set_trigger_mode dev r int_id is_level_trigger g2;
     gicr_set_enable dev r int_id True g3 }"

definition init_vgic :: "'g GicDevice \<Rightarrow> GicRedistributor \<Rightarrow> Cpu \<times> 'g \<Rightarrow> (Cpu \<times> 'g) option" where
  "init_vgic dev r = (\<lambda>(c, g). do {
     let c1 = set_ich_hcr_el2 ICH_HCR_EL2_EN c;
     g1 \<leftarrow> enable_private dev r MAINTENANCE_INTERRUPT_INTID True g;
     g2 \<leftarrow> enable_private dev r INJECT_INTERRUPT_INT_ID False g1;
     Some (c1, g2) })"

text \<open>The number of the timer interrupt, zero when the tree does not describe it as a private one.\<close>

definition init_generic_timer_global :: "memory \<Rightarrow> Dtb \<Rightarrow> u32 option" where
  "init_generic_timer_global m dtb = do {
     n \<leftarrow> search_node_by_compatible m dtb (ascii ''arm,armv8-timer'') None;
     node \<leftarrow> n;
     p \<leftarrow> get_property m dtb node (ascii ''interrupts'');
     info \<leftarrow> p;
     let interrupt_number = read_property_as_u32_array m info;
     kind \<leftarrow> rust_nth interrupt_number 6;
     (if u32_from_be kind = DTB_GIC_PPI
      then do { i \<leftarrow> rust_nth interrupt_number 7; u32_add GIC_PPI_BASE (u32_from_be i) }
      else Some 0) }"

definition init_generic_timer_local :: "'g GicDevice \<Rightarrow> u32 \<Rightarrow> GicRedistributor \<Rightarrow> Cpu \<times> 'g \<Rightarrow> (Cpu \<times> 'g) option" where
  "init_generic_timer_local dev int_id r = (\<lambda>(c, g). do {
     let c1 = set_cntvoff_el2 0 c;
     g1 \<leftarrow> enable_private dev r int_id True g;
     Some (c1, g1) })"

section \<open>The disk\<close>

text \<open>The first block device among the virtio devices; the devices are told apart by the address of their registers.\<close>

partial_function (option) init_virtio_blk_loop ::
  "(usize \<Rightarrow> 'd VirtioDevice) \<Rightarrow> Dtb \<Rightarrow> DtbNode option \<Rightarrow> MemoryAllocator \<times> memory \<times> 'd \<Rightarrow>
     ((usize \<times> VirtioBlk) option \<times> MemoryAllocator \<times> memory \<times> 'd) option" where
  "init_virtio_blk_loop devs dtb prev s =
     Option.bind (operational_node (fst (snd s)) dtb (ascii ''virtio,mmio'') prev) (\<lambda>n. case n of
       None \<Rightarrow> Some (None, s)
     | Some node \<Rightarrow> Option.bind (Option.bind (read_reg_property (fst (snd s)) dtb node 0) (\<lambda>x. x)) (\<lambda>reg.
         Option.bind (VirtioBlk_new (devs (fst reg)) s) (\<lambda>r. case fst r of
           Inr b \<Rightarrow> Some (Some (fst reg, b), snd r)
         | Inl _ \<Rightarrow> init_virtio_blk_loop devs dtb (Some node) (snd r))))"

definition init_virtio_blk ::
  "(usize \<Rightarrow> 'd VirtioDevice) \<Rightarrow> Dtb \<Rightarrow> MemoryAllocator \<times> memory \<times> 'd \<Rightarrow> ((usize \<times> VirtioBlk) option \<times> MemoryAllocator \<times> memory \<times> 'd) option" where
  "init_virtio_blk devs dtb s = init_virtio_blk_loop devs dtb None s"

definition PARTITION_TABLE_BASE :: usize where "PARTITION_TABLE_BASE = 0x1BE"

record PartitionTableEntry =
  partition_type :: u8
  first_sector_lba :: u32

definition read_partition :: "memory \<Rightarrow> usize \<Rightarrow> PartitionTableEntry" where
  "read_partition m a = \<lparr>partition_type = m (a + 4), first_sector_lba = read_u32 m (a + 8)\<rparr>"

text \<open>\<open>mbr\<close> and \<open>bpb\<close> are the places of the two buffers on the stack.\<close>

definition init_fat32 :: "'s block_op \<Rightarrow> usize \<Rightarrow> usize \<Rightarrow> memory \<times> MemoryAllocator \<times> 's \<Rightarrow> (Fat32 \<times> memory \<times> MemoryAllocator \<times> 's) option" where
  "init_fat32 rd mbr bpb = (\<lambda>(m, al, s). do {
     (r, m1, s1) \<leftarrow> rd mbr 0 512 (write_zeros mbr 512 m, s);
     _ \<leftarrow> result_ok r;
     _ \<leftarrow> rust_assert (read_u16 m1 (mbr + 510) = 0xAA55);
     e \<leftarrow> List.find (\<lambda>e. partition_type e = 0x0C) (map (\<lambda>i. read_partition m1 (mbr + PARTITION_TABLE_BASE + 16 * i)) [0..<4]);
     (x, m2, al2, s2) \<leftarrow> Fat32_new rd bpb (unat (first_sector_lba e)) 512 (m1, al, s1);
     fs \<leftarrow> result_ok x;
     _ \<leftarrow> list_files fs m2;
     Some (fs, m2, al2, s2) })"

section \<open>The first guest\<close>

text \<open>
  \<open>KernelHeader\<close>, of which \<open>text_offset\<close>, \<open>image_size\<close> and \<open>magic\<close> are used.
\<close>

record KernelHeader =
  text_offset :: u64
  image_size :: u64
  magic :: u32

definition read_kernel_header :: "memory \<Rightarrow> usize \<Rightarrow> KernelHeader" where
  "read_kernel_header m a = \<lparr>text_offset = read_u64 m (a + 8), image_size = read_u64 m (a + 16), magic = read_u32 m (a + 56)\<rparr>"

definition kernel_entry :: "KernelHeader \<Rightarrow> usize \<Rightarrow> usize option" where
  "kernel_entry h kernel_virtual_address = do {
     _ \<leftarrow> rust_assert (magic h = 0x644D5241);
     usize_add kernel_virtual_address (unat (if image_size h = 0 then 0x80000 else text_offset h)) }"

definition kernel_place :: "usize \<Rightarrow> usize option" where
  "kernel_place dtb_size = do {
     x \<leftarrow> usize_add RAM_VIRTUAL_BASE dtb_size;
     y \<leftarrow> usize_sub x 1;
     usize_add (y AND usize_not (ALIGN_SIZE - 1)) ALIGN_SIZE }"

text \<open>The files of the guest are read into its RAM; the result is the address at which the guest starts.\<close>

definition load_guest ::
  "'s block_op \<Rightarrow> Fat32 \<Rightarrow> VM \<Rightarrow> memory \<times> MemoryAllocator \<times> 's \<Rightarrow> (usize \<times> memory \<times> MemoryAllocator \<times> 's) option" where
  "load_guest rd fs vm st = do {
     k \<leftarrow> search_file fs (fst st) (chars ''IMAGE'');
     kernel \<leftarrow> k;
     d \<leftarrow> search_file fs (fst st) (chars ''DTB'');
     dtb \<leftarrow> d;
     kernel_virtual_address \<leftarrow> kernel_place (get_file_size dtb);
     p \<leftarrow> get_physical_address vm kernel_virtual_address;
     kernel_physical_address \<leftarrow> p;
     (r1, st1) \<leftarrow> Fat32_read rd fs dtb (ram_physical_base_address vm) 0 (get_file_size dtb) st;
     _ \<leftarrow> result_ok r1;
     (r2, st2) \<leftarrow> Fat32_read rd fs kernel kernel_physical_address 0 (get_file_size kernel) st1;
     _ \<leftarrow> result_ok r2;
     entry \<leftarrow> kernel_entry (read_kernel_header (fst st2) kernel_physical_address) kernel_virtual_address;
     Some (entry, st2) }"

definition u8_add :: "u8 \<Rightarrow> u8 \<Rightarrow> u8 option" where
  "u8_add a b = (if unat a + unat b < 2 ^ 8 then Some (a + b) else None)"

definition disk_file_name :: "usize \<Rightarrow> nat list option" where
  "disk_file_name i = do {
     digit \<leftarrow> u8_add 0x30 (word_of_nat i);
     from_utf8 (ascii ''DISK'' @ [digit]) }"

text \<open>
  What \<open>create_vm\<close> works on: the host, with the block driver as its disk; the translation tables with the
  allocator; the interrupt controller; the statics \<open>NEXT_VM_ID\<close> and \<open>GENERIC_TIMER_PHYSICAL_INT_ID\<close>; and
  the register \<open>ID_AA64MMFR0_EL1\<close>.
\<close>

record ('s, 'g) Machine =
  machine_host :: "'s Host"
  stage2 :: Stage2
  gic :: 'g
  NEXT_VM_ID :: usize
  timer_int_id :: u32
  id_aa64mmfr0_el1 :: u64

text \<open>The registers and the interrupts of the processor that is to run the machine.\<close>

definition prepare_cpu :: "'g GicDevice \<Rightarrow> GicRedistributor \<Rightarrow> u32 \<Rightarrow> Cpu \<times> 'g \<Rightarrow> (Cpu \<times> 'g) option" where
  "prepare_cpu dev r int_id = (\<lambda>(c, g). do {
     s \<leftarrow> init_vgic dev r (setup_hypervisor_registers c, g);
     init_generic_timer_local dev int_id r s })"

text \<open>
  The result is the address at which the guest starts and its argument. A failure anywhere
  is a panic, so that steps on different parts of the state may be grouped.
\<close>

definition create_vm ::
  "'g GicDevice \<Rightarrow> 's block_op \<Rightarrow> Fat32 \<Rightarrow> GicRedistributor \<Rightarrow> ('s, 'g) Machine \<Rightarrow> ((usize \<times> usize) \<times> ('s, 'g) Machine) option" where
  "create_vm dev rd fs r w = do {
     let h = machine_host w;
     let i = NEXT_VM_ID w;
     (ram_physical_address, st) \<leftarrow> create_vm_memory (id_aa64mmfr0_el1 w) (stage2 w);
     (c, g) \<leftarrow> prepare_cpu dev r (timer_int_id w) (cpu h, gic w);
     file_name \<leftarrow> disk_file_name i;
     f \<leftarrow> search_file fs (ram h) file_name;
     disk_file \<leftarrow> f;
     vm \<leftarrow> VM_new i ram_physical_address (get_mpidr_el1 (cpu h)) disk_file;
     (entry, m, al, s) \<leftarrow> load_guest rd fs vm (ram h, page_allocator st, disk h);
     let h1 = h\<lparr>vm_list := vm_list h @ [vm], ram := m, disk := s, cpu := c\<rparr>;
     let h2 = snd (switch_active_vm i h1);
     Some ((entry, RAM_VIRTUAL_BASE), w\<lparr>machine_host := h2\<lparr>cpu := set_tpidr_el2 (word_of_nat i) c\<rparr>,
       stage2 := st\<lparr>page_allocator := al\<rparr>, gic := g, NEXT_VM_ID := (i + 1) mod 2 ^ 64\<rparr>) }"

end
