(* ===== verification/BootProps.thy ===== *)
theory BootProps
  imports Boot
begin

text \<open>
  What the set-up achieves: the memory that the hypervisor itself uses is never handed out, the
  files of a guest lie in its RAM when it starts, and the machines keep their numbers.
\<close>

section \<open>The files of a guest\<close>

text \<open>Where the kernel lies behind the device tree, at the next boundary of 2 MiB.\<close>

definition kernel_offset :: "usize \<Rightarrow> usize" where
  "kernel_offset n = ((n - 1) div ALIGN_SIZE + 1) * ALIGN_SIZE"

lemma kernel_place_eq:
  assumes "0 < n" and "n < 2 ^ 32"
  shows "kernel_place n = Some (RAM_VIRTUAL_BASE + kernel_offset n)"
proof -
  let ?y = "RAM_VIRTUAL_BASE + n - 1"
  have "?y < 2 ^ 64" using assms by (simp add: RAM_VIRTUAL_BASE_def)
  moreover have "(2 :: nat) ^ 21 = ALIGN_SIZE" by (simp add: ALIGN_SIZE_def)
  ultimately have "?y AND usize_not (ALIGN_SIZE - 1) = ?y - ?y mod 2 ^ 21" using and_not_mask [of ?y 21] by simp
  moreover have "?y = (n - 1) + 512 * 2 ^ 21" using assms(1) by (simp add: RAM_VIRTUAL_BASE_def)
  then have "?y - ?y mod 2 ^ 21 = RAM_VIRTUAL_BASE + (n - 1) div ALIGN_SIZE * ALIGN_SIZE"
    using div_mult_self1 [of "2 ^ 21" "n - 1" 512] by (simp only: minus_mod_eq_div_mult) (simp add: RAM_VIRTUAL_BASE_def ALIGN_SIZE_def)
  moreover have "(n - 1) div ALIGN_SIZE * ALIGN_SIZE < 2 ^ 32" using assms(2) div_times_less_eq_dividend [of "n - 1" ALIGN_SIZE] by linarith
  ultimately show ?thesis
    using assms by (simp add: kernel_place_def kernel_offset_def usize_add_def usize_sub_def) (simp add: RAM_VIRTUAL_BASE_def ALIGN_SIZE_def)
qed

lemma kernel_offset_behind: "0 < n \<Longrightarrow> n \<le> kernel_offset n"
  using div_mult_mod_eq [of "n - 1" ALIGN_SIZE] mod_less_divisor [of ALIGN_SIZE "n - 1"] by (simp add: kernel_offset_def ALIGN_SIZE_def)

text \<open>The bytes of a read are rounded up to whole sectors.\<close>

definition rounded_size :: "Fat32 \<Rightarrow> FileInfo \<Rightarrow> nat" where
  "rounded_size fs f = range_sectors fs 0 (get_file_size f) * unat (bytes_per_sector fs)"

lemma range_start_0 [simp]: "range_start fs 0 = 0"
  by (simp add: range_start_def)

lemma rounded_size_enough:
  assumes "contiguous fs m f N" and "0 < get_file_size f"
  shows "get_file_size f \<le> rounded_size fs f"
  using range_geometry(7) [of fs "get_file_size f" 0 N] assms by (auto simp: contiguous_def rounded_size_def get_file_size_def)

text \<open>The two files are in the root directory, in one piece each, and fit into the RAM.\<close>

definition guest_files :: "Fat32 \<Rightarrow> memory \<Rightarrow> FileInfo \<Rightarrow> FileInfo \<Rightarrow> bool" where
  "guest_files fs m kf dtb \<longleftrightarrow> search_file fs m (chars ''IMAGE'') = Some (Some kf) \<and> search_file fs m (chars ''DTB'') = Some (Some dtb) \<and>
     (\<exists>N. contiguous fs m kf N) \<and> (\<exists>N. contiguous fs m dtb N) \<and> 64 \<le> get_file_size kf \<and> 0 < get_file_size dtb \<and>
     rounded_size fs dtb \<le> RAM_SIZE \<and> kernel_offset (get_file_size dtb) + rounded_size fs kf \<le> RAM_SIZE"

lemma guest_files_fit:
  assumes "guest_files fs m kf df"
  shows "get_file_size df \<le> RAM_SIZE" "kernel_offset (get_file_size df) + get_file_size kf \<le> RAM_SIZE" "0 < kernel_offset (get_file_size df)"
proof -
  obtain N M where f: "contiguous fs m kf N" "contiguous fs m df M" "64 \<le> get_file_size kf" "0 < get_file_size df" "rounded_size fs df \<le> RAM_SIZE"
      "kernel_offset (get_file_size df) + rounded_size fs kf \<le> RAM_SIZE"
    using assms by (auto simp: guest_files_def)
  have "get_file_size kf \<le> rounded_size fs kf" using f(1,3) by (intro rounded_size_enough) auto
  then show "kernel_offset (get_file_size df) + get_file_size kf \<le> RAM_SIZE" using f(6) by simp
  show "get_file_size df \<le> RAM_SIZE" using rounded_size_enough [OF f(2,4)] f(5) by simp
  show "0 < kernel_offset (get_file_size df)" by (simp add: kernel_offset_def ALIGN_SIZE_def)
qed

text \<open>The RAM of the guest, outside of what the block driver and the volume use.\<close>

definition guest_ram :: "Fat32 \<Rightarrow> VM \<Rightarrow> usize set \<Rightarrow> bool" where
  "guest_ram fs vm D \<longleftrightarrow> ram_virtual_base_address vm = RAM_VIRTUAL_BASE \<and> ram_size vm = RAM_SIZE \<and>
     ram_physical_base_address vm + RAM_SIZE < 2 ^ 64 \<and> ram_bytes (ram_physical_base_address vm) \<inter> (D \<union> fat_region fs) = {} \<and> D \<inter> fat_region fs = {}"

text \<open>A file as it lies on the disk, read as memory.\<close>

definition file_image :: "Fat32 \<Rightarrow> (nat \<Rightarrow> u8) \<Rightarrow> FileInfo \<Rightarrow> memory" where
  "file_image fs c f = (\<lambda>x. c (cluster_address fs (entry_cluster f) + x))"

lemma kernel_header_same:
  assumes "\<And>i. i < 64 \<Longrightarrow> m' (a + i) = m i"
  shows "read_kernel_header m' a = read_kernel_header m 0"
proof -
  have "m' (i + a) = m i" if "i < 64" for i using assms [OF that] by (simp add: add.commute)
  with assms show ?thesis by (simp add: read_kernel_header_def read_u64_def read_u32_def read_u16_def)
qed

context block_device
begin

lemma load_file:
  assumes "contiguous fs m f N" and "0 < get_file_size f" and "ready (Suc r) (m, s)" and "buf + rounded_size fs f < 2 ^ 64"
    and "{buf..<buf + rounded_size fs f} \<inter> scratch s = {}"
  obtains m' s' where "Fat32_read rd fs f buf 0 (get_file_size f) (m, al, s) = Some (Inr (get_file_size f), m', al, s')" "ready r (m', s')"
    "scratch s' = scratch s" "content s' = content s" "\<And>i. i < get_file_size f \<Longrightarrow> m' (buf + i) = file_image fs (content s) f i"
    "\<And>x. x \<notin> scratch s \<union> {buf..<buf + rounded_size fs f} \<Longrightarrow> m' x = m x"
proof -
  obtain m' s' where o: "Fat32_read rd fs f buf 0 (get_file_size f) (m, al, s) = Some (Inr (get_file_size f), m', al, s')" "ready r (m', s')"
    "scratch s' = scratch s" "content s' = content s"
    "\<forall>x. x \<notin> scratch s \<longrightarrow> m' x = (if x \<in> {buf..<buf + rounded_size fs f} then content s (cluster_address fs (entry_cluster f) + 0 + (x - buf)) else m x)"
    using read_contiguous [OF assms(1,2), of 0 r s buf al] assms(3-5) by (auto simp: rounded_size_def get_file_size_def)
  have "m' (buf + i) = file_image fs (content s) f i" if "i < get_file_size f" for i
  proof -
    have i: "buf + i \<in> {buf..<buf + rounded_size fs f}" using that rounded_size_enough [OF assms(1,2)] by simp
    then have "buf + i \<notin> scratch s" using assms(5) by blast
    then show ?thesis using o(5) i by (simp add: file_image_def)
  qed
  then show thesis using o by (intro that [of m' s']) auto
qed

lemma load_guest_outcome:
  fixes vm :: VM and fs :: Fat32
  defines "pa \<equiv> ram_physical_base_address vm"
  assumes "guest_files fs m kf dtb" and "guest_ram fs vm (scratch s)" and "ready (Suc (Suc r)) (m, s)"
  obtains m' s' where "load_guest rd fs vm (m, al, s) = map_option (\<lambda>e. (e, m', al, s'))
      (kernel_entry (read_kernel_header (file_image fs (content s) kf) 0) (RAM_VIRTUAL_BASE + kernel_offset (get_file_size dtb)))"
    "ready r (m', s')" "content s' = content s" "\<And>i. i < get_file_size dtb \<Longrightarrow> m' (pa + i) = file_image fs (content s) dtb i"
    "\<And>i. i < get_file_size kf \<Longrightarrow> m' (pa + kernel_offset (get_file_size dtb) + i) = file_image fs (content s) kf i"
    "\<And>x. x \<notin> scratch s \<union> ram_bytes pa \<Longrightarrow> m' x = m x"
proof -
  let ?n = "get_file_size dtb" and ?k = "get_file_size kf" and ?o = "kernel_offset (get_file_size dtb)"
  obtain N M where f: "search_file fs m (chars ''IMAGE'') = Some (Some kf)" "search_file fs m (chars ''DTB'') = Some (Some dtb)"
      "contiguous fs m kf N" "contiguous fs m dtb M" "64 \<le> ?k" "0 < ?n" "rounded_size fs dtb \<le> RAM_SIZE" "?o + rounded_size fs kf \<le> RAM_SIZE"
    using assms(2) by (auto simp: guest_files_def)
  have v: "ram_virtual_base_address vm = RAM_VIRTUAL_BASE" "ram_size vm = RAM_SIZE" "pa + RAM_SIZE < 2 ^ 64"
      "ram_bytes pa \<inter> scratch s = {}" "ram_bytes pa \<inter> fat_region fs = {}" "scratch s \<inter> fat_region fs = {}"
    using assms(3) by (auto simp: guest_ram_def pa_def)
  have B: "{pa..<pa + rounded_size fs dtb} \<subseteq> ram_bytes pa" "{pa + ?o..<pa + ?o + rounded_size fs kf} \<subseteq> ram_bytes pa"
    using f(7,8) by (auto simp: ram_bytes_def)
  have k0: "0 < rounded_size fs kf" using rounded_size_enough [OF f(3)] f(5) by linarith
  have place: "kernel_place ?n = Some (RAM_VIRTUAL_BASE + ?o)" using kernel_place_eq [OF f(6)] unsigned_less [of "file_size dtb"] by (simp add: get_file_size_def)
  have phys: "get_physical_address vm (RAM_VIRTUAL_BASE + ?o) = Some (Some (pa + ?o))"
    using v(1-3) f(8) k0 by (auto simp: get_physical_address_def usize_add_def pa_def [symmetric] RAM_SIZE_def RAM_VIRTUAL_BASE_def)
  obtain m1 s1 where o1: "Fat32_read rd fs dtb pa 0 ?n (m, al, s) = Some (Inr ?n, m1, al, s1)" "ready (Suc r) (m1, s1)" "scratch s1 = scratch s"
      "content s1 = content s" "\<And>i. i < ?n \<Longrightarrow> m1 (pa + i) = file_image fs (content s) dtb i"
      "\<And>x. x \<notin> scratch s \<union> {pa..<pa + rounded_size fs dtb} \<Longrightarrow> m1 x = m x"
    by (rule load_file [OF f(4,6) assms(4), of pa al]) (use v(3,4) f(7) B(1) in auto)
  have "x \<notin> scratch s \<union> {pa..<pa + rounded_size fs dtb}" if "x \<in> fat_region fs" for x using that v(5,6) B(1) by blast
  then have "same_on (fat_region fs) m m1" using o1(6) by (simp add: same_on_def)
  then have c1: "contiguous fs m1 kf N" using f(3) contiguous_same by blast
  obtain m2 s2 where o2: "Fat32_read rd fs kf (pa + ?o) 0 ?k (m1, al, s1) = Some (Inr ?k, m2, al, s2)" "ready r (m2, s2)"
      "content s2 = content s1" "\<And>i. i < ?k \<Longrightarrow> m2 (pa + ?o + i) = file_image fs (content s1) kf i"
      "\<And>x. x \<notin> scratch s1 \<union> {pa + ?o..<pa + ?o + rounded_size fs kf} \<Longrightarrow> m2 x = m1 x"
    by (rule load_file [OF c1 _ o1(2), of "pa + ?o" al]) (use v(3,4) f(5,8) o1(3) B(2) in auto)
  have hd: "read_kernel_header m2 (pa + ?o) = read_kernel_header (file_image fs (content s) kf) 0"
    using o2(4) f(5) o1(4) by (intro kernel_header_same) simp
  show thesis
  proof (rule that [of m2 s2])
    show "load_guest rd fs vm (m, al, s) = map_option (\<lambda>e. (e, m2, al, s2))
        (kernel_entry (read_kernel_header (file_image fs (content s) kf) 0) (RAM_VIRTUAL_BASE + ?o))"
      using f(1,2) place phys o1(1) o2(1) hd by (simp add: load_guest_def pa_def [symmetric] map_conv_bind_option comp_def)
    show "m2 (pa + i) = file_image fs (content s) dtb i" if "i < ?n" for i
    proof -
      have "pa + i \<in> ram_bytes pa" using that kernel_offset_behind [OF f(6)] f(8) by (simp add: ram_bytes_def)
      then have "pa + i \<notin> scratch s1 \<union> {pa + ?o..<pa + ?o + rounded_size fs kf}"
        using that kernel_offset_behind [OF f(6)] v(4) o1(3) by auto
      then show ?thesis using o2(5) o1(5) that by simp
    qed
    show "m2 x = m x" if "x \<notin> scratch s \<union> ram_bytes pa" for x
    proof -
      have "x \<notin> scratch s \<union> {pa..<pa + rounded_size fs dtb}" "x \<notin> scratch s1 \<union> {pa + ?o..<pa + ?o + rounded_size fs kf}"
        using that B o1(3) by blast+
      then show ?thesis using o2(5) o1(6) by simp
    qed
  qed (use o2 o1(4) in auto)
qed

end

section \<open>A new machine\<close>

lemma disk_file_name_bound: "disk_file_name i = Some n \<Longrightarrow> i \<le> 80 \<Longrightarrow> i < 80"
  by (cases "i = 80") (auto simp: disk_file_name_def u8_add_def ascii_def)

text \<open>The machines are numbered in the order of their creation, and their numbers fit into one character of a file name.\<close>

definition machines_numbered :: "('s, 'g) Machine \<Rightarrow> bool" where
  "machines_numbered w \<longleftrightarrow> map vm_id (vm_list (machine_host w)) = [0..<NEXT_VM_ID w] \<and> NEXT_VM_ID w \<le> 80"

lemma find_vm_append: "i \<notin> set (map vm_id vms) \<Longrightarrow> find_vm (vms @ [vm]) i = (if vm_id vm = i then Some (length vms) else None)"
  by (induction vms) auto

text \<open>What a successful creation has done.\<close>

lemma create_vm_steps:
  assumes "create_vm gdev rd fs red w = Some ((entry, arg), w')"
  obtains pa st c g name f vm m al s where "create_vm_memory (id_aa64mmfr0_el1 w) (stage2 w) = Some (pa, st)"
    "disk_file_name (NEXT_VM_ID w) = Some name" "VM_new (NEXT_VM_ID w) pa (get_mpidr_el1 (cpu (machine_host w))) f = Some vm"
    "load_guest rd fs vm (ram (machine_host w), page_allocator st, disk (machine_host w)) = Some (entry, m, al, s)"
    "w' = w\<lparr>machine_host := snd (switch_active_vm (NEXT_VM_ID w) (machine_host w\<lparr>vm_list := vm_list (machine_host w) @ [vm], ram := m, disk := s, cpu := c\<rparr>))
        \<lparr>cpu := set_tpidr_el2 (word_of_nat (NEXT_VM_ID w)) c\<rparr>, stage2 := st\<lparr>page_allocator := al\<rparr>, gic := g, NEXT_VM_ID := (NEXT_VM_ID w + 1) mod 2 ^ 64\<rparr>"
    "arg = RAM_VIRTUAL_BASE"
  using assms by (auto simp: create_vm_def Let_def bind_eq_Some_conv)

lemma create_vm_host:
  assumes "machines_numbered w" and "create_vm gdev rd fs red w = Some ((entry, arg), w')"
  shows "machines_numbered w' \<and> get_current_vm (machine_host w') = Some (NEXT_VM_ID w) \<and> active_vm (machine_host w') = Some (NEXT_VM_ID w) \<and>
    (\<exists>vm. vm_list (machine_host w') = vm_list (machine_host w) @ [vm])"
proof -
  let ?i = "NEXT_VM_ID w" and ?h = "machine_host w"
  from assms(2) show ?thesis
  proof (cases rule: create_vm_steps)
    case (1 pa st c g name f vm m al s)
    have i: "?i < 80" using disk_file_name_bound [OF 1(2)] assms(1) by (simp add: machines_numbered_def)
    have vm: "vm_id vm = ?i" using 1(3) by (auto simp: VM_new_def bind_eq_Some_conv)
    have "length (map vm_id (vm_list ?h)) = ?i" "?i \<notin> set (map vm_id (vm_list ?h))"
      using assms(1) unfolding machines_numbered_def by simp_all
    then have find: "find_vm (vm_list ?h @ [vm]) ?i = Some ?i" using find_vm_append [of ?i "vm_list ?h" vm] vm by simp
    have "unat (word_of_nat ?i :: u64) = ?i" using i by (simp add: unat_of_nat)
    then show ?thesis using 1(5) find vm i assms(1)
      by (simp add: switch_active_vm_def get_current_vm_def get_tpidr_el2_def set_tpidr_el2_def machines_numbered_def)
  qed
qed

text \<open>The guest's view of memory: what an address holds through the translation of the hardware.\<close>

definition guest_byte :: "('s, 'g) Machine \<Rightarrow> usize \<Rightarrow> u8 option" where
  "guest_byte w x = map_option (\<lambda>(a, p). ram (machine_host w) a) (translation (stage2 w) x)"

definition guest_bytes :: "('s, 'g) Machine \<Rightarrow> usize \<Rightarrow> nat \<Rightarrow> u8 option list" where
  "guest_bytes w x n = map (\<lambda>i. guest_byte w (x + i)) [0..<n]"

text \<open>
  The memory that \<open>create_vm\<close> may hand out is apart from the queue of the driver, the frame of its
  calls and the volume's copy of the allocation table.
\<close>

definition memory_apart :: "Stage2 \<Rightarrow> Fat32 \<Rightarrow> usize set \<Rightarrow> bool" where
  "memory_apart st fs D \<longleftrightarrow> allocator_ready (page_allocator st) \<and> free_frames st \<subseteq> {..<2 ^ 47} \<and>
     free_frames st \<inter> (D \<union> fat_region fs) = {} \<and> D \<inter> fat_region fs = {}"

lemma create_vm_outcome:
  assumes "serving_device dev" and "disk (machine_host w) = (b, d)"
    and "driver_ready fr (Suc (Suc r)) (ram (machine_host w), b, d)" and "memory_apart (stage2 w) fs (driver_memory fr b)"
    and "guest_files fs (ram (machine_host w)) kf df"
    and "create_vm gdev (VirtioBlk_read dev fr) fs red w = Some ((entry, arg), w')"
  shows "arg = 0x40000000 \<and> guest_bytes w' arg (get_file_size df) = map Some (file_bytes fs d df 0 (get_file_size df)) \<and>
    (\<exists>k > arg. 0x200000 dvd k \<and> guest_bytes w' k (get_file_size kf) = map Some (file_bytes fs d kf 0 (get_file_size kf)) \<and>
      kernel_entry (read_kernel_header (file_image fs (sectors d) kf) 0) k = Some entry) \<and>
    same_on (- (driver_memory fr b \<union> (free_frames (stage2 w) - free_frames (stage2 w')))) (ram (machine_host w)) (ram (machine_host w'))"
  using assms(6)
proof (cases rule: create_vm_steps)
  case (1 pa st c g name f vm m al s)
  let ?D = "driver_memory fr b" and ?n = "get_file_size df" and ?k = "get_file_size kf" and ?o = "kernel_offset (get_file_size df)"
  have ap: "allocator_ready (page_allocator (stage2 w))" "free_frames (stage2 w) \<subseteq> {..<2 ^ 47}"
      "free_frames (stage2 w) \<inter> (?D \<union> fat_region fs) = {}" "?D \<inter> fat_region fs = {}" using assms(4) by (auto simp: memory_apart_def)
  obtain P where o: "ram_bytes pa \<subseteq> free_frames (stage2 w) - free_frames st" "translation st = map_range pa RAM_VIRTUAL_BASE RAM_SIZE 3 (\<lambda>_. None)"
    using create_vm_memory_outcome [OF ap(1,2) 1(1)] by metis
  have "pa \<in> ram_bytes pa" by (simp add: ram_bytes_def RAM_SIZE_def)
  then have "pa < 2 ^ 47" using o(1) ap(2) by blast
  then have gr: "guest_ram fs vm ?D" "ram_physical_base_address vm = pa"
    using 1(3) o(1) ap(3,4) by (auto simp: guest_ram_def VM_new_def bind_eq_Some_conv RAM_SIZE_def)
  obtain m' s' where l: "load_guest (VirtioBlk_read dev fr) fs vm (ram (machine_host w), page_allocator st, b, d) = map_option (\<lambda>e. (e, m', page_allocator st, s'))
      (kernel_entry (read_kernel_header (file_image fs (sectors d) kf) 0) (RAM_VIRTUAL_BASE + ?o))"
    "\<And>i. i < ?n \<Longrightarrow> m' (pa + i) = file_image fs (sectors d) df i" "\<And>i. i < ?k \<Longrightarrow> m' (pa + ?o + i) = file_image fs (sectors d) kf i"
    "\<And>x. x \<notin> ?D \<union> ram_bytes pa \<Longrightarrow> m' x = ram (machine_host w) x"
    by (rule block_device.load_guest_outcome [OF serving_device.provides_block_device [OF assms(1), of fr] assms(5),
      where vm = vm and s = "(b, d)" and r = r and al = "page_allocator st", unfolded prod.case gr(2), OF gr(1) assms(3)]) blast
  have e: "kernel_entry (read_kernel_header (file_image fs (sectors d) kf) 0) (RAM_VIRTUAL_BASE + ?o) = Some entry" "m = m'" "al = page_allocator st"
    using 1(4) l(1) assms(2) by auto
  have w': "ram (machine_host w') = m'" "stage2 w' = st" using 1(5) e by (auto simp: switch_active_vm_def split: option.split)
  note G = guest_files_fit [OF assms(5)]
  have tr: "guest_byte w' (RAM_VIRTUAL_BASE + x) = Some (m' (pa + x))" if "x < RAM_SIZE" for x
    using that by (simp add: guest_byte_def w' o(2) map_range_def)
  have "guest_bytes w' RAM_VIRTUAL_BASE ?n = map Some (file_bytes fs d df 0 ?n)"
    using tr l(2) G(1) by (auto simp: guest_bytes_def file_bytes_def file_image_def)
  moreover have "guest_bytes w' (RAM_VIRTUAL_BASE + ?o) ?k = map Some (file_bytes fs d kf 0 ?k)"
    using tr [of "?o + _"] l(3) G(2) by (auto simp: guest_bytes_def file_bytes_def file_image_def add.assoc)
  moreover have "same_on (- (?D \<union> (free_frames (stage2 w) - free_frames st))) (ram (machine_host w)) m'"
    using l(4) o(1) by (auto simp: same_on_def)
  moreover have "0x200000 dvd RAM_VIRTUAL_BASE + ?o" by (simp add: RAM_VIRTUAL_BASE_def kernel_offset_def ALIGN_SIZE_def)
  moreover have "RAM_VIRTUAL_BASE < RAM_VIRTUAL_BASE + ?o" "RAM_VIRTUAL_BASE = 0x40000000" using G(3) by (simp_all add: RAM_VIRTUAL_BASE_def)
  ultimately show ?thesis unfolding w' 1(6) using e(1) by blast
qed


text \<open>A volume with a disk, a kernel of 64 bytes and a device tree of 16 bytes, and a machine to create the first guest on.\<close>

definition dir_entry :: "string \<Rightarrow> u8 \<Rightarrow> u8 list \<Rightarrow> u8 list" where
  "dir_entry name cluster len = ascii name @ [0x20, 0, 0, 0, 0, 0, 0, 0, 0, 0, 0, 0, 0, 0, 0, cluster, 0] @ len @ [0, 0]"

definition boot_memory :: memory where
  "boot_memory a = (if 0x3000 \<le> a \<and> a < 0x3060
     then (dir_entry ''DISK0      '' 4 [0, 2] @ dir_entry ''IMAGE      '' 3 [64, 0] @ dir_entry ''DTB        '' 2 [16, 0]) ! (a - 0x3000) else 0)"

definition boot_disk :: Disk where
  "boot_disk = sample_disk\<lparr>sectors := (\<lambda>_. 0)(2104 := 0x41, 2105 := 0x52, 2106 := 0x4D, 2107 := 0x64)\<rparr>"

definition quiet_gic :: "unit GicDevice" where
  "quiet_gic = \<lparr>gic_read = (\<lambda>_ g. (0, g)), gic_write = (\<lambda>_ _ g. g), gic_read64 = (\<lambda>_ g. (0, g)), gic_write64 = (\<lambda>_ _ g. g)\<rparr>"

definition boot_machine :: "(VirtioBlk \<times> Disk, unit) Machine" where
  "boot_machine = \<lparr>machine_host = \<lparr>vm_list = [], active_vm = None, ram = boot_memory, disk = (sample_driver, boot_disk), uart_output = [], cpu = sample_cpu\<rparr>,
     stage2 = vm_stage2, gic = (), NEXT_VM_ID = 0, timer_int_id = 30, id_aa64mmfr0_el1 = 0\<rparr>"

definition disk_info :: FileInfo where "disk_info = \<lparr>entry_cluster = 4, file_size = 512\<rparr>"
definition kernel_info :: FileInfo where "kernel_info = \<lparr>entry_cluster = 3, file_size = 64\<rparr>"
definition dtb_info :: FileInfo where "dtb_info = \<lparr>entry_cluster = 2, file_size = 16\<rparr>"

definition boot_entries :: "DirectoryEntry list" where
  "boot_entries =
     [\<lparr>entry_name = ascii ''DISK0   '', name_extension = ascii ''   '', attribute = 0x20, starting_cluster_number_high = 0, starting_cluster_number = 4, file_length = 512\<rparr>,
      \<lparr>entry_name = ascii ''IMAGE   '', name_extension = ascii ''   '', attribute = 0x20, starting_cluster_number_high = 0, starting_cluster_number = 3, file_length = 64\<rparr>,
      \<lparr>entry_name = ascii ''DTB     '', name_extension = ascii ''   '', attribute = 0x20, starting_cluster_number_high = 0, starting_cluster_number = 2, file_length = 16\<rparr>]"

lemma bytes_from_name:
  "bytes_from m a 8 = [m a, m (a + 1), m (a + 2), m (a + 3), m (a + 4), m (a + 5), m (a + 6), m (a + 7)]" "bytes_from m a 3 = [m a, m (a + 1), m (a + 2)]"
  by (simp_all add: numeral_eq_Suc)

lemmas boot_read = read_entry_def boot_memory_def dir_entry_def ascii_def of_char_def bytes_from_name read_u16_def read_u32_def boot_entries_def

lemma boot_entries_at:
  "read_entry boot_memory 0x3000 = boot_entries ! 0" "read_entry boot_memory 0x3020 = boot_entries ! 1"
  "read_entry boot_memory 0x3040 = boot_entries ! 2" "entry_name (read_entry boot_memory 0x3060) ! 0 = 0" "attribute (read_entry boot_memory 0x3060) = 0"
  by (simp_all add: boot_read)

lemma boot_directory: "plain_files (directory_entries sample_volume boot_memory) = boot_entries"
proof -
  have "[0..<16] = [0, 1, 2, 3] @ [4..<16 :: nat]" using upt_add_eq_append [of 0 4 12] by (simp add: upt_rec eval_nat_numeral)
  then have "directory_entries sample_volume boot_memory =
      boot_entries @ read_entry boot_memory 0x3060 # map (\<lambda>i. read_entry boot_memory (0x3000 + 32 * i)) [4..<16]"
    using boot_entries_at(1-3) by (simp add: directory_entries_def sample_volume_def boot_entries_def)
  then show ?thesis
    using boot_entries_at(4,5) by (simp add: boot_entries_def FAT32_ATTRIBUTE_LONG_FILE_NAME_def FAT32_ATTRIBUTE_DIRECTORY_def ascii_def of_char_def)
qed

lemma boot_search:
  "search_file sample_volume boot_memory (chars ''DISK0'') = Some (Some disk_info)"
  "search_file sample_volume boot_memory (chars ''IMAGE'') = Some (Some kernel_info)"
  "search_file sample_volume boot_memory (chars ''DTB'') = Some (Some dtb_info)"
  unfolding search_file_first boot_directory
  by (simp_all add: boot_entries_def file_matches_def short_name_def ascii_def of_char_def chars_def make_ascii_lowercase_def entry_info_def
    disk_info_def kernel_info_def dtb_info_def Let_def)

lemma boot_contiguous: "contiguous sample_volume boot_memory kernel_info 1" "contiguous sample_volume boot_memory dtb_info 1"
  using sample_volume_ok
  by (simp_all add: contiguous_def adjacent_def on_volume_def cluster_sector_def cluster_address_def data_start_def bytes_per_cluster_def sample_volume_def
    kernel_info_def dtb_info_def)

lemma boot_guest_files: "guest_files sample_volume boot_memory kernel_info dtb_info"
proof -
  have "rounded_size sample_volume kernel_info = 512" "rounded_size sample_volume dtb_info = 512" "get_file_size kernel_info = 64" "get_file_size dtb_info = 16"
    by (simp_all add: rounded_size_def range_sectors_def get_file_size_def kernel_info_def dtb_info_def sample_volume_def)
  then show ?thesis using boot_search boot_contiguous by (auto simp: guest_files_def kernel_offset_def ALIGN_SIZE_def RAM_SIZE_def)
qed

lemma boot_driver: "driver_ready sample_frame (Suc (Suc 0)) (boot_memory, sample_driver, boot_disk)"
  by (simp add: driver_ready_def driver_layout_def sample_defs boot_disk_def boot_memory_def read_u16_def ivl_disj_int)

lemma boot_apart: "memory_apart vm_stage2 sample_volume (driver_memory sample_frame sample_driver)"
proof -
  have f: "fat_region sample_volume = {0x2000..<0x2200}" by (simp add: fat_region_def sample_volume_def)
  have v: "free_frames vm_stage2 = {0x40000000..<0x50000000} \<union> {0x60000000..<0x60100000}" "allocator_ready (page_allocator vm_stage2)"
    using vm_allocator_facts vm_allocator_ready by (simp_all add: vm_stage2_def)
  show ?thesis unfolding memory_apart_def f v(1) using v(2) sample_driver_memory by force
qed

lemma boot_prepare: "\<exists>c. prepare_cpu quiet_gic (GicRedistributor_new 0x80a0000) 30 (sample_cpu, ()) = Some (c, ())"
  by (simp add: prepare_cpu_def init_vgic_def init_generic_timer_local_def Let_def enable_private_def gicr_set_group_def gicr_set_priority_def gicr_set_trigger_mode_def
    gicr_set_enable_def put_priority_def put_trigger_mode_def modify_register_def gic_read_register_def gic_write_register_def quiet_gic_def u32_bit_def usize_add_def
    GicRedistributor_new_def MAINTENANCE_INTERRUPT_INTID_def INJECT_INTERRUPT_INT_ID_def HW_GICR_IPRIORITYR_BASE_def HW_GICR_ICFGR0_def HW_GICR_ISENABLER0_def
    HW_GICR_IGROUPR0_def HW_GICR_IGRPMODR0_def)

lemma boot_entry: "kernel_entry (read_kernel_header (file_image sample_volume (sectors boot_disk) kernel_info) 0) 0x40200000 = Some 0x40280000"
proof -
  have "file_image sample_volume (sectors boot_disk) kernel_info = (\<lambda>x. sectors boot_disk (2048 + x))"
    by (simp add: file_image_def cluster_address_def cluster_sector_def data_start_def sample_volume_def kernel_info_def)
  then show ?thesis by (simp add: kernel_entry_def read_kernel_header_def read_u64_def read_u32_def read_u16_def boot_disk_def usize_add_def)
qed

lemma boot_place: "RAM_VIRTUAL_BASE + kernel_offset (get_file_size dtb_info) = 0x40200000" "get_file_size dtb_info = 16"
  by (simp_all add: RAM_VIRTUAL_BASE_def kernel_offset_def ALIGN_SIZE_def dtb_info_def get_file_size_def)

lemma boot_created: "\<exists>e w'. create_vm quiet_gic (VirtioBlk_read ideal sample_frame) sample_volume (GicRedistributor_new 0x80a0000) boot_machine = Some (e, w')"
proof -
  let ?rd = "VirtioBlk_read ideal sample_frame" and ?D = "driver_memory sample_frame sample_driver"
  obtain pa st where st: "create_vm_memory 0 vm_stage2 = Some (pa, st)" using vm_stage2_created by blast
  obtain c where c: "prepare_cpu quiet_gic (GicRedistributor_new 0x80a0000) 30 (sample_cpu, ()) = Some (c, ())" using boot_prepare by blast
  have name: "disk_file_name 0 = Some (chars ''DISK0'')" by (simp add: disk_file_name_def u8_add_def ascii_def of_char_def chars_def)
  obtain vm where vm: "VM_new 0 pa (get_mpidr_el1 sample_cpu) disk_info = Some vm"
    by (simp add: VM_new_def VirtioBlkMmio_new_def disk_info_def get_file_size_def)
  have ap: "allocator_ready (page_allocator vm_stage2)" "free_frames vm_stage2 \<subseteq> {..<2 ^ 47}" "free_frames vm_stage2 \<inter> (?D \<union> fat_region sample_volume) = {}"
      "?D \<inter> fat_region sample_volume = {}" using boot_apart by (simp_all add: memory_apart_def)
  have "ram_bytes pa \<subseteq> free_frames vm_stage2" using create_vm_memory_outcome [OF ap(1,2) st] by (metis Diff_subset subset_trans)
  moreover from this have "pa < 2 ^ 47" using ap(2) by (auto simp: ram_bytes_def RAM_SIZE_def subset_iff)
  ultimately have "guest_ram sample_volume vm ?D"
    using vm ap(3,4) by (auto simp: guest_ram_def VM_new_def bind_eq_Some_conv RAM_SIZE_def)
  then obtain m s where "load_guest ?rd sample_volume vm (boot_memory, page_allocator st, sample_driver, boot_disk) = Some (0x40280000, m, page_allocator st, s)"
    by (rule block_device.load_guest_outcome [OF serving_device.provides_block_device [OF ideal_device.serving_device_axioms, of sample_frame] boot_guest_files,
      where vm = vm and s = "(sample_driver, boot_disk)" and r = 0 and al = "page_allocator st", unfolded prod.case, OF _ boot_driver])
      (simp add: boot_place(1) boot_entry)
  then show ?thesis using st c name boot_search(1) vm by (simp add: create_vm_def boot_machine_def Let_def)
qed


end
