(* ===== verification/DtbProps.thy ===== *)
theory DtbProps
  imports Dtb
begin

text \<open>
  Correctness of the device tree reader. \<open>tree_at\<close> says that memory holds the flattened form of
  a tree; the searches of \<open>Dtb\<close> are compared with a search of that tree. What both searches need
  of entering a node and of testing a property is the locale \<open>node_search\<close>.
\<close>

section \<open>Places in memory\<close>

text \<open>The tree lies in the lower half of the address space, so that no sum of an address and an offset overflows.\<close>

definition dtb_ok :: "Dtb \<Rightarrow> bool" where
  "dtb_ok dtb \<longleftrightarrow> header dtb < 2 ^ 63"

lemma u32_less: "unat (x :: u32) < 2 ^ 32"
  using unsigned_less [of x, where ?'a = nat] by simp

lemma struct_end_less: "dtb_ok dtb \<Longrightarrow> struct_end m dtb < 2 ^ 63 + 2 ^ 33"
  using u32_less [of "off_dt_struct m dtb"] u32_less [of "size_dt_struct m dtb"] by (simp add: dtb_ok_def struct_end_def)

lemma read_node_eq:
  assumes "dtb_ok dtb"
  shows "read_node m dtb p = Some (if struct_end m dtb \<le> p then Inl () else Inr (bytes_from m p 4))"
  using struct_end_less [OF assms, of m]
  by (simp add: read_node_def get_struct_offset_def get_struct_size_def struct_end_def usize_add_def FDT_TOKEN_BYTE_def)

definition align4 :: "nat \<Rightarrow> nat" where
  "align4 p = (p - 1) - (p - 1) mod 4 + 4"

lemma align4_ge: "0 < p \<Longrightarrow> p \<le> align4 p" "0 < p \<Longrightarrow> align4 p < p + 4" "0 < p \<Longrightarrow> 4 dvd align4 p"
  using round_up [of p 4] by (simp_all add: align4_def)

lemma align4_id: "0 < p \<Longrightarrow> 4 dvd p \<Longrightarrow> align4 p = p"
  using round_up [of p 4] by (simp add: align4_def)

lemma skip_padding_eq:
  assumes "0 < p" and "p + 4 < 2 ^ 64"
  shows "skip_padding p = Some (align4 p)"
proof -
  have "(p - 1) AND usize_not (2 ^ 2 - 1) = p - 1 - (p - 1) mod 2 ^ 2" using assms by (intro and_not_mask) auto
  then have m: "(p - 1) AND usize_not (FDT_TOKEN_BYTE - 1) = p - 1 - (p - 1) mod 4"
    by (simp only: FDT_TOKEN_BYTE_def) simp
  have "usize_sub p 1 = Some (p - 1)" using assms(1) by (simp add: usize_sub_def)
  moreover have "usize_add (p - 1 - (p - 1) mod 4) FDT_TOKEN_BYTE = Some (align4 p)"
    using align4_ge(2) [OF assms(1)] assms(2) unfolding align4_def FDT_TOKEN_BYTE_def usize_add_def by simp
  ultimately show ?thesis unfolding skip_padding_def by (simp only: Option.bind.bind_lunit m)
qed

text \<open>A token of the structure block.\<close>

definition token :: "memory \<Rightarrow> Dtb \<Rightarrow> usize \<Rightarrow> u8 list \<Rightarrow> bool" where
  "token m dtb p t \<longleftrightarrow> 0 < p \<and> 4 dvd p \<and> p < struct_end m dtb \<and> bytes_from m p 4 = t"

lemma token_neq [simp]:
  "FDT_BEGIN_NODE \<noteq> FDT_END_NODE" "FDT_BEGIN_NODE \<noteq> FDT_PROP" "FDT_BEGIN_NODE \<noteq> FDT_NOP" "FDT_BEGIN_NODE \<noteq> FDT_END"
  "FDT_END_NODE \<noteq> FDT_BEGIN_NODE" "FDT_END_NODE \<noteq> FDT_PROP" "FDT_END_NODE \<noteq> FDT_NOP" "FDT_END_NODE \<noteq> FDT_END"
  "FDT_PROP \<noteq> FDT_BEGIN_NODE" "FDT_PROP \<noteq> FDT_END_NODE" "FDT_PROP \<noteq> FDT_NOP" "FDT_PROP \<noteq> FDT_END"
  "FDT_NOP \<noteq> FDT_BEGIN_NODE" "FDT_NOP \<noteq> FDT_END_NODE" "FDT_NOP \<noteq> FDT_PROP" "FDT_NOP \<noteq> FDT_END"
  "FDT_END \<noteq> FDT_BEGIN_NODE" "FDT_END \<noteq> FDT_END_NODE" "FDT_END \<noteq> FDT_PROP" "FDT_END \<noteq> FDT_NOP"
  by (simp_all add: FDT_BEGIN_NODE_def FDT_END_NODE_def FDT_PROP_def FDT_NOP_def FDT_END_def)

lemma token_read:
  assumes "dtb_ok dtb" and "token m dtb p t"
  shows "read_node m dtb p = Some (Inr t)" "skip_padding p = Some p" "usize_add p FDT_TOKEN_BYTE = Some (p + 4)"
    and "t \<noteq> FDT_NOP \<Longrightarrow> skip_nop m dtb p = Some (Inr p)"
proof -
  have p: "0 < p" "4 dvd p" "p < struct_end m dtb" "bytes_from m p 4 = t" using assms(2) by (simp_all add: token_def)
  show r: "read_node m dtb p = Some (Inr t)" using p by (simp add: read_node_eq [OF assms(1)])
  have less: "p + 4 < 2 ^ 64" using p(3) struct_end_less [OF assms(1), of m] by simp
  then show "skip_padding p = Some p" "usize_add p FDT_TOKEN_BYTE = Some (p + 4)"
    using p skip_padding_eq align4_id by (simp_all add: FDT_TOKEN_BYTE_def usize_add_def)
  show "skip_nop m dtb p = Some (Inr p)" if "t \<noteq> FDT_NOP" using r that by (subst skip_nop.simps) simp
qed

lemma nop_skipped:
  assumes "dtb_ok dtb" and "token m dtb p FDT_NOP"
  shows "skip_nop m dtb p = skip_nop m dtb (p + 4)" "skip_padding p = Some p" "skip_padding (p + 4) = Some (p + 4)"
proof -
  note r = token_read [OF assms]
  show "skip_nop m dtb p = skip_nop m dtb (p + 4)" by (subst skip_nop.simps) (simp add: r(1,3) del: usize_add_Some)
  show "skip_padding p = Some p" by (rule r(2))
  have p: "4 dvd p" "p < struct_end m dtb" using assms(2) by (simp_all add: token_def)
  have "4 dvd p + 4" "p + 4 + 4 < 2 ^ 64" using p struct_end_less [OF assms(1), of m] by (auto intro: dvd_add)
  then show "skip_padding (p + 4) = Some (p + 4)" using skip_padding_eq align4_id by simp
qed

text \<open>A string with its terminator.\<close>

definition string_at :: "memory \<Rightarrow> usize \<Rightarrow> u8 list \<Rightarrow> bool" where
  "string_at m p s \<longleftrightarrow> bytes_from m p (length s) = s \<and> 0 \<notin> set s \<and> m (p + length s) = 0"

lemma string_at_Cons: "string_at m p (c # s) \<longleftrightarrow> m p = c \<and> c \<noteq> 0 \<and> string_at m (p + 1) s"
  by (auto simp: string_at_def add.assoc)

lemma string_at_Nil: "string_at m p [] \<longleftrightarrow> m p = 0"
  by (simp add: string_at_def)

lemma find_nul_string: "string_at m p s \<Longrightarrow> p + length s < 2 ^ 64 \<Longrightarrow> find_nul m p = Some (p + length s)"
proof (induction s arbitrary: p)
  case Nil
  then show ?case by (subst find_nul.simps) (simp add: string_at_Nil)
next
  case (Cons c s)
  then show ?case by (subst find_nul.simps) (auto simp: string_at_Cons usize_add_def)
qed

lemma skip_string_at:
  assumes "string_at m p s" and "p + length s + 5 < 2 ^ 64"
  shows "skip_string m p = Some (align4 (p + length s + 1))"
  using find_nul_string [OF assms(1)] assms(2) skip_padding_eq [of "p + length s + 1"]
  by (simp add: skip_string_def usize_add_def)

text \<open>The wanted name agrees with the string up to its end or up to a delimiter.\<close>

definition name_matches :: "u8 list \<Rightarrow> u8 list \<Rightarrow> u8 list \<Rightarrow> bool" where
  "name_matches delimiter name s \<longleftrightarrow> take (length name) s = name \<and>
     (length s = length name \<or> length name < length s \<and> s ! length name \<in> set delimiter)"

lemma match_bytes_string:
  assumes "string_at m p s" and "0 \<notin> set name" and "0 \<notin> set delimiter" and "p + length s < 2 ^ 64"
  shows "\<exists>b k. match_bytes m name p = Some (b, p + k) \<and> k \<le> length s \<and> string_at m (p + k) (drop k s) \<and>
    (b \<and> m (p + k) \<in> set (delimiter @ [0]) \<longleftrightarrow> name_matches delimiter name s)"
  using assms
proof (induction name arbitrary: p s)
  case Nil
  then show ?case
    by (intro exI [of _ True] exI [of _ 0]) (cases s; auto simp: name_matches_def string_at_Nil string_at_Cons)
next
  case (Cons c name)
  show ?case
  proof (cases s)
    case Nil
    then have "m p = 0" "c \<noteq> 0" using Cons.prems by (auto simp: string_at_Nil)
    with Nil Cons.prems(1) show ?thesis by (intro exI [of _ False] exI [of _ 0]) (simp add: name_matches_def)
  next
    case s: (Cons d s')
    show ?thesis
    proof (cases "c = d")
      case True
      have "string_at m (p + 1) s'" "m p = d" "(p + 1) + length s' < 2 ^ 64"
        using Cons.prems s by (simp_all add: string_at_Cons)
      with Cons.IH [of "p + 1" s'] Cons.prems obtain b k where "match_bytes m name (p + 1) = Some (b, p + 1 + k)" "k \<le> length s'"
          "string_at m (p + 1 + k) (drop k s')" "b \<and> m (p + 1 + k) \<in> set (delimiter @ [0]) \<longleftrightarrow> name_matches delimiter name s'"
        by auto
      with \<open>m p = d\<close> \<open>(p + 1) + length s' < 2 ^ 64\<close> True s show ?thesis
        by (intro exI [of _ b] exI [of _ "Suc k"]) (simp add: usize_add_def name_matches_def)
    next
      case False
      with s Cons.prems(1) show ?thesis by (intro exI [of _ False] exI [of _ 0]) (simp add: string_at_Cons name_matches_def)
    qed
  qed
qed

lemma compare_string_at:
  assumes "string_at m p s" and "0 \<notin> set name" and "0 \<notin> set delimiter" and "p + length s + 5 < 2 ^ 64"
  shows "compare_string m p name delimiter = Some (name_matches delimiter name s, align4 (p + length s + 1))"
proof -
  obtain b k where k: "match_bytes m name p = Some (b, p + k)" "k \<le> length s" "string_at m (p + k) (drop k s)"
      "b \<and> m (p + k) \<in> set (delimiter @ [0]) \<longleftrightarrow> name_matches delimiter name s"
    using match_bytes_string [OF assms(1-3)] assms(4) by auto
  have "skip_string m (p + k) = Some (align4 (p + length s + 1))"
    using skip_string_at [OF k(3)] assms(4) k(2) by simp
  then show ?thesis using k(1,4) by (simp add: compare_string_def)
qed

lemma match_bytes_exact:
  assumes "0 \<notin> set name" and "p + length name < 2 ^ 64"
  shows "\<exists>b q. match_bytes m name p = Some (b, q) \<and> (b \<and> m q = 0 \<longleftrightarrow> string_at m p name)"
  using assms
proof (induction name arbitrary: p)
  case Nil
  then show ?case by (auto simp: string_at_Nil)
next
  case (Cons c name)
  then show ?case using Cons.IH [of "p + 1"] by (auto simp: string_at_Cons usize_add_def)
qed

section \<open>Trees\<close>

text \<open>
  A property of the tree: the place and the length of its value and the offset of its name. A
  tree has the place of its first token after the name, its name, properties and subnodes.
\<close>

record Property =
  value_at :: usize
  value_len :: u32
  name_at :: u32

datatype tree = Tree usize "u8 list" "Property list" "tree list"

definition named :: "memory \<Rightarrow> Dtb \<Rightarrow> u8 list \<Rightarrow> Property \<Rightarrow> bool" where
  "named m dtb name x \<longleftrightarrow> string_at m (header dtb + unat (off_dt_strings m dtb) + unat (name_at x)) name"

lemma compare_name_segment_eq:
  assumes "dtb_ok dtb" and "unat (name_at x) < get_string_size m dtb" and "0 \<notin> set name" and "length name < 2 ^ 32"
  shows "compare_name_segment m dtb (name_at x) name [] = Some (Inr (named m dtb name x))"
proof -
  let ?s = "header dtb + unat (off_dt_strings m dtb)"
  have less: "?s + unat (name_at x) + length name < 2 ^ 64"
    using assms(1,4) u32_less [of "off_dt_strings m dtb"] u32_less [of "name_at x"] by (simp add: dtb_ok_def)
  with match_bytes_exact [OF assms(3), of "?s + unat (name_at x)" m] obtain b q where
    "match_bytes m name (?s + unat (name_at x)) = Some (b, q)" "b \<and> m q = 0 \<longleftrightarrow> named m dtb name x"
    by (auto simp: named_def)
  then show ?thesis
    using assms(2) less by (simp add: compare_name_segment_def get_string_offset_def usize_add_def)
qed

text \<open>The strings of a list of strings, such as the value of \<open>compatible\<close>.\<close>

definition joined :: "u8 list list \<Rightarrow> u8 list" where
  "joined ss = concat (map (\<lambda>s. s @ [0]) ss)"

definition string_list :: "u8 list list \<Rightarrow> memory \<Rightarrow> Property \<Rightarrow> bool" where
  "string_list ss m x \<longleftrightarrow> bytes_from m (value_at x) (unat (value_len x)) = joined ss \<and> (\<forall>s \<in> set ss. 0 \<notin> set s)"

definition property_ok :: "memory \<Rightarrow> Dtb \<Rightarrow> Property \<Rightarrow> bool" where
  "property_ok m dtb x \<longleftrightarrow> unat (name_at x) < get_string_size m dtb \<and> value_at x + unat (value_len x) < struct_end m dtb \<and>
     (named m dtb PROP_COMPATIBLE x \<longrightarrow> (\<exists>ss. string_list ss m x))"

text \<open>The flattened form of a list of properties, of a tree and of a list of trees, from \<open>p\<close> to \<open>q\<close>.\<close>

inductive props_at :: "memory \<Rightarrow> Dtb \<Rightarrow> usize \<Rightarrow> Property list \<Rightarrow> usize \<Rightarrow> bool" for m dtb where
  props_nil: "props_at m dtb p [] p"
| props_nop: "token m dtb p FDT_NOP \<Longrightarrow> props_at m dtb (p + 4) ps q \<Longrightarrow> props_at m dtb p ps q"
| props_cons: "token m dtb p FDT_PROP \<Longrightarrow> read_be32 m (p + 4) = value_len x \<Longrightarrow> read_be32 m (p + 8) = name_at x \<Longrightarrow>
    value_at x = p + 12 \<Longrightarrow> property_ok m dtb x \<Longrightarrow> props_at m dtb (align4 (p + 12 + unat (value_len x))) ps q \<Longrightarrow>
    props_at m dtb p (x # ps) q"

inductive tree_at :: "memory \<Rightarrow> Dtb \<Rightarrow> usize \<Rightarrow> tree \<Rightarrow> usize \<Rightarrow> bool"
  and trees_at :: "memory \<Rightarrow> Dtb \<Rightarrow> usize \<Rightarrow> tree list \<Rightarrow> usize \<Rightarrow> bool" for m dtb where
  tree_node: "token m dtb p FDT_BEGIN_NODE \<Longrightarrow> string_at m (p + 4) name \<Longrightarrow> align4 (p + 4 + length name + 1) < struct_end m dtb \<Longrightarrow>
    props_at m dtb (align4 (p + 4 + length name + 1)) ps p1 \<Longrightarrow> trees_at m dtb p1 ts p2 \<Longrightarrow> token m dtb p2 FDT_END_NODE \<Longrightarrow>
    tree_at m dtb p (Tree (align4 (p + 4 + length name + 1)) name ps ts) (p2 + 4)"
| trees_nil: "trees_at m dtb p [] p"
| trees_nop: "token m dtb p FDT_NOP \<Longrightarrow> trees_at m dtb (p + 4) ts q \<Longrightarrow> trees_at m dtb p ts q"
| trees_cons: "tree_at m dtb p t q \<Longrightarrow> trees_at m dtb q ts r \<Longrightarrow> trees_at m dtb p (t # ts) r"

text \<open>
  The search of a tree in document order. \<open>sel\<close> selects a node by its name, \<open>chk\<close> by one of its
  properties. A node that is selected by its name comes with the cells of its parent, one
  that is selected by a property with the cells that hold after that property.
\<close>

definition with_cells :: "memory \<Rightarrow> Dtb \<Rightarrow> Property \<Rightarrow> DtbNode \<Rightarrow> DtbNode" where
  "with_cells m dtb x n =
     (if named m dtb PROP_ADDRESS_CELLS x then n\<lparr>node_address_cells := read_be32 m (value_at x)\<rparr>
      else if named m dtb PROP_SIZE_CELLS x then n\<lparr>node_size_cells := read_be32 m (value_at x)\<rparr> else n)"

fun find_prop :: "(Property \<Rightarrow> bool) \<Rightarrow> memory \<Rightarrow> Dtb \<Rightarrow> Property list \<Rightarrow> DtbNode \<Rightarrow> DtbNode + DtbNode" where
  "find_prop chk m dtb [] n = Inr n"
| "find_prop chk m dtb (x # ps) n =
     (if chk x then Inl (with_cells m dtb x n) else find_prop chk m dtb ps (with_cells m dtb x n))"

fun find_tree :: "(u8 list \<Rightarrow> bool) \<Rightarrow> (Property \<Rightarrow> bool) \<Rightarrow> memory \<Rightarrow> Dtb \<Rightarrow> u32 \<Rightarrow> u32 \<Rightarrow> tree \<Rightarrow> DtbNode option"
  and find_trees :: "(u8 list \<Rightarrow> bool) \<Rightarrow> (Property \<Rightarrow> bool) \<Rightarrow> memory \<Rightarrow> Dtb \<Rightarrow> u32 \<Rightarrow> u32 \<Rightarrow> tree list \<Rightarrow> DtbNode option" where
  "find_tree sel chk m dtb ac sc (Tree body name ps ts) =
     (if sel name then Some (entered_node body ac sc)
      else case find_prop chk m dtb ps (entered_node body ac sc) of
        Inl n \<Rightarrow> Some n | Inr n \<Rightarrow> find_trees sel chk m dtb (node_address_cells n) (node_size_cells n) ts)"
| "find_trees sel chk m dtb ac sc [] = None"
| "find_trees sel chk m dtb ac sc (t # ts) =
     (case find_tree sel chk m dtb ac sc t of Some n \<Rightarrow> Some n | None \<Rightarrow> find_trees sel chk m dtb ac sc ts)"

section \<open>The loop over the tokens of a node\<close>

lemma names_ok:
  "0 \<notin> set PROP_ADDRESS_CELLS" "0 \<notin> set PROP_SIZE_CELLS" "0 \<notin> set PROP_COMPATIBLE" "0 \<notin> set PROP_REG" "0 \<notin> set PROP_STATUS"
  "length PROP_ADDRESS_CELLS < 2 ^ 32" "length PROP_SIZE_CELLS < 2 ^ 32" "length PROP_COMPATIBLE < 2 ^ 32"
  "length PROP_REG < 2 ^ 32" "length PROP_STATUS < 2 ^ 32"
  by (simp_all add: PROP_ADDRESS_CELLS_def PROP_SIZE_CELLS_def PROP_COMPATIBLE_def PROP_REG_def PROP_STATUS_def ascii_def of_char_def)

lemma property_bounds:
  assumes "dtb_ok dtb" and "property_ok m dtb x"
  shows "value_at x < struct_end m dtb" "value_at x + unat (value_len x) + 4 < 2 ^ 64"
  using assms(2) struct_end_less [OF assms(1), of m] by (simp_all add: property_ok_def)

lemma cells_checked:
  assumes "dtb_ok dtb" and "property_ok m dtb x"
  shows "check_address_and_size_cells m dtb (name_at x) (value_at x) (node_address_cells n) (node_size_cells n) =
    Some (Inr (node_address_cells (with_cells m dtb x n), node_size_cells (with_cells m dtb x n)))"
proof -
  have o: "unat (name_at x) < get_string_size m dtb" using assms(2) by (simp add: property_ok_def)
  note c = compare_name_segment_eq [OF assms(1) o names_ok(1,6)] compare_name_segment_eq [OF assms(1) o names_ok(2,7)]
  show ?thesis
    using property_bounds(1) [OF assms]
    by (simp add: check_address_and_size_cells_def c read_node_eq [OF assms(1)] with_cells_def read_be32_def)
qed

lemma read_prop_eq:
  assumes "dtb_ok dtb" and "token m dtb p FDT_PROP" and "read_be32 m (p + 4) = value_len x" and "read_be32 m (p + 8) = name_at x"
    and "value_at x = p + 12" and "property_ok m dtb x"
  shows "read_prop m dtb p = Some (Inr (value_len x, name_at x, value_at x))"
proof -
  have "p + 12 < struct_end m dtb" using assms(5,6) by (simp add: property_ok_def)
  moreover have "p + 12 < 2 ^ 64" using calculation struct_end_less [OF assms(1), of m] by simp
  ultimately show ?thesis
    using assms(3-5) by (simp add: read_prop_def read_node_eq [OF assms(1)] read_be32_def FDT_TOKEN_BYTE_def usize_add_def
        add.commute [of p])
qed

text \<open>What a round of the loop does at each token.\<close>

lemma loop_nop:
  assumes "dtb_ok dtb" and "token m dtb p FDT_NOP"
  shows "search_loop start check m dtb n p = search_loop start check m dtb n (p + 4)"
proof -
  have "search_step start check m dtb n p = search_step start check m dtb n (p + 4)"
    using nop_skipped [OF assms] by (simp only: search_step_def bind_eq_Some_conv Option.bind.bind_lunit)
  then show ?thesis by (subst (1 2) search_loop.simps) simp
qed

lemma loop_end_node:
  assumes "dtb_ok dtb" and "token m dtb p FDT_END_NODE"
  shows "search_loop start check m dtb n p = Some (Inr (None, p + 4))"
  using token_read [OF assms] by (subst search_loop.simps) (simp add: search_step_def del: usize_add_Some)

lemma loop_begin_node:
  assumes "dtb_ok dtb" and "token m dtb p FDT_BEGIN_NODE"
  shows "search_loop start check m dtb n p =
    attempt (search_from start check m dtb (node_address_cells n) (node_size_cells n) p) (\<lambda>iq.
      case fst iq of Some i \<Rightarrow> Some (Inr iq) | None \<Rightarrow> search_loop start check m dtb n (snd iq))"
  using token_read [OF assms]
  by (subst search_loop.simps)
    (cases "start p (node_address_cells n) (node_size_cells n)";
     auto simp: search_step_def search_from_def attempt_def split: sum.splits option.splits)

lemma loop_prop:
  assumes "dtb_ok dtb" and "token m dtb p FDT_PROP" and "read_be32 m (p + 4) = value_len x" and "read_be32 m (p + 8) = name_at x"
    and "value_at x = p + 12" and "property_ok m dtb x"
    and "\<And>ac sc. check (node_address n) (value_len x) (name_at x) (value_at x) ac sc =
      Some (Inr (if chk x then Some (entered_node (node_address n) ac sc) else None))"
  shows "search_loop start check m dtb n p =
    (if chk x then Some (Inr (Some (with_cells m dtb x n), value_at x))
     else search_loop start check m dtb (with_cells m dtb x n) (align4 (p + 12 + unat (value_len x))))"
proof -
  let ?n = "with_cells m dtb x n"
  let ?q = "value_at x + unat (value_len x)"
  have n: "entered_node (node_address n) (node_address_cells ?n) (node_size_cells ?n) = ?n"
    "n\<lparr>node_address_cells := node_address_cells ?n, node_size_cells := node_size_cells ?n\<rparr> = ?n"
    by (simp_all add: with_cells_def entered_node_def)
  have "usize_add (value_at x) (unat (value_len x)) = Some ?q"
    using property_bounds(2) [OF assms(1,6)] by (simp add: usize_add_def)
  then have step: "search_step start check m dtb n p = Some (Inr (if chk x then Return (Some ?n, value_at x) else Next ?n ?q))"
    using token_read [OF assms(1,2)] read_prop_eq [OF assms(1-6)] cells_checked [OF assms(1,6), of n] assms(7)
    by (simp add: search_step_def prop_step_def n del: usize_add_Some)
  have pad: "skip_padding ?q = Some (align4 ?q)" "skip_padding (align4 ?q) = Some (align4 ?q)"
    using property_bounds(2) [OF assms(1,6)] assms(5) align4_ge [of ?q] skip_padding_eq [of ?q] skip_padding_eq [of "align4 ?q"]
      align4_id [of "align4 ?q"] struct_end_less [OF assms(1), of m] assms(6) by (auto simp: property_ok_def)
  have "search_loop start check m dtb n' ?q = search_loop start check m dtb n' (align4 ?q)" for n'
    by (subst (1 2) search_loop.simps) (simp add: search_step_def pad)
  then show ?thesis using step assms(5) by (subst search_loop.simps) simp
qed

lemma search_all_cong:
  assumes "read_node m dtb p = Some (Inr t)" and "read_node m dtb p' = Some (Inr t')"
    and "search_from start check m dtb ac sc p = search_from start check m dtb ac sc p'"
  shows "search_all start check m dtb ac sc p = search_all start check m dtb ac sc p'"
  by (subst (1 2) search_all.simps) (simp add: assms)

lemma tree_at_token: "tree_at m dtb p t q \<Longrightarrow> token m dtb p FDT_BEGIN_NODE"
  by (cases rule: tree_at.cases) auto

lemma trees_at_token:
  assumes "trees_at m dtb p ts q" and "ts \<noteq> []"
  shows "token m dtb p FDT_BEGIN_NODE \<or> token m dtb p FDT_NOP \<and> trees_at m dtb (p + 4) ts q"
  using assms by (cases rule: trees_at.cases) (auto dest: tree_at_token)

section \<open>Searching a tree\<close>

text \<open>
  What the loop needs of entering a node and of testing a property, for a key that is searched
  for: on a node of the tree, entering it selects by the name, and the test at a property
  selects by the property.
\<close>

locale node_search =
  fixes start :: "memory \<Rightarrow> Dtb \<Rightarrow> 'k \<Rightarrow> entry" and check :: "memory \<Rightarrow> Dtb \<Rightarrow> 'k \<Rightarrow> prop_check"
    and sel :: "'k \<Rightarrow> u8 list \<Rightarrow> bool" and chk :: "memory \<Rightarrow> Dtb \<Rightarrow> 'k \<Rightarrow> Property \<Rightarrow> bool" and key :: "'k \<Rightarrow> bool"
  assumes start_ok: "dtb_ok dtb \<Longrightarrow> key k \<Longrightarrow> token m dtb p FDT_BEGIN_NODE \<Longrightarrow> string_at m (p + 4) name \<Longrightarrow>
      align4 (p + 4 + length name + 1) < struct_end m dtb \<Longrightarrow>
      start m dtb k p ac sc = Some (Inr (if sel k name
        then Inl (Some (entered_node (align4 (p + 4 + length name + 1)) ac sc), align4 (p + 4 + length name + 1))
        else Inr (align4 (p + 4 + length name + 1))))"
    and start_nop: "dtb_ok dtb \<Longrightarrow> token m dtb p FDT_NOP \<Longrightarrow> start m dtb k p ac sc = start m dtb k (p + 4) ac sc"
    and check_ok: "dtb_ok dtb \<Longrightarrow> key k \<Longrightarrow> property_ok m dtb x \<Longrightarrow>
      check m dtb k body (value_len x) (name_at x) (value_at x) ac sc =
        Some (Inr (if chk m dtb k x then Some (entered_node body ac sc) else None))"
begin

abbreviation loop where "loop m dtb k \<equiv> search_loop (start m dtb k) (check m dtb k) m dtb"
abbreviation enter where "enter m dtb k \<equiv> search_from (start m dtb k) (check m dtb k) m dtb"
abbreviation search where "search m dtb k \<equiv> search_all (start m dtb k) (check m dtb k) m dtb"
abbreviation found where "found m dtb k \<equiv> find_tree (sel k) (chk m dtb k) m dtb"
abbreviation found_in where "found_in m dtb k \<equiv> find_trees (sel k) (chk m dtb k) m dtb"

lemma loop_props:
  assumes ok: "dtb_ok dtb" and k: "key k" and "props_at m dtb p ps q"
  shows "case find_prop (chk m dtb k) m dtb ps n of
      Inl n' \<Rightarrow> \<exists>e. loop m dtb k n p = Some (Inr (Some n', e)) | Inr n' \<Rightarrow> loop m dtb k n p = loop m dtb k n' q"
  using assms(3)
proof (induction arbitrary: n rule: props_at.induct)
  case (props_nop p ps q)
  show ?case
    using loop_nop [OF ok props_nop.hyps(1), of "start m dtb k" "check m dtb k" n] props_nop.IH [of n] by (simp split: sum.splits)
next
  case (props_cons p x ps q)
  note step = loop_prop [where chk = "chk m dtb k", OF ok props_cons.hyps(1-5), of "check m dtb k" n "start m dtb k",
      OF check_ok [OF ok k props_cons.hyps(5)]]
  show ?case using props_cons.IH [of "with_cells m dtb x n"] by (simp add: step split: sum.splits)
qed simp

lemma search_tree:
  assumes ok: "dtb_ok dtb" and k: "key k"
  shows "tree_at m dtb p t q \<Longrightarrow>
      \<exists>e. enter m dtb k ac sc p = Some (Inr (found m dtb k ac sc t, e)) \<and> (found m dtb k ac sc t = None \<longrightarrow> e = q)"
    and "trees_at m dtb p ts q \<Longrightarrow>
      (case found_in m dtb k (node_address_cells n) (node_size_cells n) ts of
         Some i \<Rightarrow> \<exists>e. loop m dtb k n p = Some (Inr (Some i, e)) | None \<Rightarrow> loop m dtb k n p = loop m dtb k n q)"
proof (induction arbitrary: ac sc and n rule: tree_at_trees_at.inducts)
  case (tree_node p name ps p1 ts p2)
  let ?n = "entered_node (align4 (p + 4 + length name + 1)) ac sc"
  note start = start_ok [OF ok k tree_node(1-3), of ac sc]
  show ?case
  proof (cases "sel k name")
    case False
    then have loop: "enter m dtb k ac sc p = loop m dtb k ?n (align4 (p + 4 + length name + 1))"
      by (simp add: search_from_def start)
    show ?thesis
    proof (cases "find_prop (chk m dtb k) m dtb ps ?n")
      case (Inl n')
      then show ?thesis using loop_props [OF ok k tree_node(4), of ?n] False loop by simp
    next
      case (Inr n')
      then have "enter m dtb k ac sc p = loop m dtb k n' p1" using loop_props [OF ok k tree_node(4), of ?n] loop by simp
      then show ?thesis
        using tree_node(6) [of n'] Inr False loop_end_node [OF ok tree_node(7)] by (simp split: option.splits)
    qed
  qed (simp add: search_from_def start)
next
  case (trees_nop p ts q)
  show ?case
    using loop_nop [OF ok trees_nop(1), of "start m dtb k" "check m dtb k" n] trees_nop(3) [of n] by (simp split: option.splits)
next
  case (trees_cons p t q ts r)
  note first = loop_begin_node [OF ok tree_at_token [OF trees_cons(1)], of "start m dtb k" "check m dtb k" n]
  show ?case
    using trees_cons(2) [of "node_address_cells n" "node_size_cells n"] trees_cons(4) [of n]
    by (auto simp: first split: option.splits)
qed simp

text \<open>The search of the whole structure block, a tree and the final token.\<close>

lemma search_whole:
  assumes ok: "dtb_ok dtb" and k: "key k" and "get_struct_offset m dtb = Some p" and "tree_at m dtb p t q"
    and "token m dtb q FDT_END"
  shows "search_after (start m dtb k) (check m dtb k) m dtb None = Some (found m dtb k DEFAULT_ADDRESS_CELLS DEFAULT_SIZE_CELLS t)"
proof -
  note r = token_read(1) [OF ok tree_at_token [OF assms(4)]] token_read(1) [OF ok assms(5)]
  have "search m dtb k DEFAULT_ADDRESS_CELLS DEFAULT_SIZE_CELLS p = Some (found m dtb k DEFAULT_ADDRESS_CELLS DEFAULT_SIZE_CELLS t)"
    using r search_tree(1) [OF ok k assms(4), of DEFAULT_ADDRESS_CELLS DEFAULT_SIZE_CELLS]
    by (subst search_all.simps) (auto split: option.splits)
  then show ?thesis using assms(3) by (simp add: search_after_def)
qed

text \<open>The search among the nodes that follow a node without subnodes.\<close>

lemma search_nop:
  assumes ok: "dtb_ok dtb" and "token m dtb p FDT_NOP" and "trees_at m dtb (p + 4) ts q" and "ts \<noteq> []"
  shows "search m dtb k ac sc p = search m dtb k ac sc (p + 4)"
proof -
  obtain t where t: "token m dtb (p + 4) t" using trees_at_token [OF assms(3,4)] by auto
  show ?thesis
    using search_all_cong [OF token_read(1) [OF ok assms(2)] token_read(1) [OF ok t]] start_nop [OF ok assms(2)]
    by (simp add: search_from_def)
qed

lemma search_following:
  assumes ok: "dtb_ok dtb" and k: "key k"
  shows "tree_at m dtb p' t q' \<Longrightarrow> True"
    and "trees_at m dtb p ts q \<Longrightarrow> found_in m dtb k ac sc ts = Some n \<Longrightarrow> search m dtb k ac sc p = Some (Some n)"
proof (induction rule: tree_at_trees_at.inducts)
  case (trees_nop p ts q)
  then have "ts \<noteq> []" by auto
  then show ?case using search_nop [OF ok trees_nop(1,2)] trees_nop by simp
next
  case (trees_cons p t q ts r)
  note enter = token_read(1) [OF ok tree_at_token [OF trees_cons(1)]] search_tree(1) [OF ok k trees_cons(1), of ac sc]
  show ?case
  proof (cases "found m dtb k ac sc t")
    case None
    then have ts: "ts \<noteq> []" "search m dtb k ac sc q = Some (Some n)" using trees_cons by auto
    have "search m dtb k ac sc p = search m dtb k ac sc q"
      using trees_at_token [OF trees_cons(3) ts(1)]
    proof
      assume "token m dtb q FDT_BEGIN_NODE"
      then show ?thesis using enter None token_read(1) [OF ok] by (subst search_all.simps) auto
    next
      assume "token m dtb q FDT_NOP \<and> trees_at m dtb (q + 4) ts r"
      then have nop: "token m dtb q FDT_NOP" "trees_at m dtb (q + 4) ts r" by simp_all
      have "search m dtb k ac sc p = search m dtb k ac sc (q + 4)"
        using enter None token_read(1,3) [OF ok nop(1)] by (subst search_all.simps) (auto simp del: usize_add_Some)
      then show ?thesis using search_nop [OF ok nop ts(1)] by simp
    qed
    then show ?thesis using ts(2) by simp
  next
    case (Some i)
    then show ?thesis using trees_cons(5) enter by (subst search_all.simps) (auto split: option.splits)
  qed
qed simp_all

end

section \<open>The two searches\<close>

lemma begin_node_eq:
  assumes "dtb_ok dtb"
  shows "token m dtb p FDT_BEGIN_NODE \<Longrightarrow> begin_node m dtb p = Some (Inr (Inr (p + 4)))"
    and "token m dtb p FDT_NOP \<Longrightarrow> begin_node m dtb p = begin_node m dtb (p + 4)"
  using token_read [OF assms, of m p FDT_BEGIN_NODE] nop_skipped [OF assms, of m p]
  by (simp_all add: begin_node_def del: usize_add_Some)

lemma name_bounds:
  assumes "dtb_ok dtb" and "align4 (p + 4 + length name + 1) < struct_end m dtb"
  shows "p + 4 + length name + 5 < 2 ^ 64"
  using align4_ge(1) [of "p + 4 + length name + 1"] assms(2) struct_end_less [OF assms(1), of m] by simp

interpretation by_name: node_search enter_by_name "\<lambda>m dtb name. no_check" "name_matches (ascii ''@'')" "\<lambda>m dtb name x. False"
  "\<lambda>name. 0 \<notin> set name"
proof
  show "enter_by_name m dtb k p ac sc = Some (Inr (if name_matches (ascii ''@'') k name
        then Inl (Some (entered_node (align4 (p + 4 + length name + 1)) ac sc), align4 (p + 4 + length name + 1))
        else Inr (align4 (p + 4 + length name + 1))))"
    if "dtb_ok dtb" "0 \<notin> set k" "token m dtb p FDT_BEGIN_NODE" "string_at m (p + 4) name"
      "align4 (p + 4 + length name + 1) < struct_end m dtb" for dtb k m p name ac sc
    using begin_node_eq(1) [OF that(1,3)] compare_string_at [OF that(4,2), of "ascii ''@''"] name_bounds [OF that(1,5)]
    by (simp add: enter_by_name_def ascii_def of_char_def)
  show "enter_by_name m dtb k p ac sc = enter_by_name m dtb k (p + 4) ac sc"
    if "dtb_ok dtb" "token m dtb p FDT_NOP" for dtb m p k ac sc
    using begin_node_eq(2) [OF that] by (simp add: enter_by_name_def)
qed (simp add: no_check_def)

lemma compatible_here_string:
  assumes "string_at m (a + p) s" and "0 \<notin> set k" and "p + length s + 1 < 2 ^ 32" and "a + p + length s + 1 < 2 ^ 64"
  shows "\<exists>j \<le> length s. string_at m (a + (p + j)) (drop j s) \<and>
    compatible_here m a (k @ [0]) p = Some (if k = s then (True, p + length s + 1) else (False, p + j))"
  using assms
proof (induction k arbitrary: p s)
  case Nil
  then show ?case
    by (cases s) (auto simp: string_at_Nil string_at_Cons usize_add_def u32_inc_def intro!: exI [of _ 0])
next
  case (Cons c k)
  show ?case
  proof (cases "\<exists>s'. s = c # s'")
    case True
    then obtain s' where s: "s = c # s'" by blast
    with Cons.prems Cons.IH [of "p + 1" s'] obtain j where "j \<le> length s'" "string_at m (a + (p + 1 + j)) (drop j s')"
        "compatible_here m a (k @ [0]) (p + 1) = Some (if k = s' then (True, p + 1 + length s' + 1) else (False, p + 1 + j))"
      by (auto simp: string_at_Cons)
    with s Cons.prems show ?thesis
      by (intro exI [of _ "Suc j"]) (simp add: string_at_Cons usize_add_def u32_inc_def)
  next
    case False
    then show ?thesis using Cons.prems
      by (cases s) (auto simp: string_at_Nil string_at_Cons usize_add_def intro!: exI [of _ 0])
  qed
qed

lemma compatible_skip:
  assumes "string_at m (a + p) s" and "p + length s < len" and "len < 2 ^ 32" and "a + len < 2 ^ 64"
  shows "compatible_loop m a len k p True = compatible_loop m a len k (p + length s + 1) False"
  using assms
proof (induction s arbitrary: p)
  case Nil
  then show ?case by (subst compatible_loop.simps) (simp add: string_at_Nil usize_add_def u32_inc_def)
next
  case (Cons c s)
  then show ?case using Cons.IH [of "p + 1"]
    by (subst compatible_loop.simps) (simp add: string_at_Cons usize_add_def u32_inc_def)
qed

lemma bytes_from_split:
  "bytes_from m a n = xs @ ys \<longleftrightarrow>
     length xs \<le> n \<and> bytes_from m a (length xs) = xs \<and> bytes_from m (a + length xs) (n - length xs) = ys"
proof (induction xs arbitrary: a n)
  case (Cons x xs)
  then show ?case by (cases n) auto
qed simp

lemma bytes_from_string:
  assumes "bytes_from m a n = s @ 0 # bs" and "0 \<notin> set s"
  shows "string_at m a s" "length s < n" "bytes_from m (a + length s + 1) (n - (length s + 1)) = bs"
proof -
  have "bytes_from m a n = (s @ [0]) @ bs" using assms(1) by simp
  then have e: "length s + 1 \<le> n" "bytes_from m a (length s + 1) = s @ [0]" "bytes_from m (a + (length s + 1)) (n - (length s + 1)) = bs"
    unfolding bytes_from_split [of m a n "s @ [0]"] by simp_all
  show "string_at m a s" using e(2) assms(2) unfolding bytes_from_split by (simp add: string_at_def)
  show "length s < n" "bytes_from m (a + length s + 1) (n - (length s + 1)) = bs" using e(1,3) by (simp_all add: add.assoc)
qed

lemma compatible_loop_list:
  assumes "bytes_from m (a + p) (len - p) = joined ss" and "\<forall>s \<in> set ss. 0 \<notin> set s" and "0 \<notin> set k" and "len < 2 ^ 32"
    and "a + len < 2 ^ 64"
  shows "compatible_loop m a len k p False = Some (k \<in> set ss)"
  using assms
proof (induction ss arbitrary: p)
  case Nil
  then have "len - p = 0" by (cases "len - p") (simp_all add: joined_def)
  then show ?case by (subst compatible_loop.simps) simp
next
  case (Cons s ss)
  have s: "string_at m (a + p) s" "length s < len - p" "bytes_from m (a + (p + length s + 1)) (len - (p + length s + 1)) = joined ss"
    using bytes_from_string [of m "a + p" "len - p" s "joined ss"] Cons.prems(1,2) by (simp_all add: joined_def add.assoc)
  then have less: "p + length s < len" "p + length s + 1 < 2 ^ 32" "a + p + length s + 1 < 2 ^ 64" using Cons.prems(4,5) by simp_all
  obtain j where j: "j \<le> length s" "string_at m (a + (p + j)) (drop j s)"
      "compatible_here m a (k @ [0]) p = Some (if k = s then (True, p + length s + 1) else (False, p + j))"
    using compatible_here_string [OF s(1) Cons.prems(3) less(2,3)] by blast
  have "compatible_loop m a len k (p + j) True = compatible_loop m a len k (p + length s + 1) False"
    using compatible_skip [OF j(2), of len k] j(1) less(1) Cons.prems(4,5) by simp
  moreover have "compatible_loop m a len k (p + length s + 1) False = Some (k \<in> set ss)"
    using Cons.IH [of "p + length s + 1"] s(3) Cons.prems(2-5) by simp
  ultimately show ?case using j(3) less(1) by (subst compatible_loop.simps) simp
qed

definition compatible_with :: "memory \<Rightarrow> Dtb \<Rightarrow> u8 list \<Rightarrow> Property \<Rightarrow> bool" where
  "compatible_with m dtb k x \<longleftrightarrow> named m dtb PROP_COMPATIBLE x \<and> (\<exists>ss. string_list ss m x \<and> k \<in> set ss)"

lemma check_compatible_eq:
  assumes "dtb_ok dtb" and "0 \<notin> set k" and "property_ok m dtb x"
  shows "check_compatible m dtb k body (value_len x) (name_at x) (value_at x) ac sc =
    Some (Inr (if compatible_with m dtb k x then Some (entered_node body ac sc) else None))"
proof -
  have o: "unat (name_at x) < get_string_size m dtb" using assms(3) by (simp add: property_ok_def)
  note c = compare_name_segment_eq [OF assms(1) o names_ok(3,8)]
  show ?thesis
  proof (cases "named m dtb PROP_COMPATIBLE x")
    case True
    have "value_at x + unat (value_len x) < 2 ^ 64" using property_bounds(2) [OF assms(1,3)] by simp
    then have loop: "compatible_loop m (value_at x) (unat (value_len x)) k 0 False = Some (k \<in> set ss)" if "string_list ss m x" for ss
      using compatible_loop_list [of m "value_at x" 0 "unat (value_len x)" ss k] that assms(2) u32_less [of "value_len x"]
      by (simp add: string_list_def)
    obtain ss where ss: "string_list ss m x" using assms(3) True by (auto simp: property_ok_def)
    have "k \<in> set ss' \<longleftrightarrow> k \<in> set ss" if "string_list ss' m x" for ss' using loop [OF that] loop [OF ss] by simp
    then have "compatible_with m dtb k x \<longleftrightarrow> k \<in> set ss" using True ss unfolding compatible_with_def by blast
    then have "compatible_loop m (value_at x) (unat (value_len x)) k 0 False = Some (compatible_with m dtb k x)"
      using loop [OF ss] by simp
    then show ?thesis using True by (simp add: check_compatible_def c is_device_compatible_prop_def)
  qed (simp add: check_compatible_def c compatible_with_def)
qed

interpretation by_compatible: node_search "\<lambda>m dtb k. enter_any m dtb" check_compatible "\<lambda>k name. False" compatible_with
  "\<lambda>k. 0 \<notin> set k"
proof
  show "enter_any m dtb p ac sc = Some (Inr (if False
        then Inl (Some (entered_node (align4 (p + 4 + length name + 1)) ac sc), align4 (p + 4 + length name + 1))
        else Inr (align4 (p + 4 + length name + 1))))"
    if "dtb_ok dtb" "token m dtb p FDT_BEGIN_NODE" "string_at m (p + 4) name"
      "align4 (p + 4 + length name + 1) < struct_end m dtb" for dtb m p name ac sc
    using begin_node_eq(1) [OF that(1,2)] skip_string_at [OF that(3)] name_bounds [OF that(1,4)] by (simp add: enter_any_def)
  show "enter_any m dtb p ac sc = enter_any m dtb (p + 4) ac sc" if "dtb_ok dtb" "token m dtb p FDT_NOP" for dtb m p ac sc
    using begin_node_eq(2) [OF that] by (simp add: enter_any_def)
qed (rule check_compatible_eq)

section \<open>Behind a node\<close>

lemma skip_nop_token:
  assumes "dtb_ok dtb" and "token m dtb p FDT_NOP"
  shows "skip_to_next_node m dtb p = skip_to_next_node m dtb (p + 4)"
  using nop_skipped [OF assms] by (subst (1 2) skip_to_next_node.simps) simp

lemma skip_props:
  assumes ok: "dtb_ok dtb" and "props_at m dtb p ps q"
  shows "skip_to_next_node m dtb p = skip_to_next_node m dtb q"
  using assms(2)
proof (induction rule: props_at.induct)
  case (props_nop p ps q)
  then show ?case using skip_nop_token [OF ok] by simp
next
  case (props_cons p x ps q)
  let ?q = "value_at x + unat (value_len x)"
  note r = token_read [OF ok props_cons.hyps(1)]
  have less: "p + 12 + unat (value_len x) < struct_end m dtb" using props_cons.hyps(4,5) by (simp add: property_ok_def)
  then have "skip_padding (p + 12 + unat (value_len x)) = Some (align4 (p + 12 + unat (value_len x)))"
      "skip_padding (align4 (p + 12 + unat (value_len x))) = Some (align4 (p + 12 + unat (value_len x)))"
    using struct_end_less [OF ok, of m] align4_ge [of "p + 12 + unat (value_len x)"] align4_id [of "align4 (p + 12 + unat (value_len x))"]
      skip_padding_eq by auto
  then have "skip_to_next_node m dtb (p + 12 + unat (value_len x)) = skip_to_next_node m dtb (align4 (p + 12 + unat (value_len x)))"
    by (subst (1 2) skip_to_next_node.simps) simp
  moreover have "skip_to_next_node m dtb p = skip_to_next_node m dtb (p + 12 + unat (value_len x))"
    using r less struct_end_less [OF ok, of m] props_cons.hyps(2)
    by (subst skip_to_next_node.simps) (simp add: read_node_eq [OF ok] read_be32_def usize_add_def add.commute [of p])
  ultimately show ?case using props_cons.IH by simp
qed simp

text \<open>
  The search for the next node goes behind the current one, if that has no subnodes, and stops
  with an error at its first subnode: the recursion starts at the name of the subnode and
  takes it for a token.
\<close>

lemma skip_leaf:
  assumes ok: "dtb_ok dtb" and "props_at m dtb p ps q" and "trees_at m dtb q [] r" and "token m dtb r FDT_END_NODE"
  shows "skip_to_next_node m dtb p = Some (Inr (r + 4))"
proof -
  have "skip_to_next_node m dtb q = skip_to_next_node m dtb r" if "trees_at m dtb q ts r" "ts = []" for ts
    using that
    by (induction rule: tree_at_trees_at.inducts(2) [where ?P1.0 = "\<lambda>_ _ _. True"]) (simp_all add: skip_nop_token [OF ok])
  then have "skip_to_next_node m dtb p = skip_to_next_node m dtb r" using assms(3) skip_props [OF ok assms(2)] by simp
  then show ?thesis
    using token_read [OF ok assms(4)] by (subst (asm) (2) skip_to_next_node.simps) (simp del: usize_add_Some)
qed

lemma skip_at_name:
  assumes ok: "dtb_ok dtb" and "token m dtb p FDT_BEGIN_NODE" and "m (p + 4) \<noteq> 0"
  shows "skip_to_next_node m dtb p = Some (Inl ())"
proof -
  have pad: "skip_padding (p + 4) = Some (p + 4)" 
    using assms(2) skip_padding_eq [of "p + 4"] align4_id [of "p + 4"] struct_end_less [OF ok, of m] by (auto simp: token_def)
  have "bytes_from m (p + 4) 4 \<noteq> t" if "t \<in> {FDT_NOP, FDT_BEGIN_NODE, FDT_END, FDT_END_NODE, FDT_PROP}" for t
    using assms(3) that
    by (auto simp: FDT_NOP_def FDT_BEGIN_NODE_def FDT_END_def FDT_END_NODE_def FDT_PROP_def numeral_eq_Suc)
  then have "skip_to_next_node m dtb (p + 4) = Some (Inl ())"
    using pad by (subst skip_to_next_node.simps, subst skip_nop.simps) (simp add: read_node_eq [OF ok])
  then show ?thesis
    using token_read [OF ok assms(2)] by (subst skip_to_next_node.simps) (simp del: usize_add_Some)
qed

lemma skip_with_subnode:
  assumes ok: "dtb_ok dtb" and "props_at m dtb p ps q" and "trees_at m dtb q (Tree b name xs us # ts) r" and "name \<noteq> []"
  shows "skip_to_next_node m dtb p = Some (Inl ())"
proof -
  have "skip_to_next_node m dtb q = Some (Inl ())" if "trees_at m dtb q ts' r" "ts' = Tree b name xs us # ts" for ts'
    using that
  proof (induction rule: tree_at_trees_at.inducts(2) [where ?P1.0 = "\<lambda>_ _ _. True"])
    case (trees_cons p t q ts r)
    then show ?case using assms(4) skip_at_name [OF ok] by (auto elim!: tree_at.cases simp: neq_Nil_conv string_at_Cons)
  qed (simp_all add: skip_nop_token [OF ok])
  then show ?thesis using assms(3) skip_props [OF ok assms(2)] by simp
qed

end
