(* ===== verification/DtbTotal.thy ===== *)
theory DtbTotal
  imports DtbProps
begin

text \<open>
  Termination of the device tree reader on any contents of memory, also on a damaged tree, and
  the claims about the searches. The only assumption is that some zero byte lies behind
  everything that the offsets of the tree can reach, so that the search for the end of a string
  stops.
\<close>

section \<open>Termination\<close>

definition bounded_by :: "memory \<Rightarrow> Dtb \<Rightarrow> usize \<Rightarrow> bool" where
  "bounded_by m dtb z \<longleftrightarrow> m z = 0 \<and> struct_end m dtb + 2 ^ 33 \<le> z \<and> z + 16 < 2 ^ 64"

text \<open>A pointer that the reader may have: behind what it started from, and not beyond the bound.\<close>

definition advances :: "usize \<Rightarrow> usize \<Rightarrow> usize \<Rightarrow> bool" where
  "advances z p q \<longleftrightarrow> p < q \<and> q \<le> z + 8"

lemma string_before: "m z = 0 \<Longrightarrow> q \<le> z \<Longrightarrow> \<exists>s. string_at m q s \<and> q + length s \<le> z"
proof (induction "z - q" arbitrary: q)
  case 0
  then show ?case by (intro exI [of _ "[]"]) (simp add: string_at_Nil)
next
  case (Suc d)
  show ?case
  proof (cases "m q = 0")
    case False
    have "d = z - (q + 1)" "q + 1 \<le> z" using Suc.hyps(2) by simp_all
    then obtain s where "string_at m (q + 1) s" "q + 1 + length s \<le> z" using Suc.hyps(1) Suc.prems(1) by blast
    then show ?thesis using False by (intro exI [of _ "m q # s"]) (simp add: string_at_Cons)
  qed (use Suc.prems in \<open>auto intro: exI [of _ "[]"] simp: string_at_Nil\<close>)
qed

lemma skip_nop_total:
  assumes ok: "dtb_ok dtb"
  shows "skip_nop m dtb p = Some (Inl ()) \<or>
    (\<exists>q. skip_nop m dtb p = Some (Inr q) \<and> p \<le> q \<and> q < struct_end m dtb \<and> bytes_from m q 4 \<noteq> FDT_NOP)"
proof (induction "struct_end m dtb - p" arbitrary: p rule: less_induct)
  case less
  show ?case
  proof (cases "p < struct_end m dtb \<and> bytes_from m p 4 = FDT_NOP")
    case True
    have "usize_add p FDT_TOKEN_BYTE = Some (p + 4)"
      using True struct_end_less [OF ok, of m] by (simp add: usize_add_def FDT_TOKEN_BYTE_def)
    then have "skip_nop m dtb p = skip_nop m dtb (p + 4)"
      using True by (subst skip_nop.simps) (simp add: read_node_eq [OF ok] del: usize_add_Some)
    then show ?thesis using less [of "p + 4"] True by fastforce
  qed (subst (1 2) skip_nop.simps, auto simp: read_node_eq [OF ok])
qed

text \<open>Padding and tokens to skip before a token: an error or a later token.\<close>

lemma next_token:
  assumes ok: "dtb_ok dtb" and "bounded_by m dtb z" and "0 < p" and "p \<le> z + 8"
  obtains "skip_padding p = Some (align4 p)" "skip_nop m dtb (align4 p) = Some (Inl ())"
  | q where "p \<le> q" "q < struct_end m dtb" "skip_padding p = Some (align4 p)" "skip_nop m dtb (align4 p) = Some (Inr q)"
      "read_node m dtb q = Some (Inr (bytes_from m q 4))"
proof -
  have pad: "skip_padding p = Some (align4 p)" "p \<le> align4 p"
    using assms skip_padding_eq [of p] align4_ge(1) [of p] by (auto simp: bounded_by_def)
  then show thesis
    using skip_nop_total [OF ok, of m "align4 p"] that(1) that(2) by (auto simp: read_node_eq [OF ok])
qed

lemma plus4:
  assumes "dtb_ok dtb" and "bounded_by m dtb z" and "q < struct_end m dtb"
  shows "usize_add q FDT_TOKEN_BYTE = Some (q + 4)" "q + 4 \<le> z"
  using assms by (auto simp: bounded_by_def usize_add_def FDT_TOKEN_BYTE_def)

lemma enter_total:
  assumes ok: "dtb_ok dtb" and z: "bounded_by m dtb z" and "0 \<notin> set name"
  shows "enter_by_name m dtb name p ac sc = Some (Inl ()) \<or>
    (\<exists>q. enter_by_name m dtb name p ac sc = Some (Inr (Inl (None, q))) \<and> p \<le> q \<and> q < struct_end m dtb \<and>
       bytes_from m q 4 \<noteq> FDT_BEGIN_NODE \<and> skip_nop m dtb p = Some (Inr q)) \<or>
    (\<exists>n q. enter_by_name m dtb name p ac sc = Some (Inr (Inl (Some n, q)))) \<or>
    (\<exists>q. enter_by_name m dtb name p ac sc = Some (Inr (Inr q)) \<and> advances z p q)"
  using skip_nop_total [OF ok, of m p]
proof
  assume "\<exists>q. skip_nop m dtb p = Some (Inr q) \<and> p \<le> q \<and> q < struct_end m dtb \<and> bytes_from m q 4 \<noteq> FDT_NOP"
  then obtain q where q: "skip_nop m dtb p = Some (Inr q)" "p \<le> q" "q < struct_end m dtb" "bytes_from m q 4 \<noteq> FDT_NOP" by blast
  note p4 = plus4 [OF ok z q(3)]
  obtain s where s: "string_at m (q + 4) s" "q + 4 + length s \<le> z" 
    using string_before [OF _ p4(2), of m] z by (auto simp: bounded_by_def)
  have "q + 4 + length s + 5 < 2 ^ 64" using s(2) z by (simp add: bounded_by_def)
  then obtain b where b: "compare_string m (q + 4) name (ascii ''@'') = Some (b, align4 (q + 4 + length s + 1))"
    using compare_string_at [OF s(1) assms(3), of "ascii ''@''"] by (simp add: ascii_def of_char_def)
  moreover have "advances z p (align4 (q + 4 + length s + 1))"
    using align4_ge [of "q + 4 + length s + 1"] s(2) q(2) by (simp add: advances_def)
  ultimately show ?thesis
    using q p4 b by (cases b) (auto simp: enter_by_name_def begin_node_def read_node_eq [OF ok] simp del: usize_add_Some)
qed (simp add: enter_by_name_def begin_node_def)

lemma cells_total:
  assumes "dtb_ok dtb"
  shows "\<exists>r. check_address_and_size_cells m dtb name_segment q ac sc = Some r"
proof -
  have "\<exists>r. compare_name_segment m dtb name_segment name [] = Some r" if "0 \<notin> set name" "length name < 2 ^ 32" for name
    using compare_name_segment_eq [OF assms, of "\<lparr>value_at = 0, value_len = 0, name_at = name_segment\<rparr>" m name] that
    by (cases "unat name_segment < get_string_size m dtb") (auto simp: compare_name_segment_def)
  from this [OF names_ok(1,6)] this [OF names_ok(2,7)] obtain r1 r2 where
    "compare_name_segment m dtb name_segment PROP_ADDRESS_CELLS [] = Some r1"
    "compare_name_segment m dtb name_segment PROP_SIZE_CELLS [] = Some r2"
    by blast
  then show ?thesis
    by (cases r1; cases r2) (simp_all add: check_address_and_size_cells_def read_node_eq [OF assms])
qed

lemma prop_total:
  assumes ok: "dtb_ok dtb" and z: "bounded_by m dtb z" and q: "q < struct_end m dtb"
  shows "prop_step no_check m dtb n q = Some (Inl ()) \<or> (\<exists>n' q'. prop_step no_check m dtb n q = Some (Inr (Next n' q')) \<and> advances z q q')"
proof -
  note p4 = plus4 [OF ok z q]
  have "read_prop m dtb q = Some (Inl ()) \<or> (\<exists>len name. read_prop m dtb q = Some (Inr (len, name, q + 12)))"
    using p4 q z by (auto simp: read_prop_def read_node_eq [OF ok] bounded_by_def usize_add_def FDT_TOKEN_BYTE_def)
  then show ?thesis
  proof
    assume "\<exists>len name. read_prop m dtb q = Some (Inr (len, name, q + 12))"
    then obtain len name where r: "read_prop m dtb q = Some (Inr (len, name, q + 12))" by blast
    have q': "usize_add (q + 12) (unat len) = Some (q + 12 + unat len)" "advances z q (q + 12 + unat len)"
      using u32_less [of len] q z by (auto simp: usize_add_def bounded_by_def advances_def)
    obtain c where c: "check_address_and_size_cells m dtb name (q + 12) (node_address_cells n) (node_size_cells n) = Some c"
      using cells_total [OF ok] by blast
    show ?thesis
    proof (cases c)
      case (Inr d)
      then show ?thesis using r c q' by (cases d) (simp add: prop_step_def no_check_def del: usize_add_Some)
    qed (use r c in \<open>simp add: prop_step_def\<close>)
  qed (simp add: prop_step_def)
qed

text \<open>A round of the loop ends with an error or a result, or it advances.\<close>

lemma step_total:
  fixes n :: DtbNode
  assumes ok: "dtb_ok dtb" and z: "bounded_by m dtb z" and "0 \<notin> set name" and "0 < p" and "p \<le> z + 8"
  defines "step \<equiv> search_step (enter_by_name m dtb name) no_check m dtb n p"
  obtains "step = Some (Inl ())" | i q where "step = Some (Inr (Return (Some i, q)))"
    | q where "step = Some (Inr (Return (None, q)))" "advances z p q"
    | n' q where "step = Some (Inr (Next n' q))" "advances z p q"
    | q where "step = Some (Inr (Descend q))" "advances z p q"
proof (cases rule: next_token [OF ok z assms(4,5)])
  case 1
  then show thesis using that(1) by (simp add: step_def search_step_def)
next
  case (2 q)
  let ?t = "bytes_from m q 4"
  have adv: "advances z p r" if "advances z q r" for r using that 2(1) by (simp add: advances_def)
  have p4: "usize_add q FDT_TOKEN_BYTE = Some (q + 4)" "advances z p (q + 4)"
    using plus4 [OF ok z 2(2)] 2(1) by (simp_all add: advances_def)
  consider (node) "?t = FDT_BEGIN_NODE" | (property) "?t = FDT_PROP" | (other) "?t \<noteq> FDT_BEGIN_NODE" "?t \<noteq> FDT_PROP" by blast
  then show thesis
  proof cases
    case node
    then have n: "skip_nop m dtb q = Some (Inr q)" using 2(2) by (subst skip_nop.simps) (simp add: read_node_eq [OF ok])
    have s: "step = attempt (enter_by_name m dtb name q (node_address_cells n) (node_size_cells n)) (\<lambda>st. Some (Inr (case st of
             Inl iq \<Rightarrow> (case fst iq of Some _ \<Rightarrow> Return iq | None \<Rightarrow> Next n (snd iq)) | Inr q \<Rightarrow> Descend q)))"
      using node 2(3-5) by (simp add: step_def search_step_def)
    show thesis
      using enter_total [OF ok z assms(3), of q "node_address_cells n" "node_size_cells n"] node n adv that(1,2,5)
      by (auto simp: s)
  next
    case property
    then have "step = prop_step no_check m dtb n q" using 2(3-5) by (simp add: step_def search_step_def)
    then show thesis using prop_total [OF ok z 2(2), of n] adv that(1,4) by auto
  next
    case other
    then show thesis using p4 2(3-5) that(1,3) by (cases "?t = FDT_END_NODE") (auto simp: step_def search_step_def simp del: usize_add_Some)
  qed
qed

lemma loop_total:
  assumes ok: "dtb_ok dtb" and z: "bounded_by m dtb z" and k: "0 \<notin> set name" and "0 < p" and "p \<le> z + 8"
  shows "\<exists>r. search_loop (enter_by_name m dtb name) no_check m dtb n p = Some r \<and> (\<forall>q. r = Inr (None, q) \<longrightarrow> advances z p q)"
  using assms(4,5)
proof (induction "z + 9 - p" arbitrary: p n rule: less_induct)
  case less
  let ?loop = "search_loop (enter_by_name m dtb name) no_check m dtb"
  have IH: "\<exists>r. ?loop n' q = Some r \<and> (\<forall>q'. r = Inr (None, q') \<longrightarrow> advances z p q')" if "advances z p q" for n' q
    using less.hyps [of q n'] that less.prems by (fastforce simp: advances_def)
  show ?case
  proof (cases rule: step_total [OF ok z k less.prems, of n])
    case (4 n' q)
    then show ?thesis using IH [OF 4(2), of n'] by (subst search_loop.simps) simp
  next
    case (5 q)
    obtain r where r: "?loop (entered_node q (node_address_cells n) (node_size_cells n)) q = Some r"
        "\<And>q'. r = Inr (None, q') \<Longrightarrow> advances z p q'"
      using IH [OF 5(2)] by blast
    then show ?thesis
      using 5 IH [of _ n] by (subst search_loop.simps) (auto simp: attempt_def split: sum.splits option.splits)
  qed (subst search_loop.simps; auto)+
qed

lemma from_total:
  assumes ok: "dtb_ok dtb" and z: "bounded_by m dtb z" and k: "0 \<notin> set name" and "0 < p" and "p \<le> z + 8"
  shows "\<exists>r. search_from (enter_by_name m dtb name) no_check m dtb ac sc p = Some r \<and>
    (\<forall>q. r = Inr (None, q) \<longrightarrow> advances z p q \<or> p \<le> q \<and> q < struct_end m dtb \<and> bytes_from m q 4 \<noteq> FDT_BEGIN_NODE)"
proof -
  have "\<exists>r. search_loop (enter_by_name m dtb name) no_check m dtb n q = Some r \<and> (\<forall>q'. r = Inr (None, q') \<longrightarrow> advances z p q')"
    if "advances z p q" for n q
    using loop_total [OF ok z k, of q n] that assms(4) by (fastforce simp: advances_def)
  then show ?thesis
    using enter_total [OF ok z k, of p ac sc] by (fastforce simp: search_from_def)
qed

lemma all_total:
  assumes ok: "dtb_ok dtb" and z: "bounded_by m dtb z" and k: "0 \<notin> set name" and "0 < p" and "p \<le> z + 8"
  shows "\<exists>r. search_all (enter_by_name m dtb name) no_check m dtb ac sc p = Some r"
  using assms(4,5)
proof (induction "z + 9 - p" arbitrary: p rule: less_induct)
  case less
  let ?all = "search_all (enter_by_name m dtb name) no_check m dtb ac sc"
  have IH: "\<exists>r. ?all q = Some r" if "advances z p q" for q
    using less.hyps [of q] that less.prems by (fastforce simp: advances_def)
  obtain r where r: "search_from (enter_by_name m dtb name) no_check m dtb ac sc p = Some r"
      "\<And>q. r = Inr (None, q) \<Longrightarrow> advances z p q \<or> p \<le> q \<and> q < struct_end m dtb \<and> bytes_from m q 4 \<noteq> FDT_BEGIN_NODE"
    using from_total [OF ok z k less.prems, of ac sc] by blast
  show ?case
  proof (cases "\<exists>q. r = Inr (None, q) \<and> p < struct_end m dtb \<and> q < struct_end m dtb")
    case True
    then obtain q where q: "r = Inr (None, q)" "p < struct_end m dtb" "q < struct_end m dtb" by blast
    have "\<exists>r. ?all q = Some r" if "bytes_from m q 4 = FDT_BEGIN_NODE" using r(2) [OF q(1)] that IH by auto
    moreover have "p \<le> q" using r(2) [OF q(1)] by (auto simp: advances_def)
    then have "\<exists>r. ?all (q + 4) = Some r" using plus4(2) [OF ok z q(3)] by (intro IH) (simp add: advances_def)
    ultimately show ?thesis
      using r(1) q plus4(1) [OF ok z q(3)] by (subst search_all.simps) (auto simp: read_node_eq [OF ok] simp del: usize_add_Some)
  next
    case False
    then show ?thesis
      using r(1) by (subst search_all.simps) (cases r, auto simp: read_node_eq [OF ok] split: option.splits)
  qed
qed

lemma skip_total:
  assumes ok: "dtb_ok dtb" and z: "bounded_by m dtb z" and "0 < p" and "p \<le> z + 8"
  shows "\<exists>r. skip_to_next_node m dtb p = Some r \<and> (\<forall>q. r = Inr q \<longrightarrow> advances z p q)"
  using assms(3,4)
proof (induction "z + 9 - p" arbitrary: p rule: less_induct)
  case less
  have IH: "\<exists>r. skip_to_next_node m dtb q = Some r \<and> (\<forall>q'. r = Inr q' \<longrightarrow> advances z p q')" if "advances z p q" for q
    using less.hyps [of q] that less.prems by (fastforce simp: advances_def)
  show ?case
  proof (cases rule: next_token [OF ok z less.prems])
    case 1
    then show ?thesis by (subst skip_to_next_node.simps) simp
  next
    case (2 q)
    let ?t = "bytes_from m q 4"
    have p4: "usize_add q FDT_TOKEN_BYTE = Some (q + 4)" "advances z p (q + 4)"
      using plus4 [OF ok z 2(2)] 2(1) by (simp_all add: advances_def)
    consider (node) "?t = FDT_BEGIN_NODE" | (property) "?t = FDT_PROP" | (other) "?t \<noteq> FDT_BEGIN_NODE" "?t \<noteq> FDT_PROP" by blast
    then show ?thesis
    proof cases
      case node
      obtain r where "skip_to_next_node m dtb (q + 4) = Some r" "\<And>q'. r = Inr q' \<Longrightarrow> advances z p q'" using IH [OF p4(2)] by blast
      then show ?thesis
        using node 2(3-5) p4 IH by (subst skip_to_next_node.simps) (cases r, auto simp del: usize_add_Some)
    next
      case property
      have "usize_add (q + 4) 8 = Some (q + 12)" "usize_add (q + 12) (unat l) = Some (q + 12 + unat l)" "advances z p (q + 12 + unat l)"
        for l :: u32
        using u32_less [of l] 2(1,2) z by (auto simp: usize_add_def bounded_by_def advances_def)
      then show ?thesis
        using property 2(3-5) p4 IH
        by (subst skip_to_next_node.simps) (auto simp: read_node_eq [OF ok] simp del: usize_add_Some)
    next
      case other
      then show ?thesis using 2(3-5) p4 by (subst skip_to_next_node.simps) (auto simp del: usize_add_Some)
    qed
  qed
qed

section \<open>Claims\<close>

text \<open>
  C36. Whatever memory holds, also when the device tree is damaged, the search for a node by name
  returns: neither a loop nor the recursion runs for ever, and no sum overflows. The tree
  lies in the lower half of the address space, and some zero byte lies behind it.
\<close>

theorem dtb_search_returns:
  assumes "dtb_ok dtb" and "bounded_by m dtb z" and "0 \<notin> set name" and "0 < header dtb"
    and "\<forall>c. current_node = Some c \<longrightarrow> 0 < node_address c \<and> node_address c \<le> z"
  shows "\<exists>r. search_node m dtb name current_node = Some r"
proof (cases current_node)
  case None
  have "get_struct_offset m dtb = Some (header dtb + unat (off_dt_struct m dtb))" "header dtb + unat (off_dt_struct m dtb) \<le> z + 8"
    using assms(1,2) u32_less [of "off_dt_struct m dtb"]
    by (simp_all add: get_struct_offset_def dtb_ok_def usize_add_def bounded_by_def struct_end_def)
  then show ?thesis
    using None all_total [OF assms(1-3)] assms(4) by (simp add: search_node_def search_after_def)
next
  case (Some c)
  then have "0 < node_address c" "node_address c \<le> z + 8" using assms(5) by auto
  then obtain r where "skip_to_next_node m dtb (node_address c) = Some r" "\<And>q. r = Inr q \<Longrightarrow> advances z (node_address c) q"
    using skip_total [OF assms(1,2)] by blast
  then show ?thesis
    using Some all_total [OF assms(1-3)] by (cases r) (auto simp: search_node_def search_after_def advances_def)
qed


text \<open>
  Going on from a node without subnodes, the search finds the first match among the nodes that
  follow it below the same parent, with the cells of that parent.
\<close>

theorem dtb_search_next:
  assumes "dtb_ok dtb" and "0 \<notin> set name" and "props_at m dtb (node_address c) ps p1" and "trees_at m dtb p1 [] p2"
    and "token m dtb p2 FDT_END_NODE" and "trees_at m dtb (p2 + 4) ts q"
    and "find_trees (name_matches (ascii ''@'') name) (\<lambda>x. False) m dtb (node_address_cells c) (node_size_cells c) ts = Some n"
  shows "search_node m dtb name (Some c) = Some (Some n)"
  using skip_leaf [OF assms(1,3,4,5)] by_name.search_following(2) [OF assms(1,2,6,7)]
  by (simp add: search_node_def search_after_def)

text \<open>
  C37. Going on from a node that has a subnode with a name, the search ends with nothing, whatever
  follows: the code that skips a subnode starts at its name and takes the name for a token.
\<close>

theorem dtb_search_next_subnode:
  assumes "dtb_ok dtb" and "props_at m dtb (node_address c) ps p1" and "trees_at m dtb p1 (Tree b l xs us # ts) p2" and "l \<noteq> []"
  shows "search_node m dtb name (Some c) = Some None"
  using skip_with_subnode [OF assms] by (simp add: search_node_def search_after_def)

section \<open>An example\<close>

text \<open>A device tree whose root declares one address cell and has two nodes for processors, the second with a subnode.\<close>

definition sample_bytes :: "u8 list" where
  "sample_bytes =
    [208, 13, 254, 237, 0, 0, 0, 162, 0, 0, 0, 40, 0, 0, 0, 136, 0, 0, 0, 0, 0, 0, 0, 17, 0, 0, 0, 16,
     0, 0, 0, 0, 0, 0, 0, 26, 0, 0, 0, 96, 0, 0, 0, 1, 0, 0, 0, 0, 0, 0, 0, 3, 0, 0, 0, 4, 0, 0, 0, 0,
     0, 0, 0, 1, 0, 0, 0, 1, 99, 112, 117, 64, 48, 0, 0, 0, 0, 0, 0, 2, 0, 0, 0, 1, 99, 112, 117, 64,
     49, 0, 0, 0, 0, 0, 0, 3, 0, 0, 0, 6, 0, 0, 0, 15, 97, 114, 109, 44, 120, 0, 0, 0, 0, 0, 0, 1, 108,
     50, 0, 0, 0, 0, 0, 2, 0, 0, 0, 2, 0, 0, 0, 2, 0, 0, 0, 9, 35, 97, 100, 100, 114, 101, 115, 115, 45,
     99, 101, 108, 108, 115, 0, 99, 111, 109, 112, 97, 116, 105, 98, 108, 101, 0]"

definition sample_mem :: memory where
  "sample_mem a = (if 0x1000 \<le> a \<and> a < 0x1000 + 162 then sample_bytes ! (a - 0x1000) else 0)"

definition sample_fdt :: Dtb where "sample_fdt = \<lparr>header = 0x1000\<rparr>"

definition sample_cells :: Property where "sample_cells = \<lparr>value_at = 0x103c, value_len = 4, name_at = 0\<rparr>"
definition sample_compatible :: Property where "sample_compatible = \<lparr>value_at = 0x1068, value_len = 6, name_at = 15\<rparr>"
definition sample_cpu0 :: tree where "sample_cpu0 = Tree 0x104c (ascii ''cpu@0'') [] []"
definition sample_l2 :: tree where "sample_l2 = Tree 0x1078 (ascii ''l2'') [] []"
definition sample_cpu1 :: tree where "sample_cpu1 = Tree 0x105c (ascii ''cpu@1'') [sample_compatible] [sample_l2]"
definition sample_root :: tree where "sample_root = Tree 0x1030 [] [sample_cells] [sample_cpu0, sample_cpu1]"

lemma tree_node_at:
  "token m dtb p FDT_BEGIN_NODE \<and> string_at m (p + 4) name \<and> body = align4 (p + 4 + length name + 1) \<and> body < struct_end m dtb \<and>
     token m dtb p2 FDT_END_NODE \<and> q = p2 + 4 \<Longrightarrow> props_at m dtb body ps p1 \<Longrightarrow> trees_at m dtb p1 ts p2 \<Longrightarrow>
   tree_at m dtb p (Tree body name ps ts) q"
  using tree_node [of m dtb p name ps p1 ts p2] by simp

lemma props_cons_at:
  "token m dtb p FDT_PROP \<and> read_be32 m (p + 4) = value_len x \<and> read_be32 m (p + 8) = name_at x \<and> value_at x = p + 12 \<and>
     q = align4 (p + 12 + unat (value_len x)) \<Longrightarrow> property_ok m dtb x \<Longrightarrow> props_at m dtb p [x] q"
  using props_cons [of m dtb p x "[]"] props_nil [of m dtb q] by simp

lemma bytes_from_num: "bytes_from m a 4 = [m a, m (a + 1), m (a + 2), m (a + 3)]"
  "bytes_from m a 6 = [m a, m (a + 1), m (a + 2), m (a + 3), m (a + 4), m (a + 5)]"
  by (simp_all add: numeral_eq_Suc)

lemma sample_header [simp]: "header sample_fdt = 0x1000"
  by (simp add: sample_fdt_def)

lemmas sample_read = read_be32_def from_be_bytes_def bytes_from_num sample_mem_def sample_bytes_def ascii_def of_char_def

lemma sample_end: "struct_end sample_mem sample_fdt = 0x1088"
  by (simp add: struct_end_def off_dt_struct_def size_dt_struct_def sample_read)

lemmas sample_eval = token_def string_at_def align4_def sample_end FDT_BEGIN_NODE_def FDT_END_NODE_def FDT_PROP_def FDT_END_def sample_read

lemma sample_named:
  "named sample_mem sample_fdt PROP_ADDRESS_CELLS sample_cells" "\<not> named sample_mem sample_fdt PROP_COMPATIBLE sample_cells"
  "\<not> named sample_mem sample_fdt PROP_ADDRESS_CELLS sample_compatible" "\<not> named sample_mem sample_fdt PROP_SIZE_CELLS sample_compatible"
  by (simp_all add: named_def off_dt_strings_def sample_cells_def sample_compatible_def PROP_COMPATIBLE_def PROP_ADDRESS_CELLS_def
      PROP_SIZE_CELLS_def sample_eval)

lemma sample_properties: "property_ok sample_mem sample_fdt sample_cells" "property_ok sample_mem sample_fdt sample_compatible"
proof -
  have size: "get_string_size sample_mem sample_fdt = 26" by (simp add: get_string_size_def size_dt_strings_def sample_read)
  show "property_ok sample_mem sample_fdt sample_cells"
    using sample_named(2) by (simp add: property_ok_def size sample_cells_def sample_end)
  have "string_list [ascii ''arm,x''] sample_mem sample_compatible"
    by (simp add: string_list_def joined_def sample_compatible_def sample_read)
  then show "property_ok sample_mem sample_fdt sample_compatible"
    by (auto simp: property_ok_def size sample_compatible_def sample_end)
qed

lemma sample_leaves: "tree_at sample_mem sample_fdt 0x1040 sample_cpu0 0x1050" "tree_at sample_mem sample_fdt 0x1070 sample_l2 0x107c"
  unfolding sample_cpu0_def sample_l2_def
  by (rule tree_node_at [OF _ props_nil trees_nil], simp add: sample_eval)+

lemma sample_tree: "tree_at sample_mem sample_fdt 0x1028 sample_root 0x1084" "tree_at sample_mem sample_fdt 0x1050 sample_cpu1 0x1080"
  "token sample_mem sample_fdt 0x1084 FDT_END" "get_struct_offset sample_mem sample_fdt = Some 0x1028" "dtb_ok sample_fdt"
  "props_at sample_mem sample_fdt 0x105c [sample_compatible] 0x1070" "trees_at sample_mem sample_fdt 0x1070 [sample_l2] 0x107c"
proof -
  show props: "props_at sample_mem sample_fdt 0x105c [sample_compatible] 0x1070"
    by (rule props_cons_at [OF _ sample_properties(2)]) (simp add: sample_compatible_def sample_eval)
  show l2: "trees_at sample_mem sample_fdt 0x1070 [sample_l2] 0x107c" by (rule trees_cons [OF sample_leaves(2) trees_nil])
  show cpu1: "tree_at sample_mem sample_fdt 0x1050 sample_cpu1 0x1080"
    unfolding sample_cpu1_def by (rule tree_node_at [OF _ props l2]) (simp add: sample_eval)
  have "props_at sample_mem sample_fdt 0x1030 [sample_cells] 0x1040"
    by (rule props_cons_at [OF _ sample_properties(1)]) (simp add: sample_cells_def sample_eval)
  then show "tree_at sample_mem sample_fdt 0x1028 sample_root 0x1084"
    unfolding sample_root_def
    by (rule tree_node_at [OF _ _ trees_cons [OF sample_leaves(1) trees_cons [OF cpu1 trees_nil]], rotated]) (simp add: sample_eval)
  show "token sample_mem sample_fdt 0x1084 FDT_END" "get_struct_offset sample_mem sample_fdt = Some 0x1028" "dtb_ok sample_fdt"
    by (simp_all add: sample_eval get_struct_offset_def off_dt_struct_def dtb_ok_def)
qed

lemma sample_ascii: "0 \<notin> set (ascii ''cpu'')" "0 \<notin> set (ascii ''memory'')"
  by (simp_all add: ascii_def of_char_def)

lemmas sample_find = sample_root_def sample_cpu0_def sample_cpu1_def sample_l2_def with_cells_def sample_named entered_node_def
  name_matches_def ascii_def of_char_def DEFAULT_ADDRESS_CELLS_def DEFAULT_SIZE_CELLS_def

theorem dtb_search_returns_witness: "\<exists>r. search_node sample_mem sample_fdt (ascii ''memory'') None = Some r"
proof -
  have "bounded_by sample_mem sample_fdt 0x300000000" by (simp add: bounded_by_def sample_end) (simp add: sample_mem_def)
  then show ?thesis
    using dtb_search_returns [OF sample_tree(5) _ sample_ascii(2), of sample_mem "0x300000000" None] by simp
qed


theorem dtb_search_next_witness:
  "search_node sample_mem sample_fdt (ascii ''cpu'') (Some (entered_node 0x104c 1 1)) = Some (Some (entered_node 0x105c 1 1))"
proof -
  have leaf: "props_at sample_mem sample_fdt (node_address (entered_node 0x104c 1 1)) [] 0x104c"
    by (simp add: entered_node_def props_nil)
  have rest: "trees_at sample_mem sample_fdt (0x104c + 4) [sample_cpu1] 0x1080" using trees_cons [OF sample_tree(2) trees_nil] by simp
  have leaf_end: "token sample_mem sample_fdt 0x104c FDT_END_NODE" by (simp add: sample_eval)
  show ?thesis
    by (rule dtb_search_next [OF sample_tree(5) sample_ascii(1) leaf trees_nil leaf_end rest]) (simp add: sample_find)
qed

theorem dtb_search_next_subnode_witness:
  "search_node sample_mem sample_fdt (ascii ''cpu'') (Some (entered_node 0x105c 1 1)) = Some None"
proof -
  have "props_at sample_mem sample_fdt (node_address (entered_node 0x105c 1 1)) [sample_compatible] 0x1070"
    using sample_tree(6) by (simp add: entered_node_def)
  then show ?thesis
    using dtb_search_next_subnode [OF sample_tree(5) _ sample_tree(7) [unfolded sample_l2_def]] by (simp add: ascii_def)
qed

end
