(* ===== verification/MemorySetup.thy ===== *)
theory MemorySetup
  imports Boot DtbTotal
begin

text \<open>
  What \<open>setup_memory\<close> leaves free: the RAM that the device tree names, without the device tree itself,
  the segments of the hypervisor and its stack.
\<close>

section \<open>One reservation after the other\<close>

lemma expect_ok_Some: "expect_ok r = Some al \<longleftrightarrow> (\<exists>x. r = Some (Inr x, al))"
  by (cases r) (auto simp: expect_ok_def result_ok_Some bind_eq_Some_conv)

lemma reserve_takes: "alloc_inv s \<Longrightarrow> expect_ok (reserve_memory s a sz 0) = Some s' \<Longrightarrow> takes s s' a sz"
  using reserve_memory_cases [of s a sz] by (auto simp: expect_ok_Some)

text \<open>The bytes of the segments that are loaded.\<close>

definition segment_bytes :: "Elf64ProgramHeader list \<Rightarrow> usize set" where
  "segment_bytes ps = (\<Union>p \<in> {p \<in> set ps. p_type p = ELF_PROGRAM_HEADER_SEGMENT_LOAD}. {unat (p_paddr p)..<unat (p_paddr p) + unat (p_memsz p)})"

lemma segment_bytes_Cons [simp]:
  "segment_bytes [] = {}"
  "segment_bytes (p # ps) = (if p_type p = ELF_PROGRAM_HEADER_SEGMENT_LOAD then {unat (p_paddr p)..<unat (p_paddr p) + unat (p_memsz p)} else {}) \<union> segment_bytes ps"
  by (auto simp: segment_bytes_def)

lemma reserve_segments:
  "run_all reserve_segment ps s = Some s' \<Longrightarrow> alloc_inv s \<Longrightarrow>
     alloc_inv s' \<and> free_bytes s' = free_bytes s - segment_bytes ps \<and> segment_bytes ps \<subseteq> free_bytes s"
proof (induction ps arbitrary: s)
  case (Cons p ps)
  obtain s1 where s1: "reserve_segment p s = Some s1" "run_all reserve_segment ps s1 = Some s'" using Cons.prems(1) by (auto simp: bind_eq_Some_conv)
  show ?case
  proof (cases "p_type p = ELF_PROGRAM_HEADER_SEGMENT_LOAD")
    case True
    then have "takes s s1 (unat (p_paddr p)) (unat (p_memsz p))"
      using s1(1) reserve_takes [OF Cons.prems(2)] by (auto simp: reserve_segment_def bind_eq_Some_conv)
    then show ?thesis using Cons.IH [OF s1(2)] True by (auto simp: takes_def)
  next
    case False
    then have "s1 = s" using s1(1) by (simp add: reserve_segment_def)
    then show ?thesis using False Cons.IH [OF s1(2)] Cons.prems(2) by simp
  qed
qed simp

text \<open>The loop panics rather than going around the end of the address space.\<close>

lemma headers_in_memory:
  assumes "for_headers m body it s = Some s'"
  shows "pointer it + unat (remaining it) * unat (iter_size it) < 2 ^ 64 \<or> remaining it = 0"
  using assms
proof (induction m body it s rule: for_headers.induct)
  case (1 m body it s)
  show ?case
  proof (cases "remaining it = 0")
    case False
    then obtain it' s1 where it': "next_header m it = Some (Some (read_program_header m (pointer it)), it')" "body (read_program_header m (pointer it)) s = Some s1"
        "for_headers m body it' s1 = Some s'" "pointer it + unat (iter_size it) < 2 ^ 64"
        "it' = it\<lparr>pointer := pointer it + unat (iter_size it), remaining := remaining it - 1\<rparr>"
      using "1.prems" by (auto simp: for_headers.simps [of m body it] next_header_def usize_add_def bind_eq_Some_conv split: option.splits if_splits)
    have "unat (remaining it) = Suc (unat (remaining it - 1))" using False by (simp add: unat_minus_one unat_gt_0)
    then show ?thesis using "1.IH" [OF it'(1) refl refl it'(2,3)] it'(4,5) by (auto simp: algebra_simps unat_eq_0)
  qed simp
qed

lemma for_headers_run:
  assumes "for_headers m body it s = Some s'"
  shows "run_all body (header_table m it) s = Some s'"
proof (cases "remaining it = 0")
  case True
  then show ?thesis using assms by (simp add: for_headers.simps [of m body it] next_header_def header_table_def)
next
  case False
  then show ?thesis using assms headers_in_memory [OF assms] for_headers_table by metis
qed

section \<open>The stack\<close>

definition stack_bytes :: "usize \<Rightarrow> usize set" where
  "stack_bytes sp = (let e = ((sp - 1) div PAGE_SIZE + 1) * PAGE_SIZE in {e - STACK_SIZE..<e})"

lemma stack_range_bytes:
  assumes "stack_range sp = Some (a, e)" and "sp < 2 ^ 64"
  shows "{a..<a + STACK_SIZE} = stack_bytes sp" and "sp - 1 \<in> stack_bytes sp"
proof -
  have P: "PAGE_SIZE = 2 ^ 12" by (simp add: PAGE_SIZE_def PAGE_SHIFT_def)
  have m: "(sp - 1) AND usize_not (PAGE_SIZE - 1) = sp - 1 - (sp - 1) mod PAGE_SIZE" unfolding P using assms(2) by (intro and_not_mask) simp_all
  define q where "q = (sp - 1) div PAGE_SIZE * PAGE_SIZE"
  with m have e: "e = q + PAGE_SIZE" "STACK_SIZE \<le> e" "a = e - STACK_SIZE"
    using assms(1) by (auto simp: stack_range_def usize_add_def usize_sub_def bind_eq_Some_conv minus_mod_eq_div_mult split: if_splits)
  have q: "sp - 1 < q + PAGE_SIZE" "q \<le> sp - 1"
    using dividend_less_div_times [of PAGE_SIZE "sp - 1"] div_times_less_eq_dividend [of "sp - 1" PAGE_SIZE] by (simp_all add: q_def P)
  have sb: "stack_bytes sp = {q + PAGE_SIZE - STACK_SIZE..<q + PAGE_SIZE}" by (simp add: stack_bytes_def Let_def q_def add.commute)
  have "a + STACK_SIZE = q + PAGE_SIZE" using e by simp
  then show "{a..<a + STACK_SIZE} = stack_bytes sp" using e(1,3) sb by simp
  have "q + PAGE_SIZE - STACK_SIZE \<le> sp - 1" using q(2) by (simp add: P STACK_SIZE_def)
  then show "sp - 1 \<in> stack_bytes sp" using q(1) sb by simp
qed

section \<open>The set-up\<close>

definition program_headers :: "memory \<Rightarrow> usize \<Rightarrow> Elf64ProgramHeader list" where
  "program_headers m elf_address = (case Elf64Header_new m elf_address of Inl _ \<Rightarrow> []
     | Inr h \<Rightarrow> (case get_program_headers elf_address h of None \<Rightarrow> [] | Some it \<Rightarrow> header_table m it))"

lemma free_first_range:
  assumes "free_memory MemoryAllocator_new start sz = Some (Inr (), s)" and "start + sz < 2 ^ 64"
  shows "alloc_inv s \<and> free_bytes s = {start..<start + sz}"
proof -
  have z: "free_size MemoryAllocator_new = 0" by (simp add: MemoryAllocator_new_def)
  have "2 \<le> sz"
    using assms(1) z by (auto simp: free_memory_def get_end_address_def set_range_def rust_assert_def usize_add_def usize_sub_def bind_eq_Some_conv
      split: prod.splits sum.splits if_splits)
  then show ?thesis using free_memory_first [OF MemoryAllocator_new_inv(1) z _ assms(2)] assms(1) MemoryAllocator_new_inv(2) by (auto simp: gives_def)
qed

text \<open>
  C23. When \<open>setup_memory\<close> returns, exactly the RAM named by the device tree is free, except for the
  device tree, the loaded segments of the hypervisor and the pages of its stack down to
  \<open>STACK_SIZE\<close> bytes, all of which are part of that RAM; the stack in use lies in the pages that are kept, and the
  allocator satisfies its invariant.
\<close>

theorem setup_memory_protects:
  assumes "sp < 2 ^ 64" and "setup_memory m dtb dtb_address elf_address sp MemoryAllocator_new = Some al"
  shows "\<exists>start sz. ram_range m dtb = Some (start, sz) \<and> alloc_inv al \<and> sp - 1 \<in> stack_bytes sp \<and>
    free_bytes al = {start..<start + sz} - {dtb_address..<dtb_address + get_total_size m dtb} - segment_bytes (program_headers m elf_address) - stack_bytes sp \<and>
    {dtb_address..<dtb_address + get_total_size m dtb} \<union> segment_bytes (program_headers m elf_address) \<union> stack_bytes sp \<subseteq> {start..<start + sz}"
proof -
  obtain start sz al1 al2 h it al3 a e where s: "ram_range m dtb = Some (start, sz)" "start + sz < 2 ^ 64" "free_memory MemoryAllocator_new start sz = Some (Inr (), al1)"
      "expect_ok (reserve_memory al1 dtb_address (get_total_size m dtb) 0) = Some al2" "Elf64Header_new m elf_address = Inr h"
      "get_program_headers elf_address h = Some it" "for_headers m reserve_segment it al2 = Some al3" "stack_range sp = Some (a, e)"
      "expect_ok (reserve_memory al3 a STACK_SIZE 0) = Some al"
    using assms(2) by (auto simp: setup_memory_def bind_eq_Some_conv expect_ok_Some result_ok_Some usize_add_def split: if_splits)
  note f = free_first_range [OF s(3,2)]
  have t: "takes al1 al2 dtb_address (get_total_size m dtb)" using reserve_takes f s(4) by blast
  have "program_headers m elf_address = header_table m it" by (simp add: program_headers_def s(5,6))
  then have g: "alloc_inv al3" "free_bytes al3 = free_bytes al2 - segment_bytes (program_headers m elf_address)"
      "segment_bytes (program_headers m elf_address) \<subseteq> free_bytes al2"
    using reserve_segments [OF for_headers_run [OF s(7)]] t by (auto simp: takes_def)
  have "takes al3 al a STACK_SIZE" using reserve_takes g(1) s(9) by blast
  then show ?thesis using s(1) f t g stack_range_bytes [OF s(8) assms(1)] by (auto simp: takes_def)
qed

section \<open>An example\<close>

text \<open>A device tree with 256 MiB of RAM from 1 GiB on, and a hypervisor with one segment.\<close>

definition setup_tree :: "u8 list" where
  "setup_tree =
    [208, 13, 254, 237, 0, 0, 16, 0, 0, 0, 0, 40, 0, 0, 0, 96, 0, 0, 0, 0, 0, 0, 0, 17, 0, 0, 0, 16, 0,
     0, 0, 0, 0, 0, 0, 4, 0, 0, 0, 56, 0, 0, 0, 1, 0, 0, 0, 0, 0, 0, 0, 1, 109, 101, 109, 111, 114, 121,
     0, 0, 0, 0, 0, 3, 0, 0, 0, 12, 0, 0, 0, 0, 0, 0, 0, 0, 64, 0, 0, 0, 16, 0, 0, 0, 0, 0, 0, 2, 0, 0,
     0, 2, 0, 0, 0, 9, 114, 101, 103, 0]"

definition setup_elf :: "u8 list" where
  "setup_elf =
    [127, 69, 76, 70, 2, 1, 1, 0, 0, 0, 0, 0, 0, 0, 0, 0, 2, 0, 183, 0, 1, 0, 0, 0, 0, 0, 0, 68, 0, 0,
     0, 0, 64, 0, 0, 0, 0, 0, 0, 0, 0, 0, 0, 0, 0, 0, 0, 0, 0, 0, 0, 0, 64, 0, 56, 0, 1, 0, 0, 0, 0, 0,
     0, 0, 1, 0, 0, 0, 7, 0, 0, 0, 0, 0, 0, 0, 0, 0, 0, 0, 0, 0, 0, 68, 0, 0, 0, 0, 0, 0, 0, 68, 0, 0,
     0, 0, 0, 0, 1, 0, 0, 0, 0, 0, 0, 0, 1, 0, 0, 0, 0, 0, 0, 16, 0, 0, 0, 0, 0, 0]"

definition setup_ram :: memory where
  "setup_ram a = (if 0x48000000 \<le> a \<and> a < 0x48000064 then setup_tree ! (a - 0x48000000)
     else if 0x44000000 \<le> a \<and> a < 0x44000078 then setup_elf ! (a - 0x44000000) else 0)"

definition setup_dtb :: Dtb where "setup_dtb = \<lparr>header = 0x48000000\<rparr>"

lemma setup_header [simp]: "header setup_dtb = 0x48000000"
  by (simp add: setup_dtb_def)

lemmas setup_read = read_be32_def from_be_bytes_def bytes_from_num setup_ram_def setup_tree_def

lemma setup_struct: "get_struct_offset setup_ram setup_dtb = Some 0x48000028" "get_struct_size setup_ram setup_dtb = 56"
  "get_string_offset setup_ram setup_dtb = Some 0x48000060" "get_string_size setup_ram setup_dtb = 4" "get_total_size setup_ram setup_dtb = 0x1000"
  by (simp_all add: get_struct_offset_def get_struct_size_def get_string_offset_def get_string_size_def get_total_size_def off_dt_struct_def size_dt_struct_def
    off_dt_strings_def size_dt_strings_def total_size_field_def setup_read usize_add_def)

lemma setup_node: "p < 0x48000060 \<Longrightarrow> read_node setup_ram setup_dtb p = Some (Inr (bytes_from setup_ram p 4))"
  by (simp add: read_node_def setup_struct usize_add_def FDT_TOKEN_BYTE_def)

lemma setup_tokens:
  "bytes_from setup_ram 0x48000028 4 = FDT_BEGIN_NODE" "bytes_from setup_ram 0x48000030 4 = FDT_BEGIN_NODE" "bytes_from setup_ram 0x4800003c 4 = FDT_PROP"
  "bytes_from setup_ram 0x48000040 4 = [0, 0, 0, 12]" "bytes_from setup_ram 0x48000044 4 = [0, 0, 0, 0]"
  by (simp_all add: setup_read FDT_BEGIN_NODE_def FDT_PROP_def)

lemma setup_no_nop:
  "skip_nop setup_ram setup_dtb 0x48000028 = Some (Inr 0x48000028)" "skip_nop setup_ram setup_dtb 0x48000030 = Some (Inr 0x48000030)"
  "skip_nop setup_ram setup_dtb 0x4800003c = Some (Inr 0x4800003c)"
  by (subst skip_nop.simps, simp add: setup_node setup_tokens FDT_BEGIN_NODE_def FDT_PROP_def FDT_NOP_def)+

lemma setup_padding: "skip_padding 0x48000030 = Some 0x48000030" "skip_padding 0x4800002d = Some 0x48000030" "skip_padding 0x4800003b = Some 0x4800003c"
  "skip_padding 0x4800003c = Some 0x4800003c"
  using and_not_mask [of "0x4800002f" 2] and_not_mask [of "0x4800002c" 2] and_not_mask [of "0x4800003a" 2] and_not_mask [of "0x4800003b" 2]
  by (simp_all add: skip_padding_def usize_sub_def usize_add_def FDT_TOKEN_BYTE_def)

lemma setup_names:
  "compare_string setup_ram 0x4800002c (ascii ''memory'') (ascii ''@'') = Some (False, 0x48000030)"
  "compare_string setup_ram 0x48000034 (ascii ''memory'') (ascii ''@'') = Some (True, 0x4800003c)"
  by (simp_all add: compare_string_def skip_string_def find_nul.simps setup_padding ascii_def of_char_def usize_add_def setup_ram_def setup_tree_def)

lemma setup_begin: "begin_node setup_ram setup_dtb 0x48000028 = Some (Inr (Inr 0x4800002c))" "begin_node setup_ram setup_dtb 0x48000030 = Some (Inr (Inr 0x48000034))"
  by (simp_all add: begin_node_def setup_no_nop setup_node setup_tokens usize_add_def FDT_TOKEN_BYTE_def)

lemma setup_search: "search_node setup_ram setup_dtb (ascii ''memory'') None = Some (Some (entered_node 0x4800003c 2 1))"
proof -
  let ?E = "enter_by_name setup_ram setup_dtb (ascii ''memory'')"
  have "search_loop ?E no_check setup_ram setup_dtb (entered_node 0x48000030 2 1) 0x48000030 = Some (Inr (Some (entered_node 0x4800003c 2 1), 0x4800003c))"
    by (subst search_loop.simps)
      (simp add: search_step_def setup_padding setup_no_nop setup_node setup_tokens enter_by_name_def setup_begin setup_names entered_node_def)
  then have "search_from ?E no_check setup_ram setup_dtb 2 1 0x48000028 = Some (Inr (Some (entered_node 0x4800003c 2 1), 0x4800003c))"
    by (simp add: search_from_def enter_by_name_def setup_begin setup_names)
  then show ?thesis
    by (simp add: search_node_def search_after_def setup_struct DEFAULT_ADDRESS_CELLS_def DEFAULT_SIZE_CELLS_def) (subst search_all.simps, simp add: setup_node)
qed

lemma setup_strings:
  "compare_name_segment setup_ram setup_dtb 0 PROP_ADDRESS_CELLS [] = Some (Inr False)" "compare_name_segment setup_ram setup_dtb 0 PROP_SIZE_CELLS [] = Some (Inr False)"
  "compare_name_segment setup_ram setup_dtb 0 PROP_REG [] = Some (Inr True)"
  by (simp_all add: compare_name_segment_def setup_struct usize_add_def PROP_ADDRESS_CELLS_def PROP_SIZE_CELLS_def PROP_REG_def ascii_def of_char_def setup_ram_def setup_tree_def)

lemma setup_property: "get_property setup_ram setup_dtb (entered_node 0x4800003c 2 1) PROP_REG =
    Some (Some \<lparr>prop_address = 0x48000048, prop_address_cells = 2, prop_size_cells = 1, prop_len = 12\<rparr>)"
proof -
  have "read_prop setup_ram setup_dtb 0x4800003c = Some (Inr (12, 0, 0x48000048))"
    by (simp add: read_prop_def setup_node setup_tokens usize_add_def FDT_TOKEN_BYTE_def from_be_bytes_def)
  then show ?thesis
    by (simp add: get_property_def entered_node_def)
      (subst property_loop.simps, simp add: setup_padding setup_no_nop setup_node setup_tokens check_address_and_size_cells_def setup_strings)
qed

lemma setup_ram_range: "ram_range setup_ram setup_dtb = Some (0x40000000, 0x10000000)"
proof -
  have "bytes_from setup_ram 0x48000048 8 = [0, 0, 0, 0, 0x40, 0, 0, 0]" "bytes_from setup_ram 0x48000050 4 = [0x10, 0, 0, 0]"
    by (simp_all add: bytes_from_map upt_rec setup_ram_def setup_tree_def)
  then show ?thesis
    by (simp add: ram_range_def setup_search read_reg_property_def setup_property u32_sum_def usize_mul_def usize_add_def u32_times4_def gather_def)
qed

lemma setup_headers: "Elf64Header_new setup_ram 0x44000000 = Inr (read_elf_header setup_ram 0x44000000)"
  "get_program_headers 0x44000000 (read_elf_header setup_ram 0x44000000) = Some \<lparr>pointer = 0x44000040, iter_size = 56, remaining = 1\<rparr>"
  "read_program_header setup_ram 0x44000040 = \<lparr>p_type = 1, p_paddr = 0x44000000, p_memsz = 0x10000\<rparr>"
  by (simp_all add: Elf64Header_new_def read_elf_header_def get_program_headers_def usize_add_def read_program_header_def bytes_from_map upt_rec read_u64_def read_u32_def read_u16_def
    setup_ram_def setup_elf_def Let_def ELF_MAGIC_def ELF_CLASS_def ELF_HEADER_VERSION_def ELF_SUPPORTED_VERSION_def)

text \<open>Reserving pages one range after the other: each range adds at most one run of free memory.\<close>

definition few_runs :: "MemoryAllocator \<Rightarrow> usize set \<Rightarrow> nat \<Rightarrow> bool" where
  "few_runs s F k \<longleftrightarrow> alloc_inv s \<and> free_bytes s = F \<and> page_granular F \<and> card (run_ends F) \<le> k"

lemma reserve_next:
  assumes "few_runs s F k" and "k < 64" and "PAGE_SIZE dvd a" and "PAGE_SIZE dvd sz" and "0 < sz" and "{a..<a + sz} \<subseteq> F" and "y \<in> F - {a..<a + sz}"
  obtains s' where "expect_ok (reserve_memory s a sz 0) = Some s'" "few_runs s' (F - {a..<a + sz}) (Suc k)"
proof -
  have f: "alloc_inv s" "free_bytes s = F" "page_granular F" "card (run_ends F) \<le> k" using assms(1) by (simp_all add: few_runs_def)
  then have "\<not> pool_full s" using few_runs_not_full assms(2) by simp
  then obtain s' where s': "reserve_memory s a sz 0 = Some (Inr (), s')" "takes s s' a sz"
    using reserve_memory_outcome [OF f(1) _ assms(3-5)] f(2,3) assms(6,7) by blast
  have "finite F" using f(2) finite_free_bytes by blast
  then have fin: "finite (run_ends F)" by (simp add: run_ends_def)
  have "run_ends (F - {a..<a + sz}) \<subseteq> insert (a - 1) (run_ends F)" by (auto simp: run_ends_def)
  then have "card (run_ends (F - {a..<a + sz})) \<le> card (insert (a - 1) (run_ends F))" using fin by (intro card_mono) simp_all
  also have "\<dots> \<le> Suc (card (run_ends F))" using fin by (simp add: card_insert_if)
  finally have "card (run_ends (F - {a..<a + sz})) \<le> Suc k" using f(4) by simp
  moreover have "page_granular (F - {a..<a + sz})" using f(3) assms(3,4) by (intro page_granular_Diff page_granular_interval) auto
  ultimately have "few_runs s' (F - {a..<a + sz}) (Suc k)" using s'(2) f(2) by (simp add: few_runs_def takes_def)
  then show thesis using that s'(1) by (simp add: expect_ok_Some)
qed

lemma setup_segment: "for_headers setup_ram reserve_segment \<lparr>pointer = 0x44000040, iter_size = 56, remaining = 1\<rparr> s = expect_ok (reserve_memory s 0x44000000 0x10000 0)"
  by (cases "expect_ok (reserve_memory s 0x44000000 0x10000 0)")
    (simp_all add: for_headers_table header_table_def setup_headers reserve_segment_def ELF_PROGRAM_HEADER_SEGMENT_LOAD_def usize_add_def)

lemma setup_stack: "stack_range 0x46000000 = Some (0x45ff0000, 0x46000000)"
  using and_not_mask [of "0x45ffffff" 12] by (simp add: stack_range_def usize_sub_def usize_add_def PAGE_SIZE_def PAGE_SHIFT_def STACK_SIZE_def)

lemma setup_returns: "\<exists>al. setup_memory setup_ram setup_dtb 0x48000000 0x44000000 0x46000000 MemoryAllocator_new = Some al"
proof -
  let ?F = "{0x40000000..<0x50000000 :: nat}"
  have "run_ends ?F = {0x4fffffff}" by (auto simp: run_ends_def)
  then have "few_runs boot_allocator ?F 1" using boot_allocator_facts(1,2) boot_page_granular by (simp add: few_runs_def)
  then obtain s1 where s1: "expect_ok (reserve_memory boot_allocator 0x48000000 0x1000 0) = Some s1" "few_runs s1 (?F - {0x48000000..<0x48000000 + 0x1000}) (Suc 1)"
    by (rule reserve_next [where y = "0x40000000" and a = "0x48000000" and sz = "0x1000"]) (auto simp: PAGE_SIZE_def PAGE_SHIFT_def)
  obtain s2 where s2: "expect_ok (reserve_memory s1 0x44000000 0x10000 0) = Some s2"
      "few_runs s2 (?F - {0x48000000..<0x48000000 + 0x1000} - {0x44000000..<0x44000000 + 0x10000}) (Suc (Suc 1))"
    by (rule reserve_next [OF s1(2), where y = "0x40000000" and a = "0x44000000" and sz = "0x10000"]) (auto simp: PAGE_SIZE_def PAGE_SHIFT_def)
  obtain s3 where s3: "expect_ok (reserve_memory s2 0x45ff0000 STACK_SIZE 0) = Some s3"
    by (rule reserve_next [OF s2(2), where y = "0x40000000" and a = "0x45ff0000" and sz = STACK_SIZE]) (auto simp: PAGE_SIZE_def PAGE_SHIFT_def STACK_SIZE_def)
  have "expect_ok (free_memory MemoryAllocator_new 0x40000000 0x10000000) = Some boot_allocator" using boot_allocator_gives(1) by (simp add: expect_ok_Some)
  then show ?thesis using s1(1) s2(1) s3
    by (simp add: setup_memory_def setup_ram_range setup_struct usize_add_def setup_headers setup_segment setup_stack)
qed

theorem setup_memory_protects_witness:
  "\<exists>al. setup_memory setup_ram setup_dtb 0x48000000 0x44000000 0x46000000 MemoryAllocator_new = Some al \<and> alloc_inv al \<and>
    free_bytes al = {0x40000000..<0x50000000} - {0x48000000..<0x48001000} - {0x44000000..<0x44010000} - {0x45ff0000..<0x46000000}"
proof -
  obtain al where run: "setup_memory setup_ram setup_dtb 0x48000000 0x44000000 0x46000000 MemoryAllocator_new = Some al" using setup_returns by blast
  have "program_headers setup_ram 0x44000000 = [\<lparr>p_type = 1, p_paddr = 0x44000000, p_memsz = 0x10000\<rparr>]"
    by (simp add: program_headers_def setup_headers header_table_def)
  moreover have "stack_bytes 0x46000000 = {0x45ff0000..<0x46000000}" by (simp add: stack_bytes_def PAGE_SIZE_def PAGE_SHIFT_def STACK_SIZE_def)
  ultimately show ?thesis using setup_memory_protects [OF _ run] run
    by (simp add: setup_ram_range setup_struct ELF_PROGRAM_HEADER_SEGMENT_LOAD_def)
qed

end
