(* ===== verification/Startup.thy ===== *)
theory Startup
  imports Boot
begin

text \<open>
  The two entries of \<open>src/src/main.rs\<close>: \<open>main\<close>, which the loader starts on the first processor, and
  \<open>core_main\<close>, which the entry code starts on the others. Both end in the first instruction of a
  guest. Devices and firmware are arguments; the messages they print are left out.
\<close>

section \<open>The environment\<close>

text \<open>The devices, the virtio devices by the address of their registers, and the firmware.\<close>

record ('d, 'g, 'u, 'f) Devices =
  gic_device :: "'g GicDevice"
  uart_device :: "'u UartDevice"
  virtio_device :: "usize \<Rightarrow> 'd VirtioDevice"
  smc :: "'f firmware"

text \<open>What the processor and the build fix: the exception level, the vector table, the stack and the places of locals on it.\<close>

record Site =
  currentel :: u64
  exception_table :: u64
  stack_pointer :: usize
  request_frame :: Frame
  mbr_buffer :: usize
  bpb_buffer :: usize

text \<open>The state of the machine with the statics of \<open>main.rs\<close> that \<open>main\<close> sets; \<open>virtio_base\<close> is a field of \<open>VIRTIO_BLK\<close>.\<close>

record ('d, 'g, 'u, 'f) Platform =
  machine :: "(VirtioBlk \<times> 'd, 'g) Machine"
  icc :: Icc
  uart :: 'u
  firmware :: 'f
  PL011_DEVICE :: Pl011
  PL011_INT_ID :: u32
  virtio_base :: usize
  FAT32 :: "Fat32 option"
  BOOT_DTB :: "Dtb option"

section \<open>Arguments\<close>

text \<open>\<open>CStr::from_ptr\<close>: the bytes up to the first zero.\<close>

definition c_string :: "memory \<Rightarrow> usize \<Rightarrow> u8 list option" where
  "c_string m a = do { e \<leftarrow> find_nul m a; Some (bytes_from m a (e - a)) }"

definition argument :: "memory \<Rightarrow> usize \<Rightarrow> nat \<Rightarrow> u8 list option" where
  "argument m argv i = c_string m (unat (read_u64 m (argv + 8 * i)))"

text \<open>\<open>main\<close> up to the serial port; the error is the value it returns.\<close>

definition main_arguments :: "memory \<Rightarrow> usize \<Rightarrow> usize \<Rightarrow> (usize + usize \<times> Dtb \<times> Pl011 \<times> u32) option" where
  "main_arguments m argc argv =
     (if argc \<noteq> 2 then Some (Inl 1)
      else do {
        bytes \<leftarrow> argument m argv 0;
        (case from_utf8 bytes of None \<Rightarrow> Some (Inl 2)
         | Some arg_0 \<Rightarrow> (case str_to_usize arg_0 of None \<Rightarrow> Some (Inl 3)
           | Some dtb_address \<Rightarrow> (case Dtb_new m dtb_address of Inl _ \<Rightarrow> Some (Inl 4)
             | Inr dtb \<Rightarrow> do {
                 r \<leftarrow> init_serial_port m dtb;
                 Some (case r of Inl e \<Rightarrow> Inl e | Inr (pl011, int_id) \<Rightarrow> Inr (dtb_address, dtb, pl011, int_id)) }))) })"

section \<open>The first processor\<close>

text \<open>The interrupt controller, the interrupt of the serial port and the number of the one of the timer.\<close>

definition platform_ram :: "('d, 'g, 'u, 'f) Platform \<Rightarrow> memory" where
  "platform_ram p = ram (machine_host (machine p))"

definition put_cpu :: "Cpu \<Rightarrow> 's Host \<Rightarrow> 's Host" where
  "put_cpu c h = h\<lparr>cpu := c\<rparr>"

definition main_interrupts ::
  "('d, 'g, 'u, 'f) Devices \<Rightarrow> Dtb \<Rightarrow> ('d, 'g, 'u, 'f) Platform \<Rightarrow> (GicRedistributor \<times> ('d, 'g, 'u, 'f) Platform) option" where
  "main_interrupts dv dtb p = do {
     let m = platform_ram p;
     let c = cpu (machine_host (machine p));
     (d, g1) \<leftarrow> init_gic_distributor (gic_device dv) m dtb (gic (machine p));
     (r, g2, icc1) \<leftarrow> init_gic_redistributor (gic_device dv) m dtb c (g1, icc p);
     (g3, u1) \<leftarrow> enable_serial_port_interrupt (gic_device dv) (uart_device dv) (PL011_INT_ID p) c (PL011_DEVICE p) d (g2, uart p);
     t \<leftarrow> init_generic_timer_global m dtb;
     Some (r, p\<lparr>machine := machine p\<lparr>gic := g3, timer_int_id := t\<rparr>, icc := icc1, uart := u1\<rparr>) }"

text \<open>The disk and the volume on it.\<close>

definition main_storage ::
  "('d, 'g, 'u, 'f) Devices \<Rightarrow> Site \<Rightarrow> Dtb \<Rightarrow> ('d, 'g, 'u, 'f) Platform \<Rightarrow> (Fat32 \<times> ('d, 'g, 'u, 'f) Platform) option" where
  "main_storage dv site dtb p = do {
     let h = machine_host (machine p);
     let st = stage2 (machine p);
     (b, al, m, d) \<leftarrow> init_virtio_blk (virtio_device dv) dtb (page_allocator st, ram h, snd (disk h));
     (base, blk) \<leftarrow> b;
     (fs, m1, al1, s1) \<leftarrow> init_fat32 (VirtioBlk_read (virtio_device dv base) (request_frame site)) (mbr_buffer site) (bpb_buffer site) (m, al, blk, d);
     Some (fs, p\<lparr>machine := machine p\<lparr>machine_host := h\<lparr>ram := m1, disk := s1\<rparr>, stage2 := st\<lparr>page_allocator := al1\<rparr>\<rparr>, virtio_base := base\<rparr>) }"

text \<open>A guest on this processor, from its creation to \<open>eret\<close>.\<close>

definition start_guest ::
  "('d, 'g, 'u, 'f) Devices \<Rightarrow> Site \<Rightarrow> Fat32 \<Rightarrow> GicRedistributor \<Rightarrow> ('d, 'g, 'u, 'f) Platform \<Rightarrow>
     ((usize \<times> usize) \<times> ('d, 'g, 'u, 'f) Platform) option" where
  "start_guest dv site fs r p = do {
     (start, w) \<leftarrow> create_vm (gic_device dv) (VirtioBlk_read (virtio_device dv (virtio_base p)) (request_frame site)) fs r (machine p);
     Some (start, p\<lparr>machine := w\<rparr>) }"

definition enter_guest :: "usize \<times> usize \<Rightarrow> ('d, 'g, 'u, 'f) Platform \<Rightarrow> u64 list \<times> ('d, 'g, 'u, 'f) Platform" where
  "enter_guest start p = (let h = machine_host (machine p); (c, xs) = boot_vm (fst start) (snd start) (cpu h)
     in (xs, p\<lparr>machine := machine p\<lparr>machine_host := put_cpu c h\<rparr>\<rparr>))"

definition start_cpu :: "Site \<Rightarrow> ('d, 'g, 'u, 'f) Platform \<Rightarrow> ('d, 'g, 'u, 'f) Platform option" where
  "start_cpu site p = do {
     _ \<leftarrow> rust_assert (drop_bit 2 (currentel site) = 2);
     let h = machine_host (machine p);
     Some (p\<lparr>machine := machine p\<lparr>machine_host := put_cpu (setup_exception (exception_table site) (cpu h)) h\<rparr>\<rparr>) }"

text \<open>The check of the exception level comes before the set-up of memory in \<open>main\<close>; both can only panic.\<close>

text \<open>\<open>Inl\<close> is a return to the loader; \<open>Inr\<close> is the start of the first guest with its arguments in \<open>x0\<close> to \<open>x3\<close>.\<close>

definition main ::
  "('d, 'g, 'u, 'f) Devices \<Rightarrow> Site \<Rightarrow> usize \<Rightarrow> usize \<Rightarrow> ('d, 'g, 'u, 'f) Platform \<Rightarrow> (usize + u64 list \<times> ('d, 'g, 'u, 'f) Platform) option" where
  "main dv site argc argv p = do {
     a \<leftarrow> main_arguments (platform_ram p) argc argv;
     (case a of Inl e \<Rightarrow> Some (Inl e)
      | Inr (dtb_address, dtb, pl011, int_id) \<Rightarrow> do {
          bytes \<leftarrow> argument (platform_ram p) argv 1;
          arg_1 \<leftarrow> from_utf8 bytes;
          elf_address \<leftarrow> str_to_usize arg_1;
          al \<leftarrow> setup_memory (platform_ram p) dtb dtb_address elf_address (stack_pointer site) (page_allocator (stage2 (machine p)));
          p1 \<leftarrow> start_cpu site (p\<lparr>machine := machine p\<lparr>stage2 := stage2 (machine p)\<lparr>page_allocator := al\<rparr>\<rparr>, PL011_DEVICE := pl011, PL011_INT_ID := int_id\<rparr>);
          (r, p2) \<leftarrow> main_interrupts dv dtb p1;
          (fs, p3) \<leftarrow> main_storage dv site dtb p2;
          (start, p4) \<leftarrow> start_guest dv site fs r p3;
          let (version, f) = check_psci_version (smc dv) (firmware p4);
          _ \<leftarrow> result_ok version;
          Some (Inr (enter_guest start (p4\<lparr>FAT32 := Some fs, BOOT_DTB := Some dtb, firmware := f\<rparr>))) }) }"

section \<open>The other processors\<close>

text \<open>The statics that \<open>main\<close> has set are read with \<open>assume_init_ref\<close>; before that there is no result.\<close>

definition core_main ::
  "('d, 'g, 'u, 'f) Devices \<Rightarrow> Site \<Rightarrow> ('d, 'g, 'u, 'f) Platform \<Rightarrow> (u64 list \<times> ('d, 'g, 'u, 'f) Platform) option" where
  "core_main dv site p = do {
     p1 \<leftarrow> start_cpu site p;
     dtb \<leftarrow> BOOT_DTB p1;
     (r, g, icc1) \<leftarrow> init_gic_redistributor (gic_device dv) (platform_ram p1) dtb (cpu (machine_host (machine p1))) (gic (machine p1), icc p1);
     fs \<leftarrow> FAT32 p1;
     (start, p2) \<leftarrow> start_guest dv site fs r (p1\<lparr>machine := machine p1\<lparr>gic := g\<rparr>, icc := icc1\<rparr>);
     Some (enter_guest start p2) }"

section \<open>How they end\<close>

lemma operational_serial_errors: "init_serial_port m dtb = Some (Inl e) \<Longrightarrow> e \<in> {5, 6, 7}"
  by (auto simp: init_serial_port_def Pl011_new_def bind_eq_Some_conv split: option.splits if_splits)

lemma main_arguments_errors:
  assumes run: "main_arguments m argc argv = Some (Inl e)"
  shows "e \<in> {1..7}"
proof (rule ccontr)
  assume n: "e \<notin> {1..7}"
  then have c: "argc = 2" using run by (auto simp: main_arguments_def split: if_split_asm)
  then obtain bytes where b: "argument m argv 0 = Some bytes" using run by (auto simp: main_arguments_def bind_eq_Some_conv)
  obtain t where t: "from_utf8 bytes = Some t" using run n c b by (cases "from_utf8 bytes") (auto simp: main_arguments_def)
  obtain a where a: "str_to_usize t = Some a" using run n c b t by (cases "str_to_usize t") (auto simp: main_arguments_def)
  obtain d where d: "Dtb_new m a = Inr d" using run n c b t a by (cases "Dtb_new m a") (auto simp: main_arguments_def)
  obtain r where r: "init_serial_port m d = Some r" using run c b t a d by (auto simp: main_arguments_def bind_eq_Some_conv)
  show False using run n c b t a d r operational_serial_errors [of m d] by (cases r) (auto simp: main_arguments_def)
qed

text \<open>\<open>main\<close> returns only before the memory is set up, with one of the numbers from 1 to 7.\<close>

theorem main_errors: "main dv site argc argv p = Some (Inl e) \<Longrightarrow> e \<in> {1..7}"
proof -
  assume run: "main dv site argc argv p = Some (Inl e)"
  then obtain a where a: "main_arguments (platform_ram p) argc argv = Some a" by (auto simp: main_def bind_eq_Some_conv)
  with run have "main_arguments (platform_ram p) argc argv = Some (Inl e)"
    by (cases a) (auto simp: main_def bind_eq_Some_conv Let_def split: prod.splits)
  then show "e \<in> {1..7}" by (rule main_arguments_errors)
qed

text \<open>
  A processor that enters a guest runs at EL1 from the address that \<open>create_vm\<close> has computed, with the address of the
  device tree in \<open>x0\<close>, and its exceptions come back to the vector table of the hypervisor.
\<close>

lemma create_vm_argument: "create_vm dev rd fs r w = Some ((entry, arg), w') \<Longrightarrow> arg = RAM_VIRTUAL_BASE"
  by (auto simp: create_vm_def Let_def bind_eq_Some_conv)

theorem core_main_enters:
  assumes "core_main dv site p = Some (xs, p')"
  shows "xs = [0x40000000, 0, 0, 0] \<and> spsr_el2 (cpu (machine_host (machine p'))) = SPSR_EL2_M_EL1H"
proof -
  obtain entry arg p2 q fs r where "start_guest dv site fs r q = Some ((entry, arg), p2)" and e: "enter_guest (entry, arg) p2 = (xs, p')"
    using assms by (auto simp: core_main_def bind_eq_Some_conv)
  then have "arg = RAM_VIRTUAL_BASE" by (auto simp: start_guest_def bind_eq_Some_conv dest: create_vm_argument)
  then show ?thesis
    using e by (auto simp: enter_guest_def boot_vm_def Let_def put_cpu_def set_elr_el2_def set_spsr_el2_def RAM_VIRTUAL_BASE_def)
qed

end
